(* ===== verification/Prelude.thy ===== *)
theory Prelude
  imports Main "HOL-Library.State_Monad" "HOL-Library.Char_ord" "HOL-Library.List_Lexorder"
    "HOL-Library.Multiset"
begin

text \<open>
  Shared ground of the development: Go error values, the effect monad in which every operation
  that talks to the outside is written, Go's \<open>for range\<close> loop with its three ways to leave an
  iteration, stable sorting by a \<open>less\<close> callback, association-list reads of Go maps, and the
  Hoare-style rules (\<open>keeps\<close>) that the component proofs apply.
\<close>

named_theorems keeps_intros
  \<open>rules that reduce ``this program keeps the predicate'' to its parts\<close>
named_theorems key_simps
  \<open>rewrite rules that tell Redis keys of different kinds apart\<close>


section \<open>Errors\<close>

text \<open>
  A Go \<open>error\<close>. \<open>RedisNil\<close> is the sentinel \<open>redis.Nil\<close> that the command consumer compares with;
  \<open>NeverReturns\<close> is no error of the program: it marks a loop of the source that does not come
  back, so that functions over such loops stay total, and what a caller does with it has no
  counterpart in the source. \<open>Errorf f as\<close> is
  \<open>fmt.Errorf(f, as...)\<close> with its format string and its arguments.
\<close>

datatype error = RedisNil | NeverReturns | Errorf string "earg list"
  and earg = ArgS string | ArgD int | ArgE error

type_synonym ('w, 'a) fallible = "('w, error + 'a) state"


section \<open>The effect monad\<close>

text \<open>\<open>r, err := m; if err != nil { h }; k\<close> of the source.\<close>

definition on_error ::
  "('w, error + 'a) state \<Rightarrow> (error \<Rightarrow> ('w, 'b) state) \<Rightarrow> ('a \<Rightarrow> ('w, 'b) state) \<Rightarrow> ('w, 'b) state"
where
  "on_error m h k = do { r \<leftarrow> m; case r of Inl e \<Rightarrow> h e | Inr x \<Rightarrow> k x }"

text \<open>\<open>return nil, err\<close> and \<open>return x, nil\<close>, and a call whose error is returned as it is.\<close>

abbreviation throw :: "error \<Rightarrow> ('w, 'a) fallible" where
  "throw e \<equiv> State_Monad.return (Inl e)"

abbreviation ok :: "'a \<Rightarrow> ('w, 'a) fallible" where
  "ok x \<equiv> State_Monad.return (Inr x)"

abbreviation attempt :: "('w, 'a) fallible \<Rightarrow> ('a \<Rightarrow> ('w, 'b) fallible) \<Rightarrow> ('w, 'b) fallible" where
  "attempt m k \<equiv> on_error m throw k"

text \<open>How one iteration of a loop ends: go on with a new accumulator (\<open>continue\<close> or falling off the
  end), leave the loop (\<open>break\<close>), or leave the function (\<open>return\<close>).\<close>

datatype ('s, 'r) flow = Next 's | Break 's | Return 'r

fun for_range ::
  "('x \<Rightarrow> 's \<Rightarrow> ('w, ('s, 'r) flow) state) \<Rightarrow> 'x list \<Rightarrow> 's \<Rightarrow> ('w, 's + 'r) state"
where
  "for_range f [] s = State_Monad.return (Inl s)"
| "for_range f (x # xs) s = do {
     r \<leftarrow> f x s;
     case r of
       Next s' \<Rightarrow> for_range f xs s'
     | Break s' \<Rightarrow> State_Monad.return (Inl s')
     | Return v \<Rightarrow> State_Monad.return (Inr v) }"

text \<open>A loop followed by the rest of the function body.\<close>

definition loop ::
  "('x \<Rightarrow> 's \<Rightarrow> ('w, ('s, 'r) flow) state) \<Rightarrow> 'x list \<Rightarrow> 's \<Rightarrow> ('s \<Rightarrow> ('w, 'r) state) \<Rightarrow> ('w, 'r) state"
where
  "loop f xs s k = do {
     r \<leftarrow> for_range f xs s;
     case r of Inl s' \<Rightarrow> k s' | Inr v \<Rightarrow> State_Monad.return v }"

definition keeps :: "('w \<Rightarrow> bool) \<Rightarrow> ('w, 'a) state \<Rightarrow> bool" where
  "keeps P m \<longleftrightarrow> (\<forall>w. P w \<longrightarrow> P (snd (run_state m w)))"

lemma keepsI: "(\<And>w. P w \<Longrightarrow> P (snd (run_state m w))) \<Longrightarrow> keeps P m"
  by (simp add: keeps_def)

lemma keepsD: "keeps P m \<Longrightarrow> P w \<Longrightarrow> P (snd (run_state m w))"
  by (simp add: keeps_def)

lemma keepsE: "keeps P m \<Longrightarrow> P w \<Longrightarrow> run_state m w = (a, w') \<Longrightarrow> P w'"
  by (metis keepsD snd_conv)

lemma keeps_return [keeps_intros, simp]: "keeps P (State_Monad.return x)"
  by (simp add: keeps_def)

lemma keeps_bind [keeps_intros]:
  "keeps P m \<Longrightarrow> (\<And>x. keeps P (f x)) \<Longrightarrow> keeps P (State_Monad.bind m f)"
  by (auto simp: keeps_def split: prod.split; metis snd_conv)

lemma keeps_on_error [keeps_intros]:
  "keeps P m \<Longrightarrow> (\<And>e. keeps P (h e)) \<Longrightarrow> (\<And>x. keeps P (k x)) \<Longrightarrow> keeps P (on_error m h k)"
  unfolding on_error_def by (intro keeps_bind) (auto split: sum.split)

lemma keeps_if [keeps_intros]:
  "(c \<Longrightarrow> keeps P a) \<Longrightarrow> (\<not> c \<Longrightarrow> keeps P b) \<Longrightarrow> keeps P (if c then a else b)"
  by simp

lemma keeps_case_bool [keeps_intros]:
  "(c \<Longrightarrow> keeps P a) \<Longrightarrow> (\<not> c \<Longrightarrow> keeps P b) \<Longrightarrow> keeps P (case c of True \<Rightarrow> a | False \<Rightarrow> b)"
  by (cases c) simp_all

lemma keeps_case_option [keeps_intros]:
  "(x = None \<Longrightarrow> keeps P a) \<Longrightarrow> (\<And>y. x = Some y \<Longrightarrow> keeps P (b y)) \<Longrightarrow>
   keeps P (case x of None \<Rightarrow> a | Some y \<Rightarrow> b y)"
  by (cases x) simp_all

lemma keeps_case_sum [keeps_intros]:
  "(\<And>y. x = Inl y \<Longrightarrow> keeps P (a y)) \<Longrightarrow> (\<And>y. x = Inr y \<Longrightarrow> keeps P (b y)) \<Longrightarrow>
   keeps P (case x of Inl y \<Rightarrow> a y | Inr y \<Rightarrow> b y)"
  by (cases x) simp_all

lemma keeps_case_list [keeps_intros]:
  "(x = [] \<Longrightarrow> keeps P a) \<Longrightarrow> (\<And>y ys. x = y # ys \<Longrightarrow> keeps P (b y ys)) \<Longrightarrow>
   keeps P (case x of [] \<Rightarrow> a | y # ys \<Rightarrow> b y ys)"
  by (cases x) simp_all

lemma keeps_case_prod [keeps_intros]:
  "(\<And>y z. x = (y, z) \<Longrightarrow> keeps P (b y z)) \<Longrightarrow> keeps P (case x of (y, z) \<Rightarrow> b y z)"
  by (cases x) simp

lemma keeps_let [keeps_intros]: "keeps P (b x) \<Longrightarrow> keeps P (let y = x in b y)"
  by simp

lemma keeps_for_range [keeps_intros]:
  "(\<And>x s. keeps P (f x s)) \<Longrightarrow> keeps P (for_range f xs s)"
  by (induction xs arbitrary: s) (auto intro!: keeps_bind split: flow.split)

lemma keeps_loop [keeps_intros]:
  "(\<And>x s. keeps P (f x s)) \<Longrightarrow> (\<And>s. keeps P (k s)) \<Longrightarrow> keeps P (loop f xs s k)"
  unfolding loop_def by (intro keeps_bind keeps_for_range) (auto split: sum.split)

text \<open>The same with a fact about the result, for what is read and used later.\<close>

definition ensures :: "('w \<Rightarrow> bool) \<Rightarrow> ('w, 'a) state \<Rightarrow> ('a \<Rightarrow> bool) \<Rightarrow> bool" where
  "ensures P m Q \<longleftrightarrow> (\<forall>w. P w \<longrightarrow> P (snd (run_state m w)) \<and> Q (fst (run_state m w)))"

lemma ensuresI: "(\<And>w. P w \<Longrightarrow> P (snd (run_state m w)) \<and> Q (fst (run_state m w))) \<Longrightarrow> ensures P m Q"
  by (simp add: ensures_def)

lemma ensuresE: "ensures P m Q \<Longrightarrow> P w \<Longrightarrow> run_state m w = (a, w') \<Longrightarrow> P w' \<and> Q a"
  unfolding ensures_def by (metis fst_conv snd_conv)

lemma ensures_keeps: "ensures P m Q \<Longrightarrow> keeps P m"
  by (simp add: ensures_def keeps_def)

lemma keeps_ensures: "keeps P m \<Longrightarrow> (\<And>x. Q x) \<Longrightarrow> ensures P m Q"
  by (simp add: ensures_def keeps_def)

lemma keeps_iff_ensures: "keeps P m \<longleftrightarrow> ensures P m (\<lambda>_. True)"
  by (simp add: ensures_def keeps_def)

lemma ensures_mono: "ensures P m Q \<Longrightarrow> (\<And>x. Q x \<Longrightarrow> Q' x) \<Longrightarrow> ensures P m Q'"
  by (simp add: ensures_def)

lemma ensures_return: "Q x \<Longrightarrow> ensures P (State_Monad.return x) Q"
  by (simp add: ensures_def)

lemma ensures_bind:
  "ensures P m Q' \<Longrightarrow> (\<And>x. Q' x \<Longrightarrow> ensures P (f x) Q) \<Longrightarrow> ensures P (State_Monad.bind m f) Q"
  unfolding ensures_def by (auto split: prod.split; metis fst_conv snd_conv)

lemma ensures_on_error:
  assumes "ensures P m Q'" "\<And>e. Q' (Inl e) \<Longrightarrow> ensures P (h e) Q" "\<And>x. Q' (Inr x) \<Longrightarrow> ensures P (k x) Q"
  shows "ensures P (on_error m h k) Q"
  unfolding on_error_def by (rule ensures_bind[OF assms(1)]) (use assms(2,3) in \<open>auto split: sum.split\<close>)

lemma keeps_bind_with:
  "ensures P m Q \<Longrightarrow> (\<And>x. Q x \<Longrightarrow> keeps P (f x)) \<Longrightarrow> keeps P (State_Monad.bind m f)"
  unfolding keeps_iff_ensures by (rule ensures_bind)

lemma keeps_on_error_with:
  "ensures P m Q \<Longrightarrow> (\<And>e. keeps P (h e)) \<Longrightarrow> (\<And>x. Q (Inr x) \<Longrightarrow> keeps P (k x)) \<Longrightarrow> keeps P (on_error m h k)"
  unfolding keeps_iff_ensures by (rule ensures_on_error)

text \<open>The loop rule: what holds of the accumulator before each iteration, and of a returned value.\<close>

lemma ensures_for_range:
  assumes "A s"
    and "\<And>x s. x \<in> set xs \<Longrightarrow> A s \<Longrightarrow>
      ensures P (f x s) (\<lambda>r. case r of Next s' \<Rightarrow> A s' | Break s' \<Rightarrow> A s' | Return v \<Rightarrow> B v)"
  shows "ensures P (for_range f xs s) (\<lambda>r. case r of Inl s' \<Rightarrow> A s' | Inr v \<Rightarrow> B v)"
  using assms
proof (induction xs arbitrary: s)
  case Nil
  then show ?case by (simp add: ensures_def)
next
  case (Cons x xs)
  have "ensures P (for_range f xs s') (\<lambda>r. case r of Inl s' \<Rightarrow> A s' | Inr v \<Rightarrow> B v)" if "A s'" for s'
    using Cons.IH[OF that] Cons.prems(2) by simp
  moreover have "ensures P (f x s) (\<lambda>r. case r of Next s' \<Rightarrow> A s' | Break s' \<Rightarrow> A s' | Return v \<Rightarrow> B v)"
    using Cons.prems by simp
  ultimately show ?case
    unfolding for_range.simps
    by (elim ensures_bind) (auto intro!: ensures_return split: flow.splits)
qed

lemma ensures_loop:
  assumes "A s"
    and "\<And>x s. x \<in> set xs \<Longrightarrow> A s \<Longrightarrow>
      ensures P (f x s) (\<lambda>r. case r of Next s' \<Rightarrow> A s' | Break s' \<Rightarrow> A s' | Return v \<Rightarrow> Q v)"
    and "\<And>s. A s \<Longrightarrow> ensures P (k s) Q"
  shows "ensures P (loop f xs s k) Q"
  unfolding loop_def
  by (rule ensures_bind[OF ensures_for_range[OF assms(1,2)]])
    (auto intro!: assms(3) ensures_return split: sum.splits)

lemma keeps_loop_with:
  assumes "A s"
    and "\<And>x s. x \<in> set xs \<Longrightarrow> A s \<Longrightarrow>
      ensures P (f x s) (\<lambda>r. case r of Next s' \<Rightarrow> A s' | Break s' \<Rightarrow> A s' | Return v \<Rightarrow> True)"
    and "\<And>s. A s \<Longrightarrow> keeps P (k s)"
  shows "keeps P (loop f xs s k)"
  unfolding keeps_iff_ensures using assms(1,2) assms(3)[unfolded keeps_iff_ensures] by (rule ensures_loop)

lemma keeps_loop_in:
  assumes "\<And>x s. x \<in> set xs \<Longrightarrow> keeps P (f x s)" "\<And>s. keeps P (k s)"
  shows "keeps P (loop f xs s k)"
  by (rule keeps_loop_with[where A = "\<lambda>_. True"])
    (auto intro!: keeps_ensures assms split: flow.split)

lemma run_on_error:
  "run_state (on_error m h k) w =
     (case run_state m w of (Inl e, w') \<Rightarrow> run_state (h e) w' | (Inr x, w') \<Rightarrow> run_state (k x) w')"
  by (auto simp: on_error_def split: prod.split sum.split)

lemma run_loop:
  "run_state (loop f xs s k) w =
     (case run_state (for_range f xs s) w of
        (Inl s', w') \<Rightarrow> run_state (k s') w' | (Inr v, w') \<Rightarrow> (v, w'))"
  by (auto simp: loop_def split: prod.split sum.split)

text \<open>A loop rule for functional proofs: what holds of the accumulator and the state before each
  iteration holds after the loop, with the elements handled so far recorded.\<close>

lemma for_range_invariant:
  assumes "I [] s w"
    and "\<And>done x s w. \<lbrakk>I done s w; x \<in> set xs\<rbrakk> \<Longrightarrow>
           \<exists>s' w'. run_state (f x s) w = (Next s', w') \<and> I (done @ [x]) s' w'"
  shows "\<exists>s' w'. run_state (for_range f xs s) w = (Inl s', w') \<and> I xs s' w'"
proof -
  have "\<exists>s' w'. run_state (for_range f ys s) w = (Inl s', w') \<and> I (pre @ ys) s' w'"
    if "I pre s w" "set ys \<subseteq> set xs" for pre ys s w
    using that
  proof (induction ys arbitrary: pre s w)
    case Nil
    then show ?case by simp
  next
    case (Cons y ys)
    then obtain s1 w1 where "run_state (f y s) w = (Next s1, w1)" "I (pre @ [y]) s1 w1"
      using assms(2)[of pre s w y] by auto
    then show ?case using Cons.IH[of "pre @ [y]" s1 w1] Cons.prems by simp
  qed
  from this[of "[]" s w xs] assms(1) show ?thesis by simp
qed


section \<open>Go maps read with a default\<close>

text \<open>\<open>m[k]\<close> of a Go \<open>map[string]string\<close>: the zero value where the key is missing.\<close>

definition mget :: "(string \<times> string) list \<Rightarrow> string \<Rightarrow> string" where
  "mget m k = (case map_of m k of None \<Rightarrow> [] | Some v \<Rightarrow> v)"

lemma mget_Nil [simp]: "mget [] k = []"
  by (simp add: mget_def)

lemma mget_Cons [simp]: "mget ((k, v) # m) k' = (if k' = k then v else mget m k')"
  by (simp add: mget_def)

lemma mget_cong: "map_of m = map_of m' \<Longrightarrow> mget m = mget m'"
  by (rule ext) (simp add: mget_def)


section \<open>Stable sorting with a less callback\<close>

text \<open>\<open>sort.SliceStable(xs, less)\<close>.\<close>

fun insert_by :: "('a \<Rightarrow> 'a \<Rightarrow> bool) \<Rightarrow> 'a \<Rightarrow> 'a list \<Rightarrow> 'a list" where
  "insert_by lt x [] = [x]"
| "insert_by lt x (y # ys) = (if lt y x then y # insert_by lt x ys else x # y # ys)"

definition sort_stable :: "('a \<Rightarrow> 'a \<Rightarrow> bool) \<Rightarrow> 'a list \<Rightarrow> 'a list" where
  "sort_stable lt xs = foldr (insert_by lt) xs []"

lemma mset_insert_by [simp]: "mset (insert_by lt x xs) = {#x#} + mset xs"
  by (induction xs) auto

lemma mset_sort_stable [simp]: "mset (sort_stable lt xs) = mset xs"
  by (induction xs) (auto simp: sort_stable_def)

lemma set_sort_stable [simp]: "set (sort_stable lt xs) = set xs"
  by (metis mset_sort_stable set_mset_mset)

lemma length_sort_stable [simp]: "length (sort_stable lt xs) = length xs"
  by (metis mset_sort_stable size_mset)

text \<open>The contract of a \<open>less\<close> callback: the callbacks of the sources are strict weak orders.\<close>

locale less_callback =
  fixes lt :: "'a \<Rightarrow> 'a \<Rightarrow> bool"
  assumes asym: "lt x y \<Longrightarrow> \<not> lt y x"
    and negtrans: "\<not> lt x y \<Longrightarrow> \<not> lt y z \<Longrightarrow> \<not> lt x z"
begin

lemma insert_by_sorted:
  "sorted_wrt (\<lambda>a b. \<not> lt b a) xs \<Longrightarrow> sorted_wrt (\<lambda>a b. \<not> lt b a) (insert_by lt x xs)"
proof (induction xs)
  case (Cons y ys)
  have set_ins: "set (insert_by lt x ys) = insert x (set ys)"
    by (metis mset_insert_by add_mset_add_single set_mset_add_mset_insert set_mset_mset
        union_commute)
  show ?case
    using Cons by (auto simp: set_ins dest: asym) (blast dest: negtrans)
qed simp

lemma sort_stable_sorted: "sorted_wrt (\<lambda>a b. \<not> lt b a) (sort_stable lt xs)"
  by (induction xs) (auto simp: sort_stable_def intro: insert_by_sorted)

text \<open>What comes first is minimal.\<close>

lemma sort_stable_take_drop:
  "a \<in> set (take n (sort_stable lt xs)) \<Longrightarrow> b \<in> set (drop n (sort_stable lt xs)) \<Longrightarrow> \<not> lt b a"
  by (metis append_take_drop_id sort_stable_sorted sorted_wrt_append)

end

text \<open>Callbacks built the way the sources build them: a key first, another callback on ties.\<close>

definition less_then :: "('a \<Rightarrow> 'k::linorder) \<Rightarrow> ('a \<Rightarrow> 'a \<Rightarrow> bool) \<Rightarrow> 'a \<Rightarrow> 'a \<Rightarrow> bool" where
  "less_then key lt x y \<longleftrightarrow> (if key x \<noteq> key y then key x < key y else lt x y)"

definition greater_then :: "('a \<Rightarrow> 'k::linorder) \<Rightarrow> ('a \<Rightarrow> 'a \<Rightarrow> bool) \<Rightarrow> 'a \<Rightarrow> 'a \<Rightarrow> bool" where
  "greater_then key lt x y \<longleftrightarrow> (if key x \<noteq> key y then key x > key y else lt x y)"

lemma less_callback_key: "less_callback (\<lambda>x y. (key x :: 'k::linorder) < key y)"
  by unfold_locales auto

lemma less_callback_greater_key: "less_callback (\<lambda>x y. (key x :: 'k::linorder) > key y)"
  by unfold_locales auto

lemma less_callback_less_then:
  assumes "less_callback lt"
  shows "less_callback (less_then key lt)"
proof
  fix x y
  show "less_then key lt x y \<Longrightarrow> \<not> less_then key lt y x"
    using less_callback.asym[OF assms, of x y] by (auto simp: less_then_def split: if_splits)
next
  fix x y z
  show "\<not> less_then key lt x y \<Longrightarrow> \<not> less_then key lt y z \<Longrightarrow> \<not> less_then key lt x z"
    using less_callback.negtrans[OF assms, of x y z]
    by (cases "key x" "key y" rule: linorder_cases; cases "key y" "key z" rule: linorder_cases)
      (auto simp: less_then_def split: if_splits)
qed

lemma less_callback_greater_then:
  assumes "less_callback lt"
  shows "less_callback (greater_then key lt)"
proof
  fix x y
  show "greater_then key lt x y \<Longrightarrow> \<not> greater_then key lt y x"
    using less_callback.asym[OF assms, of x y] by (auto simp: greater_then_def split: if_splits)
next
  fix x y z
  show "\<not> greater_then key lt x y \<Longrightarrow> \<not> greater_then key lt y z \<Longrightarrow> \<not> greater_then key lt x z"
    using less_callback.negtrans[OF assms, of x y z]
    by (cases "key x" "key y" rule: linorder_cases; cases "key y" "key z" rule: linorder_cases)
      (auto simp: greater_then_def split: if_splits)
qed

end
