(* ===== verification/GoText.thy ===== *)
theory GoText
  imports Prelude
begin

text \<open>
  The parts of Go's standard library for text and integers that the sources use: 64-bit \<open>int\<close>
  arithmetic, \<open>strconv\<close> (\<open>Itoa\<close>, \<open>FormatInt\<close>, \<open>Atoi\<close>, \<open>ParseInt\<close>, \<open>ParseUint\<close>),
  \<open>fmt.Sscanf(s, "%d", &n)\<close> and the \<open>strings\<close> functions. A Go string is its list of bytes.
  The lemmas are the round trips between printing and parsing that the Redis codecs rest on.
\<close>


section \<open>64-bit integers\<close>

definition in_int64 :: "int \<Rightarrow> bool" where
  "in_int64 n \<longleftrightarrow> - (2 ^ 63) \<le> n \<and> n < 2 ^ 63"

definition in_uint64 :: "int \<Rightarrow> bool" where
  "in_uint64 n \<longleftrightarrow> 0 \<le> n \<and> n < 2 ^ 64"

text \<open>The value an \<open>int\<close> (\<open>int64\<close>, \<open>time.Duration\<close>) variable holds after an operation whose exact
  result is \<open>n\<close>: Go wraps around.\<close>

definition i64 :: "int \<Rightarrow> int" where
  "i64 n = (n + 2 ^ 63) mod 2 ^ 64 - 2 ^ 63"

lemma i64_id [simp]: "in_int64 n \<Longrightarrow> i64 n = n"
  by (simp add: i64_def in_int64_def)

lemma in_int64_i64 [simp]: "in_int64 (i64 n)"
  using pos_mod_bound[of "2 ^ 64 :: int" "n + 2 ^ 63"] pos_mod_sign[of "2 ^ 64 :: int" "n + 2 ^ 63"]
  by (simp add: i64_def in_int64_def)

lemma i64_add [simp]: "i64 (i64 x + y) = i64 (x + y)"
proof -
  have "(i64 x + y + 2 ^ 63) mod 2 ^ 64 = ((x + 2 ^ 63) mod 2 ^ 64 + y) mod 2 ^ 64"
    by (rule arg_cong[where f = "\<lambda>z. z mod 2 ^ 64"]) (simp add: i64_def)
  also have "\<dots> = (x + 2 ^ 63 + y) mod 2 ^ 64" by (rule mod_add_left_eq)
  finally show ?thesis by (simp add: i64_def algebra_simps)
qed

lemma in_int64_small: "\<bar>n\<bar> \<le> 2 ^ 62 \<Longrightarrow> in_int64 n"
  by (auto simp: in_int64_def)


section \<open>Printing integers\<close>

definition digit :: "nat \<Rightarrow> char" where
  "digit d = ''0123456789'' ! d"

fun dec_nat :: "nat \<Rightarrow> string" where
  "dec_nat n = (if n < 10 then [digit n] else dec_nat (n div 10) @ [digit (n mod 10)])"

declare dec_nat.simps [simp del]

text \<open>\<open>strconv.Itoa\<close>, \<open>strconv.FormatInt(n, 10)\<close> and the verb \<open>%d\<close>.\<close>

definition Itoa :: "int \<Rightarrow> string" where
  "Itoa n = (if n < 0 then CHR ''-'' # dec_nat (nat (- n)) else dec_nat (nat n))"


section \<open>Parsing integers\<close>

definition digit_val :: "char \<Rightarrow> nat option" where
  "digit_val c = (let n = (of_char c :: nat) in if 48 \<le> n \<and> n \<le> 57 then Some (n - 48) else None)"

fun parse_digits :: "nat \<Rightarrow> string \<Rightarrow> nat option" where
  "parse_digits a [] = Some a"
| "parse_digits a (c # cs) =
     (case digit_val c of None \<Rightarrow> None | Some d \<Rightarrow> parse_digits (10 * a + d) cs)"

text \<open>\<open>strconv.ParseUint(s, 10, 64)\<close>; \<open>None\<close> is a non-nil error.\<close>

definition ParseUint :: "string \<Rightarrow> int option" where
  "ParseUint s = (if s = [] then None else
     case parse_digits 0 s of None \<Rightarrow> None | Some n \<Rightarrow> if int n < 2 ^ 64 then Some (int n) else None)"

text \<open>\<open>strconv.ParseInt(s, 10, 64)\<close>; \<open>strconv.Atoi\<close> is the same function on 64-bit platforms.\<close>

definition ParseInt :: "string \<Rightarrow> int option" where
  "ParseInt s = (case s of
     [] \<Rightarrow> None
   | c # cs \<Rightarrow>
       (let neg = (c = CHR ''-'');
            body = (if c = CHR ''+'' \<or> c = CHR ''-'' then cs else s)
        in case ParseUint body of
             None \<Rightarrow> None
           | Some un \<Rightarrow>
               if \<not> neg \<and> 2 ^ 63 \<le> un then None
               else if neg \<and> 2 ^ 63 < un then None
               else Some (if neg then - un else un)))"

definition Atoi :: "string \<Rightarrow> int option" where
  "Atoi s = ParseInt s"

lemma digit_val_digit [simp]: "d < 10 \<Longrightarrow> digit_val (digit d) = Some d"
proof -
  assume "d < 10"
  then have "d \<in> {0, 1, 2, 3, 4, 5, 6, 7, 8, 9}" by auto
  then show ?thesis by (auto simp: digit_def digit_val_def)
qed

lemma parse_digits_append:
  "parse_digits a (xs @ ys) = (case parse_digits a xs of None \<Rightarrow> None | Some b \<Rightarrow> parse_digits b ys)"
  by (induction xs arbitrary: a) (auto split: option.split)

lemma parse_digits_dec_nat [simp]: "parse_digits 0 (dec_nat n) = Some n"
proof (induction n rule: dec_nat.induct)
  case (1 n)
  then show ?case
    by (subst dec_nat.simps) (auto simp: parse_digits_append split: option.split)
qed

lemma dec_nat_digits: "c \<in> set (dec_nat n) \<Longrightarrow> \<exists>d < 10. c = digit d"
proof (induction n rule: dec_nat.induct)
  case (1 n)
  show ?case
  proof (cases "n < 10")
    case True
    with "1.prems" show ?thesis by (auto simp: dec_nat.simps[of n])
  next
    case False
    with "1.prems" have "c \<in> set (dec_nat (n div 10)) \<or> c = digit (n mod 10)"
      by (auto simp: dec_nat.simps[of n])
    then show ?thesis using "1.IH"[OF False] by (metis mod_less_divisor zero_less_numeral)
  qed
qed

lemma dec_nat_not_Nil [simp]: "dec_nat n \<noteq> []"
  by (subst dec_nat.simps) simp

lemma digit_no_sign:
  assumes "d < 10"
  shows "digit d \<noteq> CHR ''-''" "digit d \<noteq> CHR ''+''" "digit d \<noteq> CHR '' ''" "digit d \<noteq> CHR '':''"
proof -
  have "d \<in> {0, 1, 2, 3, 4, 5, 6, 7, 8, 9}" using assms by auto
  then show "digit d \<noteq> CHR ''-''" "digit d \<noteq> CHR ''+''" "digit d \<noteq> CHR '' ''" "digit d \<noteq> CHR '':''"
    by (auto simp: digit_def)
qed

lemma dec_nat_Cons: "\<exists>d cs. d < 10 \<and> dec_nat n = digit d # cs"
  by (metis dec_nat_digits dec_nat_not_Nil list.exhaust list.set_intros(1))

lemma ParseUint_dec_nat: "int n < 2 ^ 64 \<Longrightarrow> ParseUint (dec_nat n) = Some (int n)"
  by (simp add: ParseUint_def)

theorem ParseUint_Itoa [simp]: "in_uint64 n \<Longrightarrow> ParseUint (Itoa n) = Some n"
  by (simp add: Itoa_def in_uint64_def ParseUint_dec_nat)

lemma Itoa_not_Nil [simp]: "Itoa n \<noteq> []"
  by (simp add: Itoa_def)

theorem ParseInt_Itoa [simp]: "in_int64 n \<Longrightarrow> ParseInt (Itoa n) = Some n"
proof (cases "n < 0")
  case True
  assume "in_int64 n"
  then have "ParseUint (dec_nat (nat (- n))) = Some (- n)"
    using True by (subst ParseUint_dec_nat) (auto simp: in_int64_def)
  with True \<open>in_int64 n\<close> show ?thesis
    by (simp add: ParseInt_def Itoa_def in_int64_def)
next
  case False
  assume r: "in_int64 n"
  obtain d cs where d: "d < 10" "dec_nat (nat n) = digit d # cs" using dec_nat_Cons by blast
  have u: "ParseUint (dec_nat (nat n)) = Some n"
    using False r by (subst ParseUint_dec_nat) (auto simp: in_int64_def)
  from False d u r show ?thesis
    by (simp add: ParseInt_def Itoa_def in_int64_def digit_no_sign)
qed

lemma Atoi_Itoa [simp]: "in_int64 n \<Longrightarrow> Atoi (Itoa n) = Some n"
  by (simp add: Atoi_def)


section \<open>White space and fmt.Sscanf\<close>

text \<open>The UTF-8 encodings of the characters that \<open>unicode.IsSpace\<close> (and \<open>fmt\<close>'s own table) accept:
  tab, line feed, vertical tab, form feed, carriage return, blank, U+0085, U+00A0, U+1680,
  U+2000 to U+200A, U+2028, U+2029, U+202F, U+205F and U+3000.\<close>

definition blank_encodings :: "string list" where
  "blank_encodings =
     map (\<lambda>n. [char_of n]) [9, 11, 12, 13, 32 :: nat] @
     [[CHR 0xC2, CHR 0x85], [CHR 0xC2, CHR 0xA0], [CHR 0xE1, CHR 0x9A, CHR 0x80]] @
     map (\<lambda>n. [CHR 0xE2, CHR 0x80, char_of n]) ([0x80..<0x8B] @ [0xA8, 0xA9, 0xAF :: nat]) @
     [[CHR 0xE2, CHR 0x81, CHR 0x9F], [CHR 0xE3, CHR 0x80, CHR 0x80]]"

definition newline :: string where
  "newline = [CHR 0x0A]"

definition HasPrefix :: "string \<Rightarrow> string \<Rightarrow> bool" where
  "HasPrefix s p \<longleftrightarrow> take (length p) s = p"

text \<open>The length of the white-space character \<open>s\<close> starts with, if it starts with one of \<open>encs\<close>.\<close>

definition leading :: "string list \<Rightarrow> string \<Rightarrow> nat option" where
  "leading encs s = map_option length (find (\<lambda>e. e \<noteq> [] \<and> HasPrefix s e) encs)"

lemma leading_Some: "leading encs s = Some n \<Longrightarrow> 0 < n \<and> n \<le> length s"
  by (auto simp: leading_def find_Some_iff HasPrefix_def dest: arg_cong[where f = length])

function skip_blanks :: "string list \<Rightarrow> string \<Rightarrow> string" where
  "skip_blanks encs s =
     (case leading encs s of None \<Rightarrow> s | Some n \<Rightarrow> skip_blanks encs (drop n s))"
  by pat_completeness auto
termination
  by (relation "measure (\<lambda>(encs, s). length s)") (auto dest: leading_Some)

declare skip_blanks.simps [simp del]

fun take_digits :: "string \<Rightarrow> string" where
  "take_digits [] = []"
| "take_digits (c # cs) = (if digit_val c = None then [] else c # take_digits cs)"

text \<open>
  \<open>fmt.Sscanf(s, "%d", &n)\<close> into an \<open>int\<close>: leading blanks are skipped (a newline is an error), one
  sign is accepted, then as many decimal digits as there are, and what follows them is ignored.
  No digit, or a value outside 64 bits, is an error.
\<close>

definition Sscanf_d :: "string \<Rightarrow> int option" where
  "Sscanf_d s =
     (let t = skip_blanks blank_encodings s;
          (sign, r) = (case t of c # cs \<Rightarrow> if c = CHR ''+'' \<or> c = CHR ''-'' then ([c], cs) else ([], t)
                               | [] \<Rightarrow> ([], t));
          ds = take_digits r
      in if ds = [] then None else ParseInt (sign @ ds))"

lemma take_digits_dec_nat [simp]: "take_digits (dec_nat n) = dec_nat n"
proof -
  have "take_digits xs = xs" if "\<forall>c \<in> set xs. \<exists>d < 10. c = digit d" for xs
    using that by (induction xs) (auto simp: digit_val_digit)
  then show ?thesis using dec_nat_digits by blast
qed

lemma skip_blanks_none: "leading encs s = None \<Longrightarrow> skip_blanks encs s = s"
  by (simp add: skip_blanks.simps)

lemma leading_None_hd:
  "(\<forall>e \<in> set encs. e \<noteq> [] \<longrightarrow> hd e \<noteq> c) \<Longrightarrow> leading encs (c # cs) = None"
proof -
  assume a: "\<forall>e \<in> set encs. e \<noteq> [] \<longrightarrow> hd e \<noteq> c"
  have "\<not> (e \<noteq> [] \<and> HasPrefix (c # cs) e)" if "e \<in> set encs" for e
    using a that by (cases e) (auto simp: HasPrefix_def)
  then show ?thesis by (auto simp: leading_def find_None_iff)
qed

definition blank_heads :: "char set" where
  "blank_heads = set [CHR 0x09, CHR 0x0B, CHR 0x0C, CHR 0x0D, CHR 0x20, CHR 0xC2, CHR 0xE1, CHR 0xE2, CHR 0xE3]"

lemma blank_encodings_heads: "\<forall>e \<in> set blank_encodings. e \<noteq> [] \<longrightarrow> hd e \<in> blank_heads"
  by (auto simp: blank_encodings_def blank_heads_def char_of_def bit_simps)

lemma skip_blanks_no_blank: "c \<notin> blank_heads \<Longrightarrow> skip_blanks blank_encodings (c # cs) = c # cs"
  by (intro skip_blanks_none leading_None_hd) (use blank_encodings_heads in blast)

lemma digit_not_blank: "d < 10 \<Longrightarrow> digit d \<notin> blank_heads"
proof -
  assume "d < 10"
  then have "d \<in> {0, 1, 2, 3, 4, 5, 6, 7, 8, 9}" by auto
  then show ?thesis by (auto simp: digit_def blank_heads_def)
qed

lemma skip_blanks_Itoa: "skip_blanks blank_encodings (Itoa n) = Itoa n"
proof -
  obtain d cs where "d < 10" "dec_nat (nat n) = digit d # cs" using dec_nat_Cons by blast
  then show ?thesis
    using skip_blanks_no_blank[OF digit_not_blank[of d]] skip_blanks_no_blank[of "CHR ''-''"]
    by (auto simp: Itoa_def blank_heads_def)
qed

theorem Sscanf_d_Itoa [simp]: "in_int64 n \<Longrightarrow> Sscanf_d (Itoa n) = Some n"
proof (cases "n < 0")
  case True
  assume r: "in_int64 n"
  have "Itoa n = CHR ''-'' # dec_nat (nat (- n))" using True by (simp add: Itoa_def)
  then show ?thesis
    using ParseInt_Itoa[OF r] skip_blanks_Itoa[of n] by (simp add: Sscanf_d_def)
next
  case False
  assume r: "in_int64 n"
  obtain d cs where d: "d < 10" "dec_nat (nat n) = digit d # cs" using dec_nat_Cons by blast
  have "Itoa n = dec_nat (nat n)" using False by (simp add: Itoa_def)
  then show ?thesis
    using ParseInt_Itoa[OF r] d take_digits_dec_nat[of "nat n"] skip_blanks_Itoa[of n]
    by (simp add: Sscanf_d_def digit_no_sign)
qed

lemma Itoa_inject: "Itoa m = Itoa n \<Longrightarrow> m = n"
proof -
  have "m \<ge> 0 \<Longrightarrow> n < 0 \<Longrightarrow> Itoa m \<noteq> Itoa n" for m n :: int
    using dec_nat_Cons[of "nat m"] by (auto simp: Itoa_def dest: digit_no_sign(1))
  moreover have "dec_nat a = dec_nat b \<Longrightarrow> a = b" for a b
    by (metis option.inject parse_digits_dec_nat)
  ultimately show "Itoa m = Itoa n \<Longrightarrow> m = n"
    by (cases "m < 0"; cases "n < 0") (force simp: Itoa_def not_less)+
qed


lemma Itoa_eq_iff [simp]: "Itoa m = Itoa n \<longleftrightarrow> m = n"
  using Itoa_inject by blast


section \<open>The strings package\<close>

definition HasSuffix :: "string \<Rightarrow> string \<Rightarrow> bool" where
  "HasSuffix s p \<longleftrightarrow> length p \<le> length s \<and> drop (length s - length p) s = p"

definition TrimPrefix :: "string \<Rightarrow> string \<Rightarrow> string" where
  "TrimPrefix s p = (if HasPrefix s p then drop (length p) s else s)"

definition TrimSuffix :: "string \<Rightarrow> string \<Rightarrow> string" where
  "TrimSuffix s p = (if HasSuffix s p then take (length s - length p) s else s)"

lemma HasPrefix_append [simp]: "HasPrefix (p @ s) p"
  by (simp add: HasPrefix_def)

lemma HasPrefix_iff: "HasPrefix s p \<longleftrightarrow> (\<exists>t. s = p @ t)"
  by (auto simp: HasPrefix_def) (metis append_take_drop_id)

lemma HasSuffix_append [simp]: "HasSuffix (s @ p) p"
  by (simp add: HasSuffix_def)

lemma HasSuffix_iff: "HasSuffix s p \<longleftrightarrow> (\<exists>t. s = t @ p)"
  by (auto simp: HasSuffix_def) (metis append_take_drop_id)

lemma TrimPrefix_append [simp]: "TrimPrefix (p @ s) p = s"
  by (simp add: TrimPrefix_def)

lemma TrimSuffix_append [simp]: "TrimSuffix (s @ p) p = s"
  by (simp add: TrimSuffix_def)

text \<open>\<open>strings.TrimSpace\<close>: the same white space at both ends, the newline included.\<close>

definition TrimSpace :: "string \<Rightarrow> string" where
  "TrimSpace s =
     (let encs = newline # blank_encodings;
          left = skip_blanks encs s
      in rev (skip_blanks (map rev encs) (rev left)))"

text \<open>\<open>strings.Fields\<close>: the words between runs of white space.\<close>

function fields_from :: "string \<Rightarrow> string \<Rightarrow> string list" where
  "fields_from word s =
     (case s of
        [] \<Rightarrow> if word = [] then [] else [word]
      | c # cs \<Rightarrow>
          (case leading (newline # blank_encodings) s of
             None \<Rightarrow> fields_from (word @ [c]) cs
           | Some n \<Rightarrow> if word = [] then fields_from [] (drop n s) else word # fields_from [] (drop n s)))"
  by pat_completeness auto
termination
  by (relation "measure (\<lambda>(word, s). length s)") (auto dest: leading_Some)

declare fields_from.simps [simp del]

definition Fields :: "string \<Rightarrow> string list" where
  "Fields s = fields_from [] s"

text \<open>\<open>strings.LastIndexByte\<close>, with \<open>None\<close> for -1.\<close>

fun LastIndexByte :: "string \<Rightarrow> char \<Rightarrow> nat option" where
  "LastIndexByte [] c = None"
| "LastIndexByte (x # xs) c =
     (case LastIndexByte xs c of Some n \<Rightarrow> Some (Suc n) | None \<Rightarrow> if x = c then Some 0 else None)"

text \<open>\<open>strings.Cut\<close> at a one-byte separator.\<close>

definition Cut :: "string \<Rightarrow> char \<Rightarrow> string \<times> string \<times> bool" where
  "Cut s c = (if c \<in> set s then (takeWhile (\<lambda>x. x \<noteq> c) s, tl (dropWhile (\<lambda>x. x \<noteq> c) s), True) else (s, [], False))"

text \<open>\<open>bytes.Split\<close> at a one-byte separator.\<close>

fun Split :: "string \<Rightarrow> char \<Rightarrow> string list" where
  "Split [] c = [[]]"
| "Split (x # xs) c = (if x = c then [] # Split xs c else (case Split xs c of w # ws \<Rightarrow> (x # w) # ws | [] \<Rightarrow> [[x]]))"

definition plain_word :: "string \<Rightarrow> bool" where
  "plain_word w \<longleftrightarrow> w \<noteq> [] \<and> list_all (\<lambda>c. c \<notin> blank_heads \<and> c \<noteq> CHR 0x0A \<and> c \<noteq> CHR '')'') w"

fun unwords :: "string list \<Rightarrow> string" where
  "unwords [] = []"
| "unwords [w] = w"
| "unwords (w # ws) = w @ '' '' @ unwords ws"

lemma leading_plain: "c \<notin> blank_heads \<Longrightarrow> c \<noteq> CHR 0x0A \<Longrightarrow> leading (newline # blank_encodings) (c # cs) = None"
  by (rule leading_None_hd) (use blank_encodings_heads in \<open>auto simp: newline_def\<close>)

lemma ascii_blanks_first:
  "\<exists>es. blank_encodings = [CHR 0x09] # [CHR 0x0B] # [CHR 0x0C] # [CHR 0x0D] # [CHR '' ''] # es"
proof -
  have "take 5 blank_encodings = [[CHR 0x09], [CHR 0x0B], [CHR 0x0C], [CHR 0x0D], [CHR '' '']]" by code_simp
  then show ?thesis using append_take_drop_id[of 5 blank_encodings] by (metis append_Cons append_Nil)
qed

lemma leading_one: "c \<in> {CHR 0x0A, CHR '' ''} \<Longrightarrow> leading (newline # blank_encodings) (c # cs) = Some 1"
proof -
  obtain es where es: "blank_encodings = [CHR 0x09] # [CHR 0x0B] # [CHR 0x0C] # [CHR 0x0D] # [CHR '' ''] # es"
    using ascii_blanks_first by blast
  show "c \<in> {CHR 0x0A, CHR '' ''} \<Longrightarrow> ?thesis"
    unfolding leading_def es newline_def HasPrefix_def by (elim insertE emptyE) simp_all
qed

lemma fields_from_word:
  "list_all (\<lambda>c. c \<notin> blank_heads \<and> c \<noteq> CHR 0x0A \<and> c \<noteq> CHR '')'') w \<Longrightarrow> fields_from word (w @ s) = fields_from (word @ w) s"
proof (induction w arbitrary: word)
  case (Cons c w)
  have "fields_from word ((c # w) @ s) = fields_from (word @ [c]) (w @ s)"
    using Cons.prems by (subst fields_from.simps) (simp add: leading_plain)
  then show ?case using Cons by simp
qed simp

lemma fields_from_break:
  assumes "c \<in> {CHR 0x0A, CHR '' ''}" "word \<noteq> []"
  shows "fields_from word (c # s) = word # fields_from [] s"
  using leading_one[OF assms(1)] assms(2) by (subst fields_from.simps) simp

lemma fields_from_Nil [simp]: "fields_from w [] = (if w = [] then [] else [w])"
  by (subst fields_from.simps) simp

lemma fields_from_unwords:
  "list_all plain_word ws \<Longrightarrow> ws \<noteq> [] \<Longrightarrow> fields_from [] (unwords ws @ newline) = ws"
proof (induction ws rule: unwords.induct)
  case (2 w)
  then show ?case by (simp add: plain_word_def fields_from_word newline_def fields_from_break)
next
  case (3 w v ws)
  then have "fields_from [] (unwords (w # v # ws) @ newline) = fields_from w (CHR '' '' # (unwords (v # ws) @ newline))"
    by (simp add: plain_word_def fields_from_word)
  also have "\<dots> = w # fields_from [] (unwords (v # ws) @ newline)"
    using 3 by (intro fields_from_break) (auto simp: plain_word_def)
  finally show ?case using 3 by simp
qed simp

lemma Fields_unwords: "list_all plain_word ws \<Longrightarrow> ws \<noteq> [] \<Longrightarrow> Fields (unwords ws @ newline) = ws"
  by (simp add: Fields_def fields_from_unwords)

lemma LastIndexByte_None: "c \<notin> set s \<Longrightarrow> LastIndexByte s c = None"
  by (induction s) auto

lemma LastIndexByte_last: "c \<notin> set t \<Longrightarrow> LastIndexByte (s @ c # t) c = Some (length s)"
  by (induction s) (auto simp: LastIndexByte_None)

lemma unwords_plain: "list_all plain_word ws \<Longrightarrow> CHR '')'' \<notin> set (unwords ws)"
  by (induction ws rule: unwords.induct) (auto simp: plain_word_def list_all_iff)

lemma unwords_not_Nil: "list_all plain_word ws \<Longrightarrow> ws \<noteq> [] \<Longrightarrow> unwords ws \<noteq> []"
  by (induction ws rule: unwords.induct) (auto simp: plain_word_def)

lemma plain_word_Itoa: "plain_word (Itoa n)"
proof -
  have "\<forall>c \<in> set (dec_nat k). c \<notin> blank_heads \<and> c \<noteq> CHR 0x0A \<and> c \<noteq> CHR '')''" for k
  proof
    fix c assume "c \<in> set (dec_nat k)"
    then obtain d where "d < 10" "c = digit d" using dec_nat_digits by blast
    moreover have "d < 10 \<Longrightarrow> digit d \<noteq> CHR 0x0A \<and> digit d \<noteq> CHR '')''"
    proof -
      assume "d < 10"
      then have "d \<in> {0, 1, 2, 3, 4, 5, 6, 7, 8, 9}" by auto
      then show ?thesis by (auto simp: digit_def)
    qed
    ultimately show "c \<notin> blank_heads \<and> c \<noteq> CHR 0x0A \<and> c \<noteq> CHR '')''" using digit_not_blank by simp
  qed
  then show ?thesis by (auto simp: plain_word_def Itoa_def list_all_iff blank_heads_def)
qed


section \<open>Formatting\<close>

text \<open>The verb \<open>%q\<close> (\<open>strconv.Quote\<close>): quotes, backslashes and control characters are escaped,
  everything else (printable text) is copied.\<close>

definition hex_digit :: "nat \<Rightarrow> char" where
  "hex_digit n = ''0123456789abcdef'' ! n"

definition quote_char :: "char \<Rightarrow> string" where
  "quote_char c =
     (let n = (of_char c :: nat) in
      if n = 34 then [CHR 0x5C, CHR 0x22]
      else if n = 92 then [CHR 0x5C, CHR 0x5C]
      else if n = 7 then [CHR 0x5C, CHR ''a'']
      else if n = 8 then [CHR 0x5C, CHR ''b'']
      else if n = 9 then [CHR 0x5C, CHR ''t'']
      else if n = 10 then [CHR 0x5C, CHR ''n'']
      else if n = 11 then [CHR 0x5C, CHR ''v'']
      else if n = 12 then [CHR 0x5C, CHR ''f'']
      else if n = 13 then [CHR 0x5C, CHR ''r'']
      else if n < 32 \<or> n = 127 then [CHR 0x5C, CHR ''x'', hex_digit (n div 16), hex_digit (n mod 16)]
      else [c])"

definition Quote :: "string \<Rightarrow> string" where
  "Quote s = CHR 0x22 # concat (map quote_char s) @ [CHR 0x22]"

text \<open>\<open>fmt.Sprintf\<close> with the arguments already rendered, one per verb (the sources use \<open>%s\<close>, \<open>%d\<close>,
  \<open>%v\<close>, \<open>%w\<close> and \<open>%q\<close>, with as many arguments as verbs); \<open>%%\<close> is a percent sign.\<close>

fun fill :: "string \<Rightarrow> string list \<Rightarrow> string" where
  "fill [] as = []"
| "fill [c] as = [c]"
| "fill (c # v # cs) as =
     (if c \<noteq> CHR ''%'' then c # fill (v # cs) as
      else if v = CHR ''%'' then CHR ''%'' # fill cs as
      else case as of
             [] \<Rightarrow> ''%!'' @ [v] @ ''(MISSING)'' @ fill cs []
           | a # as' \<Rightarrow> (if v = CHR ''q'' then Quote a else a) @ fill cs as')"

text \<open>\<open>err.Error()\<close>.\<close>

primrec Error_text :: "error \<Rightarrow> string" and arg_text :: "earg \<Rightarrow> string" where
  "Error_text RedisNil = ''redis: nil''"
| "Error_text NeverReturns = []"
| "Error_text (Errorf f as) = fill f (map arg_text as)"
| "arg_text (ArgS s) = s"
| "arg_text (ArgD n) = Itoa n"
| "arg_text (ArgE e) = Error_text e"

definition Sprintf :: "string \<Rightarrow> earg list \<Rightarrow> string" where
  "Sprintf f as = fill f (map arg_text as)"

text \<open>\<open>time.Duration.String\<close>: nanoseconds with the largest unit that fits, the fraction without trailing zeros.\<close>

definition frac_text :: "int \<Rightarrow> nat \<Rightarrow> string" where
  "frac_text v prec =
     (let ds = Itoa (v mod 10 ^ prec);
          ds = rev (dropWhile (\<lambda>c. c = CHR ''0'') (rev (replicate (prec - length ds) (CHR ''0'') @ ds)))
      in if ds = [] then [] else CHR ''.'' # ds)"

definition Duration_String :: "int \<Rightarrow> string" where
  "Duration_String d =
     (let u = \<bar>d\<bar>; s = u div 10 ^ 9 in
      (if d < 0 then ''-'' else []) @
      (if u = 0 then ''0s''
       else if u < 1000 then Itoa u @ ''ns''
       else if u < 10 ^ 6 then Itoa (u div 1000) @ frac_text u 3 @ [CHR 0xC2, CHR 0xB5] @ ''s''
       else if u < 10 ^ 9 then Itoa (u div 10 ^ 6) @ frac_text u 6 @ ''ms''
       else (if 3600 \<le> s then Itoa (s div 3600) @ ''h'' else []) @
            (if 60 \<le> s then Itoa (s div 60 mod 60) @ ''m'' else []) @
            Itoa (s mod 60) @ frac_text u 9 @ ''s''))"

section \<open>encoding/json on strings\<close>

text \<open>\<open>utf8.DecodeRuneInString\<close>: the length of the valid encoding the bytes start with, or \<open>None\<close>.\<close>

definition rune_len :: "nat list \<Rightarrow> nat option" where
  "rune_len bs =
     (let cont = (\<lambda>b. 0x80 \<le> b \<and> b \<le> 0xBF) in
      case bs of
        [] \<Rightarrow> None
      | b0 # r \<Rightarrow>
          if b0 < 0x80 then Some 1
          else if 0xC2 \<le> b0 \<and> b0 \<le> 0xDF then
            (case r of b1 # _ \<Rightarrow> if cont b1 then Some 2 else None | _ \<Rightarrow> None)
          else if 0xE0 \<le> b0 \<and> b0 \<le> 0xEF then
            (case r of b1 # b2 # _ \<Rightarrow>
               if cont b1 \<and> cont b2 \<and> (b0 = 0xE0 \<longrightarrow> 0xA0 \<le> b1) \<and> (b0 = 0xED \<longrightarrow> b1 \<le> 0x9F)
               then Some 3 else None
             | _ \<Rightarrow> None)
          else if 0xF0 \<le> b0 \<and> b0 \<le> 0xF4 then
            (case r of b1 # b2 # b3 # _ \<Rightarrow>
               if cont b1 \<and> cont b2 \<and> cont b3 \<and> (b0 = 0xF0 \<longrightarrow> 0x90 \<le> b1) \<and> (b0 = 0xF4 \<longrightarrow> b1 \<le> 0x8F)
               then Some 4 else None
             | _ \<Rightarrow> None)
          else None)"

lemma rune_len_pos: "rune_len bs = Some n \<Longrightarrow> 0 < n"
  by (auto simp: rune_len_def Let_def split: list.splits if_splits)

text \<open>One ASCII character inside a JSON string.\<close>

definition json_char :: "char \<Rightarrow> string" where
  "json_char c =
     (let n = (of_char c :: nat) in
      if n = 34 \<or> n = 92 then [CHR 0x5C, c]
      else if n = 8 then [CHR 0x5C, CHR ''b'']
      else if n = 12 then [CHR 0x5C, CHR ''f'']
      else if n = 10 then [CHR 0x5C, CHR ''n'']
      else if n = 13 then [CHR 0x5C, CHR ''r'']
      else if n = 9 then [CHR 0x5C, CHR ''t'']
      else if n < 32 \<or> c = CHR ''<'' \<or> c = CHR ''>'' \<or> c = CHR ''&''
      then CHR 0x5C # ''u00'' @ [hex_digit (n div 16), hex_digit (n mod 16)]
      else [c])"

text \<open>The body of a JSON string as \<open>json.Marshal\<close> writes it: invalid UTF-8 becomes the escape of U+FFFD,
  U+2028 and U+2029 are escaped, every other character beyond ASCII is copied.\<close>

function json_body :: "string \<Rightarrow> string" where
  "json_body s =
     (case s of
        [] \<Rightarrow> []
      | c # cs \<Rightarrow>
          (case rune_len (map of_char s) of
             None \<Rightarrow> CHR 0x5C # ''ufffd'' @ json_body cs
           | Some n \<Rightarrow>
               (if n = 1 then json_char c
                else if take n s = [CHR 0xE2, CHR 0x80, CHR 0xA8] then CHR 0x5C # ''u2028''
                else if take n s = [CHR 0xE2, CHR 0x80, CHR 0xA9] then CHR 0x5C # ''u2029''
                else take n s) @ json_body (drop n s)))"
  by pat_completeness auto
termination
  by (relation "measure length") (auto dest: rune_len_pos)

declare json_body.simps [simp del]

definition json_string :: "string \<Rightarrow> string" where
  "json_string s = CHR 0x22 # json_body s @ [CHR 0x22]"

text \<open>\<open>json.Marshal\<close> of a struct whose members are already written.\<close>

fun json_members :: "(string \<times> string) list \<Rightarrow> string" where
  "json_members [] = []"
| "json_members [(k, v)] = json_string k @ '':'' @ v"
| "json_members ((k, v) # m) = json_string k @ '':'' @ v @ '','' @ json_members m"

definition json_object :: "(string \<times> string) list \<Rightarrow> string" where
  "json_object m = ''{'' @ json_members m @ ''}''"

text \<open>A value handed to the encoder: a struct or a map is the list of its members in the order the encoder
  writes them (struct fields as declared, map keys sorted).\<close>

datatype json = JNull | JBool bool | JInt int | JStr string | JArr "json list" | JObj "(string \<times> json) list"

fun Marshal :: "json \<Rightarrow> string" and Marshal_list :: "json list \<Rightarrow> string" and Marshal_members :: "(string \<times> json) list \<Rightarrow> string" where
  "Marshal JNull = ''null''"
| "Marshal (JBool b) = (if b then ''true'' else ''false'')"
| "Marshal (JInt n) = Itoa n"
| "Marshal (JStr s) = json_string s"
| "Marshal (JArr xs) = ''['' @ Marshal_list xs @ '']''"
| "Marshal (JObj ms) = ''{'' @ Marshal_members ms @ ''}''"
| "Marshal_list [] = []"
| "Marshal_list [x] = Marshal x"
| "Marshal_list (x # y # xs) = Marshal x @ '','' @ Marshal_list (y # xs)"
| "Marshal_members [] = []"
| "Marshal_members [(k, v)] = json_string k @ '':'' @ Marshal v"
| "Marshal_members ((k, v) # m # ms) = json_string k @ '':'' @ Marshal v @ '','' @ Marshal_members (m # ms)"

end
