(* ===== verification/Float64.thy ===== *)
theory Float64
  imports Complex_Main
begin

text \<open>
  Binary floating point with 53 significant bits, rounding to nearest with ties to even: the
  arithmetic of Go's \<open>float64\<close> and of numbers in Redis's Lua scripts. A value is the rational
  number it stands for. Exponents are unbounded here: the sources only divide and add 64-bit
  integers and percentages, far from overflow and from the subnormal range.
\<close>

fun bit_len :: "nat \<Rightarrow> nat" where
  "bit_len n = (if n = 0 then 0 else Suc (bit_len (n div 2)))"

declare bit_len.simps [simp del]

text \<open>The exponent \<open>e\<close> with \<open>2\<^sup>e \<le> x < 2\<^sup>e\<^sup>+\<^sup>1\<close> of a positive \<open>x\<close>.\<close>

definition ilog2 :: "rat \<Rightarrow> int" where
  "ilog2 x = (let (p, q) = quotient_of x; k = int (bit_len (nat p)) - int (bit_len (nat q))
              in if 2 powi k \<le> x then k else k - 1)"

definition round_even :: "rat \<Rightarrow> int" where
  "round_even x = (let f = \<lfloor>x\<rfloor>; d = x - of_int f
     in if d < 1 / 2 then f else if d > 1 / 2 then f + 1 else if even f then f else f + 1)"

definition fl :: "rat \<Rightarrow> rat" where
  "fl x = (if x = 0 then 0
     else let u = 2 powi (ilog2 \<bar>x\<bar> - 52) in of_int (round_even (x / u)) * u)"

lemma bit_len_bounds: "n \<noteq> 0 \<Longrightarrow> 2 ^ (bit_len n - 1) \<le> n \<and> n < 2 ^ bit_len n"
proof (induction n rule: bit_len.induct)
  case (1 n)
  show ?case
  proof (cases "n div 2 = 0")
    case True
    with "1.prems" have "n = 1" by auto
    then show ?thesis by (simp add: bit_len.simps)
  next
    case False
    have b: "bit_len n = Suc (bit_len (n div 2))" "bit_len (n div 2) = Suc (bit_len (n div 2) - 1)"
      using False "1.prems" by (simp_all add: bit_len.simps[of n] bit_len.simps[of "n div 2"])
    have IH: "2 ^ (bit_len (n div 2) - 1) \<le> n div 2" "n div 2 < 2 ^ bit_len (n div 2)"
      using "1.IH"[OF "1.prems" False] by auto
    have "2 * 2 ^ (bit_len (n div 2) - 1) = (2::nat) ^ bit_len (n div 2)"
      by (metis b(2) power_Suc)
    with IH have "2 ^ bit_len (n div 2) \<le> n \<and> n < 2 * 2 ^ bit_len (n div 2)" by linarith
    then show ?thesis by (simp add: b(1))
  qed
qed

lemma powi_le: "a \<le> b \<Longrightarrow> (2::rat) powi a \<le> 2 powi b"
  by (rule power_int_increasing) auto

lemma powi_less_iff: "(2::rat) powi a < 2 powi b \<longleftrightarrow> a < b"
  using power_int_strict_increasing[of a b "2::rat"] powi_le[of b a] by (auto simp: not_less[symmetric])

lemma ilog2_bounds:
  assumes "0 < x"
  shows "2 powi ilog2 x \<le> x \<and> x < 2 powi (ilog2 x + 1)"
proof -
  obtain p q where pq: "quotient_of x = (p, q)" by fastforce
  have q: "0 < q" using quotient_of_denom_pos[OF pq] .
  have x: "x = of_int p / of_int q" using quotient_of_div[OF pq] .
  with assms q have p: "0 < p" by (simp add: zero_less_divide_iff)
  define a b where "a = int (bit_len (nat p))" and "b = int (bit_len (nat q))"
  have pw: "(2::rat) powi (int m - 1) \<le> of_int n \<and> of_int n < (2::rat) powi int m"
    if "m = bit_len (nat n)" "0 < n" for m n
  proof -
    have "2 ^ (m - 1) \<le> nat n \<and> nat n < 2 ^ m" using that bit_len_bounds[of "nat n"] by simp
    then have "(2::rat) ^ (m - 1) \<le> of_nat (nat n) \<and> of_nat (nat n) < (2::rat) ^ m"
      by (metis of_nat_le_iff of_nat_less_iff of_nat_numeral of_nat_power)
    moreover have "0 < m" using that by (simp add: bit_len.simps[of "nat n"])
    ultimately show ?thesis using that(2)
      by (cases m) (auto simp: power_int_def nat_add_distrib)
  qed
  have P: "2 powi (a - 1) \<le> (of_int p :: rat)" "(of_int p :: rat) < 2 powi a"
    and Q: "2 powi (b - 1) \<le> (of_int q :: rat)" "(of_int q :: rat) < 2 powi b"
    using pw[OF refl p] pw[OF refl q] by (auto simp: a_def b_def)
  have q': "(0::rat) < of_int q" using q by simp
  have "2 powi (a - b - 1) * of_int q \<le> (2 powi (a - b - 1) * 2 powi b :: rat)"
    using Q(2) by (intro mult_left_mono) auto
  also have "\<dots> = 2 powi (a - 1)" by (simp flip: power_int_add)
  finally have lo: "2 powi (a - b - 1) \<le> x"
    using P(1) q' by (simp add: x field_simps)
  have "(of_int p :: rat) < 2 powi (a - b + 1) * 2 powi (b - 1)"
    using P(2) by (simp flip: power_int_add)
  also have "\<dots> \<le> 2 powi (a - b + 1) * of_int q" using Q(1) by (intro mult_left_mono) auto
  finally have hi: "x < 2 powi (a - b + 1)"
    using q' by (simp add: x field_simps)
  have "ilog2 x = (if 2 powi (a - b) \<le> x then a - b else a - b - 1)"
    by (simp add: ilog2_def pq a_def b_def)
  with lo hi show ?thesis by auto
qed

lemma ilog2_mono: "0 < x \<Longrightarrow> x \<le> y \<Longrightarrow> ilog2 x \<le> ilog2 y"
proof -
  assume "0 < x" "x \<le> y"
  then have "(2::rat) powi ilog2 x < 2 powi (ilog2 y + 1)"
    using ilog2_bounds[of x] ilog2_bounds[of y] by linarith
  then show ?thesis by (simp add: powi_less_iff)
qed

lemma round_even_of_int [simp]: "round_even (of_int n) = n"
  by (simp add: round_even_def)

lemma round_even_near: "\<bar>of_int (round_even x) - x\<bar> \<le> 1 / 2"
proof -
  have "x < of_int \<lfloor>x\<rfloor> + 1" by linarith
  then show ?thesis
    by (simp add: round_even_def Let_def abs_if) (use of_int_floor_le[of x] in linarith)
qed

lemma round_even_mono: "x \<le> y \<Longrightarrow> round_even x \<le> round_even y"
proof (cases "\<lfloor>x\<rfloor> = \<lfloor>y\<rfloor>")
  case True
  assume "x \<le> y"
  with True show ?thesis by (auto simp: round_even_def Let_def)
next
  case False
  assume "x \<le> y"
  with False have "\<lfloor>x\<rfloor> + 1 \<le> \<lfloor>y\<rfloor>" using floor_mono[of x y] by linarith
  moreover have "round_even x \<le> \<lfloor>x\<rfloor> + 1" "\<lfloor>y\<rfloor> \<le> round_even y"
    by (auto simp: round_even_def Let_def)
  ultimately show ?thesis by linarith
qed

lemma fl_0 [simp]: "fl 0 = 0"
  by (simp add: fl_def)

lemma fl_between:
  assumes "0 < x"
  shows "2 powi ilog2 x \<le> fl x \<and> fl x \<le> 2 powi (ilog2 x + 1)"
proof -
  define u :: rat where "u = 2 powi (ilog2 x - 52)"
  have u: "0 < u" by (simp add: u_def)
  have e: "2 ^ 52 * u = 2 powi ilog2 x" "2 ^ 53 * u = 2 powi (ilog2 x + 1)"
    using power_int_add[of "2::rat" 52 "ilog2 x - 52"] power_int_add[of "2::rat" 53 "ilog2 x - 52"]
    by (simp_all add: u_def algebra_simps)
  have "2 ^ 52 \<le> x / u" "x / u \<le> 2 ^ 53"
    using ilog2_bounds[OF assms] u unfolding e[symmetric] by (simp_all add: field_simps)
  then have "of_int (2 ^ 52) \<le> x / u" "x / u \<le> of_int (2 ^ 53)" by simp_all
  from this[THEN round_even_mono]
  have "2 ^ 52 \<le> round_even (x / u)" "round_even (x / u) \<le> 2 ^ 53"
    by (simp_all only: round_even_of_int)
  then have "of_int (2 ^ 52) \<le> (of_int (round_even (x / u)) :: rat)"
    "(of_int (round_even (x / u)) :: rat) \<le> of_int (2 ^ 53)"
    by (simp_all only: of_int_le_iff)
  then have "2 ^ 52 * u \<le> of_int (round_even (x / u)) * u \<and> of_int (round_even (x / u)) * u \<le> 2 ^ 53 * u"
    using u by (auto intro: mult_right_mono)
  moreover have "fl x = of_int (round_even (x / u)) * u" using assms by (simp add: fl_def Let_def u_def)
  ultimately show ?thesis unfolding e by simp
qed

theorem fl_mono: "0 \<le> x \<Longrightarrow> x \<le> y \<Longrightarrow> fl x \<le> fl y"
proof -
  assume xy: "0 \<le> x" "x \<le> y"
  consider "x = 0" | "0 < x" "ilog2 x = ilog2 y" | "0 < x" "ilog2 x + 1 \<le> ilog2 y"
    using xy ilog2_mono[of x y] by force
  then show ?thesis
  proof cases
    case 1
    have "0 \<le> fl y"
    proof (cases "y = 0")
      case False
      then have "(0::rat) < 2 powi ilog2 y" "2 powi ilog2 y \<le> fl y" using fl_between[of y] xy by auto
      then show ?thesis by linarith
    qed simp
    with 1 show ?thesis by simp
  next
    case 2
    have "x / 2 powi (ilog2 y - 52) \<le> y / 2 powi (ilog2 y - 52)"
      using xy by (simp add: divide_right_mono)
    then have "round_even (x / 2 powi (ilog2 y - 52)) \<le> round_even (y / 2 powi (ilog2 y - 52))"
      by (rule round_even_mono)
    with 2 xy show ?thesis by (simp add: fl_def Let_def mult_right_mono)
  next
    case 3
    then show ?thesis using fl_between[of x] fl_between[of y] powi_le[OF 3(2)] xy by linarith
  qed
qed

lemma fl_nonneg: "0 \<le> x \<Longrightarrow> 0 \<le> fl x"
  using fl_mono[of 0 x] by simp

theorem fl_of_int: "\<bar>n\<bar> \<le> 2 ^ 53 \<Longrightarrow> fl (of_int n) = of_int n"
proof (cases "n = 0")
  case False
  assume n: "\<bar>n\<bar> \<le> 2 ^ 53"
  define k where "k = ilog2 \<bar>of_int n\<bar>"
  have "(0::rat) < \<bar>of_int n\<bar>" using False by simp
  note b = ilog2_bounds[OF this, folded k_def]
  have n': "\<bar>of_int n\<bar> \<le> (2::rat) ^ 53"
    using n by (metis of_int_abs of_int_le_iff of_int_numeral of_int_power)
  then have "(2::rat) powi k < 2 powi 54" using b by (simp add: power_int_def)
  then have "k < 54" by (simp only: powi_less_iff)
  then have k: "k \<le> 53" by simp
  have "\<exists>m. of_int n / 2 powi (k - 52) = (of_int m :: rat)"
  proof (cases "k \<le> 52")
    case True
    have "of_int n / (2::rat) powi (k - 52) = of_int n * 2 powi (52 - k)"
      by (metis divide_inverse minus_diff_eq power_int_minus)
    also have "\<dots> = of_int (n * 2 ^ nat (52 - k))" using True by (simp add: power_int_def)
    finally show ?thesis by blast
  next
    case False
    with k have "k = 53" by simp
    with b n' have "\<bar>of_int n\<bar> = (2::rat) ^ 53" by (simp add: power_int_def)
    then have "\<bar>n\<bar> = 2 ^ 53" by (metis of_int_abs of_int_eq_iff of_int_numeral of_int_power)
    then have "even \<bar>n\<bar>" by simp
    then have "even n" by simp
    then have "n = 2 * (n div 2)" by simp
    then have "(of_int n :: rat) = 2 * of_int (n div 2)" by (metis of_int_mult of_int_numeral)
    then show ?thesis using \<open>k = 53\<close> by (intro exI[of _ "n div 2"]) simp
  qed
  then obtain m where m: "of_int n / 2 powi (k - 52) = (of_int m :: rat)" ..
  have "fl (of_int n) = of_int m * 2 powi (k - 52)"
    using False by (simp add: fl_def k_def[symmetric] m)
  also have "\<dots> = of_int n" unfolding m[symmetric] by simp
  finally show ?thesis .
qed simp

lemma fl_nonpos: "x \<le> 0 \<Longrightarrow> fl x \<le> 0"
proof (cases "x = 0")
  case False
  assume "x \<le> 0"
  define u :: rat where "u = 2 powi (ilog2 \<bar>x\<bar> - 52)"
  have u: "0 < u" by (simp add: u_def)
  have "x / u \<le> of_int 0" using \<open>x \<le> 0\<close> u by (simp add: divide_nonpos_pos)
  then have "round_even (x / u) \<le> 0" using round_even_mono[of "x / u" "of_int 0"] round_even_of_int[of 0] by simp
  then have "of_int (round_even (x / u)) * u \<le> 0" using u by (simp add: mult_nonpos_nonneg)
  with False show ?thesis by (simp add: fl_def Let_def u_def)
qed simp


text \<open>The conversion of a float to an integer drops the fraction; \<open>time.Duration.Seconds\<close>.\<close>

definition trunc :: "rat \<Rightarrow> int" where
  "trunc x = (if x < 0 then \<lceil>x\<rceil> else \<lfloor>x\<rfloor>)"

definition Seconds :: "int \<Rightarrow> rat" where
  "Seconds d =
     (let sec = sgn d * (\<bar>d\<bar> div 10 ^ 9); nsec = sgn d * (\<bar>d\<bar> mod 10 ^ 9)
      in fl (fl (of_int sec) + fl (fl (of_int nsec) / 10 ^ 9)))"

lemma trunc_of_int [simp]: "trunc (of_int n) = n"
  by (simp add: trunc_def)


section \<open>Rounding of quotients and of whole seconds\<close>

lemma fl_error:
  assumes "0 \<le> x"
  shows "\<bar>fl x - x\<bar> \<le> x / 2 ^ 53"
proof (cases "x = 0")
  case False
  define u :: rat where "u = 2 powi (ilog2 x - 52)"
  have u: "0 < u" by (simp add: u_def)
  have "2 ^ 52 * u = 2 powi ilog2 x"
    using power_int_add[of "2::rat" 52 "ilog2 x - 52"] by (simp add: u_def)
  then have ux: "2 ^ 52 * u \<le> x" using ilog2_bounds[of x] assms False by simp
  have "fl x = of_int (round_even (x / u)) * u" using assms False by (simp add: fl_def Let_def u_def)
  then have "fl x - x = (of_int (round_even (x / u)) - x / u) * u" using u by (simp add: field_simps)
  then have "\<bar>fl x - x\<bar> = \<bar>of_int (round_even (x / u)) - x / u\<bar> * u" using u by (simp add: abs_mult)
  also have "\<dots> \<le> 1 / 2 * u" using u round_even_near by (intro mult_right_mono) auto
  also have "\<dots> \<le> x / 2 ^ 53" using ux by simp
  finally show ?thesis .
qed simp

lemma fl_ge: "of_int n \<le> x \<Longrightarrow> 0 \<le> n \<Longrightarrow> n \<le> 2 ^ 53 \<Longrightarrow> of_int n \<le> fl x"
  using fl_mono[of "of_int n" x] fl_of_int[of n] by simp

lemma fl_le: "x \<le> of_int n \<Longrightarrow> 0 \<le> x \<Longrightarrow> 0 \<le> n \<Longrightarrow> n \<le> 2 ^ 53 \<Longrightarrow> fl x \<le> of_int n"
  using fl_mono[of x "of_int n"] fl_of_int[of n] by simp

text \<open>The quotient of two integers below \<open>2\<^sup>5\<^sup>3\<close>, rounded to a float, has the same ceiling.\<close>

lemma ceiling_fl_div:
  assumes "0 \<le> x" "x < 2 ^ 53" "0 < t"
  shows "\<lceil>fl (of_int x / of_int t)\<rceil> = - ((- x) div t)"
proof -
  define y :: rat where "y = of_int x / of_int t"
  define k where "k = - ((- x) div t)"
  have y0: "0 \<le> y" using assms by (simp add: y_def)
  have "(- x) div t * t + (- x) mod t = - x" by (rule div_mult_mod_eq)
  moreover have "k * t = - ((- x) div t * t)" by (simp add: k_def)
  ultimately have kt: "k * t = x + (- x) mod t" by linarith
  have k: "x \<le> k * t" "(k - 1) * t + 1 \<le> x"
    using kt pos_mod_bound[OF assms(3), of "- x"] pos_mod_sign[OF assms(3), of "- x"] by (simp_all add: left_diff_distrib del: pos_mod_bound pos_mod_sign)
  have "k \<le> x"
  proof (rule ccontr)
    assume "\<not> k \<le> x"
    then have "x * t \<le> (k - 1) * t" using assms(3) by (intro mult_right_mono) auto
    moreover have "x \<le> x * t" using assms by (simp add: mult_le_cancel_left1)
    ultimately show False using k(2) by linarith
  qed
  moreover have "0 \<le> k" using k(1) assms by (metis mult_nonneg_nonneg linorder_not_less mult_neg_pos order.strict_trans2)
  moreover have "y \<le> of_int k"
    using k(1) assms(3) unfolding y_def by (simp add: pos_divide_le_eq) (metis of_int_le_iff of_int_mult)
  ultimately have upper: "fl y \<le> of_int k" using assms y0 by (intro fl_le) auto
  have "of_int ((k - 1) * t + 1) \<le> (of_int x :: rat)" using k(2) by (simp only: of_int_le_iff)
  then have "of_int ((k - 1) * t + 1) / of_int t \<le> y"
    using assms(3) unfolding y_def by (intro divide_right_mono) simp_all
  moreover have "of_int ((k - 1) * t + 1) / of_int t = of_int (k - 1) + 1 / (of_int t :: rat)"
    using assms(3) by (simp add: add_divide_distrib)
  ultimately have low: "of_int (k - 1) + 1 / of_int t \<le> y" by simp
  have "y / 2 ^ 53 < 1 / of_int t"
  proof -
    have "of_int x < (2::rat) ^ 53" using assms(2) by (metis of_int_less_iff of_int_numeral of_int_power)
    then show ?thesis using assms(3) by (simp add: y_def field_simps)
  qed
  then have "of_int (k - 1) < fl y" using fl_error[OF y0] low by linarith
  with upper have "\<lceil>fl y\<rceil> = k" by (intro ceiling_unique) simp_all
  then show ?thesis by (simp add: y_def k_def)
qed

lemma fl_numeral [simp]: "(numeral n :: int) \<le> 2 ^ 53 \<Longrightarrow> fl (numeral n) = numeral n"
  using fl_of_int[of "numeral n"] by simp

lemma fl_1 [simp]: "fl 1 = 1"
  using fl_of_int[of 1] by simp

lemma Seconds_whole: "\<bar>n\<bar> \<le> 2 ^ 53 \<Longrightarrow> 0 \<le> n \<Longrightarrow> trunc (Seconds (n * 10 ^ 9)) = n"
  using fl_of_int[of n] by (simp add: Seconds_def Let_def sgn_if abs_mult trunc_def)

end
