(* ===== verification/Redis.thy ===== *)
theory Redis
  imports GoText Float64
begin

text \<open>
  The Redis server and the client package \<open>internal/redisclient/client.go\<close>.

  The server (with the go-redis package and the network in front of it) is not part of the
  repository, so it is a parameter: a record with one operation per command the sources issue, over
  an unknown database type. What the sources rely on, the documented effect of each command, is the
  contract \<open>redis_server\<close>, stated over a view of the database as a map from keys to values. The
  environment of a program run fixes the server, the faults of the network, what the other
  components and key expiry do to the database between two commands, the clock, the context's
  cancellation and the source of random bytes; nothing is assumed about any of them here.
  An association-list implementation of the commands shows that the contract can be met.
\<close>


section \<open>The server as a parameter\<close>

datatype rvalue =
    RHash "string \<rightharpoonup> string"
  | RSet "string set"
  | RList "string list"
  | RStr string
  | RStream "(string \<times> (string \<times> string) list) list"

text \<open>An argument of a command as the Go code passes it.\<close>

datatype rarg = VStr string | VInt int

record 'db redis =
  r_ping :: "('db, unit) fallible"
  r_exists :: "string \<Rightarrow> ('db, bool) fallible"
  r_hgetall :: "string \<Rightarrow> ('db, (string \<times> string) list) fallible"
  r_hget :: "string \<Rightarrow> string \<Rightarrow> ('db, string option) fallible"
  r_hset :: "string \<Rightarrow> (string \<times> string) list \<Rightarrow> ('db, unit) fallible"
  r_hincrby :: "string \<Rightarrow> string \<Rightarrow> string \<Rightarrow> ('db, unit) fallible"
  r_sadd :: "string \<Rightarrow> string \<Rightarrow> ('db, unit) fallible"
  r_srem :: "string \<Rightarrow> string \<Rightarrow> ('db, unit) fallible"
  r_smembers :: "string \<Rightarrow> ('db, string list) fallible"
  r_rpush :: "string \<Rightarrow> string \<Rightarrow> ('db, unit) fallible"
  r_ltrim :: "string \<Rightarrow> int \<Rightarrow> int \<Rightarrow> ('db, unit) fallible"
  r_lrange :: "string \<Rightarrow> int \<Rightarrow> int \<Rightarrow> ('db, string list) fallible"
  r_blpop :: "string \<Rightarrow> ('db, string option) fallible"
  r_set :: "string \<Rightarrow> string \<Rightarrow> int \<Rightarrow> ('db, unit) fallible"
  r_get :: "string \<Rightarrow> ('db, string option) fallible"
  r_del :: "string list \<Rightarrow> ('db, unit) fallible"
  r_expire :: "string \<Rightarrow> int \<Rightarrow> ('db, unit) fallible"
  r_scan :: "nat \<Rightarrow> string \<Rightarrow> ('db, string list \<times> nat) fallible"
  r_xadd :: "string \<Rightarrow> (string \<times> string) list \<Rightarrow> ('db, unit) fallible"
  r_xrevrange :: "string \<Rightarrow> int \<Rightarrow> ('db, (string \<times> (string \<times> string) list) list) fallible"
  r_xrange :: "string \<Rightarrow> string \<Rightarrow> int \<Rightarrow> ('db, (string \<times> (string \<times> string) list) list) fallible"
  r_xtrim :: "string \<Rightarrow> int \<Rightarrow> ('db, unit) fallible"
  r_publish :: "string \<Rightarrow> string \<Rightarrow> ('db, unit) fallible"
  r_arg :: "rarg \<Rightarrow> string"
  \<comment> \<open>Lua's \<open>tonumber\<close> on a string, and the text of a number passed to \<open>redis.call\<close>\<close>
  r_tonumber :: "string \<Rightarrow> rat option"
  r_tostring :: "rat \<Rightarrow> string"


section \<open>The documented behaviour\<close>

type_synonym keyspace = "string \<Rightarrow> rvalue option"

definition is_hash :: "keyspace \<Rightarrow> string \<Rightarrow> bool" where
  "is_hash v k \<longleftrightarrow> (case v k of None \<Rightarrow> True | Some (RHash _) \<Rightarrow> True | _ \<Rightarrow> False)"

definition hash_at :: "keyspace \<Rightarrow> string \<Rightarrow> string \<rightharpoonup> string" where
  "hash_at v k = (case v k of Some (RHash m) \<Rightarrow> m | _ \<Rightarrow> Map.empty)"

definition is_set :: "keyspace \<Rightarrow> string \<Rightarrow> bool" where
  "is_set v k \<longleftrightarrow> (case v k of None \<Rightarrow> True | Some (RSet _) \<Rightarrow> True | _ \<Rightarrow> False)"

definition set_at :: "keyspace \<Rightarrow> string \<Rightarrow> string set" where
  "set_at v k = (case v k of Some (RSet s) \<Rightarrow> s | _ \<Rightarrow> {})"

definition is_list :: "keyspace \<Rightarrow> string \<Rightarrow> bool" where
  "is_list v k \<longleftrightarrow> (case v k of None \<Rightarrow> True | Some (RList _) \<Rightarrow> True | _ \<Rightarrow> False)"

definition list_at :: "keyspace \<Rightarrow> string \<Rightarrow> string list" where
  "list_at v k = (case v k of Some (RList xs) \<Rightarrow> xs | _ \<Rightarrow> [])"

definition is_stream :: "keyspace \<Rightarrow> string \<Rightarrow> bool" where
  "is_stream v k \<longleftrightarrow> (case v k of None \<Rightarrow> True | Some (RStream _) \<Rightarrow> True | _ \<Rightarrow> False)"

definition stream_at :: "keyspace \<Rightarrow> string \<Rightarrow> (string \<times> (string \<times> string) list) list" where
  "stream_at v k = (case v k of Some (RStream es) \<Rightarrow> es | _ \<Rightarrow> [])"

definition is_str :: "keyspace \<Rightarrow> string \<Rightarrow> bool" where
  "is_str v k \<longleftrightarrow> (case v k of None \<Rightarrow> True | Some (RStr _) \<Rightarrow> True | _ \<Rightarrow> False)"

text \<open>An emptied set or list is no key any more.\<close>

definition put_set :: "keyspace \<Rightarrow> string \<Rightarrow> string set \<Rightarrow> keyspace" where
  "put_set v k s = v(k := if s = {} then None else Some (RSet s))"

definition put_list :: "keyspace \<Rightarrow> string \<Rightarrow> string list \<Rightarrow> keyspace" where
  "put_list v k xs = v(k := if xs = [] then None else Some (RList xs))"

text \<open>The entries of a stream from an id on, that one included; the id \<open>0\<close> comes before all others.\<close>

definition from_id :: "string \<Rightarrow> (string \<times> 'a) list \<Rightarrow> (string \<times> 'a) list" where
  "from_id start es = (if start = ''0'' then es else dropWhile (\<lambda>e. fst e \<noteq> start) es)"

text \<open>The index range of LRANGE and LTRIM: both ends included, negative indices from the end,
  clipped to the list.\<close>

definition index_range :: "'a list \<Rightarrow> int \<Rightarrow> int \<Rightarrow> 'a list" where
  "index_range xs i j =
     (let n = int (length xs);
          lo = max 0 (if i < 0 then n + i else i);
          hi = min (n - 1) (if j < 0 then n + j else j)
      in if lo > hi then [] else take (nat (hi - lo + 1)) (drop (nat lo) xs))"

text \<open>Matching a SCAN pattern whose only special character is the asterisk.\<close>

fun glob :: "string \<Rightarrow> string \<Rightarrow> bool" where
  "glob [] s \<longleftrightarrow> s = []"
| "glob (p # ps) [] \<longleftrightarrow> p = CHR ''*'' \<and> glob ps []"
| "glob (p # ps) (c # cs) \<longleftrightarrow>
     (if p = CHR ''*'' then glob ps (c # cs) \<or> glob (p # ps) cs else p = c \<and> glob ps cs)"

definition plain_pattern :: "string \<Rightarrow> bool" where
  "plain_pattern pat \<longleftrightarrow> list_all (\<lambda>c. c \<notin> {CHR ''?'', CHR ''['', CHR 0x5C}) pat"

text \<open>What a pattern says before its first special character is matched literally.\<close>

definition literal_prefix :: "string \<Rightarrow> string" where
  "literal_prefix pat = takeWhile (\<lambda>c. c \<notin> {CHR ''*'', CHR ''?'', CHR ''['', CHR 0x5C}) pat"

text \<open>
  A complete SCAN iteration, page by page, while the set of keys stays \<open>K\<close> (values may change
  between two pages), and the statement that every such iteration ends.
\<close>

inductive scan_path :: "'db redis \<Rightarrow> ('db \<Rightarrow> keyspace) \<Rightarrow> string set \<Rightarrow> string \<Rightarrow> nat \<Rightarrow> string list \<Rightarrow> bool"
  for R view K pat
where
  path_last: "dom (view d) = K \<Longrightarrow> run_state (r_scan R cur pat) d = (Inr (ks, 0), d) \<Longrightarrow> scan_path R view K pat cur ks"
| path_next: "dom (view d) = K \<Longrightarrow> run_state (r_scan R cur pat) d = (Inr (ks, c), d) \<Longrightarrow> c \<noteq> 0 \<Longrightarrow>
     scan_path R view K pat c ks' \<Longrightarrow> scan_path R view K pat cur (ks @ ks')"

inductive scan_ends :: "'db redis \<Rightarrow> ('db \<Rightarrow> keyspace) \<Rightarrow> string set \<Rightarrow> string \<Rightarrow> nat \<Rightarrow> bool"
  for R view K pat
where
  scan_endsI: "(\<And>d ks c. dom (view d) = K \<Longrightarrow> run_state (r_scan R cur pat) d = (Inr (ks, c), d) \<Longrightarrow> c \<noteq> 0 \<Longrightarrow>
     scan_ends R view K pat c) \<Longrightarrow> scan_ends R view K pat cur"

text \<open>The same over an unchanging database.\<close>

inductive scan_run :: "'db redis \<Rightarrow> 'db \<Rightarrow> string \<Rightarrow> nat \<Rightarrow> string list \<Rightarrow> bool"
  for R d pat
where
  last_page: "run_state (r_scan R cur pat) d = (Inr (ks, 0), d) \<Longrightarrow> scan_run R d pat cur ks"
| next_page: "run_state (r_scan R cur pat) d = (Inr (ks, c), d) \<Longrightarrow> c \<noteq> 0 \<Longrightarrow>
     scan_run R d pat c ks' \<Longrightarrow> scan_run R d pat cur (ks @ ks')"

locale redis_server =
  fixes R :: "'db redis"
    and view :: "'db \<Rightarrow> keyspace"
  assumes no_empty_hash: "view d k \<noteq> Some (RHash Map.empty)"
    and exists: "run_state (r_exists R k) d = (Inr (view d k \<noteq> None), d)"
    and hgetall: "is_hash (view d) k \<Longrightarrow>
      \<exists>fs. run_state (r_hgetall R k) d = (Inr fs, d) \<and> map_of fs = hash_at (view d) k \<and> distinct (map fst fs)"
    and hgetall_wrong: "\<not> is_hash (view d) k \<Longrightarrow> \<exists>e. run_state (r_hgetall R k) d = (Inl e, d)"
    and hget: "is_hash (view d) k \<Longrightarrow> run_state (r_hget R k f) d = (Inr (hash_at (view d) k f), d)"
    and hget_wrong: "\<not> is_hash (view d) k \<Longrightarrow> \<exists>e. run_state (r_hget R k f) d = (Inl e, d)"
    and hset: "fs \<noteq> [] \<Longrightarrow> distinct (map fst fs) \<Longrightarrow> run_state (r_hset R k fs) d = (r, d') \<Longrightarrow>
      if is_hash (view d) k
      then r = Inr () \<and> view d' = (view d)(k \<mapsto> RHash (hash_at (view d) k ++ map_of fs))
      else isl r \<and> view d' = view d"
    and hincrby: "hash_at (view d) k f = Some (Itoa n) \<Longrightarrow> in_int64 n \<Longrightarrow> in_int64 m \<Longrightarrow>
      in_int64 (n + m) \<Longrightarrow> run_state (r_hincrby R k f (Itoa m)) d = (r, d') \<Longrightarrow>
      r = Inr () \<and> view d' = (view d)(k \<mapsto> RHash ((hash_at (view d) k)(f \<mapsto> Itoa (n + m))))"
    and sadd: "run_state (r_sadd R k x) d = (r, d') \<Longrightarrow>
      if is_set (view d) k
      then r = Inr () \<and> view d' = put_set (view d) k (insert x (set_at (view d) k))
      else isl r \<and> view d' = view d"
    and srem: "run_state (r_srem R k x) d = (r, d') \<Longrightarrow>
      if is_set (view d) k
      then r = Inr () \<and> view d' = put_set (view d) k (set_at (view d) k - {x})
      else isl r \<and> view d' = view d"
    and smembers: "is_set (view d) k \<Longrightarrow>
      \<exists>xs. run_state (r_smembers R k) d = (Inr xs, d) \<and> set xs = set_at (view d) k \<and> distinct xs"
    and smembers_wrong: "\<not> is_set (view d) k \<Longrightarrow> \<exists>e. run_state (r_smembers R k) d = (Inl e, d)"
    and rpush: "run_state (r_rpush R k x) d = (r, d') \<Longrightarrow>
      if is_list (view d) k
      then r = Inr () \<and> view d' = put_list (view d) k (list_at (view d) k @ [x])
      else isl r \<and> view d' = view d"
    and ltrim: "run_state (r_ltrim R k i j) d = (r, d') \<Longrightarrow>
      if is_list (view d) k
      then r = Inr () \<and> view d' = put_list (view d) k (index_range (list_at (view d) k) i j)
      else isl r \<and> view d' = view d"
    and lrange: "is_list (view d) k \<Longrightarrow>
      run_state (r_lrange R k i j) d = (Inr (index_range (list_at (view d) k) i j), d)"
    and lrange_wrong: "\<not> is_list (view d) k \<Longrightarrow> \<exists>e. run_state (r_lrange R k i j) d = (Inl e, d)"
    and blpop: "run_state (r_blpop R k) d = (p, d') \<Longrightarrow>
      if is_list (view d) k
      then (case list_at (view d) k of
              [] \<Rightarrow> p = Inr None \<and> view d' = view d
            | x # xs \<Rightarrow> p = Inr (Some x) \<and> view d' = put_list (view d) k xs)
      else isl p \<and> view d' = view d"
    and set_key: "run_state (r_set R k x ttl) d = (r, d') \<Longrightarrow> r = Inr () \<and> view d' = (view d)(k \<mapsto> RStr x)"
    and del: "run_state (r_del R ks) d = (r, d') \<Longrightarrow>
      r = Inr () \<and> view d' = (\<lambda>k. if k \<in> set ks then None else view d k)"
    and expire: "run_state (r_expire R k ttl) d = (r, d') \<Longrightarrow> r = Inr () \<and> view d' = view d"
    and scan_page: "\<exists>ks c. run_state (r_scan R cur pat) d = (Inr (ks, c), d)"
    and scan_prefix: "run_state (r_scan R cur pat) d = (Inr (ks, cur'), d') \<Longrightarrow> k \<in> set ks \<Longrightarrow>
      HasPrefix k (literal_prefix pat)"
    and scan_terminates: "plain_pattern pat \<Longrightarrow> scan_ends R view (dom (view d)) pat 0"
    and scan_complete: "plain_pattern pat \<Longrightarrow> scan_path R view K pat 0 ks \<Longrightarrow> set ks = {k \<in> K. glob pat k}"
    and xadd: "run_state (r_xadd R k fs) d = (r, d') \<Longrightarrow>
      if is_stream (view d) k
      then r = Inr () \<and> (\<exists>i. view d' = (view d)(k \<mapsto> RStream (stream_at (view d) k @ [(i, fs)])))
      else isl r \<and> view d' = view d"
    and xrevrange: "is_stream (view d) k \<Longrightarrow> 0 < n \<Longrightarrow>
      run_state (r_xrevrange R k n) d = (Inr (take (nat n) (rev (stream_at (view d) k))), d)"
    and xrevrange_wrong: "\<not> is_stream (view d) k \<Longrightarrow> \<exists>e. run_state (r_xrevrange R k n) d = (Inl e, d)"
    and xrange: "is_stream (view d) k \<Longrightarrow> 0 < n \<Longrightarrow> start = ''0'' \<or> start \<in> fst ` set (stream_at (view d) k) \<Longrightarrow>
      run_state (r_xrange R k start n) d = (Inr (take (nat n) (from_id start (stream_at (view d) k))), d)"
    and xrange_wrong: "\<not> is_stream (view d) k \<Longrightarrow> \<exists>e. run_state (r_xrange R k start n) d = (Inl e, d)"
    and xtrim: "0 \<le> n \<Longrightarrow> run_state (r_xtrim R k n) d = (r, d') \<Longrightarrow>
      if is_stream (view d) k
      then r = Inr () \<and> view d' = (if view d k = None then view d else
        (view d)(k \<mapsto> RStream (drop (length (stream_at (view d) k) - nat n) (stream_at (view d) k))))
      else isl r \<and> view d' = view d"
    and ping: "run_state (r_ping R) d = (Inr (), d)"
    and publish: "run_state (r_publish R c x) d = (r, d') \<Longrightarrow> r = Inr () \<and> view d' = view d"
    and arg_str: "r_arg R (VStr s) = s"
    and arg_int: "r_arg R (VInt n) = Itoa n"
    and tonumber_int: "in_int64 n \<Longrightarrow> r_tonumber R (Itoa n) = Some (fl (of_int n))"
    and tostring_int: "\<bar>n\<bar> \<le> 2 ^ 53 \<Longrightarrow> r_tostring R (of_int n) = Itoa n"


section \<open>The environment of a run\<close>

text \<open>What the network does to one command: it goes through, it is lost before the server sees it, or
  the server executes it and the reply is lost. go-redis sends a command again after such a failure:
  \<open>Resent n e\<close> stands for \<open>n\<close> executions whose replies are lost, after which the command goes through
  once more (\<open>None\<close>) or the client gives up with an error.\<close>

datatype fault = Delivered | Lost error | ReplyLost error | Resent nat "error option"

text \<open>
  The environment answers by the number of the step (\<open>tick\<close>) at which it is asked: the fault of that
  command, the change that other components and key expiry made to the database just before it, the
  result of \<open>ctx.Err()\<close>, the Unix time, the RFC 3339 text of the time, the bytes of
  \<open>crypto/rand.Read\<close>, and the order in which a \<open>range\<close> over a Go map visits the keys.
\<close>

record 'db env =
  server :: "'db redis"
  fault_at :: "nat \<Rightarrow> fault"
  interfere :: "nat \<Rightarrow> 'db \<Rightarrow> 'db"
  ctx_done :: "nat \<Rightarrow> error option"
  unix_at :: "nat \<Rightarrow> int"
  text_time_at :: "nat \<Rightarrow> string"
  rand_at :: "nat \<Rightarrow> error + nat list"
  map_order :: "nat \<Rightarrow> string list \<Rightarrow> string list"

record 'db world =
  db :: 'db
  tick :: nat

text \<open>The executions with lost replies; other components may act after each of them.\<close>

fun resend :: "('db, 'e) env_scheme \<Rightarrow> nat \<Rightarrow> ('db, 'a) fallible \<Rightarrow> nat \<Rightarrow> 'db \<Rightarrow> 'db" where
  "resend E t m 0 d = d"
| "resend E t m (Suc n) d = resend E t m n (interfere E t (snd (run_state m d)))"

text \<open>One command through the client.\<close>

definition send ::
  "('db, 'e) env_scheme \<Rightarrow> ('db, 'a) fallible \<Rightarrow> (('db, 'm) world_scheme, 'a) fallible"
where
  "send E m = State (\<lambda>w.
     let d = interfere E (tick w) (db w);
         w' = w\<lparr>tick := Suc (tick w)\<rparr>
     in case fault_at E (tick w) of
          Delivered \<Rightarrow> (case run_state m d of (r, d') \<Rightarrow> (r, w'\<lparr>db := d'\<rparr>))
        | Lost e \<Rightarrow> (Inl e, w'\<lparr>db := d\<rparr>)
        | ReplyLost e \<Rightarrow> (Inl e, w'\<lparr>db := snd (run_state m d)\<rparr>)
        | Resent n (Some e) \<Rightarrow> (Inl e, w'\<lparr>db := resend E (tick w) m n d\<rparr>)
        | Resent n None \<Rightarrow> (case run_state m (resend E (tick w) m n d) of (r, d') \<Rightarrow> (r, w'\<lparr>db := d'\<rparr>)))"

text \<open>\<open>ctx.Err()\<close> and \<open>time.Now().Unix()\<close>.\<close>

definition ctx_Err :: "('db, 'e) env_scheme \<Rightarrow> (('db, 'm) world_scheme, error option) state" where
  "ctx_Err E = State (\<lambda>w. (ctx_done E (tick w), w))"

definition now_unix :: "('db, 'e) env_scheme \<Rightarrow> (('db, 'm) world_scheme, int) state" where
  "now_unix E = State (\<lambda>w. (unix_at E (tick w), w\<lparr>tick := Suc (tick w)\<rparr>))"

definition now_text :: "('db, 'e) env_scheme \<Rightarrow> (('db, 'm) world_scheme, string) state" where
  "now_text E = State (\<lambda>w. (text_time_at E (tick w), w\<lparr>tick := Suc (tick w)\<rparr>))"

definition rand_Read :: "('db, 'e) env_scheme \<Rightarrow> (('db, 'm) world_scheme, nat list) fallible" where
  "rand_Read E = State (\<lambda>w. (rand_at E (tick w), w\<lparr>tick := Suc (tick w)\<rparr>))"

text \<open>\<open>for k := range m\<close> over a map with the keys \<open>ks\<close>: some permutation of them.\<close>

definition range_keys :: "('db, 'e) env_scheme \<Rightarrow> string list \<Rightarrow> (('db, 'm) world_scheme, string list) state" where
  "range_keys E ks = State (\<lambda>w.
     (let p = map_order E (tick w) ks in if mset p = mset ks then p else ks, w\<lparr>tick := Suc (tick w)\<rparr>))"


section \<open>The client package\<close>

text \<open>The fields of a \<open>map[string]interface{}\<close> as go-redis sends them.\<close>

definition wire :: "'db redis \<Rightarrow> (string \<times> rarg) list \<Rightarrow> (string \<times> string) list" where
  "wire R fs = map (\<lambda>(f, a). (f, r_arg R a)) fs"

definition Ping where
  "Ping E = send E (r_ping (server E))"

text \<open>\<open>New\<close>: a client is only handed out once the server has answered.\<close>

definition New where
  "New E addr =
     on_error (Ping E)
       (\<lambda>err. throw (Errorf ''redis unreachable at %s: %w'' [ArgS addr, ArgE err]))
       (\<lambda>_. ok ())"

definition HashSet where
  "HashSet E key fs = send E (r_hset (server E) key (wire (server E) fs))"

definition HashGet where
  "HashGet E key = send E (r_hgetall (server E) key)"

text \<open>A missing field is go-redis's error \<open>redis.Nil\<close>.\<close>

definition HashGetField where
  "HashGetField E key field = do {
     r \<leftarrow> send E (r_hget (server E) key field);
     State_Monad.return (case r of Inl e \<Rightarrow> Inl e | Inr None \<Rightarrow> Inl RedisNil | Inr (Some v) \<Rightarrow> Inr v) }"

definition SetAdd where
  "SetAdd E key member = send E (r_sadd (server E) key member)"

definition SetMembers where
  "SetMembers E key = send E (r_smembers (server E) key)"

definition SetRemove where
  "SetRemove E key member = send E (r_srem (server E) key member)"

definition ListPush where
  "ListPush E key value = send E (r_rpush (server E) key value)"

definition ListTrim where
  "ListTrim E key start stop = send E (r_ltrim (server E) key start stop)"

definition ListRange where
  "ListRange E key start stop = send E (r_lrange (server E) key start stop)"

text \<open>A wait that times out is go-redis's error \<open>redis.Nil\<close>; a reply of BLPOP that is not empty has
  the key and the value, so the length check of the source always passes.\<close>

definition BlockingPop where
  "BlockingPop E key = do {
     r \<leftarrow> send E (r_blpop (server E) key);
     State_Monad.return (case r of Inl e \<Rightarrow> Inl e | Inr None \<Rightarrow> Inl RedisNil | Inr (Some v) \<Rightarrow> Inr v) }"

definition SetKey where
  "SetKey E key value ttl = send E (r_set (server E) key value ttl)"

definition GetKey where
  "GetKey E key = do {
     r \<leftarrow> send E (r_get (server E) key);
     State_Monad.return (case r of Inl e \<Rightarrow> Inl e | Inr None \<Rightarrow> Inl RedisNil | Inr (Some v) \<Rightarrow> Inr v) }"

definition DeleteKey where
  "DeleteKey E keys = send E (r_del (server E) keys)"

definition Exists where
  "Exists E key = send E (r_exists (server E) key)"

definition Expire where
  "Expire E key ttl = send E (r_expire (server E) key ttl)"

definition StreamAppend where
  "StreamAppend E key fs = send E (r_xadd (server E) key fs)"

definition StreamReadReverse where
  "StreamReadReverse E key n = send E (r_xrevrange (server E) key n)"

definition StreamRead where
  "StreamRead E key lastID n = send E (r_xrange (server E) key lastID n)"

definition StreamTrim where
  "StreamTrim E key maxLen = send E (r_xtrim (server E) key maxLen)"

definition Publish where
  "Publish E channel message = send E (r_publish (server E) channel message)"

text \<open>A subscription as a reader of its channel sees it: at each turn of the reader's \<open>select\<close> either the context is done, or the
  channel is closed, or a message arrives. go-redis waits for the server's confirmation; what it reports is the
  second argument. Waiting takes a step of the environment.\<close>

datatype received = CtxDone | ChannelClosed | Message string

definition Subscribe ::
  "string \<Rightarrow> error + received list \<Rightarrow> (('db, 'm) world_scheme, received list) fallible"
where
  "Subscribe channel confirmation = State (\<lambda>w.
     (case confirmation of
        Inl e \<Rightarrow> Inl (Errorf ''subscribe to %s: %w'' [ArgS channel, ArgE e])
      | Inr sub \<Rightarrow> Inr sub, w\<lparr>tick := Suc (tick w)\<rparr>))"

text \<open>EVAL: the server runs the whole script as one command.\<close>

definition EvalScript where
  "EvalScript E script = send E script"

text \<open>The SCAN loop of \<open>ScanKeys\<close>. It may never come back (a server that never answers cursor 0),
  which \<open>ScanKeys\<close> marks with \<open>NeverReturns\<close>.\<close>

partial_function (option) scan_loop ::
  "('db, 'e) env_scheme \<Rightarrow> string \<Rightarrow> nat \<Rightarrow> string list \<Rightarrow> ('db, 'm) world_scheme \<Rightarrow>
   ((error + string list) \<times> ('db, 'm) world_scheme) option"
where
  "scan_loop E pat cur acc w =
     (case run_state (send E (r_scan (server E) cur pat)) w of
        (Inl e, w') \<Rightarrow> Some (Inl e, w')
      | (Inr (ks, c), w') \<Rightarrow>
          if c = 0 then Some (Inr (acc @ ks), w') else scan_loop E pat c (acc @ ks) w')"

definition ScanKeys where
  "ScanKeys E pat = State (\<lambda>w.
     case scan_loop E pat 0 [] w of Some r \<Rightarrow> r | None \<Rightarrow> (Inl NeverReturns, w))"



section \<open>Runs without disturbance\<close>

text \<open>No fault, no other component at work, no cancellation: the setting in which the functional
  properties of the operations are stated.\<close>

definition quiet :: "('db, 'e) env_scheme \<Rightarrow> bool" where
  "quiet E \<longleftrightarrow> (\<forall>n. fault_at E n = Delivered) \<and> (\<forall>n d. interfere E n d = d) \<and> (\<forall>n. ctx_done E n = None)"

lemma run_send_quiet:
  "quiet E \<Longrightarrow> run_state (send E m) w =
     (fst (run_state m (db w)), w\<lparr>tick := Suc (tick w), db := snd (run_state m (db w))\<rparr>)"
  by (simp add: quiet_def send_def split: prod.split)

lemma run_ctx_Err_quiet [simp]: "quiet E \<Longrightarrow> run_state (ctx_Err E) w = (None, w)"
  by (simp add: quiet_def ctx_Err_def)

lemma run_now_unix [simp]:
  "run_state (now_unix E) w = (unix_at E (tick w), w\<lparr>tick := Suc (tick w)\<rparr>)"
  by (simp add: now_unix_def)

lemma run_now_text [simp]:
  "run_state (now_text E) w = (text_time_at E (tick w), w\<lparr>tick := Suc (tick w)\<rparr>)"
  by (simp add: now_text_def)

lemma run_rand_Read [simp]:
  "run_state (rand_Read E) w = (rand_at E (tick w), w\<lparr>tick := Suc (tick w)\<rparr>)"
  by (simp add: rand_Read_def)

lemma run_range_keys: "\<exists>ks'. mset ks' = mset ks \<and> run_state (range_keys E ks) w = (ks', w\<lparr>tick := Suc (tick w)\<rparr>)"
  by (auto simp: range_keys_def Let_def)

lemma scan_loop_quiet:
  assumes "quiet E" "scan_run (server E) (db w) pat cur ks"
  shows "\<exists>n. scan_loop E pat cur acc w = Some (Inr (acc @ ks), w\<lparr>tick := n\<rparr>)"
proof -
  have "db w = d \<Longrightarrow> \<exists>n. scan_loop E pat cur acc w = Some (Inr (acc @ ks), w\<lparr>tick := n\<rparr>)"
    if "scan_run (server E) d pat cur ks" for d w
    using that
  proof (induction arbitrary: acc w rule: scan_run.induct)
    case (last_page cur ks)
    then show ?case
      using assms(1) by (subst scan_loop.simps) (auto simp: run_send_quiet)
  next
    case (next_page cur ks c ks')
    have "\<exists>n. scan_loop E pat c (acc @ ks) (w\<lparr>tick := Suc (tick w)\<rparr>) =
            Some (Inr ((acc @ ks) @ ks'), w\<lparr>tick := Suc (tick w), tick := n\<rparr>)"
      by (rule next_page.IH) (simp add: next_page.prems)
    moreover have "w\<lparr>tick := Suc (tick w), db := db w\<rparr> = w\<lparr>tick := Suc (tick w)\<rparr>" by simp
    ultimately show ?case
      using next_page.hyps next_page.prems assms(1)
      by (subst scan_loop.simps) (auto simp: run_send_quiet)
  qed
  then show ?thesis using assms(2) by blast
qed


section \<open>Keyspaces\<close>

lemma map_fst_wire [simp]: "map fst (wire R fs) = map fst fs"
  by (induction fs) (auto simp: wire_def)

lemma wire_Nil_iff [simp]: "wire R fs = [] \<longleftrightarrow> fs = []"
  by (simp add: wire_def)

lemma wire_simps [simp]:
  "wire R [] = []" "wire R ((f, a) # fs) = (f, r_arg R a) # wire R fs" "wire R (fs @ gs) = wire R fs @ wire R gs"
  by (simp_all add: wire_def)

lemma hash_at_upd [simp]: "hash_at (v(k := x)) k' = (if k' = k then (case x of Some (RHash m) \<Rightarrow> m | _ \<Rightarrow> Map.empty) else hash_at v k')"
  by (simp add: hash_at_def)

lemma is_hash_upd [simp]: "is_hash (v(k := x)) k' = (if k' = k then (case x of None \<Rightarrow> True | Some (RHash _) \<Rightarrow> True | _ \<Rightarrow> False) else is_hash v k')"
  by (simp add: is_hash_def)

lemma put_set_other [simp]: "k' \<noteq> k \<Longrightarrow> put_set v k s k' = v k'"
  by (simp add: put_set_def)

lemma put_list_other [simp]: "k' \<noteq> k \<Longrightarrow> put_list v k s k' = v k'"
  by (simp add: put_list_def)

lemma list_at_put [simp]: "list_at (put_list v k xs) k = xs"
  by (simp add: list_at_def put_list_def)

lemma set_at_put [simp]: "set_at (put_set v k s) k = s"
  by (simp add: set_at_def put_set_def)

lemma is_hashI: "v k = Some (RHash m) \<Longrightarrow> is_hash v k"
  by (simp add: is_hash_def)

text \<open>A property of keyspaces that does not look at a key.\<close>

definition ignores :: "(keyspace \<Rightarrow> bool) \<Rightarrow> string \<Rightarrow> bool" where
  "ignores I k \<longleftrightarrow> (\<forall>v x. I v \<longrightarrow> I (v(k := x)))"

lemma ignoresD: "ignores I k \<Longrightarrow> I v \<Longrightarrow> I (v(k := x))"
  by (simp add: ignores_def)

lemma ignores_put_set: "ignores I k \<Longrightarrow> I v \<Longrightarrow> I (put_set v k s)"
  by (simp add: put_set_def ignoresD)

lemma ignores_put_list: "ignores I k \<Longrightarrow> I v \<Longrightarrow> I (put_list v k s)"
  by (simp add: put_list_def ignoresD)

lemma ignores_del:
  assumes "\<And>k. k \<in> set ks \<Longrightarrow> ignores I k" "I v"
  shows "I (\<lambda>k. if k \<in> set ks then None else v k)"
  using assms
proof (induction ks arbitrary: v)
  case (Cons a ks)
  have "I (v(a := None))" using Cons.prems by (simp add: ignoresD)
  then have "I (\<lambda>k. if k \<in> set ks then None else (v(a := None)) k)"
    using Cons.IH[of "v(a := None)"] Cons.prems(1) by (simp del: fun_upd_apply)
  moreover have "(\<lambda>k. if k \<in> set ks then None else (v(a := None)) k) =
                 (\<lambda>k. if k \<in> set (a # ks) then None else v k)" by auto
  ultimately show ?case by simp
qed simp


section \<open>What the client calls do under the contract\<close>

context redis_server
begin

lemma hgetall_map:
  assumes "run_state (r_hgetall R k) d = (r, d')"
  shows "d' = d \<and> (r = Inr fs \<longrightarrow> is_hash (view d) k \<and> map_of fs = hash_at (view d) k \<and> distinct (map fst fs))"
  using hgetall[of d k] hgetall_wrong[of d k] assms by (cases "is_hash (view d) k") auto

lemma hget_same: "run_state (r_hget R k f) d = (r, d') \<Longrightarrow> d' = d"
  using hget[of d k f] hget_wrong[of d k f] by (cases "is_hash (view d) k") auto

lemma smembers_same: "run_state (r_smembers R k) d = (r, d') \<Longrightarrow> d' = d"
  using smembers[of d k] smembers_wrong[of d k] by (cases "is_set (view d) k") auto

lemma lrange_same: "run_state (r_lrange R k i j) d = (r, d') \<Longrightarrow> d' = d"
  using lrange[of d k i j] lrange_wrong[of d k i j] by (cases "is_list (view d) k") auto

lemma scan_same: "run_state (r_scan R cur pat) d = (r, d') \<Longrightarrow> d' = d"
  using scan_page[of cur pat d] by auto

lemma scan_run_path: "scan_run R d pat cur ks \<Longrightarrow> scan_path R view (dom (view d)) pat cur ks"
  by (induction rule: scan_run.induct) (auto intro: scan_path.intros)

lemma scan_run_exists: "scan_ends R view K pat cur \<Longrightarrow> dom (view d) = K \<Longrightarrow> \<exists>ks. scan_run R d pat cur ks"
proof (induction rule: scan_ends.induct)
  case (scan_endsI cur)
  obtain ks c where page: "run_state (r_scan R cur pat) d = (Inr (ks, c), d)" using scan_page by blast
  show ?case
  proof (cases "c = 0")
    case True
    with page show ?thesis by (auto intro: scan_run.last_page)
  next
    case False
    with scan_endsI.IH[OF scan_endsI.prems page] scan_endsI.prems page show ?thesis by (blast intro: scan_run.next_page)
  qed
qed

lemma scan_all:
  assumes "plain_pattern pat"
  shows "\<exists>ks. scan_run R d pat 0 ks \<and> set ks = {k. view d k \<noteq> None \<and> glob pat k}"
proof -
  obtain ks where "scan_run R d pat 0 ks" using scan_run_exists[OF scan_terminates[OF assms]] by blast
  with scan_complete[OF assms scan_run_path[OF this]] show ?thesis by auto
qed

text \<open>The effect of each command as equations on the view and on the reply.\<close>

lemma view_sadd: "view (snd (run_state (r_sadd R k x) d)) =
    (if is_set (view d) k then put_set (view d) k (insert x (set_at (view d) k)) else view d)"
  using sadd[of k x d, OF prod.collapse[symmetric]] by (auto split: if_splits)

lemma view_srem: "view (snd (run_state (r_srem R k x) d)) =
    (if is_set (view d) k then put_set (view d) k (set_at (view d) k - {x}) else view d)"
  using srem[of k x d, OF prod.collapse[symmetric]] by (auto split: if_splits)

lemma view_rpush: "view (snd (run_state (r_rpush R k x) d)) =
    (if is_list (view d) k then put_list (view d) k (list_at (view d) k @ [x]) else view d)"
  using rpush[of k x d, OF prod.collapse[symmetric]] by (auto split: if_splits)

lemma view_ltrim: "view (snd (run_state (r_ltrim R k i j) d)) =
    (if is_list (view d) k then put_list (view d) k (index_range (list_at (view d) k) i j) else view d)"
  using ltrim[of k i j d, OF prod.collapse[symmetric]] by (auto split: if_splits)

lemma view_set: "view (snd (run_state (r_set R k x t) d)) = (view d)(k \<mapsto> RStr x)"
  using set_key[of k x t d, OF prod.collapse[symmetric]] by simp

lemma view_del: "view (snd (run_state (r_del R ks) d)) = (\<lambda>k. if k \<in> set ks then None else view d k)"
  using del[of ks d, OF prod.collapse[symmetric]] by simp

lemma view_expire: "view (snd (run_state (r_expire R k t) d)) = view d"
  using expire[of k t d, OF prod.collapse[symmetric]] by simp

lemma view_publish: "view (snd (run_state (r_publish R c x) d)) = view d"
  using publish[of c x d, OF prod.collapse[symmetric]] by simp

lemma view_xadd: "\<exists>y. view (snd (run_state (r_xadd R k fs) d)) = (view d)(k := y)"
  using xadd[of k fs d, OF prod.collapse[symmetric]]
  by (auto split: if_splits intro: exI[of _ "view d k"])

lemma view_hset: "fs \<noteq> [] \<Longrightarrow> distinct (map fst fs) \<Longrightarrow> view (snd (run_state (r_hset R k fs) d)) =
    (if is_hash (view d) k then (view d)(k \<mapsto> RHash (hash_at (view d) k ++ map_of fs)) else view d)"
  using hset[of fs k d, OF _ _ prod.collapse[symmetric]] by (auto split: if_splits)

lemmas views = view_sadd view_srem view_rpush view_ltrim view_set view_del view_expire view_publish

lemma reply_hset: "fs \<noteq> [] \<Longrightarrow> distinct (map fst fs) \<Longrightarrow> is_hash (view d) k \<Longrightarrow>
    fst (run_state (r_hset R k fs) d) = Inr ()"
  using hset[of fs k d, OF _ _ prod.collapse[symmetric]] by auto

lemma reply_rpush: "is_list (view d) k \<Longrightarrow> fst (run_state (r_rpush R k x) d) = Inr ()"
  using rpush[of k x d, OF prod.collapse[symmetric]] by auto

lemma reply_sadd: "is_set (view d) k \<Longrightarrow> fst (run_state (r_sadd R k x) d) = Inr ()"
  using sadd[of k x d, OF prod.collapse[symmetric]] by auto

lemma reply_del: "fst (run_state (r_del R ks) d) = Inr ()"
  using del[of ks d, OF prod.collapse[symmetric]] by simp

lemma reply_set: "fst (run_state (r_set R k x t) d) = Inr ()"
  using set_key[of k x t d, OF prod.collapse[symmetric]] by simp

lemma reply_publish: "fst (run_state (r_publish R c x) d) = Inr ()"
  using publish[of c x d, OF prod.collapse[symmetric]] by simp

lemmas replies = reply_hset reply_rpush reply_sadd reply_del reply_set reply_publish

lemma map_of_empty_hash: "map_of fs = hash_at (view d) k \<Longrightarrow> is_hash (view d) k \<Longrightarrow> fs = [] \<longleftrightarrow> view d k = None"
  using no_empty_hash[of d k]
  by (auto simp: hash_at_def is_hash_def split: option.splits rvalue.splits)

end

text \<open>
  An invariant of the keyspace under interference: the environment's own steps keep it. Then every
  client call keeps it, whatever faults occur, provided the call's effect does; that premise is
  trivial for reads and for writes to keys the invariant does not look at.
\<close>

locale guarded = redis_server R view for R :: "'db redis" and view +
  fixes E :: "('db, 'e) env_scheme" and I :: "keyspace \<Rightarrow> bool"
  assumes server_R: "server E = R"
    and stable: "I (view d) \<Longrightarrow> I (view (interfere E n d))"
begin

definition J :: "('db, 'm) world_scheme \<Rightarrow> bool" where
  "J w \<longleftrightarrow> I (view (db w))"

lemma resend_keeps:
  assumes "\<And>d. I (view d) \<Longrightarrow> I (view (snd (run_state m d)))" "I (view d)"
  shows "I (view (resend E t m n d))"
  using assms(2) by (induction n arbitrary: d) (auto intro!: stable assms(1))

lemma ensures_send:
  assumes "\<And>d r d'. I (view d) \<Longrightarrow> run_state m d = (r, d') \<Longrightarrow> I (view d') \<and> Q r" "\<And>e. Q (Inl e)"
  shows "ensures J (send E m) Q"
proof (rule ensuresI)
  fix w :: "('db, 'b) world_scheme"
  assume "J w"
  then have i: "I (view (interfere E (tick w) (db w)))" using stable by (simp add: J_def)
  have m: "I (view d) \<Longrightarrow> I (view (snd (run_state m d))) \<and> Q (fst (run_state m d))" for d
    using assms(1)[OF _ prod.collapse[symmetric]] by blast
  have "I (view (resend E (tick w) m n (interfere E (tick w) (db w))))" for n
    using m i by (intro resend_keeps) auto
  with m i assms(2) show "J (snd (run_state (send E m) w)) \<and> Q (fst (run_state (send E m) w))"
    by (auto simp: J_def send_def Let_def split: fault.split option.split prod.split; metis fst_conv snd_conv)
qed

lemma keeps_send:
  "(\<And>d. I (view d) \<Longrightarrow> I (view (snd (run_state m d)))) \<Longrightarrow> keeps J (send E m)"
  unfolding keeps_iff_ensures by (rule ensures_send) (metis snd_conv)+

lemma keeps_send_read: "(\<And>d. snd (run_state m d) = d) \<Longrightarrow> keeps J (send E m)"
  by (rule keeps_send) simp

text \<open>What a read finds is in a state that satisfies the invariant.\<close>

lemma ensures_HashGet:
  assumes "\<And>v. I v \<Longrightarrow> is_hash v k \<Longrightarrow> Q (hash_at v k)"
  shows "ensures J (HashGet E k) (\<lambda>r. \<forall>fs. r = Inr fs \<longrightarrow> Q (map_of fs))"
  unfolding HashGet_def server_R
proof (rule ensures_send)
  fix d r d'
  assume "I (view d)" "run_state (r_hgetall R k) d = (r, d')"
  then show "I (view d') \<and> (\<forall>fs. r = Inr fs \<longrightarrow> Q (map_of fs))"
    using hgetall_map[of k d r d'] assms[of "view d"] by auto
qed simp

lemma ensures_scan:
  "ensures J (send E (r_scan R cur pat))
     (\<lambda>r. \<forall>ks c. r = Inr (ks, c) \<longrightarrow> (\<forall>k \<in> set ks. HasPrefix k (literal_prefix pat)))"
  by (rule ensures_send) (auto dest: scan_same scan_prefix)

lemma keeps_clock [keeps_intros]:
  "keeps J (ctx_Err E)" "keeps J (now_unix E)" "keeps J (now_text E)" "keeps J (rand_Read E)"
  "keeps J (range_keys E ks)"
  by (simp_all add: keeps_def J_def ctx_Err_def range_keys_def)

lemma keeps_reads [keeps_intros]:
  "keeps J (HashGet E k)" "keeps J (SetMembers E k)" "keeps J (Exists E k)" "keeps J (ListRange E k i j)"
  unfolding HashGet_def SetMembers_def Exists_def ListRange_def server_R
  using hgetall_map[OF prod.collapse[symmetric]] smembers_same[OF prod.collapse[symmetric]]
    lrange_same[OF prod.collapse[symmetric]]
  by (auto intro!: keeps_send_read simp: exists)

lemma keeps_Ping [keeps_intros]: "keeps J (Ping E)" "keeps J (New E addr)"
proof -
  show p: "keeps J (Ping E)" unfolding Ping_def server_R by (rule keeps_send_read) (simp add: ping)
  show "keeps J (New E addr)" unfolding New_def by (intro keeps_on_error keeps_return p)
qed

lemma keeps_HashSet:
  "ignores I k \<Longrightarrow> fs \<noteq> [] \<Longrightarrow> distinct (map fst fs) \<Longrightarrow> keeps J (HashSet E k fs)"
  unfolding HashSet_def server_R by (rule keeps_send) (simp add: view_hset ignoresD)

lemma keeps_writes [keeps_intros]:
  assumes "ignores I k"
  shows "keeps J (SetAdd E k x)" "keeps J (SetRemove E k x)" "keeps J (ListPush E k x)"
    "keeps J (ListTrim E k i j)" "keeps J (SetKey E k x t)"
  unfolding SetAdd_def SetRemove_def ListPush_def ListTrim_def SetKey_def server_R
  using assms
  by (auto intro!: keeps_send simp: views ignores_put_set ignores_put_list ignoresD)

lemma keeps_StreamAppend [keeps_intros]: "ignores I k \<Longrightarrow> keeps J (StreamAppend E k fs)"
  unfolding StreamAppend_def server_R
  by (rule keeps_send) (metis view_xadd ignoresD)

lemma keeps_view_same [keeps_intros]: "keeps J (Publish E c x)" "keeps J (Expire E k t)"
  unfolding Publish_def Expire_def server_R by (auto intro!: keeps_send simp: views)

lemma keeps_DeleteKey [keeps_intros]:
  "(\<And>k. k \<in> set ks \<Longrightarrow> ignores I k) \<Longrightarrow> keeps J (DeleteKey E ks)"
  unfolding DeleteKey_def server_R by (rule keeps_send) (simp add: view_del ignores_del)

lemma scan_loop_keeps:
  assumes "scan_loop E pat cur acc w = Some (r, w')" "J w" "\<forall>k \<in> set acc. HasPrefix k (literal_prefix pat)"
  shows "J w' \<and> (\<forall>ks. r = Inr ks \<longrightarrow> (\<forall>k \<in> set ks. HasPrefix k (literal_prefix pat)))"
proof -
  let ?A = "\<lambda>pat ks. \<forall>k \<in> set ks. HasPrefix k (literal_prefix pat)"
  let ?P = "\<lambda>E' pat acc w p. E' = E \<longrightarrow> J w \<longrightarrow> ?A pat acc \<longrightarrow> J (snd p) \<and> (\<forall>ks. fst p = Inr ks \<longrightarrow> ?A pat ks)"
  have "?P E pat acc w (r, w')"
  proof (rule scan_loop.raw_induct[where P = "\<lambda>E' pat cur acc w p. ?P E' pat acc w p"])
    show "scan_loop E pat cur acc w = Some (r, w')" by (rule assms(1))
  next
    fix f E' pat cur acc w p
    assume IH: "\<And>E' pat cur acc w p. f E' pat cur acc w = Some p \<Longrightarrow> ?P E' pat acc w p"
      and eq: "(case run_state (send E' (r_scan (server E') cur pat)) w of
          (Inl e, w') \<Rightarrow> Some (Inl e, w')
        | (Inr (ks, c), w') \<Rightarrow> if c = 0 then Some (Inr (acc @ ks), w') else f E' pat c (acc @ ks) w') = Some p"
    show "?P E' pat acc w p"
    proof (intro impI)
      assume E': "E' = E" and w: "J w" and acc: "?A pat acc"
      obtain q w1 where q: "run_state (send E (r_scan R cur pat)) w = (q, w1)" by fastforce
      have w1: "J w1" and new: "\<And>ks c. q = Inr (ks, c) \<Longrightarrow> ?A pat ks"
        using ensuresE[OF ensures_scan w q] by auto
      show "J (snd p) \<and> (\<forall>ks. fst p = Inr ks \<longrightarrow> ?A pat ks)"
      proof (cases q)
        case (Inl e)
        with eq q E' w1 show ?thesis by (auto simp: server_R)
      next
        case (Inr kc)
        obtain ks c where kc: "kc = (ks, c)" by fastforce
        have all: "?A pat (acc @ ks)" using acc new Inr kc by auto
        have "?P E pat (acc @ ks) w1 p" if "f E pat c (acc @ ks) w1 = Some p" using IH[OF that] .
        with eq q E' w1 all Inr kc show ?thesis by (auto simp: server_R split: if_splits)
      qed
    qed
  qed
  with assms show ?thesis by simp
qed

lemma ensures_ScanKeys:
  "ensures J (ScanKeys E pat) (\<lambda>r. \<forall>ks. r = Inr ks \<longrightarrow> (\<forall>k \<in> set ks. HasPrefix k (literal_prefix pat)))"
proof (rule ensuresI)
  fix w :: "('db, 'b) world_scheme"
  assume "J w"
  then show "J (snd (run_state (ScanKeys E pat) w)) \<and> (\<forall>ks. fst (run_state (ScanKeys E pat) w) = Inr ks \<longrightarrow>
      (\<forall>k \<in> set ks. HasPrefix k (literal_prefix pat)))"
    using scan_loop_keeps[of pat 0 "[]" w, OF _ \<open>J w\<close>]
    by (auto simp: ScanKeys_def split: option.split)
qed

lemma keeps_ScanKeys [keeps_intros]: "keeps J (ScanKeys E pat)"
  by (rule ensures_keeps[OF ensures_ScanKeys])

end

end
