(* ===== verification/RedisMem.thy ===== *)
theory RedisMem
  imports Redis "HOL-Library.AList"
begin

text \<open>
  An executable server that keeps the database as an association list, and the proof that it meets
  the contract \<open>redis_server\<close>. The witnesses of the development run on it. A newer binding of a key
  shadows an older one; an empty hash, set or list counts as an absent key.
\<close>

datatype mval = MHash "(string \<times> string) list" | MSet "string list" | MList "string list"
  | MStr string | MStream "(string \<times> (string \<times> string) list) list"

type_synonym mem = "(string \<times> mval option) list"

fun mval_view :: "mval \<Rightarrow> rvalue option" where
  "mval_view (MHash fs) = (if fs = [] then None else Some (RHash (map_of fs)))"
| "mval_view (MSet xs) = (if xs = [] then None else Some (RSet (set xs)))"
| "mval_view (MList xs) = (if xs = [] then None else Some (RList xs))"
| "mval_view (MStr s) = Some (RStr s)"
| "mval_view (MStream es) = Some (RStream es)"

definition mem_get :: "mem \<Rightarrow> string \<Rightarrow> mval option" where
  "mem_get d k = (case map_of d k of Some (Some v) \<Rightarrow> (if mval_view v = None then None else Some v) | _ \<Rightarrow> None)"

definition mem_view :: "mem \<Rightarrow> keyspace" where
  "mem_view d k = (case mem_get d k of None \<Rightarrow> None | Some v \<Rightarrow> mval_view v)"

definition mem_put :: "string \<Rightarrow> mval \<Rightarrow> mem \<Rightarrow> mem" where
  "mem_put k v d = (k, Some v) # d"

definition wrong_type :: error where
  "wrong_type = Errorf ''WRONGTYPE Operation against a key holding the wrong kind of value'' []"

definition m_hash :: "string \<Rightarrow> ((string \<times> string) list \<Rightarrow> mem \<Rightarrow> (error + 'a) \<times> mem) \<Rightarrow> (mem, 'a) fallible" where
  "m_hash k f = State (\<lambda>d. case mem_get d k of
     None \<Rightarrow> f [] d | Some (MHash fs) \<Rightarrow> f fs d | _ \<Rightarrow> (Inl wrong_type, d))"

definition m_set :: "string \<Rightarrow> (string list \<Rightarrow> mem \<Rightarrow> (error + 'a) \<times> mem) \<Rightarrow> (mem, 'a) fallible" where
  "m_set k f = State (\<lambda>d. case mem_get d k of
     None \<Rightarrow> f [] d | Some (MSet xs) \<Rightarrow> f xs d | _ \<Rightarrow> (Inl wrong_type, d))"

definition m_list :: "string \<Rightarrow> (string list \<Rightarrow> mem \<Rightarrow> (error + 'a) \<times> mem) \<Rightarrow> (mem, 'a) fallible" where
  "m_list k f = State (\<lambda>d. case mem_get d k of
     None \<Rightarrow> f [] d | Some (MList xs) \<Rightarrow> f xs d | _ \<Rightarrow> (Inl wrong_type, d))"

definition m_stream :: "string \<Rightarrow> ((string \<times> (string \<times> string) list) list \<Rightarrow> mem \<Rightarrow> (error + 'a) \<times> mem) \<Rightarrow> (mem, 'a) fallible" where
  "m_stream k f = State (\<lambda>d. case mem_get d k of
     None \<Rightarrow> f [] d | Some (MStream es) \<Rightarrow> f es d | _ \<Rightarrow> (Inl wrong_type, d))"

definition mem_arg :: "rarg \<Rightarrow> string" where
  "mem_arg a = (case a of VStr s \<Rightarrow> s | VInt n \<Rightarrow> Itoa n)"

definition m_hincr :: "string \<Rightarrow> string \<Rightarrow> string \<Rightarrow> (string \<times> string) list \<Rightarrow> mem \<Rightarrow> (error + unit) \<times> mem" where
  "m_hincr k f s fs d =
     (case (ParseInt (case map_of fs f of None \<Rightarrow> ''0'' | Some t \<Rightarrow> t), ParseInt s) of
        (Some n, Some m) \<Rightarrow>
          if in_int64 (n + m) then (Inr (), mem_put k (MHash ((f, Itoa (n + m)) # fs)) d)
          else (Inl wrong_type, d)
      | _ \<Rightarrow> (Inl wrong_type, d))"

definition mem_redis :: "mem redis" where
  "mem_redis = \<lparr>
     r_ping = State_Monad.return (Inr ()),
     r_exists = (\<lambda>k. State (\<lambda>d. (Inr (mem_get d k \<noteq> None), d))),
     r_hgetall = (\<lambda>k. m_hash k (\<lambda>fs d. (Inr (AList.clearjunk fs), d))),
     r_hget = (\<lambda>k f. m_hash k (\<lambda>fs d. (Inr (map_of fs f), d))),
     r_hset = (\<lambda>k new. m_hash k (\<lambda>fs d.
       if new = [] then (Inl wrong_type, d) else (Inr (), mem_put k (MHash (new @ fs)) d))),
     r_hincrby = (\<lambda>k f s. m_hash k (m_hincr k f s)),
     r_sadd = (\<lambda>k x. m_set k (\<lambda>xs d. (Inr (), mem_put k (MSet (x # xs)) d))),
     r_srem = (\<lambda>k x. m_set k (\<lambda>xs d. (Inr (), mem_put k (MSet (removeAll x xs)) d))),
     r_smembers = (\<lambda>k. m_set k (\<lambda>xs d. (Inr (remdups xs), d))),
     r_rpush = (\<lambda>k x. m_list k (\<lambda>xs d. (Inr (), mem_put k (MList (xs @ [x])) d))),
     r_ltrim = (\<lambda>k i j. m_list k (\<lambda>xs d. (Inr (), mem_put k (MList (index_range xs i j)) d))),
     r_lrange = (\<lambda>k i j. m_list k (\<lambda>xs d. (Inr (index_range xs i j), d))),
     r_blpop = (\<lambda>k. m_list k (\<lambda>xs d.
       case xs of [] \<Rightarrow> (Inr None, d) | x # xs' \<Rightarrow> (Inr (Some x), mem_put k (MList xs') d))),
     r_set = (\<lambda>k x ttl. State (\<lambda>d. (Inr (), mem_put k (MStr x) d))),
     r_get = (\<lambda>k. State (\<lambda>d. case mem_get d k of
       None \<Rightarrow> (Inr None, d) | Some (MStr s) \<Rightarrow> (Inr (Some s), d) | _ \<Rightarrow> (Inl wrong_type, d))),
     r_del = (\<lambda>ks. State (\<lambda>d. (Inr (), map (\<lambda>k. (k, None)) ks @ d))),
     r_expire = (\<lambda>k ttl. State_Monad.return (Inr ())),
     r_scan = (\<lambda>cur pat. State (\<lambda>d.
       (Inr (filter (\<lambda>k. mem_get d k \<noteq> None \<and> glob pat k) (remdups (map fst d)), 0), d))),
     r_xadd = (\<lambda>k fs. m_stream k (\<lambda>es d.
       (Inr (), mem_put k (MStream (es @ [(Itoa (int (Suc (length es))) @ ''-0'', fs)])) d))),
     r_xrevrange = (\<lambda>k n. m_stream k (\<lambda>es d. (Inr (take (nat n) (rev es)), d))),
     r_xrange = (\<lambda>k i n. m_stream k (\<lambda>es d. (Inr (take (nat n) (from_id i es)), d))),
     r_xtrim = (\<lambda>k n. m_stream k (\<lambda>es d.
       (Inr (), if mem_get d k = None then d else mem_put k (MStream (drop (length es - nat n) es)) d))),
     r_publish = (\<lambda>c x. State_Monad.return (Inr ())),
     r_arg = mem_arg,
     r_tonumber = (\<lambda>s. map_option (\<lambda>n. fl (of_int n)) (ParseInt s)),
     r_tostring = (\<lambda>q. Itoa (floor q)) \<rparr>"

lemma mem_view_put [simp]: "mem_view (mem_put k v d) = (mem_view d)(k := mval_view v)"
  by (auto simp: mem_view_def mem_get_def mem_put_def)

lemma mem_get_view: "mem_get d k = None \<longleftrightarrow> mem_view d k = None"
  by (auto simp: mem_view_def mem_get_def split: option.splits if_splits)

lemma mem_get_Some: "mem_get d k = Some v \<Longrightarrow> mem_view d k = mval_view v \<and> mval_view v \<noteq> None"
  by (auto simp: mem_view_def mem_get_def split: option.splits if_splits)

lemma mem_get_cases:
  obtains "mem_get d k = None" "mem_view d k = None"
  | fs where "fs \<noteq> []" "mem_get d k = Some (MHash fs)" "mem_view d k = Some (RHash (map_of fs))"
  | xs where "xs \<noteq> []" "mem_get d k = Some (MSet xs)" "mem_view d k = Some (RSet (set xs))"
  | xs where "xs \<noteq> []" "mem_get d k = Some (MList xs)" "mem_view d k = Some (RList xs)"
  | s where "mem_get d k = Some (MStr s)" "mem_view d k = Some (RStr s)"
  | es where "mem_get d k = Some (MStream es)" "mem_view d k = Some (RStream es)"
proof (cases "mem_get d k")
  case None
  then show thesis using that(1) by (simp add: mem_get_view)
next
  case (Some v)
  then show thesis using that(2-6) mem_get_Some[OF Some] by (cases v) (auto split: if_splits)
qed

lemma mem_hash_cases:
  "is_hash (mem_view d) k \<Longrightarrow> \<exists>fs. run_state (m_hash k f) d = f fs d \<and> map_of fs = hash_at (mem_view d) k"
  "\<not> is_hash (mem_view d) k \<Longrightarrow> run_state (m_hash k f) d = (Inl wrong_type, d)"
  by (cases rule: mem_get_cases[of d k]; auto simp: m_hash_def is_hash_def hash_at_def)+

lemma mem_set_cases:
  "is_set (mem_view d) k \<Longrightarrow> \<exists>xs. run_state (m_set k f) d = f xs d \<and> set xs = set_at (mem_view d) k"
  "\<not> is_set (mem_view d) k \<Longrightarrow> run_state (m_set k f) d = (Inl wrong_type, d)"
  by (cases rule: mem_get_cases[of d k]; auto simp: m_set_def is_set_def set_at_def)+

lemma mem_list_cases:
  "is_list (mem_view d) k \<Longrightarrow> run_state (m_list k f) d = f (list_at (mem_view d) k) d"
  "\<not> is_list (mem_view d) k \<Longrightarrow> run_state (m_list k f) d = (Inl wrong_type, d)"
  by (cases rule: mem_get_cases[of d k]; auto simp: m_list_def is_list_def list_at_def)+

lemma mem_stream_cases:
  "is_stream (mem_view d) k \<Longrightarrow> run_state (m_stream k f) d = f (stream_at (mem_view d) k) d"
  "\<not> is_stream (mem_view d) k \<Longrightarrow> run_state (m_stream k f) d = (Inl wrong_type, d)"
  by (cases rule: mem_get_cases[of d k]; auto simp: m_stream_def is_stream_def stream_at_def)+


lemma mem_scan_set:
  "set (filter (\<lambda>k. mem_get d k \<noteq> None \<and> glob pat k) (remdups (map fst d))) = {k. mem_view d k \<noteq> None \<and> glob pat k}"
proof -
  have "k \<in> fst ` set d" if "mem_view d k \<noteq> None" for k
    using that by (auto simp: mem_view_def mem_get_def map_of_eq_None_iff split: option.splits)
      (metis domI dom_map_of_conv_image_fst)
  then show ?thesis by (auto simp: mem_get_view)
qed

lemma mem_view_del: "mem_view (map (\<lambda>k. (k, None)) ks @ d) = (\<lambda>k. if k \<in> set ks then None else mem_view d k)"
  by (induction ks) (auto simp: mem_view_def mem_get_def fun_eq_iff)

lemma removeAll_Nil_iff: "removeAll x xs = [] \<longleftrightarrow> set xs - {x} = {}"
  by (metis set_empty set_removeAll)

lemma glob_prefix: "glob pat k \<Longrightarrow> HasPrefix k (literal_prefix pat)"
proof (induction pat k rule: glob.induct)
  case (3 p ps c cs)
  then show ?case by (cases "p = CHR ''*''") (auto simp: literal_prefix_def HasPrefix_def)
qed (auto simp: literal_prefix_def HasPrefix_def)

interpretation mem: redis_server mem_redis mem_view
proof
  fix d k
  show "mem_view d k \<noteq> Some (RHash Map.empty)"
    by (cases rule: mem_get_cases[of d k]) auto
next
  fix k d
  show "run_state (r_exists mem_redis k) d = (Inr (mem_view d k \<noteq> None), d)"
    by (simp add: mem_redis_def mem_get_view)
next
  fix d k
  assume "is_hash (mem_view d) k"
  then show "\<exists>fs. run_state (r_hgetall mem_redis k) d = (Inr fs, d) \<and> map_of fs = hash_at (mem_view d) k \<and> distinct (map fst fs)"
    using mem_hash_cases(1)[of d k "\<lambda>fs d. (Inr (AList.clearjunk fs), d)"]
    by (auto simp: mem_redis_def map_of_clearjunk distinct_clearjunk)
next
  fix d k
  assume "\<not> is_hash (mem_view d) k"
  then show "\<exists>e. run_state (r_hgetall mem_redis k) d = (Inl e, d)"
    by (simp add: mem_redis_def mem_hash_cases)
next
  fix d k f
  assume "is_hash (mem_view d) k"
  then show "run_state (r_hget mem_redis k f) d = (Inr (hash_at (mem_view d) k f), d)"
    using mem_hash_cases(1)[of d k "\<lambda>fs d. (Inr (map_of fs f), d)"] by (auto simp: mem_redis_def)
next
  fix d k f
  assume "\<not> is_hash (mem_view d) k"
  then show "\<exists>e. run_state (r_hget mem_redis k f) d = (Inl e, d)"
    by (simp add: mem_redis_def mem_hash_cases)
next
  fix fs :: "(string \<times> string) list" and k d r d'
  assume "fs \<noteq> []" "run_state (r_hset mem_redis k fs) d = (r, d')"
  then show "if is_hash (mem_view d) k
      then r = Inr () \<and> mem_view d' = (mem_view d)(k \<mapsto> RHash (hash_at (mem_view d) k ++ map_of fs))
      else isl r \<and> mem_view d' = mem_view d"
    using mem_hash_cases[of d k "\<lambda>old d. if fs = [] then (Inl wrong_type, d) else (Inr (), mem_put k (MHash (fs @ old)) d)"]
    by (auto simp: mem_redis_def)
next
  fix d k f n m r d'
  assume a: "hash_at (mem_view d) k f = Some (Itoa n)" "in_int64 n" "in_int64 m" "in_int64 (n + m)"
    "run_state (r_hincrby mem_redis k f (Itoa m)) d = (r, d')"
  then have "is_hash (mem_view d) k" by (auto simp: hash_at_def is_hash_def split: option.splits rvalue.splits)
  from mem_hash_cases(1)[OF this, of "m_hincr k f (Itoa m)"] a
  show "r = Inr () \<and> mem_view d' = (mem_view d)(k \<mapsto> RHash ((hash_at (mem_view d) k)(f \<mapsto> Itoa (n + m))))"
    by (auto simp: mem_redis_def m_hincr_def)
next
  fix k x d r d'
  assume "run_state (r_sadd mem_redis k x) d = (r, d')"
  then show "if is_set (mem_view d) k
      then r = Inr () \<and> mem_view d' = put_set (mem_view d) k (insert x (set_at (mem_view d) k))
      else isl r \<and> mem_view d' = mem_view d"
    using mem_set_cases[of d k "\<lambda>xs d. (Inr (), mem_put k (MSet (x # xs)) d)"]
    by (auto simp: mem_redis_def put_set_def)
next
  fix k x d r d'
  assume "run_state (r_srem mem_redis k x) d = (r, d')"
  then show "if is_set (mem_view d) k
      then r = Inr () \<and> mem_view d' = put_set (mem_view d) k (set_at (mem_view d) k - {x})
      else isl r \<and> mem_view d' = mem_view d"
    using mem_set_cases[of d k "\<lambda>xs d. (Inr (), mem_put k (MSet (removeAll x xs)) d)"]
    by (auto simp: mem_redis_def put_set_def removeAll_Nil_iff subset_iff)
next
  fix d k
  assume "is_set (mem_view d) k"
  then show "\<exists>xs. run_state (r_smembers mem_redis k) d = (Inr xs, d) \<and> set xs = set_at (mem_view d) k \<and> distinct xs"
    using mem_set_cases(1)[of d k "\<lambda>xs d. (Inr (remdups xs), d)"] by (auto simp: mem_redis_def)
next
  fix d k
  assume "\<not> is_set (mem_view d) k"
  then show "\<exists>e. run_state (r_smembers mem_redis k) d = (Inl e, d)"
    by (simp add: mem_redis_def mem_set_cases)
next
  fix k x d r d'
  assume "run_state (r_rpush mem_redis k x) d = (r, d')"
  then show "if is_list (mem_view d) k
      then r = Inr () \<and> mem_view d' = put_list (mem_view d) k (list_at (mem_view d) k @ [x])
      else isl r \<and> mem_view d' = mem_view d"
    by (auto simp: mem_redis_def put_list_def mem_list_cases)
next
  fix k i j d r d'
  assume "run_state (r_ltrim mem_redis k i j) d = (r, d')"
  then show "if is_list (mem_view d) k
      then r = Inr () \<and> mem_view d' = put_list (mem_view d) k (index_range (list_at (mem_view d) k) i j)
      else isl r \<and> mem_view d' = mem_view d"
    by (auto simp: mem_redis_def put_list_def mem_list_cases)
next
  fix d k i j
  assume "is_list (mem_view d) k"
  then show "run_state (r_lrange mem_redis k i j) d = (Inr (index_range (list_at (mem_view d) k) i j), d)"
    by (simp add: mem_redis_def mem_list_cases)
next
  fix d k i j
  assume "\<not> is_list (mem_view d) k"
  then show "\<exists>e. run_state (r_lrange mem_redis k i j) d = (Inl e, d)"
    by (simp add: mem_redis_def mem_list_cases)
next
  fix k d p d'
  assume "run_state (r_blpop mem_redis k) d = (p, d')"
  then show "if is_list (mem_view d) k
      then (case list_at (mem_view d) k of
              [] \<Rightarrow> p = Inr None \<and> mem_view d' = mem_view d
            | x # xs \<Rightarrow> p = Inr (Some x) \<and> mem_view d' = put_list (mem_view d) k xs)
      else isl p \<and> mem_view d' = mem_view d"
    by (auto simp: mem_redis_def put_list_def mem_list_cases split: list.splits)
next
  fix k x ttl d r d'
  assume "run_state (r_set mem_redis k x ttl) d = (r, d')"
  then show "r = Inr () \<and> mem_view d' = (mem_view d)(k \<mapsto> RStr x)" by (auto simp: mem_redis_def)
next
  fix ks d r d'
  assume "run_state (r_del mem_redis ks) d = (r, d')"
  then show "r = Inr () \<and> mem_view d' = (\<lambda>k. if k \<in> set ks then None else mem_view d k)"
    by (auto simp: mem_redis_def mem_view_del)
next
  fix k ttl d r d'
  assume "run_state (r_expire mem_redis k ttl) d = (r, d')"
  then show "r = Inr () \<and> mem_view d' = mem_view d" by (auto simp: mem_redis_def)
next
  fix cur pat d
  show "\<exists>ks c. run_state (r_scan mem_redis cur pat) d = (Inr (ks, c), d)" by (simp add: mem_redis_def)
next
  fix cur pat d ks c d' k
  assume "run_state (r_scan mem_redis cur pat) d = (Inr (ks, c), d')" "k \<in> set ks"
  then show "HasPrefix k (literal_prefix pat)" by (auto simp: mem_redis_def intro: glob_prefix)
next
  fix pat d
  show "scan_ends mem_redis mem_view (dom (mem_view d)) pat 0"
    by (rule scan_ends.scan_endsI) (simp add: mem_redis_def)
next
  fix pat K ks
  assume "scan_path mem_redis mem_view K pat 0 ks"
  then show "set ks = {k \<in> K. glob pat k}"
    using mem_scan_set[of _ pat] by cases (auto simp: mem_redis_def)
next
  fix k fs d r d'
  assume "run_state (r_xadd mem_redis k fs) d = (r, d')"
  then show "if is_stream (mem_view d) k
      then r = Inr () \<and> (\<exists>i. mem_view d' = (mem_view d)(k \<mapsto> RStream (stream_at (mem_view d) k @ [(i, fs)])))
      else isl r \<and> mem_view d' = mem_view d"
    by (auto simp: mem_redis_def mem_stream_cases intro!: exI)
next
  fix d k and n :: int
  assume "is_stream (mem_view d) k"
  then show "run_state (r_xrevrange mem_redis k n) d = (Inr (take (nat n) (rev (stream_at (mem_view d) k))), d)"
    by (simp add: mem_redis_def mem_stream_cases)
next
  fix d k and n :: int
  assume "\<not> is_stream (mem_view d) k"
  then show "\<exists>e. run_state (r_xrevrange mem_redis k n) d = (Inl e, d)"
    by (simp add: mem_redis_def mem_stream_cases)
next
  fix d k start and n :: int
  assume "is_stream (mem_view d) k"
  then show "run_state (r_xrange mem_redis k start n) d = (Inr (take (nat n) (from_id start (stream_at (mem_view d) k))), d)"
    by (simp add: mem_redis_def mem_stream_cases)
next
  fix d k start and n :: int
  assume "\<not> is_stream (mem_view d) k"
  then show "\<exists>e. run_state (r_xrange mem_redis k start n) d = (Inl e, d)"
    by (simp add: mem_redis_def mem_stream_cases)
next
  fix k d r d' and n :: int
  assume "run_state (r_xtrim mem_redis k n) d = (r, d')"
  then show "if is_stream (mem_view d) k
      then r = Inr () \<and> mem_view d' = (if mem_view d k = None then mem_view d else
        (mem_view d)(k \<mapsto> RStream (drop (length (stream_at (mem_view d) k) - nat n) (stream_at (mem_view d) k))))
      else isl r \<and> mem_view d' = mem_view d"
    by (auto simp: mem_redis_def mem_stream_cases mem_get_view)
next
  fix c x d r d'
  assume "run_state (r_publish mem_redis c x) d = (r, d')"
  then show "r = Inr () \<and> mem_view d' = mem_view d" by (auto simp: mem_redis_def)
next
  show "run_state (r_ping mem_redis) d = (Inr (), d)" for d by (simp add: mem_redis_def)
next
  show "r_arg mem_redis (VStr s) = s" "r_arg mem_redis (VInt n) = Itoa n" for s n
    by (simp_all add: mem_redis_def mem_arg_def)
next
  fix n :: int
  show "in_int64 n \<Longrightarrow> r_tonumber mem_redis (Itoa n) = Some (fl (of_int n))"
    "r_tostring mem_redis (of_int n) = Itoa n"
    by (simp_all add: mem_redis_def)
qed

text \<open>An undisturbed environment around it.\<close>

definition mem_env :: "mem env" where
  "mem_env = \<lparr>server = mem_redis, fault_at = (\<lambda>_. Delivered), interfere = (\<lambda>_ d. d),
     ctx_done = (\<lambda>_. None), unix_at = (\<lambda>_. 1000), text_time_at = (\<lambda>_. ''1970-01-01T00:16:40Z''),
     rand_at = (\<lambda>n. Inr [n, 1, 2, 3, 4, 5, 6, 7]), map_order = (\<lambda>_ ks. ks)\<rparr>"

lemma mem_env_simps [simp]: "server mem_env = mem_redis" "quiet mem_env"
  by (simp_all add: mem_env_def quiet_def)

lemma mem_env_guarded [simp]: "guarded mem_redis mem_view mem_env I"
  by unfold_locales (simp_all add: mem_env_def)


section \<open>Reading a stream page by page\<close>

lemma from_id_nth:
  assumes "distinct (map fst es)" "i < length es" "fst (es ! i) \<noteq> ''0''"
  shows "from_id (fst (es ! i)) es = drop i es"
proof -
  have "dropWhile (\<lambda>e. fst e \<noteq> fst (es ! i)) (take i es @ drop i es) = dropWhile (\<lambda>e. fst e \<noteq> fst (es ! i)) (drop i es)"
  proof (rule dropWhile_append2)
    fix e
    assume "e \<in> set (take i es)"
    then obtain j where "j < i" "e = es ! j" using assms(2) by (auto simp: in_set_conv_nth)
    then show "fst e \<noteq> fst (es ! i)" using assms(1,2) by (auto simp: distinct_conv_nth)
  qed
  then have "dropWhile (\<lambda>e. fst e \<noteq> fst (es ! i)) es = dropWhile (\<lambda>e. fst e \<noteq> fst (es ! i)) (drop i es)" by simp
  moreover have "drop i es = es ! i # drop (Suc i) es" using assms(2) by (simp add: Cons_nth_drop_Suc)
  ultimately show ?thesis using assms(3) by (simp add: from_id_def)
qed

text \<open>Pages overlap: reading on from the last id of a page delivers that entry again, since XRANGE includes the id it starts
  from. A reader that wants every entry once has to drop the first entry of every page but the first.\<close>

theorem stream_pages_overlap:
  assumes "redis_server (server E) view" "quiet E" "is_stream (view (db w)) k" "0 < n"
    and "distinct (map fst es)" "''0'' \<notin> fst ` set es" "es \<noteq> []" "stream_at (view (db w)) k = es"
  shows "fst (run_state (StreamRead E k ''0'' n) w) = Inr (take (nat n) es) \<and>
    fst (run_state (StreamRead E k (fst (last (take (nat n) es))) n) w) = Inr (take (nat n) (last (take (nat n) es) # drop (nat n) es))"
proof
  show "fst (run_state (StreamRead E k ''0'' n) w) = Inr (take (nat n) es)"
    using redis_server.xrange[OF assms(1,3,4), of "''0''"] assms(2,8)
    by (simp add: StreamRead_def run_send_quiet from_id_def)
  define i where "i = min (nat n) (length es) - 1"
  have i: "i < length es" "last (take (nat n) es) = es ! i" "drop i es = es ! i # drop (nat n) es"
  proof -
    show l: "i < length es" using assms(4,7) by (cases es) (auto simp: i_def)
    have t: "take (nat n) es \<noteq> []" "length (take (nat n) es) - 1 = i" using assms(4,7) by (auto simp: i_def min_def)
    have "i < nat n" using assms(4,7) by (cases es) (auto simp: i_def)
    then show "last (take (nat n) es) = es ! i" using t by (simp add: last_conv_nth)
    have "drop (Suc i) es = drop (nat n) es" using assms(4,7) by (cases "nat n \<le> length es") (auto simp: i_def)
    then show "drop i es = es ! i # drop (nat n) es" using l by (metis Cons_nth_drop_Suc)
  qed
  have "fst (es ! i) \<in> fst ` set es" using i(1) by simp
  then have z: "fst (es ! i) \<noteq> ''0''" "fst (es ! i) \<in> fst ` set (stream_at (view (db w)) k)" using assms(6,8) by metis+
  show "fst (run_state (StreamRead E k (fst (last (take (nat n) es))) n) w) = Inr (take (nat n) (last (take (nat n) es) # drop (nat n) es))"
    using redis_server.xrange[OF assms(1,3,4), of "fst (es ! i)"] z assms(2,8) from_id_nth[OF assms(5) i(1) z(1)]
    by (simp add: StreamRead_def run_send_quiet i)
qed

theorem stream_pages_overlap_witness:
  "fst (run_state (StreamRead mem_env ''s'' ''2-0'' 2) \<lparr>db = [(''s'', Some (MStream [(''1-0'', []), (''2-0'', []), (''3-0'', [])]))], tick = 0\<rparr>) =
     Inr [(''2-0'', []), (''3-0'', [])]"
proof -
  let ?es = "[(''1-0'', []), (''2-0'', []), (''3-0'', [])]"
  let ?w = "\<lparr>db = [(''s'', Some (MStream ?es))], tick = 0\<rparr>"
  have "is_stream (mem_view (db ?w)) ''s''" "stream_at (mem_view (db ?w)) ''s'' = ?es"
    by (simp_all add: mem_view_def mem_get_def is_stream_def stream_at_def)
  from stream_pages_overlap[of mem_env mem_view ?w "''s''" 2 ?es, OF _ _ this(1) _ _ _ _ this(2)] mem.redis_server_axioms
  show ?thesis by (simp add: numeral_2_eq_2)
qed

end
