(* ===== verification/Schema.thy ===== *)
theory Schema
  imports RedisMem
begin

text \<open>
  \<open>internal/schema/schema.go\<close>: the Redis keys, the hash fields, the status values, the three stored
  shapes (deployment, pod, node capacity) and their conversion to and from Redis hashes.
  The lemmas show that keys of different kinds never collide, which keys are injective in their
  arguments, and that the conversions are inverse to each other, also on top of an older hash.
\<close>


section \<open>Key builders\<close>

definition LogStreamKey :: string where
  "LogStreamKey = ''cluster:logstream''"

definition NodeRegistryKey :: string where
  "NodeRegistryKey = ''nodes:registry''"

definition NodeCapacityKey :: "string \<Rightarrow> string" where
  "NodeCapacityKey nodeID = ''node:'' @ nodeID @ '':capacity''"

definition NodeStatusKey :: "string \<Rightarrow> string" where
  "NodeStatusKey nodeID = ''node:'' @ nodeID @ '':status''"

definition NodeCommandsKey :: "string \<Rightarrow> string" where
  "NodeCommandsKey nodeID = ''node:'' @ nodeID @ '':commands''"

definition DeploymentKey :: "string \<Rightarrow> string" where
  "DeploymentKey name = ''deployment:'' @ name"

definition PodKey :: "string \<Rightarrow> string \<Rightarrow> string" where
  "PodKey deployment podID = ''pod:'' @ deployment @ '':'' @ podID"

definition PodKeyPattern :: string where
  "PodKeyPattern = ''pod:*:*''"

definition DeploymentPodsPattern :: "string \<Rightarrow> string" where
  "DeploymentPodsPattern deployment = ''pod:'' @ deployment @ '':*''"

definition DeploymentKeyPattern :: string where
  "DeploymentKeyPattern = ''deployment:*''"

definition DeploymentEventsChannel :: string where
  "DeploymentEventsChannel = ''deployment:events''"

definition TelemetryCPUKey :: "string \<Rightarrow> string \<Rightarrow> string" where
  "TelemetryCPUKey deployment podID = ''telemetry:'' @ deployment @ '':'' @ podID @ '':cpu''"


section \<open>Field names and status values\<close>

abbreviation FieldDeploymentName :: string where "FieldDeploymentName \<equiv> ''name''"
abbreviation FieldMinReplicas :: string where "FieldMinReplicas \<equiv> ''min_replicas''"
abbreviation FieldMaxReplicas :: string where "FieldMaxReplicas \<equiv> ''max_replicas''"
abbreviation FieldCPURequest :: string where "FieldCPURequest \<equiv> ''cpu_request''"
abbreviation FieldMemRequest :: string where "FieldMemRequest \<equiv> ''mem_request''"
abbreviation FieldDesiredReplicas :: string where "FieldDesiredReplicas \<equiv> ''desired_replicas''"
abbreviation FieldCreatedAt :: string where "FieldCreatedAt \<equiv> ''created_at''"
abbreviation FieldLastScaleUpAt :: string where "FieldLastScaleUpAt \<equiv> ''last_scale_up_at''"
abbreviation FieldLastScaleDownAt :: string where "FieldLastScaleDownAt \<equiv> ''last_scale_down_at''"
abbreviation FieldTargetCPUPercent :: string where "FieldTargetCPUPercent \<equiv> ''target_cpu_percentage''"
abbreviation FieldExecPath :: string where "FieldExecPath \<equiv> ''exec_path''"
abbreviation FieldPort :: string where "FieldPort \<equiv> ''port''"

abbreviation FieldPodDeployment :: string where "FieldPodDeployment \<equiv> ''deployment''"
abbreviation FieldPodID :: string where "FieldPodID \<equiv> ''pod_id''"
abbreviation FieldPodStatus :: string where "FieldPodStatus \<equiv> ''status''"
abbreviation FieldPodNodeID :: string where "FieldPodNodeID \<equiv> ''node_id''"
abbreviation FieldPodCPURequest :: string where "FieldPodCPURequest \<equiv> ''cpu_request''"
abbreviation FieldPodMemRequest :: string where "FieldPodMemRequest \<equiv> ''mem_request''"
abbreviation FieldPodCreatedAt :: string where "FieldPodCreatedAt \<equiv> ''created_at''"
abbreviation FieldPodPID :: string where "FieldPodPID \<equiv> ''pid''"
abbreviation FieldPodStartedAt :: string where "FieldPodStartedAt \<equiv> ''started_at''"
abbreviation FieldPodRestartCount :: string where "FieldPodRestartCount \<equiv> ''restart_count''"
abbreviation FieldPodConsecFailures :: string where "FieldPodConsecFailures \<equiv> ''consecutive_failures''"
abbreviation FieldPodLastHealthOKAt :: string where "FieldPodLastHealthOKAt \<equiv> ''last_health_ok_at''"
abbreviation FieldPodBackoffNextSec :: string where "FieldPodBackoffNextSec \<equiv> ''backoff_next_seconds''"
abbreviation FieldPodLastRestartAt :: string where "FieldPodLastRestartAt \<equiv> ''last_restart_at''"
abbreviation FieldPodPIDStartTime :: string where "FieldPodPIDStartTime \<equiv> ''pid_start_time''"
abbreviation FieldPodHostPort :: string where "FieldPodHostPort \<equiv> ''host_port''"

abbreviation FieldTotalCPU :: string where "FieldTotalCPU \<equiv> ''total_cpu''"
abbreviation FieldTotalMem :: string where "FieldTotalMem \<equiv> ''total_mem''"
abbreviation FieldAllocatedCPU :: string where "FieldAllocatedCPU \<equiv> ''allocated_cpu''"
abbreviation FieldAllocatedMem :: string where "FieldAllocatedMem \<equiv> ''allocated_mem''"

abbreviation StatusPending :: string where "StatusPending \<equiv> ''Pending''"
abbreviation StatusRunning :: string where "StatusRunning \<equiv> ''Running''"
abbreviation StatusFailed :: string where "StatusFailed \<equiv> ''Failed''"
abbreviation StatusEvicted :: string where "StatusEvicted \<equiv> ''Evicted''"
abbreviation StatusCrashLoopBackOff :: string where "StatusCrashLoopBackOff \<equiv> ''CrashLoopBackOff''"
abbreviation StatusUnschedulable :: string where "StatusUnschedulable \<equiv> ''Unschedulable''"
abbreviation NodeStatusReady :: string where "NodeStatusReady \<equiv> ''Ready''"

definition ConsumesCapacity :: "string \<Rightarrow> bool" where
  "ConsumesCapacity status \<longleftrightarrow> status \<noteq> StatusEvicted"


section \<open>The stored shapes\<close>

record DeploymentSpec =
  d_Name :: string
  d_MinReplicas :: int
  d_MaxReplicas :: int
  d_CPURequest :: int
  d_MemRequest :: int
  d_DesiredReplicas :: int
  d_TargetCPUPercent :: int
  d_ExecPath :: string
  d_Port :: int
  d_CreatedAt :: string
  d_LastScaleUpAt :: string
  d_LastScaleDownAt :: string

record PodSpec =
  p_Deployment :: string
  p_PodID :: string
  p_Status :: string
  p_NodeID :: string
  p_CPURequest :: int
  p_MemRequest :: int
  p_CreatedAt :: string
  p_PID :: int
  p_StartedAt :: string
  p_RestartCount :: int
  p_ConsecutiveFailures :: int
  p_LastHealthOKAt :: string
  p_BackoffNextSeconds :: int
  p_LastRestartAt :: string
  p_PIDStartTime :: int
  p_HostPort :: int

record NodeCapacity =
  n_TotalCPU :: int
  n_TotalMem :: int
  n_AllocatedCPU :: int
  n_AllocatedMem :: int

text \<open>The ranges of the Go types: every integer field is an \<open>int\<close>, the start time is a \<open>uint64\<close>.\<close>

definition deployment_typed :: "DeploymentSpec \<Rightarrow> bool" where
  "deployment_typed d \<longleftrightarrow> in_int64 (d_MinReplicas d) \<and> in_int64 (d_MaxReplicas d) \<and>
     in_int64 (d_CPURequest d) \<and> in_int64 (d_MemRequest d) \<and> in_int64 (d_DesiredReplicas d) \<and>
     in_int64 (d_TargetCPUPercent d) \<and> in_int64 (d_Port d)"

definition pod_typed :: "PodSpec \<Rightarrow> bool" where
  "pod_typed p \<longleftrightarrow> in_int64 (p_CPURequest p) \<and> in_int64 (p_MemRequest p) \<and> in_int64 (p_PID p) \<and>
     in_int64 (p_RestartCount p) \<and> in_int64 (p_ConsecutiveFailures p) \<and>
     in_int64 (p_BackoffNextSeconds p) \<and> in_uint64 (p_PIDStartTime p) \<and> in_int64 (p_HostPort p)"

definition capacity_typed :: "NodeCapacity \<Rightarrow> bool" where
  "capacity_typed n \<longleftrightarrow> in_int64 (n_TotalCPU n) \<and> in_int64 (n_TotalMem n) \<and>
     in_int64 (n_AllocatedCPU n) \<and> in_int64 (n_AllocatedMem n)"


section \<open>Reading integers\<close>

text \<open>The error value of a failed \<open>fmt.Sscanf\<close>; its text is not modelled.\<close>

definition Sscanf_error :: "string \<Rightarrow> error" where
  "Sscanf_error s = Errorf ''fmt.Sscanf %s'' [ArgS s]"

definition parseUint :: "string \<Rightarrow> int" where
  "parseUint s = (if s = [] then 0 else case ParseUint s of None \<Rightarrow> 0 | Some n \<Rightarrow> n)"

definition atoi :: "string \<Rightarrow> error + int" where
  "atoi s = (if s = [] then Inl (Errorf ''empty string'' [])
     else case Sscanf_d s of None \<Rightarrow> Inl (Sscanf_error s) | Some n \<Rightarrow> Inr n)"

text \<open>Every caller discards the error of \<open>atoiDefault\<close>; the model returns the value.\<close>

definition atoiDefault :: "string \<Rightarrow> int \<Rightarrow> int" where
  "atoiDefault s def = (if s = [] then def else case Sscanf_d s of None \<Rightarrow> def | Some n \<Rightarrow> n)"

text \<open>\<open>if x, err = atoi(m[field]); err != nil { return nil, fmt.Errorf("invalid %s: %w", field, err) }\<close>\<close>

definition required ::
  "(string \<times> string) list \<Rightarrow> string \<Rightarrow> (int \<Rightarrow> error + 'a) \<Rightarrow> error + 'a"
where
  "required m field k = (case atoi (mget m field) of
     Inl e \<Rightarrow> Inl (Errorf ''invalid %s: %w'' [ArgS field, ArgE e]) | Inr n \<Rightarrow> k n)"


section \<open>Struct to hash and back\<close>

text \<open>\<open>if c { m[field] = v }\<close>\<close>

definition field_if :: "bool \<Rightarrow> string \<Rightarrow> 'v \<Rightarrow> (string \<times> 'v) list" where
  "field_if c field v = (if c then [(field, v)] else [])"

definition DeploymentToMap :: "DeploymentSpec \<Rightarrow> (string \<times> rarg) list" where
  "DeploymentToMap d =
     [(FieldDeploymentName, VStr (d_Name d)),
      (FieldMinReplicas, VInt (d_MinReplicas d)),
      (FieldMaxReplicas, VInt (d_MaxReplicas d)),
      (FieldCPURequest, VInt (d_CPURequest d)),
      (FieldMemRequest, VInt (d_MemRequest d)),
      (FieldDesiredReplicas, VInt (d_DesiredReplicas d)),
      (FieldTargetCPUPercent, VInt (d_TargetCPUPercent d)),
      (FieldExecPath, VStr (d_ExecPath d)),
      (FieldPort, VInt (d_Port d)),
      (FieldCreatedAt, VStr (d_CreatedAt d))]
     @ field_if (d_LastScaleUpAt d \<noteq> []) FieldLastScaleUpAt (VStr (d_LastScaleUpAt d))
     @ field_if (d_LastScaleDownAt d \<noteq> []) FieldLastScaleDownAt (VStr (d_LastScaleDownAt d))"

definition MapToDeployment :: "(string \<times> string) list \<Rightarrow> error + DeploymentSpec" where
  "MapToDeployment m =
     required m FieldMinReplicas (\<lambda>minr.
     required m FieldMaxReplicas (\<lambda>maxr.
     required m FieldCPURequest (\<lambda>cpu.
     required m FieldMemRequest (\<lambda>mem.
     required m FieldDesiredReplicas (\<lambda>desired.
       Inr \<lparr>d_Name = mget m FieldDeploymentName,
            d_MinReplicas = minr,
            d_MaxReplicas = maxr,
            d_CPURequest = cpu,
            d_MemRequest = mem,
            d_DesiredReplicas = desired,
            d_TargetCPUPercent = atoiDefault (mget m FieldTargetCPUPercent) 0,
            d_ExecPath = mget m FieldExecPath,
            d_Port = atoiDefault (mget m FieldPort) 0,
            d_CreatedAt = mget m FieldCreatedAt,
            d_LastScaleUpAt = mget m FieldLastScaleUpAt,
            d_LastScaleDownAt = mget m FieldLastScaleDownAt\<rparr>)))))"

definition PodToMap :: "PodSpec \<Rightarrow> (string \<times> rarg) list" where
  "PodToMap p =
     [(FieldPodDeployment, VStr (p_Deployment p)),
      (FieldPodID, VStr (p_PodID p)),
      (FieldPodStatus, VStr (p_Status p)),
      (FieldPodNodeID, VStr (p_NodeID p)),
      (FieldPodCPURequest, VInt (p_CPURequest p)),
      (FieldPodMemRequest, VInt (p_MemRequest p)),
      (FieldPodCreatedAt, VStr (p_CreatedAt p))]
     @ field_if (p_PID p \<noteq> 0) FieldPodPID (VInt (p_PID p))
     @ field_if (p_StartedAt p \<noteq> []) FieldPodStartedAt (VStr (p_StartedAt p))
     @ field_if (p_RestartCount p \<noteq> 0) FieldPodRestartCount (VInt (p_RestartCount p))
     @ field_if (p_ConsecutiveFailures p \<noteq> 0) FieldPodConsecFailures (VInt (p_ConsecutiveFailures p))
     @ field_if (p_LastHealthOKAt p \<noteq> []) FieldPodLastHealthOKAt (VStr (p_LastHealthOKAt p))
     @ field_if (p_BackoffNextSeconds p \<noteq> 0) FieldPodBackoffNextSec (VInt (p_BackoffNextSeconds p))
     @ field_if (p_LastRestartAt p \<noteq> []) FieldPodLastRestartAt (VStr (p_LastRestartAt p))
     @ field_if (p_PIDStartTime p \<noteq> 0) FieldPodPIDStartTime (VInt (p_PIDStartTime p))
     @ field_if (p_HostPort p \<noteq> 0) FieldPodHostPort (VInt (p_HostPort p))"

definition MapToPod :: "(string \<times> string) list \<Rightarrow> error + PodSpec" where
  "MapToPod m =
     required m FieldPodCPURequest (\<lambda>cpu.
     required m FieldPodMemRequest (\<lambda>mem.
       Inr \<lparr>p_Deployment = mget m FieldPodDeployment,
            p_PodID = mget m FieldPodID,
            p_Status = mget m FieldPodStatus,
            p_NodeID = mget m FieldPodNodeID,
            p_CPURequest = cpu,
            p_MemRequest = mem,
            p_CreatedAt = mget m FieldPodCreatedAt,
            p_PID = atoiDefault (mget m FieldPodPID) 0,
            p_StartedAt = mget m FieldPodStartedAt,
            p_RestartCount = atoiDefault (mget m FieldPodRestartCount) 0,
            p_ConsecutiveFailures = atoiDefault (mget m FieldPodConsecFailures) 0,
            p_LastHealthOKAt = mget m FieldPodLastHealthOKAt,
            p_BackoffNextSeconds = atoiDefault (mget m FieldPodBackoffNextSec) 0,
            p_LastRestartAt = mget m FieldPodLastRestartAt,
            p_PIDStartTime = parseUint (mget m FieldPodPIDStartTime),
            p_HostPort = atoiDefault (mget m FieldPodHostPort) 0\<rparr>))"

definition NodeCapacityToMap :: "NodeCapacity \<Rightarrow> (string \<times> rarg) list" where
  "NodeCapacityToMap n =
     [(FieldTotalCPU, VInt (n_TotalCPU n)),
      (FieldTotalMem, VInt (n_TotalMem n)),
      (FieldAllocatedCPU, VInt (n_AllocatedCPU n)),
      (FieldAllocatedMem, VInt (n_AllocatedMem n))]"

definition MapToNodeCapacity :: "(string \<times> string) list \<Rightarrow> error + NodeCapacity" where
  "MapToNodeCapacity m =
     required m FieldTotalCPU (\<lambda>tc.
     required m FieldTotalMem (\<lambda>tm.
     required m FieldAllocatedCPU (\<lambda>ac.
     required m FieldAllocatedMem (\<lambda>am.
       Inr \<lparr>n_TotalCPU = tc, n_TotalMem = tm, n_AllocatedCPU = ac, n_AllocatedMem = am\<rparr>))))"


section \<open>Keys of different kinds\<close>

lemma suffix_neq:
  assumes "length s = length t" "s \<noteq> t"
  shows "a @ s \<noteq> b @ t"
  using assms by (simp add: append_eq_append_conv)

lemmas key_defs = LogStreamKey_def NodeRegistryKey_def NodeCapacityKey_def NodeStatusKey_def
  NodeCommandsKey_def DeploymentKey_def PodKey_def DeploymentEventsChannel_def TelemetryCPUKey_def

text \<open>Node keys are told apart by their last seven characters.\<close>

lemma node_key_tails:
  "drop (length (NodeCapacityKey a) - 7) (NodeCapacityKey a) = ''apacity''"
  "drop (length (NodeStatusKey a) - 7) (NodeStatusKey a) = '':status''"
  "drop (length (NodeCommandsKey a) - 7) (NodeCommandsKey a) = ''ommands''"
  by (simp_all add: key_defs)

lemma node_key_kinds [key_simps]:
  "NodeCapacityKey a \<noteq> NodeStatusKey b" "NodeCapacityKey a \<noteq> NodeCommandsKey b"
  "NodeStatusKey a \<noteq> NodeCapacityKey b" "NodeStatusKey a \<noteq> NodeCommandsKey b"
  "NodeCommandsKey a \<noteq> NodeCapacityKey b" "NodeCommandsKey a \<noteq> NodeStatusKey b"
  using node_key_tails[of a] node_key_tails[of b] by (auto dest: arg_cong)

lemma key_kinds [key_simps]:
  "NodeCapacityKey a \<noteq> LogStreamKey" "NodeCapacityKey a \<noteq> NodeRegistryKey"
  "NodeCapacityKey a \<noteq> DeploymentKey n" "NodeCapacityKey a \<noteq> PodKey d p"
  "NodeCapacityKey a \<noteq> TelemetryCPUKey d p"
  "NodeStatusKey a \<noteq> LogStreamKey" "NodeStatusKey a \<noteq> NodeRegistryKey"
  "NodeStatusKey a \<noteq> DeploymentKey n" "NodeStatusKey a \<noteq> PodKey d p"
  "NodeStatusKey a \<noteq> TelemetryCPUKey d p"
  "NodeCommandsKey a \<noteq> LogStreamKey" "NodeCommandsKey a \<noteq> NodeRegistryKey"
  "NodeCommandsKey a \<noteq> DeploymentKey n" "NodeCommandsKey a \<noteq> PodKey d p"
  "NodeCommandsKey a \<noteq> TelemetryCPUKey d p"
  "LogStreamKey \<noteq> NodeRegistryKey" "LogStreamKey \<noteq> DeploymentKey n" "LogStreamKey \<noteq> PodKey d p"
  "LogStreamKey \<noteq> TelemetryCPUKey d p"
  "NodeRegistryKey \<noteq> DeploymentKey n" "NodeRegistryKey \<noteq> PodKey d p"
  "NodeRegistryKey \<noteq> TelemetryCPUKey d p"
  "DeploymentKey n \<noteq> PodKey d p" "DeploymentKey n \<noteq> TelemetryCPUKey d p"
  "PodKey d p \<noteq> TelemetryCPUKey d' p'"
  by (simp_all add: key_defs)

lemmas key_kinds' [key_simps] = key_kinds[symmetric]

lemma key_inject [key_simps]:
  "NodeCapacityKey a = NodeCapacityKey b \<longleftrightarrow> a = b"
  "NodeStatusKey a = NodeStatusKey b \<longleftrightarrow> a = b"
  "NodeCommandsKey a = NodeCommandsKey b \<longleftrightarrow> a = b"
  "DeploymentKey a = DeploymentKey b \<longleftrightarrow> a = b"
  "PodKey d a = PodKey d b \<longleftrightarrow> a = b"
  by (simp_all add: key_defs)

lemma colon_split:
  assumes "CHR '':'' \<notin> set d" "CHR '':'' \<notin> set d'" "d @ CHR '':'' # p = d' @ CHR '':'' # p'"
  shows "d = d' \<and> p = p'"
proof -
  have "takeWhile (\<lambda>c. c \<noteq> CHR '':'') (e @ CHR '':'' # q) = e" if "CHR '':'' \<notin> set e" for e q
    using that by (subst takeWhile_append2) auto
  then have "d = d'" using assms by metis
  with assms(3) show ?thesis by simp
qed

lemma PodKey_inject:
  "CHR '':'' \<notin> set d \<Longrightarrow> CHR '':'' \<notin> set d' \<Longrightarrow> PodKey d p = PodKey d' p' \<longleftrightarrow> d = d' \<and> p = p'"
  using colon_split[of d d' p p'] by (auto simp: PodKey_def)

section \<open>The conversions are inverse to each other\<close>

lemma ParseInt_range: "ParseInt s = Some n \<Longrightarrow> in_int64 n"
  by (auto simp: ParseInt_def ParseUint_def in_int64_def Let_def split: list.splits if_splits option.splits)

lemma Sscanf_d_range: "Sscanf_d s = Some n \<Longrightarrow> in_int64 n"
  by (auto simp: Sscanf_d_def Let_def split: prod.splits if_splits dest: ParseInt_range)

lemma ParseUint_range: "ParseUint s = Some n \<Longrightarrow> in_uint64 n"
  by (auto simp: ParseUint_def in_uint64_def split: if_splits option.splits)

lemma atoi_range: "atoi s = Inr n \<Longrightarrow> in_int64 n"
  by (auto simp: atoi_def split: if_splits option.splits dest: Sscanf_d_range)

lemma atoiDefault_range: "in_int64 def \<Longrightarrow> in_int64 (atoiDefault s def)"
  by (auto simp: atoiDefault_def split: option.splits dest: Sscanf_d_range)

lemma parseUint_range: "in_uint64 (parseUint s)"
  by (auto simp: parseUint_def in_uint64_def split: option.splits dest: ParseUint_range)

lemma in_int64_0 [simp]: "in_int64 0"
  by (simp add: in_int64_def)

lemma atoi_Itoa [simp]: "in_int64 n \<Longrightarrow> atoi (Itoa n) = Inr n"
  by (simp add: atoi_def)

lemma atoiDefault_Itoa [simp]: "in_int64 n \<Longrightarrow> atoiDefault (Itoa n) d = n"
  by (simp add: atoiDefault_def)

lemma atoiDefault_Nil [simp]: "atoiDefault [] d = d"
  by (simp add: atoiDefault_def)

lemma parseUint_Itoa [simp]: "in_uint64 n \<Longrightarrow> parseUint (Itoa n) = n"
  by (simp add: parseUint_def)

lemma parseUint_Nil [simp]: "parseUint [] = 0"
  by (simp add: parseUint_def)

lemma required_Inr: "required m f k = Inr x \<longleftrightarrow> (\<exists>n. atoi (mget m f) = Inr n \<and> k n = Inr x)"
  by (auto simp: required_def split: sum.splits)

lemma MapToDeployment_typed: "MapToDeployment m = Inr d \<Longrightarrow> deployment_typed d"
  by (auto simp: MapToDeployment_def required_Inr deployment_typed_def atoiDefault_range dest: atoi_range)

lemma MapToPod_typed: "MapToPod m = Inr p \<Longrightarrow> pod_typed p"
  by (auto simp: MapToPod_def required_Inr pod_typed_def atoiDefault_range parseUint_range dest: atoi_range)

lemma MapToNodeCapacity_typed: "MapToNodeCapacity m = Inr n \<Longrightarrow> capacity_typed n"
  by (auto simp: MapToNodeCapacity_def required_Inr capacity_typed_def dest: atoi_range)

text \<open>Each decoder only looks at the map the fields form.\<close>

lemma decode_cong:
  assumes "map_of m = map_of m'"
  shows "MapToDeployment m = MapToDeployment m'" "MapToPod m = MapToPod m'"
    "MapToNodeCapacity m = MapToNodeCapacity m'"
  by (simp_all add: MapToDeployment_def MapToPod_def MapToNodeCapacity_def required_def mget_cong[OF assms])

lemma field_if_simps [simp]:
  "distinct (map fst (field_if c k v))"
  "fst ` set (field_if c k v) \<inter> S = {} \<longleftrightarrow> (c \<longrightarrow> k \<notin> S)"
  "x \<in> fst ` set (field_if c k v) \<longleftrightarrow> c \<and> x = k"
  by (auto simp: field_if_def)

lemma wire_field_if [simp]: "wire R (field_if c k a) = field_if c k (r_arg R a)"
  by (simp add: field_if_def)

lemma mget_field_if [simp]:
  "mget (field_if c k v @ m) x = (if c \<and> x = k then v else mget m x)"
  "mget (field_if c k v) x = (if c \<and> x = k then v else [])"
  by (simp_all add: field_if_def)

lemma ToMap_distinct [simp]:
  "distinct (map fst (DeploymentToMap d))" "distinct (map fst (PodToMap p))"
  "distinct (map fst (NodeCapacityToMap n))"
  by (simp_all add: DeploymentToMap_def PodToMap_def NodeCapacityToMap_def)

lemma ToMap_not_Nil [simp]:
  "DeploymentToMap d \<noteq> []" "PodToMap p \<noteq> []" "NodeCapacityToMap n \<noteq> []"
  by (simp_all add: DeploymentToMap_def PodToMap_def NodeCapacityToMap_def)

context redis_server
begin

lemma arg_simps [simp]: "r_arg R (VStr s) = s" "r_arg R (VInt n) = Itoa n"
  by (simp_all add: arg_str arg_int)

lemma deployment_merge:
  assumes "deployment_typed d"
  shows "MapToDeployment (wire R (DeploymentToMap d) @ old) =
    Inr (d\<lparr>d_LastScaleUpAt := if d_LastScaleUpAt d = [] then mget old FieldLastScaleUpAt else d_LastScaleUpAt d,
           d_LastScaleDownAt := if d_LastScaleDownAt d = [] then mget old FieldLastScaleDownAt else d_LastScaleDownAt d\<rparr>)"
  using assms
  by (simp add: MapToDeployment_def DeploymentToMap_def required_def deployment_typed_def)

lemma pod_merge:
  assumes "pod_typed p"
  shows "MapToPod (wire R (PodToMap p) @ old) =
    Inr (p\<lparr>p_PID := if p_PID p = 0 then atoiDefault (mget old FieldPodPID) 0 else p_PID p,
           p_StartedAt := if p_StartedAt p = [] then mget old FieldPodStartedAt else p_StartedAt p,
           p_RestartCount := if p_RestartCount p = 0 then atoiDefault (mget old FieldPodRestartCount) 0 else p_RestartCount p,
           p_ConsecutiveFailures := if p_ConsecutiveFailures p = 0 then atoiDefault (mget old FieldPodConsecFailures) 0 else p_ConsecutiveFailures p,
           p_LastHealthOKAt := if p_LastHealthOKAt p = [] then mget old FieldPodLastHealthOKAt else p_LastHealthOKAt p,
           p_BackoffNextSeconds := if p_BackoffNextSeconds p = 0 then atoiDefault (mget old FieldPodBackoffNextSec) 0 else p_BackoffNextSeconds p,
           p_LastRestartAt := if p_LastRestartAt p = [] then mget old FieldPodLastRestartAt else p_LastRestartAt p,
           p_PIDStartTime := if p_PIDStartTime p = 0 then parseUint (mget old FieldPodPIDStartTime) else p_PIDStartTime p,
           p_HostPort := if p_HostPort p = 0 then atoiDefault (mget old FieldPodHostPort) 0 else p_HostPort p\<rparr>)"
  using assms
  by (simp add: MapToPod_def PodToMap_def required_def pod_typed_def)

lemma capacity_roundtrip:
  "capacity_typed n \<Longrightarrow> MapToNodeCapacity (wire R (NodeCapacityToMap n) @ old) = Inr n"
  by (simp add: MapToNodeCapacity_def NodeCapacityToMap_def required_def capacity_typed_def)

end


section \<open>Patterns\<close>

lemma glob_literal: "CHR ''*'' \<notin> set p \<Longrightarrow> glob (p @ q) s \<longleftrightarrow> (\<exists>t. s = p @ t \<and> glob q t)"
proof (induction p arbitrary: s)
  case (Cons c p)
  then show ?case by (cases s) auto
qed simp

lemma glob_star: "glob ''*'' s"
  by (induction s) auto

lemma glob_all_pods: "glob PodKeyPattern (PodKey d p)"
proof -
  have "glob (''*:*'') (d @ CHR '':'' # p)" by (induction d) (use glob_star in \<open>auto\<close>)
  then show ?thesis using glob_literal[of "''pod:''" "''*:*''"] by (simp add: PodKeyPattern_def PodKey_def)
qed

lemma pods_pattern_own:
  assumes "CHR '':'' \<notin> set d" "CHR ''*'' \<notin> set d" "CHR '':'' \<notin> set d'"
  shows "glob (DeploymentPodsPattern d) (PodKey d' p) \<longleftrightarrow> d = d'"
proof -
  have "glob (DeploymentPodsPattern d) (PodKey d' p) \<longleftrightarrow> (\<exists>t. PodKey d' p = (''pod:'' @ d @ '':'') @ t)"
    using glob_literal[of "''pod:'' @ d @ '':''" "''*''" "PodKey d' p"] assms(2) glob_star
    by (simp add: DeploymentPodsPattern_def)
  also have "\<dots> \<longleftrightarrow> (\<exists>t. PodKey d' p = PodKey d t)" by (simp add: PodKey_def)
  also have "\<dots> \<longleftrightarrow> d = d'" using PodKey_inject[OF assms(3,1)] by auto
  finally show ?thesis .
qed

text \<open>The pattern of a deployment selects exactly its own pods: for deployment names without the
  separator and without a wildcard, \<open>DeploymentPodsPattern\<close> matches a pod key iff the pod belongs
  to the deployment, and \<open>PodKey\<close> is injective on such names.\<close>

theorem DeploymentPodsPattern_selects:
  assumes "CHR '':'' \<notin> set d" "CHR ''*'' \<notin> set d" "CHR '':'' \<notin> set d'"
  shows "(glob (DeploymentPodsPattern d) (PodKey d' p) \<longleftrightarrow> d = d') \<and> (PodKey d q = PodKey d' p \<longleftrightarrow> d = d' \<and> q = p)"
  using pods_pattern_own[OF assms] PodKey_inject[OF assms(1,3)] by simp

theorem DeploymentPodsPattern_selects_witness:
  "glob (DeploymentPodsPattern ''web'') (PodKey ''web'' ''7f'') \<and> \<not> glob (DeploymentPodsPattern ''web'') (PodKey ''web2'' ''7f'')"
  using DeploymentPodsPattern_selects[of "''web''" "''web''" "''7f''"]
    DeploymentPodsPattern_selects[of "''web''" "''web2''" "''7f''"] by simp

text \<open>Storing a deployment and reading it back: on top of any older hash \<open>old\<close>, the fields of
  \<open>DeploymentToMap\<close> decode to the deployment that was stored, except that an empty time stamp does not
  erase an older one (the two time stamps are only written when they are not empty).\<close>

theorem deployment_roundtrip:
  assumes "redis_server R view" "deployment_typed d"
    and "map_of fs = map_of old ++ map_of (wire R (DeploymentToMap d))"
  shows "MapToDeployment fs =
    Inr (d\<lparr>d_LastScaleUpAt := if d_LastScaleUpAt d = [] then mget old FieldLastScaleUpAt else d_LastScaleUpAt d,
           d_LastScaleDownAt := if d_LastScaleDownAt d = [] then mget old FieldLastScaleDownAt else d_LastScaleDownAt d\<rparr>)"
proof -
  have "map_of fs = map_of (wire R (DeploymentToMap d) @ old)" using assms(3) by simp
  from decode_cong(1)[OF this] show ?thesis by (simp add: redis_server.deployment_merge[OF assms(1,2)])
qed

definition demo_deployment :: DeploymentSpec where
  "demo_deployment = \<lparr>d_Name = ''web'', d_MinReplicas = 1, d_MaxReplicas = 5, d_CPURequest = 250, d_MemRequest = 128,
     d_DesiredReplicas = 2, d_TargetCPUPercent = 70, d_ExecPath = ''/bin/web'', d_Port = 8080,
     d_CreatedAt = ''2024-01-01T00:00:00Z'', d_LastScaleUpAt = [], d_LastScaleDownAt = []\<rparr>"

lemma demo_deployment_typed [simp]: "deployment_typed demo_deployment"
  by (simp add: deployment_typed_def demo_deployment_def in_int64_def)

lemma demo_deployment_fields [simp]:
  "d_Name demo_deployment = ''web''" "d_CPURequest demo_deployment = 250" "d_MemRequest demo_deployment = 128"
  "d_DesiredReplicas demo_deployment = 2"
  by (simp_all add: demo_deployment_def)

theorem deployment_roundtrip_witness:
  "MapToDeployment (wire mem_redis (DeploymentToMap demo_deployment)) = Inr demo_deployment \<and>
   MapToDeployment (wire mem_redis (DeploymentToMap demo_deployment) @ [(FieldLastScaleUpAt, ''77'')]) =
     Inr (demo_deployment\<lparr>d_LastScaleUpAt := ''77''\<rparr>)"
  using deployment_roundtrip[OF mem.redis_server_axioms demo_deployment_typed, of "wire mem_redis (DeploymentToMap demo_deployment)" "[]"]
    deployment_roundtrip[OF mem.redis_server_axioms demo_deployment_typed,
      of "wire mem_redis (DeploymentToMap demo_deployment) @ [(FieldLastScaleUpAt, ''77'')]" "[(FieldLastScaleUpAt, ''77'')]"]
  by (simp add: demo_deployment_def)

lemma if_eq_self: "(if x = a then a else x) = x"
  by simp

text \<open>C17. Storing a pod under a fresh key and reading it back gives the pod: every field survives, the
  optional ones that are left out when zero or empty included, and the start time over the whole
  range of an unsigned 64-bit integer.\<close>

theorem pod_roundtrip:
  assumes "redis_server R view" "pod_typed p" "map_of fs = map_of (wire R (PodToMap p))"
  shows "MapToPod fs = Inr p"
proof -
  have "map_of fs = map_of (wire R (PodToMap p) @ [])" using assms(3) by simp
  then have "MapToPod fs = MapToPod (wire R (PodToMap p) @ [])" by (rule decode_cong(2))
  also have "\<dots> = Inr p"
    unfolding redis_server.pod_merge[OF assms(1,2)] by (simp add: if_eq_self cong: if_cong split del: if_split)
  finally show ?thesis .
qed

definition demo_pod :: PodSpec where
  "demo_pod = \<lparr>p_Deployment = ''web'', p_PodID = ''7f'', p_Status = StatusRunning, p_NodeID = ''n1'', p_CPURequest = 250,
     p_MemRequest = 128, p_CreatedAt = ''1000'', p_PID = 42, p_StartedAt = ''1001'', p_RestartCount = 0,
     p_ConsecutiveFailures = 0, p_LastHealthOKAt = [], p_BackoffNextSeconds = 0, p_LastRestartAt = [],
     p_PIDStartTime = 2 ^ 63, p_HostPort = 30001\<rparr>"

theorem pod_roundtrip_witness: "MapToPod (wire mem_redis (PodToMap demo_pod)) = Inr demo_pod"
  by (rule pod_roundtrip[OF mem.redis_server_axioms]) (simp_all add: pod_typed_def demo_pod_def in_int64_def in_uint64_def)

text \<open>C20. What is read from a hash is well typed, whatever the hash contains, and survives being stored again: every integer of
  a decoded deployment, pod or capacity fits the type of its field, and encoding the record and decoding it gives the
  same record.\<close>

theorem decoded_typed:
  assumes "redis_server R view"
  shows "(MapToDeployment fs = Inr d \<longrightarrow> deployment_typed d \<and> MapToDeployment (wire R (DeploymentToMap d)) = Inr d) \<and>
    (MapToPod fs = Inr p \<longrightarrow> pod_typed p \<and> MapToPod (wire R (PodToMap p)) = Inr p) \<and>
    (MapToNodeCapacity fs = Inr c \<longrightarrow> capacity_typed c \<and> MapToNodeCapacity (wire R (NodeCapacityToMap c)) = Inr c)"
proof (intro conjI impI)
  show "deployment_typed d" if "MapToDeployment fs = Inr d" using that by (rule MapToDeployment_typed)
  then show "MapToDeployment (wire R (DeploymentToMap d)) = Inr d" if "MapToDeployment fs = Inr d"
    using redis_server.deployment_merge[OF assms, of d "[]"] that by (simp add: if_eq_self mget_def cong: if_cong split del: if_split)
  show "pod_typed p" if "MapToPod fs = Inr p" using that by (rule MapToPod_typed)
  then show "MapToPod (wire R (PodToMap p)) = Inr p" if "MapToPod fs = Inr p"
    using redis_server.pod_merge[OF assms, of p "[]"] that by (simp add: if_eq_self cong: if_cong split del: if_split)
  show "capacity_typed c" if "MapToNodeCapacity fs = Inr c" using that by (rule MapToNodeCapacity_typed)
  then show "MapToNodeCapacity (wire R (NodeCapacityToMap c)) = Inr c" if "MapToNodeCapacity fs = Inr c"
    using redis_server.capacity_roundtrip[OF assms, of c "[]"] that by simp
qed

theorem decoded_typed_witness:
  "\<exists>c. MapToNodeCapacity [(FieldTotalCPU, Itoa 4000), (FieldTotalMem, Itoa 8), (FieldAllocatedCPU, Itoa 0), (FieldAllocatedMem, Itoa (- 1))] = Inr c \<and>
    capacity_typed c \<and> MapToNodeCapacity (wire mem_redis (NodeCapacityToMap c)) = Inr c"
proof -
  let ?fs = "[(FieldTotalCPU, Itoa 4000), (FieldTotalMem, Itoa 8), (FieldAllocatedCPU, Itoa 0), (FieldAllocatedMem, Itoa (- 1))]"
  let ?c = "\<lparr>n_TotalCPU = 4000, n_TotalMem = 8, n_AllocatedCPU = 0, n_AllocatedMem = - 1\<rparr>"
  have "MapToNodeCapacity ?fs = Inr ?c" by (simp add: MapToNodeCapacity_def required_def mget_def atoi_def in_int64_def)
  then show ?thesis using decoded_typed[OF mem.redis_server_axioms, of ?fs _ _ ?c] by blast
qed

end
