(* ===== verification/Json.thy ===== *)
theory Json
  imports GoText
begin

text \<open>
  The decoding half of \<open>encoding/json\<close>, as far as the sources use it: \<open>json.Unmarshal\<close> of a message into a struct
  and \<open>json.Decoder\<close> on the body of a request. A text is read by a lexer for tokens and a machine with a stack, like the
  scanner of the package, and then stored into the fields of a struct. What is left open is the text of the error
  for an input that is refused.

  The last part shows that what \<open>json.Marshal\<close> writes for a struct of strings and integers is read back, with every
  invalid byte of a string replaced by U+FFFD.
\<close>


section \<open>Characters\<close>

text \<open>\<open>utf8.EncodeRune\<close>; surrogates and values beyond U+10FFFF become U+FFFD.\<close>

definition rune_error :: nat where
  "rune_error = 0xFFFD"

definition is_surrogate :: "nat \<Rightarrow> bool" where
  "is_surrogate u \<longleftrightarrow> 0xD800 \<le> u \<and> u \<le> 0xDFFF"

definition EncodeRune :: "nat \<Rightarrow> string" where
  "EncodeRune u =
     (let u = (if is_surrogate u \<or> 0x10FFFF < u then rune_error else u); tail = (\<lambda>k. char_of (0x80 + u div 64 ^ k mod 64)) in
      if u < 0x80 then [char_of u]
      else if u < 0x800 then [char_of (0xC0 + u div 64), tail 0]
      else if u < 0x10000 then [char_of (0xE0 + u div 4096), tail 1, tail 0]
      else [char_of (0xF0 + u div 262144), tail 2, tail 1, tail 0])"

text \<open>\<open>utf16.DecodeRune\<close>, with \<open>None\<close> where it answers U+FFFD.\<close>

definition surrogate_pair :: "nat \<Rightarrow> nat \<Rightarrow> nat option" where
  "surrogate_pair a b =
     (if 0xD800 \<le> a \<and> a < 0xDC00 \<and> 0xDC00 \<le> b \<and> b < 0xE000
      then Some ((a - 0xD800) * 1024 + (b - 0xDC00) + 0x10000) else None)"

definition hex_val :: "char \<Rightarrow> nat option" where
  "hex_val c =
     (let n = (of_char c :: nat) in
      if 48 \<le> n \<and> n \<le> 57 then Some (n - 48)
      else if 97 \<le> n \<and> n \<le> 102 then Some (n - 87)
      else if 65 \<le> n \<and> n \<le> 70 then Some (n - 55) else None)"

text \<open>The four digits after \<open>\u\<close>.\<close>

definition hex4 :: "string \<Rightarrow> nat option" where
  "hex4 s =
     (case s of a # b # c # d # _ \<Rightarrow>
        (case (hex_val a, hex_val b, hex_val c, hex_val d) of
           (Some a, Some b, Some c, Some d) \<Rightarrow> Some (((a * 16 + b) * 16 + c) * 16 + d)
         | _ \<Rightarrow> None)
      | _ \<Rightarrow> None)"

text \<open>\<open>getu4\<close>: the same with the backslash and the \<open>u\<close> in front.\<close>

definition getu4 :: "string \<Rightarrow> nat option" where
  "getu4 s =
     (case s of b # u # r \<Rightarrow> if b = CHR 0x5C \<and> u = CHR ''u'' then hex4 r else None | _ \<Rightarrow> None)"

definition simple_escape :: "char \<Rightarrow> char option" where
  "simple_escape c =
     (if c = CHR 0x22 \<or> c = CHR 0x5C \<or> c = CHR ''/'' then Some c
      else if c = CHR ''b'' then Some (CHR 0x08)
      else if c = CHR ''f'' then Some (CHR 0x0C)
      else if c = CHR ''n'' then Some (CHR 0x0A)
      else if c = CHR ''r'' then Some (CHR 0x0D)
      else if c = CHR ''t'' then Some (CHR 0x09)
      else None)"

text \<open>What \<open>\u\<close> and its digits \<open>r\<close> stand for, and how many characters of \<open>r\<close> that takes. A surrogate that is no part of a
  pair is U+FFFD.\<close>

definition unicode_escape :: "string \<Rightarrow> (string \<times> nat) option" where
  "unicode_escape r =
     (case hex4 r of
        None \<Rightarrow> None
      | Some u \<Rightarrow>
          if is_surrogate u then
            (case Option.bind (getu4 (drop 4 r)) (surrogate_pair u) of
               Some p \<Rightarrow> Some (EncodeRune p, 10)
             | None \<Rightarrow> Some (EncodeRune rune_error, 4))
          else Some (EncodeRune u, 4))"


section \<open>Tokens\<close>

text \<open>What follows an opening quotation mark: the string, with its escapes resolved and its invalid bytes replaced, and
  the rest after the closing one.\<close>

function scan_string :: "string \<Rightarrow> (string \<times> string) option" where
  "scan_string s =
     (case s of
        [] \<Rightarrow> None
      | c # cs \<Rightarrow>
          if c = CHR 0x22 then Some ([], cs)
          else if c = CHR 0x5C then
            (case cs of
               [] \<Rightarrow> None
             | e # r \<Rightarrow>
                 if e = CHR ''u'' then
                   (case unicode_escape r of
                      None \<Rightarrow> None
                    | Some (t, n) \<Rightarrow> map_option (map_prod ((@) t) id) (scan_string (drop n r)))
                 else
                   (case simple_escape e of
                      None \<Rightarrow> None
                    | Some x \<Rightarrow> map_option (map_prod ((#) x) id) (scan_string r)))
          else if (of_char c :: nat) < 0x20 then None
          else
            (case rune_len (map of_char s) of
               None \<Rightarrow> map_option (map_prod ((@) (EncodeRune rune_error)) id) (scan_string cs)
             | Some n \<Rightarrow> map_option (map_prod ((@) (take n s)) id) (scan_string (drop n s))))"
  by pat_completeness auto
termination
  by (relation "measure length") (auto dest: rune_len_pos)

declare scan_string.simps [simp del]

text \<open>A number: the literal and the rest.\<close>

definition fraction_part :: "string \<Rightarrow> string option" where
  "fraction_part s =
     (case s of
        c # cs \<Rightarrow>
          if c = CHR ''.'' then (let ds = take_digits cs in if ds = [] then None else Some (c # ds)) else Some []
      | [] \<Rightarrow> Some [])"

definition exponent_part :: "string \<Rightarrow> string option" where
  "exponent_part s =
     (case s of
        c # cs \<Rightarrow>
          if c = CHR ''e'' \<or> c = CHR ''E'' then
            (let sign = (case cs of d # _ \<Rightarrow> if d = CHR ''+'' \<or> d = CHR ''-'' then [d] else [] | [] \<Rightarrow> []);
                 ds = take_digits (drop (length sign) cs)
             in if ds = [] then None else Some (c # sign @ ds))
          else Some []
      | [] \<Rightarrow> Some [])"

definition sign_part :: "string \<Rightarrow> string" where
  "sign_part s = (case s of c # _ \<Rightarrow> if c = CHR ''-'' then [c] else [] | [] \<Rightarrow> [])"

definition integer_part :: "string \<Rightarrow> string" where
  "integer_part s = (case s of c # _ \<Rightarrow> if c = CHR ''0'' then [c] else take_digits s | [] \<Rightarrow> [])"

definition scan_number :: "string \<Rightarrow> (string \<times> string) option" where
  "scan_number s =
     (let sign = sign_part s; s1 = drop (length sign) s; ds = integer_part s1; s2 = drop (length ds) s1 in
      if ds = [] then None else
      case fraction_part s2 of
        None \<Rightarrow> None
      | Some f \<Rightarrow>
          (let s3 = drop (length f) s2 in
           map_option (\<lambda>e. (sign @ ds @ f @ e, drop (length e) s3)) (exponent_part s3)))"

datatype token =
    BeginObject | EndObject | BeginArray | EndArray | NameSep | ValueSep
  | TNull | TBool bool | TNumber string | TString string

definition json_space :: "char \<Rightarrow> bool" where
  "json_space c \<longleftrightarrow> c = CHR '' '' \<or> c = CHR 0x09 \<or> c = CHR 0x0D \<or> c = CHR 0x0A"

definition punctuation :: "char \<Rightarrow> token option" where
  "punctuation c =
     (if c = CHR ''{'' then Some BeginObject else if c = CHR ''}'' then Some EndObject
      else if c = CHR ''['' then Some BeginArray else if c = CHR '']'' then Some EndArray
      else if c = CHR '':'' then Some NameSep else if c = CHR '','' then Some ValueSep else None)"

definition next_token :: "string \<Rightarrow> (token \<times> string) option" where
  "next_token s =
     (let s = dropWhile json_space s in
      case s of
        [] \<Rightarrow> None
      | c # cs \<Rightarrow>
          (case punctuation c of
             Some t \<Rightarrow> Some (t, cs)
           | None \<Rightarrow>
               if c = CHR 0x22 then map_option (map_prod TString id) (scan_string cs)
               else if HasPrefix s ''null'' then Some (TNull, drop 4 s)
               else if HasPrefix s ''true'' then Some (TBool True, drop 4 s)
               else if HasPrefix s ''false'' then Some (TBool False, drop 5 s)
               else map_option (map_prod TNumber id) (scan_number s)))"

section \<open>Values\<close>

datatype jvalue = VNull | VBool bool | VNumber string | VString string | VArray "jvalue list" | VObject "(string \<times> jvalue) list"

text \<open>The stack of the scanner (\<open>parseState\<close>), with what has been read of each open array and object, and what may come next.\<close>

datatype frame = InArray "jvalue list" | InObject "(string \<times> jvalue) list" | InMember "(string \<times> jvalue) list" string

datatype awaiting = Value | ValueOrEnd | Name | NameOrEnd | Separator | Continuation

datatype scanned = Refused | Done jvalue | Open awaiting "frame list"

abbreviation maxNestingDepth :: nat where "maxNestingDepth \<equiv> 10000"

definition push :: "frame \<Rightarrow> awaiting \<Rightarrow> frame list \<Rightarrow> scanned" where
  "push f a st = (if length st < maxNestingDepth then Open a (f # st) else Refused)"

text \<open>A value is complete: it belongs to the innermost open container, or is the result.\<close>

fun end_value :: "jvalue \<Rightarrow> frame list \<Rightarrow> scanned" where
  "end_value v [] = Done v"
| "end_value v (InArray vs # st) = Open Continuation (InArray (vs @ [v]) # st)"
| "end_value v (InMember ms k # st) = Open Continuation (InObject (ms @ [(k, v)]) # st)"
| "end_value v (InObject ms # st) = Refused"

definition begin_value :: "token \<Rightarrow> frame list \<Rightarrow> scanned" where
  "begin_value t st =
     (case t of
        BeginObject \<Rightarrow> push (InObject []) NameOrEnd st
      | BeginArray \<Rightarrow> push (InArray []) ValueOrEnd st
      | TNull \<Rightarrow> end_value VNull st
      | TBool b \<Rightarrow> end_value (VBool b) st
      | TNumber n \<Rightarrow> end_value (VNumber n) st
      | TString x \<Rightarrow> end_value (VString x) st
      | _ \<Rightarrow> Refused)"

text \<open>One step of the scanner.\<close>

definition scan_step :: "awaiting \<Rightarrow> frame list \<Rightarrow> token \<Rightarrow> scanned" where
  "scan_step a st t =
     (case (a, t, st) of
        (Value, _, _) \<Rightarrow> begin_value t st
      | (ValueOrEnd, EndArray, InArray vs # st') \<Rightarrow> end_value (VArray vs) st'
      | (ValueOrEnd, _, _) \<Rightarrow> begin_value t st
      | (Name, TString k, InObject ms # st') \<Rightarrow> Open Separator (InMember ms k # st')
      | (NameOrEnd, TString k, InObject ms # st') \<Rightarrow> Open Separator (InMember ms k # st')
      | (NameOrEnd, EndObject, InObject ms # st') \<Rightarrow> end_value (VObject ms) st'
      | (Separator, NameSep, InMember ms k # st') \<Rightarrow> Open Value st
      | (Continuation, ValueSep, InArray vs # st') \<Rightarrow> Open Value st
      | (Continuation, ValueSep, InObject ms # st') \<Rightarrow> Open Name st
      | (Continuation, EndArray, InArray vs # st') \<Rightarrow> end_value (VArray vs) st'
      | (Continuation, EndObject, InObject ms # st') \<Rightarrow> end_value (VObject ms) st'
      | _ \<Rightarrow> Refused)"

lemma map_prod_Some: "map_option (map_prod f id) x = Some (t, r) \<Longrightarrow> \<exists>u. x = Some (u, r)"
  by (cases x) auto

lemma scan_string_length: "scan_string s = Some (t, r) \<Longrightarrow> length r < length s"
proof (induction s arbitrary: t r rule: measure_induct_rule[of length])
  case (less s)
  have IH: "length r < length s" if "scan_string s' = Some (u, r)" "length s' < length s" for s' u
    using less.IH[OF that(2,1)] that(2) by simp
  show ?case
  proof (cases s)
    case Nil
    then show ?thesis using less.prems by (simp add: scan_string.simps)
  next
    case (Cons c cs)
    have n: "0 < n" if "rune_len bs = Some n" for bs n by (rule rune_len_pos[OF that])
    have I: "length s' < Suc (length cs) \<Longrightarrow> length r < length s'" if "scan_string s' = Some (u, r)" for s' u
      using less.IH[OF _ that] Cons by simp
    from less.prems[unfolded Cons scan_string.simps[of "c # cs"]] show ?thesis
      unfolding Cons by (auto split: if_splits list.splits option.splits prod.splits dest!: map_prod_Some dest: n) (drule I, auto dest: n)+
  qed
qed

lemma scan_number_length: "scan_number s = Some (t, r) \<Longrightarrow> length r < length s"
  by (cases s) (auto simp: scan_number_def Let_def integer_part_def split: if_splits option.splits list.splits)

lemma next_token_length:
  assumes "next_token s = Some (t, r)" shows "length r < length s"
proof -
  obtain c cs where s: "dropWhile json_space s = c # cs"
    using assms by (auto simp: next_token_def Let_def split: list.splits)
  have "length r < length (c # cs)"
    using assms by (auto simp: next_token_def Let_def s split: option.splits if_splits dest!: map_prod_Some dest: scan_string_length scan_number_length)
  then show ?thesis using length_dropWhile_le[of json_space s] by (simp add: s)
qed

text \<open>The first value of a text, and what follows it.\<close>

function read_value :: "awaiting \<Rightarrow> frame list \<Rightarrow> string \<Rightarrow> (jvalue \<times> string) option" where
  "read_value a st s =
     (case next_token s of
        None \<Rightarrow> None
      | Some (t, r) \<Rightarrow>
          (case scan_step a st t of
             Refused \<Rightarrow> None
           | Done v \<Rightarrow> Some (v, r)
           | Open a' st' \<Rightarrow> read_value a' st' r))"
  by pat_completeness auto
termination
  by (relation "measure (\<lambda>(a, st, s). length s)") (auto dest: next_token_length)

declare read_value.simps [simp del]

text \<open>The text of \<open>json.Unmarshal\<close> is one value with nothing but white space after it (\<open>checkValid\<close>).\<close>

definition whole_text :: "string \<Rightarrow> jvalue option" where
  "whole_text s =
     (case read_value Value [] s of
        Some (v, r) \<Rightarrow> if list_all json_space r then Some v else None
      | None \<Rightarrow> None)"

text \<open>\<open>json.Decoder.Decode\<close> on a body behind \<open>http.MaxBytesReader\<close>: it reads one value and does not look at what comes
  after. The reader fails after \<open>n\<close> bytes when there are more, which matters unless the value is known to be complete
  before: the end of a literal or a number is only seen with the next byte.\<close>

definition first_value :: "nat \<Rightarrow> string \<Rightarrow> jvalue option" where
  "first_value n s =
     (case read_value Value [] (take n s) of
        None \<Rightarrow> None
      | Some (v, r) \<Rightarrow>
          if r \<noteq> [] \<or> length s \<le> n then Some v
          else (case v of VObject _ \<Rightarrow> Some v | VArray _ \<Rightarrow> Some v | _ \<Rightarrow> None))"


section \<open>Storing into a struct\<close>

text \<open>\<open>foldName\<close> for the comparison with names in ASCII: letters in upper case, with the two other characters that fold to
  ASCII, the Kelvin sign and the long s.\<close>

definition upper_ascii :: "char \<Rightarrow> char" where
  "upper_ascii c = (let n = (of_char c :: nat) in if 97 \<le> n \<and> n \<le> 122 then char_of (n - 32) else c)"

function foldName :: "string \<Rightarrow> string" where
  "foldName s =
     (case s of
        [] \<Rightarrow> []
      | c # cs \<Rightarrow>
          if HasPrefix s [CHR 0xE2, CHR 0x84, CHR 0xAA] then CHR ''K'' # foldName (drop 3 s)
          else if HasPrefix s [CHR 0xC5, CHR 0xBF] then CHR ''S'' # foldName (drop 2 s)
          else upper_ascii c # foldName cs)"
  by pat_completeness auto
termination
  by (relation "measure length") auto

declare foldName.simps [simp del]

text \<open>The fields of a struct by name, each with the store into it. A store answers \<open>None\<close> where the package records an
  \<open>UnmarshalTypeError\<close>; the whole call then fails in the end, and no caller looks at the struct.\<close>

type_synonym 's fields = "(string \<times> (jvalue \<Rightarrow> 's \<Rightarrow> 's option)) list"

definition string_field :: "(string \<Rightarrow> 's \<Rightarrow> 's) \<Rightarrow> jvalue \<Rightarrow> 's \<Rightarrow> 's option" where
  "string_field f v s = (case v of VString x \<Rightarrow> Some (f x s) | VNull \<Rightarrow> Some s | _ \<Rightarrow> None)"

definition int_field :: "(int \<Rightarrow> 's \<Rightarrow> 's) \<Rightarrow> jvalue \<Rightarrow> 's \<Rightarrow> 's option" where
  "int_field f v s = (case v of VNumber t \<Rightarrow> map_option (\<lambda>n. f n s) (Atoi t) | VNull \<Rightarrow> Some s | _ \<Rightarrow> None)"

definition int_pointer_field :: "(int option \<Rightarrow> 's \<Rightarrow> 's) \<Rightarrow> jvalue \<Rightarrow> 's \<Rightarrow> 's option" where
  "int_pointer_field f v s =
     (case v of VNumber t \<Rightarrow> map_option (\<lambda>n. f (Some n) s) (Atoi t) | VNull \<Rightarrow> Some (f None s) | _ \<Rightarrow> None)"

text \<open>An exact match comes before one up to case.\<close>

definition find_field :: "'s fields \<Rightarrow> string \<Rightarrow> (jvalue \<Rightarrow> 's \<Rightarrow> 's option) option" where
  "find_field fields k =
     (case map_of fields k of
        Some f \<Rightarrow> Some f
      | None \<Rightarrow> map_option snd (find (\<lambda>(n, _). foldName n = foldName k) fields))"

text \<open>The members in their order, so the last of several with the same name counts. An unknown name is an error only after
  \<open>DisallowUnknownFields\<close>.\<close>

fun store_members :: "bool \<Rightarrow> 's fields \<Rightarrow> (string \<times> jvalue) list \<Rightarrow> 's \<Rightarrow> 's option" where
  "store_members strict fields [] s = Some s"
| "store_members strict fields ((k, v) # ms) s =
     (case find_field fields k of
        None \<Rightarrow> if strict then None else store_members strict fields ms s
      | Some f \<Rightarrow> Option.bind (f v s) (store_members strict fields ms))"

definition store_struct :: "bool \<Rightarrow> 's fields \<Rightarrow> 's \<Rightarrow> jvalue \<Rightarrow> 's option" where
  "store_struct strict fields s v =
     (case v of VNull \<Rightarrow> Some s | VObject ms \<Rightarrow> store_members strict fields ms s | _ \<Rightarrow> None)"

definition Unmarshal :: "'s fields \<Rightarrow> 's \<Rightarrow> string \<Rightarrow> 's option" where
  "Unmarshal fields zero payload = Option.bind (whole_text payload) (store_struct False fields zero)"

definition DecodeStrict :: "nat \<Rightarrow> 's fields \<Rightarrow> 's \<Rightarrow> string \<Rightarrow> 's option" where
  "DecodeStrict limit fields zero body = Option.bind (first_value limit body) (store_struct True fields zero)"

section \<open>What Marshal writes is read back\<close>

text \<open>A string with every invalid byte replaced, which is what \<open>json.Marshal\<close> writes, and \<open>utf8.ValidString\<close>.\<close>

function to_valid :: "string \<Rightarrow> string" where
  "to_valid s =
     (case s of
        [] \<Rightarrow> []
      | c # cs \<Rightarrow>
          (case rune_len (map of_char s) of
             None \<Rightarrow> EncodeRune rune_error @ to_valid cs
           | Some n \<Rightarrow> take n s @ to_valid (drop n s)))"
  by pat_completeness auto
termination
  by (relation "measure length") (auto dest: rune_len_pos)

function ValidString :: "string \<Rightarrow> bool" where
  "ValidString s \<longleftrightarrow>
     (case s of
        [] \<Rightarrow> True
      | c # cs \<Rightarrow> (case rune_len (map of_char s) of None \<Rightarrow> False | Some n \<Rightarrow> ValidString (drop n s)))"
  by pat_completeness auto
termination
  by (relation "measure length") (auto dest: rune_len_pos)

declare to_valid.simps [simp del] ValidString.simps [simp del]

lemma to_valid_Nil [simp]: "to_valid [] = []"
  by (simp add: to_valid.simps)

lemma to_valid_same: "ValidString s \<Longrightarrow> to_valid s = s"
proof (induction s rule: ValidString.induct)
  case (1 s)
  show ?case
  proof (cases s)
    case (Cons c cs)
    obtain n where n: "rune_len (map of_char s) = Some n" "ValidString (drop n s)"
      using 1(2) Cons by (auto simp: ValidString.simps[of "c # cs"] split: option.splits)
    have "to_valid (drop n s) = drop n s" using 1(1)[OF Cons n] .
    then show ?thesis using n(1) Cons by (simp add: to_valid.simps[of "c # cs"])
  qed simp
qed

lemma ValidString_ascii: "list_all (\<lambda>c. (of_char c :: nat) < 0x80) s \<Longrightarrow> ValidString s"
  by (induction s) (simp_all add: ValidString.simps[of "_ # _"] ValidString.simps[of "[]"] rune_len_def)

lemma hex_val_digit [simp]: "k < 16 \<Longrightarrow> hex_val (hex_digit k) = Some k"
proof -
  have "\<forall>k < 16. hex_val (hex_digit k) = Some k" by code_simp
  then show "k < 16 \<Longrightarrow> ?thesis" by blast
qed

text \<open>A code whose length the leading element and what follows it tell: only the code itself matters.\<close>

lemma prefix_code:
  assumes f: "f [] = (None :: nat option)"
    "\<And>b0 r. f (b0 # r) =
      (if A b0 then Some 1
       else if B b0 then (case r of b1 # _ \<Rightarrow> if P b1 then Some 2 else None | _ \<Rightarrow> None)
       else if C b0 then (case r of b1 # b2 # _ \<Rightarrow> if Q b0 b1 b2 then Some 3 else None | _ \<Rightarrow> None)
       else if D b0 then (case r of b1 # b2 # b3 # _ \<Rightarrow> if S b0 b1 b2 b3 then Some 4 else None | _ \<Rightarrow> None)
       else None)"
    and n: "f bs = Some n"
  shows "n \<le> length bs \<and> f (take n bs @ xs) = Some n"
proof (cases bs)
  case (Cons b0 r)
  show ?thesis
    using n unfolding Cons f(2) by (auto simp: f(2) eval_nat_numeral split: if_splits list.splits)
qed (use n f in simp)

lemma rune_len_take: "rune_len bs = Some n \<Longrightarrow> n \<le> length bs \<and> rune_len (take n bs @ xs) = Some n"
  by (rule prefix_code[where f = rune_len]; (unfold rune_len_def Let_def list.case; rule refl)?)

lemma append_single [simp]: "(@) [c] = (#) c"
  by (rule ext) simp

lemma scan_plain:
  assumes "rune_len (map of_char (c # cs)) = Some n" "c \<noteq> CHR 0x22" "c \<noteq> CHR 0x5C" "\<not> (of_char c :: nat) < 32"
  shows "scan_string (take n (c # cs) @ t) = map_option (map_prod ((@) (take n (c # cs))) id) (scan_string t)"
proof -
  have n: "0 < n" "n \<le> length (c # cs)" using rune_len_pos[OF assms(1)] rune_len_take[OF assms(1)] by simp_all
  then obtain ds where ds: "take n (c # cs) = c # ds" by (cases n) auto
  have m: "take n (map of_char (c # cs)) = map of_char (c # ds)" by (simp only: take_map ds)
  have "rune_len (map of_char (c # ds) @ map of_char t) = Some n"
    using rune_len_take[OF assms(1), of "map of_char t"] unfolding m by blast
  then have "rune_len (map of_char (c # ds @ t)) = Some n" by simp
  moreover have "length (c # ds) = n" using ds n(2) by (metis length_take min.absorb2)
  then have "take n (c # ds @ t) = c # ds" "drop n (c # ds @ t) = t" by auto
  ultimately show ?thesis
    unfolding ds using assms(2-4) by (simp add: scan_string.simps[of "c # ds @ t"])
qed

text \<open>The escapes that \<open>json.Marshal\<close> writes.\<close>

lemma scan_u4:
  assumes "hex4 (h @ t) = Some u" "length h = 4" "\<not> is_surrogate u"
  shows "scan_string (CHR 0x5C # CHR ''u'' # h @ t) = map_option (map_prod ((@) (EncodeRune u)) id) (scan_string t)"
  using assms by (simp add: scan_string.simps[of "CHR 0x5C # CHR ''u'' # h @ t"] unicode_escape_def)

lemma scan_json_char:
  assumes "(of_char c :: nat) < 128"
  shows "scan_string (json_char c @ t) = map_option (map_prod ((#) c) id) (scan_string t)"
proof -
  let ?n = "of_char c :: nat"
  have e: "scan_string (CHR 0x5C # e # t) = map_option (map_prod ((#) c) id) (scan_string t)" if "simple_escape e = Some c" "e \<noteq> CHR ''u''" for e
    using that by (simp add: scan_string.simps[of "CHR 0x5C # e # t"])
  have "hex4 ([CHR ''0'', CHR ''0'', hex_digit (?n div 16), hex_digit (?n mod 16)] @ t) = Some ?n"
    using assms by (simp add: hex4_def hex_val_def[of "CHR ''0''"])
  from scan_u4[OF this] have u: "scan_string (CHR 0x5C # CHR ''u'' # CHR ''0'' # CHR ''0'' # hex_digit (?n div 16) # hex_digit (?n mod 16) # t) =
      map_option (map_prod ((#) c) id) (scan_string t)"
    using assms by (simp add: is_surrogate_def EncodeRune_def)
  have p: "scan_string (c # t) = map_option (map_prod ((#) c) id) (scan_string t)" if "c \<noteq> CHR 0x22" "c \<noteq> CHR 0x5C" "\<not> ?n < 32"
    using scan_plain[of c "[]" 1 t] that assms by (simp add: rune_len_def Let_def)
  have k: "c = CHR 0x22 \<or> c = CHR 0x5C \<or> c = CHR 0x08 \<or> c = CHR 0x0C \<or> c = CHR 0x0A \<or> c = CHR 0x0D \<or> c = CHR 0x09"
    if "?n \<in> {34, 92, 8, 12, 10, 13, 9}"
    using that by (auto simp flip: of_char_eq_iff[where 'a = nat])
  show ?thesis
  proof (cases "?n \<in> {34, 92, 8, 12, 10, 13, 9}")
    case True
    from k[OF this] have "simple_escape (json_char c ! 1) = Some c \<and> json_char c ! 1 \<noteq> CHR ''u'' \<and> json_char c = [CHR 0x5C, json_char c ! 1]"
      by (elim disjE; simp add: json_char_def simple_escape_def)
    then show ?thesis using e by (metis append_Cons append_Nil)
  next
    case False
    then have "c \<noteq> CHR 0x22" "c \<noteq> CHR 0x5C" by auto
    then show ?thesis using False u p by (auto simp: json_char_def Let_def)
  qed
qed

lemma scan_json_body:
  "scan_string (json_body s @ CHR 0x22 # r) = Some (to_valid s, r)"
proof (induction s rule: json_body.induct)
  case (1 s)
  show ?case
  proof (cases s)
    case Nil
    then show ?thesis by (simp add: json_body.simps scan_string.simps)
  next
    case (Cons c cs)
    let ?q = "CHR 0x22 # r"
    show ?thesis
    proof (cases "rune_len (map of_char s)")
      case None
      have "hex4 (''fffd'' @ t) = Some 0xFFFD" for t by (simp add: hex4_def hex_val_def)
      from scan_u4[OF this] have "scan_string (CHR 0x5C # ''ufffd'' @ t) = map_option (map_prod ((@) (EncodeRune rune_error)) id) (scan_string t)" for t
        by (simp add: is_surrogate_def rune_error_def)
      then show ?thesis using 1(1)[OF Cons None] None Cons by (simp add: json_body.simps[of "c # cs"] to_valid.simps[of "c # cs"])
    next
      case (Some n)
      note IH = 1(2)[OF Cons Some]
      have c: "(of_char c :: nat) < 128" if "n = 1"
        using Some that unfolding Cons rune_len_def Let_def by (auto split: list.splits if_splits)
      have c': "\<not> (of_char c :: nat) < 128" if "n \<noteq> 1"
        using Some that unfolding Cons rune_len_def Let_def by (auto split: list.splits if_splits)
      have "hex4 (''2028'' @ t) = Some 0x2028" "hex4 (''2029'' @ t) = Some 0x2029" for t by (simp_all add: hex4_def hex_val_def)
      moreover have "EncodeRune 0x2028 = [CHR 0xE2, CHR 0x80, CHR 0xA8]" "EncodeRune 0x2029 = [CHR 0xE2, CHR 0x80, CHR 0xA9]"
        by (simp_all add: EncodeRune_def is_surrogate_def flip: of_char_eq_iff[where 'a = nat])
      ultimately have ls: "scan_string (CHR 0x5C # ''u2028'' @ t) = map_option (map_prod ((@) [CHR 0xE2, CHR 0x80, CHR 0xA8]) id) (scan_string t)"
        "scan_string (CHR 0x5C # ''u2029'' @ t) = map_option (map_prod ((@) [CHR 0xE2, CHR 0x80, CHR 0xA9]) id) (scan_string t)" for t
        using scan_u4[of "''2028''" t] scan_u4[of "''2029''" t] by (simp_all add: is_surrogate_def)
      show ?thesis
      proof (cases "n = 1")
        case True
        then show ?thesis using IH Some Cons c by (simp add: json_body.simps[of "c # cs"] to_valid.simps[of "c # cs"] scan_json_char)
      next
        case False
        have "c \<noteq> CHR 0x22" "c \<noteq> CHR 0x5C" "\<not> (of_char c :: nat) < 32" using c'[OF False] by auto
        from scan_plain[OF Some[unfolded Cons] this] show ?thesis using IH Some Cons False
          using ls by (auto simp: json_body.simps[of "c # cs"] to_valid.simps[of "c # cs"])
      qed
    qed
  qed
qed

lemma next_token_punctuation [simp]:
  "next_token (CHR ''{'' # s) = Some (BeginObject, s)" "next_token (CHR ''}'' # s) = Some (EndObject, s)"
  "next_token (CHR ''['' # s) = Some (BeginArray, s)" "next_token (CHR '']'' # s) = Some (EndArray, s)"
  "next_token (CHR '':'' # s) = Some (NameSep, s)" "next_token (CHR '','' # s) = Some (ValueSep, s)"
  by (simp_all add: next_token_def json_space_def punctuation_def)

lemma next_token_literals [simplified, simp]:
  "next_token (''null'' @ s) = Some (TNull, s)" "next_token (''true'' @ s) = Some (TBool True, s)"
  "next_token (''false'' @ s) = Some (TBool False, s)"
  by (simp_all add: next_token_def json_space_def punctuation_def HasPrefix_def)

lemma next_token_string [simp]: "next_token (json_string s @ r) = Some (TString (to_valid s), r)"
  by (simp add: next_token_def json_space_def punctuation_def json_string_def scan_json_body)

text \<open>What may follow a number without being taken for a part of it.\<close>

definition number_end :: "string \<Rightarrow> bool" where
  "number_end r \<longleftrightarrow> r = [] \<or> digit_val (hd r) = None \<and> hd r \<notin> {CHR ''.'', CHR ''e'', CHR ''E''}"

lemma take_digits_append:
  "list_all (\<lambda>c. digit_val c \<noteq> None) ds \<Longrightarrow> number_end r \<Longrightarrow> take_digits (ds @ r) = ds"
  by (induction ds) (cases r; auto simp: number_end_def)+

lemma dec_nat_no_zero: "dec_nat n = CHR ''0'' # cs \<Longrightarrow> n = 0"
proof (induction n arbitrary: cs rule: dec_nat.induct)
  case (1 n)
  show ?case
  proof (cases "n < 10")
    case True
    then have "digit n = CHR ''0''" using 1(2) by (simp add: dec_nat.simps[of n])
    then have "digit_val (digit n) = Some 0" by (simp add: digit_val_def)
    then show ?thesis using True by simp
  next
    case False
    have "dec_nat (n div 10) = CHR ''0'' # tl (dec_nat (n div 10))"
      using 1(2) False dec_nat_Cons[of "n div 10"] by (auto simp: dec_nat.simps[of n])
    from 1(1)[OF False this] False show ?thesis by simp
  qed
qed

lemma integer_part_dec_nat:
  assumes "number_end r" shows "integer_part (dec_nat n @ r) = dec_nat n"
proof -
  obtain d cs where d: "d < 10" "dec_nat n = digit d # cs" using dec_nat_Cons by blast
  have ds: "list_all (\<lambda>c. digit_val c \<noteq> None) (dec_nat n)" using dec_nat_digits[of _ n] by (fastforce simp: list_all_iff)
  show ?thesis
  proof (cases "digit d = CHR ''0''")
    case True
    then have "n = 0" using dec_nat_no_zero d(2) by metis
    then show ?thesis by (simp add: integer_part_def dec_nat.simps digit_def)
  next
    case False
    then have "integer_part (dec_nat n @ r) = take_digits (dec_nat n @ r)" by (simp add: integer_part_def d(2))
    then show ?thesis using take_digits_append[OF ds assms] by simp
  qed
qed

lemma next_token_number:
  assumes "number_end r" shows "next_token (Itoa n @ r) = Some (TNumber (Itoa n), r)"
proof -
  have e: "fraction_part r = Some []" "exponent_part r = Some []"
    using assms by (auto simp: fraction_part_def exponent_part_def number_end_def split: list.splits)
  have p: "scan_number (dec_nat k @ r) = Some (dec_nat k, r)" for k
  proof -
    obtain d cs where d: "d < 10" "dec_nat k = digit d # cs" using dec_nat_Cons by blast
    then have "sign_part (dec_nat k @ r) = []" by (simp add: sign_part_def digit_no_sign)
    then show ?thesis by (simp add: scan_number_def integer_part_dec_nat[OF assms] e)
  qed
  have n: "scan_number (Itoa n @ r) = Some (Itoa n, r)"
  proof (cases "n < 0")
    case True
    then show ?thesis by (simp add: Itoa_def scan_number_def sign_part_def integer_part_dec_nat[OF assms] e)
  qed (simp add: Itoa_def p)
  have "\<exists>c cs. Itoa n @ r = c # cs \<and> (c = CHR ''-'' \<or> (\<exists>d < 10. c = digit d))"
    using dec_nat_Cons[of "nat n"] by (auto simp: Itoa_def)
  then obtain c cs where c: "Itoa n @ r = c # cs" "c = CHR ''-'' \<or> (\<exists>d < 10. c = digit d)" by blast
  have "digit_val c \<noteq> None \<or> c = CHR ''-''" using c(2) by auto
  then have "\<not> json_space c" "punctuation c = None" "c \<noteq> CHR 0x22" "c \<noteq> CHR ''n''" "c \<noteq> CHR ''t''" "c \<noteq> CHR ''f''"
    by (auto simp: json_space_def punctuation_def digit_val_def)
  then have "next_token (c # cs) = map_option (map_prod TNumber id) (scan_number (c # cs))"
    by (simp add: next_token_def HasPrefix_def)
  then show ?thesis using n c(1) by simp
qed

text \<open>The value that a text written by \<open>Marshal\<close> stands for.\<close>

fun value_of :: "json \<Rightarrow> jvalue" where
  "value_of JNull = VNull"
| "value_of (JBool b) = VBool b"
| "value_of (JInt n) = VNumber (Itoa n)"
| "value_of (JStr s) = VString (to_valid s)"
| "value_of (JArr xs) = VArray (map value_of xs)"
| "value_of (JObj ms) = VObject (map (\<lambda>(k, v). (to_valid k, value_of v)) ms)"

text \<open>A bound on the nesting.\<close>

fun nested_within :: "nat \<Rightarrow> json \<Rightarrow> bool" where
  "nested_within k (JArr xs) \<longleftrightarrow> 0 < k \<and> list_all (nested_within (k - 1)) xs"
| "nested_within k (JObj ms) \<longleftrightarrow> 0 < k \<and> list_all (\<lambda>(_, v). nested_within (k - 1) v) ms"
| "nested_within k j \<longleftrightarrow> True"

text \<open>How the machine goes on after a complete value.\<close>

definition resume :: "jvalue \<Rightarrow> frame list \<Rightarrow> string \<Rightarrow> (jvalue \<times> string) option" where
  "resume v st r =
     (case end_value v st of Refused \<Rightarrow> None | Done v \<Rightarrow> Some (v, r) | Open a st' \<Rightarrow> read_value a st' r)"

lemma read_token:
  "next_token s = Some (t, r) \<Longrightarrow> read_value a st s =
     (case scan_step a st t of Refused \<Rightarrow> None | Done v \<Rightarrow> Some (v, r) | Open a' st' \<Rightarrow> read_value a' st' r)"
  by (simp add: read_value.simps[of a st s])

lemma resume_in [simp]:
  "resume v [] r = Some (v, r)"
  "resume v (InArray vs # st) r = read_value Continuation (InArray (vs @ [v]) # st) r"
  "resume v (InMember ms k # st) r = read_value Continuation (InObject (ms @ [(k, v)]) # st) r"
  by (simp_all add: resume_def)

lemma number_end_punctuation [simp]:
  "number_end (CHR '','' # r)" "number_end (CHR '']'' # r)" "number_end (CHR ''}'' # r)" "number_end []"
  by (simp_all add: number_end_def digit_val_def)

lemma read_Marshal:
  shows "number_end r \<Longrightarrow> nested_within (maxNestingDepth - length st) j \<Longrightarrow> a = Value \<or> a = ValueOrEnd \<Longrightarrow>
      read_value a st (Marshal j @ r) = resume (value_of j) st r"
    and "xs \<noteq> [] \<Longrightarrow> list_all (nested_within (maxNestingDepth - length (InArray vs # st))) xs \<Longrightarrow> a = Value \<or> a = ValueOrEnd \<Longrightarrow>
      read_value a (InArray vs # st) (Marshal_list xs @ CHR '']'' # r) = resume (VArray (vs @ map value_of xs)) st r"
    and "ms \<noteq> [] \<Longrightarrow> list_all (\<lambda>(_, v). nested_within (maxNestingDepth - length (InObject fs # st)) v) ms \<Longrightarrow> a = Name \<or> a = NameOrEnd \<Longrightarrow>
      read_value a (InObject fs # st) (Marshal_members ms @ CHR ''}'' # r) =
        resume (VObject (fs @ map (\<lambda>(k, v). (to_valid k, value_of v)) ms)) st r"
proof (induction j and xs and ms arbitrary: a st r and a vs st r and a fs st r rule: Marshal_Marshal_list_Marshal_members.induct)
  case (5 xs)
  then have d: "length st < maxNestingDepth" "list_all (nested_within (maxNestingDepth - length (InArray [] # st))) xs" by simp_all
  show ?case
  proof (cases "xs = []")
    case True
    with 5 d(1) show ?thesis by (auto simp: read_token scan_step_def begin_value_def push_def resume_def)
  next
    case False
    with 5(1)[OF False d(2), of ValueOrEnd r] d(1) 5(4) show ?thesis
      by (auto simp: read_token scan_step_def begin_value_def push_def)
  qed
next
  case (6 ms)
  then have d: "length st < maxNestingDepth" "list_all (\<lambda>(_, v). nested_within (maxNestingDepth - length (InObject [] # st)) v) ms" by simp_all
  show ?case
  proof (cases "ms = []")
    case True
    with 6 d(1) show ?thesis by (auto simp: read_token scan_step_def begin_value_def push_def resume_def)
  next
    case False
    with 6(1)[OF False d(2), of NameOrEnd r] d(1) 6(4) show ?thesis
      by (auto simp: read_token scan_step_def begin_value_def push_def)
  qed
qed (auto simp: read_token scan_step_def begin_value_def resume_def next_token_number)

theorem whole_text_Marshal:
  "nested_within maxNestingDepth j \<Longrightarrow> whole_text (Marshal j) = Some (value_of j)"
  using read_Marshal(1)[of "[]" "[]" j Value] by (simp add: whole_text_def)

text \<open>An object as a message: the members come back in their order.\<close>

lemma Unmarshal_Marshal:
  "nested_within maxNestingDepth j \<Longrightarrow> Unmarshal fields zero (Marshal j) = store_struct False fields zero (value_of j)"
  by (simp add: Unmarshal_def whole_text_Marshal)

text \<open>A body that fits into the limit, whatever comes after the value.\<close>

lemma first_value_Marshal:
  assumes "nested_within maxNestingDepth (JObj ms)" "length (Marshal (JObj ms)) \<le> n"
  shows "first_value n (Marshal (JObj ms) @ r) = Some (value_of (JObj ms))"
proof -
  have "take n (Marshal (JObj ms) @ r) = Marshal (JObj ms) @ take (n - length (Marshal (JObj ms))) r"
    using assms(2) by (simp only: take_append take_all)
  moreover have "read_value Value [] (Marshal (JObj ms) @ q) = Some (value_of (JObj ms), q)" for q
  proof -
    have "read_value Value [] (CHR ''{'' # Marshal_members ms @ CHR ''}'' # q) = Some (value_of (JObj ms), q)"
    proof (cases "ms = []")
      case True
      then show ?thesis by (simp add: read_token scan_step_def begin_value_def push_def)
    next
      case False
      from read_Marshal(3)[OF False, where st = "[]" and a = NameOrEnd and fs = "[]" and r = q] assms(1) show ?thesis
        by (simp add: read_token scan_step_def begin_value_def push_def)
    qed
    then show ?thesis by simp
  qed
  ultimately show ?thesis by (simp add: first_value_def)
qed

lemma json_members_Marshal: "json_members (map (\<lambda>(k, v). (k, Marshal v)) ms) = Marshal_members ms"
  by (induction ms rule: induct_list012) auto

lemma json_object_Marshal: "json_object (map (\<lambda>(k, v). (k, Marshal v)) ms) = Marshal (JObj ms)"
  by (simp add: json_object_def json_members_Marshal)

end
