(* ===== verification/Logging.thy ===== *)
theory Logging
  imports Schema Json
begin

text \<open>
  \<open>internal/logging/logger.go\<close>, \<open>internal/events/events.go\<close> and the sending half of
  \<open>internal/supervisor/commands.go\<close>: the three ways a component tells others something. The copy
  of a log entry on standard output is a function of the entry, no part of the state. No log call can fail, whatever
  happens to the stream, and no call here touches a key other than its own stream, list or channel.
\<close>


section \<open>The structured logger\<close>

record KeyValue =
  kv_Key :: string
  kv_Value :: string

record Logger =
  l_component :: string
  l_client :: bool \<comment> \<open>whether \<open>l.client != nil\<close>\<close>

record LogEntry =
  e_Timestamp :: string
  e_Component :: string
  e_Level :: string
  e_EventType :: string
  e_DeploymentID :: string
  e_PodID :: string
  e_NodeID :: string
  e_Message :: string

definition DeploymentID :: "string \<Rightarrow> KeyValue" where
  "DeploymentID i = \<lparr>kv_Key = ''deployment_id'', kv_Value = i\<rparr>"

definition PodID :: "string \<Rightarrow> KeyValue" where
  "PodID i = \<lparr>kv_Key = ''pod_id'', kv_Value = i\<rparr>"

definition NodeID :: "string \<Rightarrow> KeyValue" where
  "NodeID i = \<lparr>kv_Key = ''node_id'', kv_Value = i\<rparr>"

text \<open>The loop over the optional identifiers.\<close>

fun apply_ids :: "KeyValue list \<Rightarrow> LogEntry \<Rightarrow> LogEntry" where
  "apply_ids [] e = e"
| "apply_ids (kv # ids) e = apply_ids ids
     (if kv_Key kv = ''deployment_id'' then e\<lparr>e_DeploymentID := kv_Value kv\<rparr>
      else if kv_Key kv = ''pod_id'' then e\<lparr>e_PodID := kv_Value kv\<rparr>
      else if kv_Key kv = ''node_id'' then e\<lparr>e_NodeID := kv_Value kv\<rparr>
      else e)"

text \<open>The fields written to the stream.\<close>

definition entry_fields :: "LogEntry \<Rightarrow> (string \<times> string) list" where
  "entry_fields e =
     [(''timestamp'', e_Timestamp e),
      (''component'', e_Component e),
      (''level'', e_Level e),
      (''event_type'', e_EventType e),
      (''message'', e_Message e)]
     @ field_if (e_DeploymentID e \<noteq> []) ''deployment_id'' (e_DeploymentID e)
     @ field_if (e_PodID e \<noteq> []) ''pod_id'' (e_PodID e)
     @ field_if (e_NodeID e \<noteq> []) ''node_id'' (e_NodeID e)"

text \<open>The copy on standard output: the JSON of the entry, empty identifiers left out.\<close>

definition entry_json :: "LogEntry \<Rightarrow> json" where
  "entry_json e = JObj (
     [(''timestamp'', JStr (e_Timestamp e)), (''component'', JStr (e_Component e)), (''level'', JStr (e_Level e)),
      (''event_type'', JStr (e_EventType e))]
     @ field_if (e_DeploymentID e \<noteq> []) ''deployment_id'' (JStr (e_DeploymentID e))
     @ field_if (e_PodID e \<noteq> []) ''pod_id'' (JStr (e_PodID e))
     @ field_if (e_NodeID e \<noteq> []) ''node_id'' (JStr (e_NodeID e))
     @ [(''message'', JStr (e_Message e))])"

definition stdout_line :: "LogEntry \<Rightarrow> string" where
  "stdout_line e = Marshal (entry_json e) @ newline"

definition log ::
  "('db, 'e) env_scheme \<Rightarrow> Logger \<Rightarrow> string \<Rightarrow> string \<Rightarrow> string \<Rightarrow> KeyValue list \<Rightarrow>
   (('db, 'm) world_scheme, unit) state"
where
  "log E l level eventType msg ids = do {
     t \<leftarrow> now_text E;
     let entry = apply_ids ids
       \<lparr>e_Timestamp = t, e_Component = l_component l, e_Level = level, e_EventType = eventType,
        e_DeploymentID = [], e_PodID = [], e_NodeID = [], e_Message = msg\<rparr>;
     if l_client l
     then do { _ \<leftarrow> StreamAppend E LogStreamKey (entry_fields entry); State_Monad.return () }
     else State_Monad.return () }"

definition Info where
  "Info E l eventType msg ids = log E l ''INFO'' eventType msg ids"

definition Warn where
  "Warn E l eventType msg ids = log E l ''WARN'' eventType msg ids"

definition Error where
  "Error E l eventType msg ids = log E l ''ERROR'' eventType msg ids"


section \<open>Deployment events\<close>

abbreviation EventUpdate :: string where "EventUpdate \<equiv> ''UPDATE''"
abbreviation EventDeleted :: string where "EventDeleted \<equiv> ''DELETE''"

record DeploymentEvent =
  ev_Event :: string
  ev_Deployment :: string
  ev_Desired :: int

definition marshal_event :: "DeploymentEvent \<Rightarrow> string" where
  "marshal_event ev = json_object
     [(''event'', json_string (ev_Event ev)),
      (''deployment'', json_string (ev_Deployment ev)),
      (''desired'', Itoa (ev_Desired ev))]"

text \<open>\<open>events.Publish\<close>; marshalling strings and an integer cannot fail.\<close>

definition PublishEvent ::
  "('db, 'e) env_scheme \<Rightarrow> DeploymentEvent \<Rightarrow> (('db, 'm) world_scheme, unit) fallible"
where
  "PublishEvent E ev =
     on_error (Publish E DeploymentEventsChannel (marshal_event ev))
       (\<lambda>e. throw (Errorf ''publish deployment event: %w'' [ArgE e]))
       (\<lambda>_. ok ())"


text \<open>\<open>events.Decode\<close>. The parameter is the error that \<open>json.Unmarshal\<close> reports for a text it refuses.\<close>

definition event_fields :: "DeploymentEvent fields" where
  "event_fields =
     [(''event'', string_field (\<lambda>x ev. ev\<lparr>ev_Event := x\<rparr>)),
      (''deployment'', string_field (\<lambda>x ev. ev\<lparr>ev_Deployment := x\<rparr>)),
      (''desired'', int_field (\<lambda>n ev. ev\<lparr>ev_Desired := n\<rparr>))]"

definition Decode :: "(string \<Rightarrow> error) \<Rightarrow> string \<Rightarrow> error + DeploymentEvent" where
  "Decode refusal payload =
     (case Unmarshal event_fields \<lparr>ev_Event = [], ev_Deployment = [], ev_Desired = 0\<rparr> payload of
        None \<Rightarrow> Inl (Errorf ''decode deployment event %q: %w'' [ArgS payload, ArgE (refusal payload)])
      | Some ev \<Rightarrow> if ev_Deployment ev = [] then Inl (Errorf ''deployment event %q names no deployment'' [ArgS payload]) else Inr ev)"


section \<open>Commands to a node\<close>

abbreviation CommandStartPod :: string where "CommandStartPod \<equiv> ''start-pod''"
abbreviation CommandStopPod :: string where "CommandStopPod \<equiv> ''stop-pod''"

record Command =
  c_Type :: string
  c_Deployment :: string
  c_PodID :: string

definition EncodeCommand :: "Command \<Rightarrow> string" where
  "EncodeCommand cmd = json_object
     [(''type'', json_string (c_Type cmd)),
      (''deployment'', json_string (c_Deployment cmd)),
      (''pod_id'', json_string (c_PodID cmd))]"

text \<open>\<open>DecodeCommand\<close>, with the same parameter.\<close>

definition command_fields :: "Command fields" where
  "command_fields =
     [(''type'', string_field (\<lambda>x c. c\<lparr>c_Type := x\<rparr>)),
      (''deployment'', string_field (\<lambda>x c. c\<lparr>c_Deployment := x\<rparr>)),
      (''pod_id'', string_field (\<lambda>x c. c\<lparr>c_PodID := x\<rparr>))]"

definition DecodeCommand :: "(string \<Rightarrow> error) \<Rightarrow> string \<Rightarrow> error + Command" where
  "DecodeCommand refusal payload =
     (case Unmarshal command_fields \<lparr>c_Type = [], c_Deployment = [], c_PodID = []\<rparr> payload of
        None \<Rightarrow> Inl (Errorf ''decode command %q: %w'' [ArgS payload, ArgE (refusal payload)])
      | Some cmd \<Rightarrow>
          if c_Type cmd = [] then Inl (Errorf ''command %q has no type'' [ArgS payload])
          else if c_Deployment cmd = [] \<or> c_PodID cmd = [] then Inl (Errorf ''command %q does not identify a pod'' [ArgS payload])
          else Inr cmd)"

definition SendCommand ::
  "('db, 'e) env_scheme \<Rightarrow> string \<Rightarrow> Command \<Rightarrow> (('db, 'm) world_scheme, unit) fallible"
where
  "SendCommand E nodeID cmd =
     on_error (ListPush E (NodeCommandsKey nodeID) (EncodeCommand cmd))
       (\<lambda>e. throw (Errorf ''queue %s command for %s: %w'' [ArgS (c_Type cmd), ArgS nodeID, ArgE e]))
       (\<lambda>_. ok ())"


section \<open>Round trips\<close>

lemma event_read_back:
  "in_int64 (ev_Desired ev) \<Longrightarrow> Unmarshal event_fields zero (marshal_event ev) =
     Some (zero\<lparr>ev_Event := to_valid (ev_Event ev), ev_Deployment := to_valid (ev_Deployment ev), ev_Desired := ev_Desired ev\<rparr>)"
proof -
  let ?j = "JObj [(''event'', JStr (ev_Event ev)), (''deployment'', JStr (ev_Deployment ev)), (''desired'', JInt (ev_Desired ev))]"
  have "marshal_event ev = Marshal ?j" by (simp add: marshal_event_def json_object_def)
  moreover have "nested_within maxNestingDepth ?j" by simp
  ultimately show "in_int64 (ev_Desired ev) \<Longrightarrow> ?thesis"
    by (simp only: Unmarshal_Marshal)
      (simp add: store_struct_def find_field_def event_fields_def string_field_def int_field_def to_valid_same ValidString_ascii)
qed

lemma command_read_back:
  "Unmarshal command_fields zero (EncodeCommand c) =
     Some (zero\<lparr>c_Type := to_valid (c_Type c), c_Deployment := to_valid (c_Deployment c), c_PodID := to_valid (c_PodID c)\<rparr>)"
proof -
  let ?j = "JObj [(''type'', JStr (c_Type c)), (''deployment'', JStr (c_Deployment c)), (''pod_id'', JStr (c_PodID c))]"
  have "EncodeCommand c = Marshal ?j" by (simp add: EncodeCommand_def json_object_def)
  moreover have "nested_within maxNestingDepth ?j" by simp
  ultimately show ?thesis
    by (simp only: Unmarshal_Marshal)
      (simp add: store_struct_def find_field_def command_fields_def string_field_def to_valid_same ValidString_ascii)
qed

text \<open>A command that the decoder accepts as it is: it names everything, in valid UTF-8.\<close>

definition usable_command :: "Command \<Rightarrow> bool" where
  "usable_command c \<longleftrightarrow> c_Type c \<noteq> [] \<and> c_Deployment c \<noteq> [] \<and> c_PodID c \<noteq> [] \<and>
     ValidString (c_Type c) \<and> ValidString (c_Deployment c) \<and> ValidString (c_PodID c)"

definition usable_event :: "DeploymentEvent \<Rightarrow> bool" where
  "usable_event ev \<longleftrightarrow> ValidString (ev_Event ev) \<and> ValidString (ev_Deployment ev) \<and> ev_Deployment ev \<noteq> [] \<and> in_int64 (ev_Desired ev)"

lemma command_roundtrip: "usable_command c \<Longrightarrow> DecodeCommand refusal (EncodeCommand c) = Inr c"
  by (simp add: DecodeCommand_def command_read_back usable_command_def to_valid_same)

lemma event_roundtrip: "usable_event ev \<Longrightarrow> Decode refusal (marshal_event ev) = Inr ev"
  by (simp add: Decode_def event_read_back usable_event_def to_valid_same)

text \<open>C18. Both kinds of message survive the way through the database: a deployment event and a command for a node, with any valid
  text in their fields, are decoded from the JSON they are sent as to exactly what was sent.\<close>

theorem messages_roundtrip:
  assumes "usable_command c" "usable_event ev"
  shows "DecodeCommand refusal (EncodeCommand c) = Inr c \<and> Decode refusal (marshal_event ev) = Inr ev"
  using assms by (simp add: command_roundtrip event_roundtrip)

definition demo_refusal :: "string \<Rightarrow> error" where
  "demo_refusal payload = Errorf ''unexpected end of JSON input'' []"

theorem messages_roundtrip_witness:
  "DecodeCommand demo_refusal (EncodeCommand \<lparr>c_Type = CommandStartPod, c_Deployment = ''web'', c_PodID = ''7f''\<rparr>) =
     Inr \<lparr>c_Type = CommandStartPod, c_Deployment = ''web'', c_PodID = ''7f''\<rparr> \<and>
   Decode demo_refusal (marshal_event \<lparr>ev_Event = EventUpdate, ev_Deployment = ''web'', ev_Desired = 3\<rparr>) =
     Inr \<lparr>ev_Event = EventUpdate, ev_Deployment = ''web'', ev_Desired = 3\<rparr>"
  by (rule messages_roundtrip) (simp_all add: usable_command_def usable_event_def ValidString_ascii in_int64_def)


section \<open>What they keep\<close>

context guarded
begin

lemma keeps_log [keeps_intros]: "ignores I LogStreamKey \<Longrightarrow> keeps J (log E l level et msg ids)"
  unfolding log_def Let_def by (intro keeps_intros)

lemma keeps_log_calls [keeps_intros]:
  assumes "ignores I LogStreamKey"
  shows "keeps J (Info E l et msg ids)" "keeps J (Warn E l et msg ids)" "keeps J (Error E l et msg ids)"
  using assms by (simp_all add: Info_def Warn_def Error_def keeps_log)

lemma keeps_PublishEvent [keeps_intros]: "keeps J (PublishEvent E ev)"
  unfolding PublishEvent_def by (intro keeps_intros)

lemma keeps_SendCommand [keeps_intros]: "ignores I (NodeCommandsKey n) \<Longrightarrow> keeps J (SendCommand E n cmd)"
  unfolding SendCommand_def by (intro keeps_intros)

end


section \<open>One line per entry\<close>

lemma rune_bytes: "rune_len bs = Some n \<Longrightarrow> n \<noteq> 1 \<Longrightarrow> b \<in> set (take n bs) \<Longrightarrow> 0x80 \<le> b"
  by (auto simp: rune_len_def Let_def split: list.splits if_splits)

lemma hex_digit_newline: "k < 16 \<Longrightarrow> hex_digit k \<noteq> CHR 0x0A"
proof -
  assume "k < 16"
  moreover have "list_all (\<lambda>k. hex_digit k \<noteq> CHR 0x0A) [0..<16]" by code_simp
  ultimately show ?thesis by (simp add: list_all_iff)
qed

lemma json_char_newline: "CHR 0x0A \<notin> set (json_char c)"
proof -
  have "c = CHR 0x0A \<Longrightarrow> (of_char c :: nat) = 10" by simp
  then show ?thesis by (auto simp: json_char_def Let_def hex_digit_newline[symmetric] intro: hex_digit_newline[THEN not_sym])
qed

lemma json_body_newline: "CHR 0x0A \<notin> set (json_body s)"
proof (induction s rule: json_body.induct)
  case (1 s)
  show ?case
  proof (cases s)
    case (Cons c cs)
    show ?thesis
    proof (cases "rune_len (map of_char s :: nat list)")
      case None
      then show ?thesis using 1(1) Cons by (subst json_body.simps) simp
    next
      case (Some n)
      have "CHR 0x0A \<notin> set (take n s)" if "n \<noteq> 1"
      proof
        assume "CHR 0x0A \<in> set (take n s)"
        then have "(of_char (CHR 0x0A) :: nat) \<in> set (take n (map of_char s))" by (simp only: take_map set_map image_eqI)
        from rune_bytes[OF Some that this] show False by simp
      qed
      then show ?thesis using 1(2)[OF Cons Some] Some Cons json_char_newline by (subst json_body.simps) auto
    qed
  qed (subst json_body.simps, simp)
qed

lemma json_string_newline [simp]: "CHR 0x0A \<notin> set (json_string s)"
  using json_body_newline[of s] by (simp add: json_string_def)

text \<open>Each entry is one line: whatever its strings hold, the only newline is the one at the end.\<close>

theorem stdout_one_line: "\<exists>line. stdout_line e = line @ newline \<and> CHR 0x0A \<notin> set line"
  by (intro exI[of _ "Marshal (entry_json e)"]) (simp add: stdout_line_def entry_json_def field_if_def)

end
