(* ===== verification/Capacity.thy ===== *)
theory Capacity
  imports Logging
begin

text \<open>
  \<open>internal/capacity/capacity.go\<close>: the two Lua scripts that change a node's allocation, and the
  calls that run them. A script is a program over the server's commands that the server executes as
  one step; a failing \<open>redis.call\<close> ends it with that error and keeps what was written before.
  The central result is the invariant \<open>no_oversubscription\<close>: whatever other components do that
  keep it, whatever faults occur, no allocation leaves the range from zero to the node's total.
\<close>


section \<open>The scripts\<close>

abbreviation (input) reserveOK :: int where "reserveOK \<equiv> 1"
abbreviation (input) reserveNoHeadroom :: int where "reserveNoHeadroom \<equiv> 0"
abbreviation (input) reserveNoSuchNode :: int where "reserveNoSuchNode \<equiv> - 1"
abbreviation (input) reserveMalformed :: int where "reserveMalformed \<equiv> - 2"

text \<open>\<open>tonumber(redis.call('HGET', ...))\<close>: a missing field is \<open>false\<close>, whose number is \<open>nil\<close>.\<close>

definition lua_number :: "'db redis \<Rightarrow> string option \<Rightarrow> rat option" where
  "lua_number R v = (case v of None \<Rightarrow> None | Some s \<Rightarrow> r_tonumber R s)"

text \<open>Comparing or calculating with \<open>nil\<close> ends a script with an error.\<close>

definition lua_nil_error :: error where
  "lua_nil_error = Errorf ''attempt to use a nil value'' []"

definition reserveScript ::
  "'db redis \<Rightarrow> string \<Rightarrow> string \<Rightarrow> string \<Rightarrow> ('db, int) fallible"
where
  "reserveScript R key arg1 arg2 =
     (let cpuReq = r_tonumber R arg1; memReq = r_tonumber R arg2 in
      attempt (r_exists R key) (\<lambda>ex.
      if \<not> ex then ok reserveNoSuchNode else
      attempt (r_hget R key FieldTotalCPU) (\<lambda>v1.
      attempt (r_hget R key FieldTotalMem) (\<lambda>v2.
      attempt (r_hget R key FieldAllocatedCPU) (\<lambda>v3.
      attempt (r_hget R key FieldAllocatedMem) (\<lambda>v4.
      case (lua_number R v1, lua_number R v2, lua_number R v3, lua_number R v4) of
        (Some totalCPU, Some totalMem, Some allocCPU, Some allocMem) \<Rightarrow>
          (case cpuReq of None \<Rightarrow> throw lua_nil_error | Some cpu \<Rightarrow>
           if fl (totalCPU - allocCPU) < cpu then ok reserveNoHeadroom else
           (case memReq of None \<Rightarrow> throw lua_nil_error | Some mem \<Rightarrow>
            if fl (totalMem - allocMem) < mem then ok reserveNoHeadroom else
            attempt (r_hincrby R key FieldAllocatedCPU (r_tostring R cpu)) (\<lambda>_.
            attempt (r_hincrby R key FieldAllocatedMem (r_tostring R mem)) (\<lambda>_.
            ok reserveOK))))
      | _ \<Rightarrow> ok reserveMalformed))))))"

text \<open>\<open>tonumber(...) or 0\<close>\<close>

definition number_or :: "rat \<Rightarrow> rat option \<Rightarrow> rat" where
  "number_or d x = (case x of None \<Rightarrow> d | Some n \<Rightarrow> n)"

definition releaseScript ::
  "'db redis \<Rightarrow> string \<Rightarrow> string \<Rightarrow> string \<Rightarrow> ('db, int) fallible"
where
  "releaseScript R key arg1 arg2 =
     (let cpuRel = r_tonumber R arg1; memRel = r_tonumber R arg2 in
      attempt (r_exists R key) (\<lambda>ex.
      if \<not> ex then ok 0 else
      attempt (r_hget R key FieldAllocatedCPU) (\<lambda>v1.
      attempt (r_hget R key FieldAllocatedMem) (\<lambda>v2.
      case (cpuRel, memRel) of
        (Some cpu, Some mem) \<Rightarrow>
          (let allocCPU = number_or 0 (lua_number R v1);
               allocMem = number_or 0 (lua_number R v2);
               newCPU = fl (allocCPU - cpu);
               newMem = fl (allocMem - mem);
               newCPU' = (if newCPU < 0 then 0 else newCPU);
               newMem' = (if newMem < 0 then 0 else newMem)
           in attempt (r_hset R key [(FieldAllocatedCPU, r_tostring R newCPU'), (FieldAllocatedMem, r_tostring R newMem')])
                (\<lambda>_. ok 1))
      | _ \<Rightarrow> throw lua_nil_error))))"


section \<open>The calls\<close>

text \<open>The script answers with an integer, so the type assertion of the source always holds.\<close>

definition Reserve ::
  "('db, 'e) env_scheme \<Rightarrow> string \<Rightarrow> int \<Rightarrow> int \<Rightarrow> (('db, 'm) world_scheme, bool) fallible"
where
  "Reserve E nodeID cpuReq memReq =
     (let R = server E in
      on_error
        (EvalScript E (reserveScript R (NodeCapacityKey nodeID) (r_arg R (VInt cpuReq)) (r_arg R (VInt memReq))))
        (\<lambda>e. throw (Errorf ''reserve capacity on %s: %w'' [ArgS nodeID, ArgE e]))
        (\<lambda>code.
          if code = reserveOK then ok True
          else if code = reserveNoHeadroom \<or> code = reserveNoSuchNode then ok False
          else if code = reserveMalformed then throw (Errorf ''capacity hash for %s is malformed'' [ArgS nodeID])
          else throw (Errorf ''reserve capacity on %s: unknown result %d'' [ArgS nodeID, ArgD code])))"

definition Release ::
  "('db, 'e) env_scheme \<Rightarrow> string \<Rightarrow> int \<Rightarrow> int \<Rightarrow> (('db, 'm) world_scheme, unit) fallible"
where
  "Release E nodeID cpuRel memRel =
     (let R = server E in
      on_error
        (EvalScript E (releaseScript R (NodeCapacityKey nodeID) (r_arg R (VInt cpuRel)) (r_arg R (VInt memRel))))
        (\<lambda>e. throw (Errorf ''release capacity on %s: %w'' [ArgS nodeID, ArgE e]))
        (\<lambda>_. ok ()))"


section \<open>What a capacity hash says\<close>

definition holds_capacity :: "keyspace \<Rightarrow> string \<Rightarrow> NodeCapacity \<Rightarrow> bool" where
  "holds_capacity v n c \<longleftrightarrow> (\<exists>m. v (NodeCapacityKey n) = Some (RHash m) \<and>
     m FieldTotalCPU = Some (Itoa (n_TotalCPU c)) \<and>
     m FieldTotalMem = Some (Itoa (n_TotalMem c)) \<and>
     m FieldAllocatedCPU = Some (Itoa (n_AllocatedCPU c)) \<and>
     m FieldAllocatedMem = Some (Itoa (n_AllocatedMem c)))"

text \<open>Allocations between zero and the totals, and totals that Lua's numbers hold exactly
  (\<open>2\<^sup>5\<^sup>2\<close> millicores and megabytes).\<close>

definition within_totals :: "NodeCapacity \<Rightarrow> bool" where
  "within_totals c \<longleftrightarrow> 0 \<le> n_AllocatedCPU c \<and> n_AllocatedCPU c \<le> n_TotalCPU c \<and> n_TotalCPU c \<le> 2 ^ 52 \<and>
     0 \<le> n_AllocatedMem c \<and> n_AllocatedMem c \<le> n_TotalMem c \<and> n_TotalMem c \<le> 2 ^ 52"

definition no_oversubscription :: "keyspace \<Rightarrow> bool" where
  "no_oversubscription v \<longleftrightarrow>
     (\<forall>n. v (NodeCapacityKey n) \<noteq> None \<longrightarrow> (\<exists>c. holds_capacity v n c \<and> within_totals c))"

text \<open>The keyspace after the allocation of a node is set.\<close>

definition put_alloc :: "keyspace \<Rightarrow> string \<Rightarrow> int \<Rightarrow> int \<Rightarrow> keyspace" where
  "put_alloc v n cpu mem = v(NodeCapacityKey n \<mapsto> RHash ((hash_at v (NodeCapacityKey n))
     (FieldAllocatedCPU \<mapsto> Itoa cpu, FieldAllocatedMem \<mapsto> Itoa mem)))"



section \<open>The effect of the scripts\<close>

lemma holds_capacityE:
  assumes "holds_capacity v n c"
  obtains m where "v (NodeCapacityKey n) = Some (RHash m)" "hash_at v (NodeCapacityKey n) = m"
    "is_hash v (NodeCapacityKey n)" "v (NodeCapacityKey n) \<noteq> None"
    "m FieldTotalCPU = Some (Itoa (n_TotalCPU c))" "m FieldTotalMem = Some (Itoa (n_TotalMem c))"
    "m FieldAllocatedCPU = Some (Itoa (n_AllocatedCPU c))" "m FieldAllocatedMem = Some (Itoa (n_AllocatedMem c))"
  using assms by (auto simp: holds_capacity_def hash_at_def is_hash_def)

lemma holds_capacity_unique: "holds_capacity v n c \<Longrightarrow> holds_capacity v n c' \<Longrightarrow> c = c'"
  by (cases c; cases c') (auto simp: holds_capacity_def)

lemma holds_put_alloc:
  assumes "holds_capacity v n c"
  shows "holds_capacity (put_alloc v n a b) n (c\<lparr>n_AllocatedCPU := a, n_AllocatedMem := b\<rparr>)"
  using assms by (elim holds_capacityE) (simp add: holds_capacity_def put_alloc_def)

lemma holds_put_alloc_other:
  "k \<noteq> n \<Longrightarrow> holds_capacity (put_alloc v n a b) k c = holds_capacity v k c"
  by (simp add: holds_capacity_def put_alloc_def key_simps)

lemma no_oversubscription_put_alloc:
  assumes "no_oversubscription v" "holds_capacity v n c"
    "within_totals (c\<lparr>n_AllocatedCPU := a, n_AllocatedMem := b\<rparr>)"
  shows "no_oversubscription (put_alloc v n a b)"
  unfolding no_oversubscription_def
proof (intro allI impI)
  fix k
  assume k: "put_alloc v n a b (NodeCapacityKey k) \<noteq> None"
  show "\<exists>c. holds_capacity (put_alloc v n a b) k c \<and> within_totals c"
  proof (cases "k = n")
    case True
    then show ?thesis using holds_put_alloc[OF assms(2)] assms(3) by blast
  next
    case False
    then have "v (NodeCapacityKey k) \<noteq> None" using k by (simp add: put_alloc_def key_simps)
    then show ?thesis using assms(1) False by (auto simp: no_oversubscription_def holds_put_alloc_other)
  qed
qed

lemma no_oversubscriptionD:
  "no_oversubscription v \<Longrightarrow> v (NodeCapacityKey n) \<noteq> None \<Longrightarrow> \<exists>c. holds_capacity v n c \<and> within_totals c"
  by (simp add: no_oversubscription_def)

lemma no_oversubscription_ignores:
  assumes "\<And>n. k \<noteq> NodeCapacityKey n"
  shows "ignores no_oversubscription k"
  using assms[symmetric] by (simp add: ignores_def no_oversubscription_def holds_capacity_def)

lemma no_oversubscription_ignored [simp]:
  "ignores no_oversubscription LogStreamKey" "ignores no_oversubscription NodeRegistryKey"
  "ignores no_oversubscription (NodeStatusKey n)" "ignores no_oversubscription (NodeCommandsKey n)"
  "ignores no_oversubscription (DeploymentKey d)" "ignores no_oversubscription (PodKey d p)"
  "ignores no_oversubscription (TelemetryCPUKey d p)"
  by (rule no_oversubscription_ignores; simp add: key_simps)+

lemma within_totals_small:
  assumes "within_totals c"
  shows "\<bar>n_TotalCPU c\<bar> \<le> 2 ^ 53" "\<bar>n_TotalMem c\<bar> \<le> 2 ^ 53" "\<bar>n_AllocatedCPU c\<bar> \<le> 2 ^ 53"
    "\<bar>n_AllocatedMem c\<bar> \<le> 2 ^ 53" "in_int64 (n_TotalCPU c)" "in_int64 (n_TotalMem c)"
    "in_int64 (n_AllocatedCPU c)" "in_int64 (n_AllocatedMem c)"
  using assms by (auto simp: within_totals_def in_int64_def)

lemma fl_diff:
  assumes "0 \<le> a" "a \<le> t" "t \<le> 2 ^ 52"
  shows "fl (rat_of_int t - rat_of_int a) = of_int (t - a)"
proof -
  have "fl (of_int (t - a)) = (of_int (t - a) :: rat)" by (rule fl_of_int) (use assms in auto)
  then show ?thesis by simp
qed

text \<open>A request fits in what is free exactly when it fits as a rounded number, because what is free is
  below the range in which rounding starts.\<close>

lemma fits_rounded:
  assumes "0 \<le> f" "f \<le> 2 ^ 52" "0 \<le> q"
  shows "rat_of_int f < fl (of_int q) \<longleftrightarrow> f < q"
proof (cases "q \<le> 2 ^ 53")
  case True
  then have "fl (of_int q) = (of_int q :: rat)" using assms by (intro fl_of_int) auto
  then show ?thesis by simp
next
  case False
  then have "(of_int (2 ^ 53) :: rat) \<le> of_int q" by (simp only: of_int_le_iff)
  then have "fl (of_int (2 ^ 53)) \<le> fl (of_int q)" by (intro fl_mono) auto
  moreover have "fl (of_int (2 ^ 53)) = (of_int (2 ^ 53) :: rat)" by (rule fl_of_int) simp
  moreover have "f < 2 ^ 53" using assms by simp
  then have "(of_int f :: rat) < of_int (2 ^ 53)" by (simp only: of_int_less_iff)
  ultimately have "rat_of_int f < fl (of_int q)" by linarith
  then show ?thesis using False assms by simp
qed

context redis_server
begin

lemma run_reserve:
  assumes c: "holds_capacity (view d) n c" "within_totals c"
    and q: "0 \<le> cpu" "in_int64 cpu" "0 \<le> mem" "in_int64 mem"
    and run: "run_state (reserveScript R (NodeCapacityKey n) (Itoa cpu) (Itoa mem)) d = (r, d')"
  shows "if n_AllocatedCPU c + cpu \<le> n_TotalCPU c \<and> n_AllocatedMem c + mem \<le> n_TotalMem c
    then r = Inr reserveOK \<and> view d' = put_alloc (view d) n (n_AllocatedCPU c + cpu) (n_AllocatedMem c + mem)
    else r = Inr reserveNoHeadroom \<and> d' = d"
proof -
  obtain m where m: "view d (NodeCapacityKey n) = Some (RHash m)" "hash_at (view d) (NodeCapacityKey n) = m"
    "is_hash (view d) (NodeCapacityKey n)" "view d (NodeCapacityKey n) \<noteq> None"
    "m FieldTotalCPU = Some (Itoa (n_TotalCPU c))" "m FieldTotalMem = Some (Itoa (n_TotalMem c))"
    "m FieldAllocatedCPU = Some (Itoa (n_AllocatedCPU c))" "m FieldAllocatedMem = Some (Itoa (n_AllocatedMem c))"
    using holds_capacityE[OF c(1)] by blast
  note s = within_totals_small[OF c(2)]
  have w: "0 \<le> n_AllocatedCPU c" "n_AllocatedCPU c \<le> n_TotalCPU c" "n_TotalCPU c \<le> 2 ^ 52"
    "0 \<le> n_AllocatedMem c" "n_AllocatedMem c \<le> n_TotalMem c" "n_TotalMem c \<le> 2 ^ 52"
    using c(2) by (auto simp: within_totals_def)
  have gap: "of_int (n_TotalCPU c - n_AllocatedCPU c) < fl (of_int cpu) \<longleftrightarrow> n_TotalCPU c < n_AllocatedCPU c + cpu"
    "of_int (n_TotalMem c - n_AllocatedMem c) < fl (of_int mem) \<longleftrightarrow> n_TotalMem c < n_AllocatedMem c + mem"
    using w q fits_rounded[of "n_TotalCPU c - n_AllocatedCPU c" cpu] fits_rounded[of "n_TotalMem c - n_AllocatedMem c" mem]
    by auto
  have nums: "r_tonumber R (Itoa (n_TotalCPU c)) = Some (of_int (n_TotalCPU c))"
     "r_tonumber R (Itoa (n_TotalMem c)) = Some (of_int (n_TotalMem c))"
     "r_tonumber R (Itoa (n_AllocatedCPU c)) = Some (of_int (n_AllocatedCPU c))"
     "r_tonumber R (Itoa (n_AllocatedMem c)) = Some (of_int (n_AllocatedMem c))"
    using s by (simp_all add: tonumber_int fl_of_int)
  have run': "(r, d') =
    (if n_TotalCPU c < n_AllocatedCPU c + cpu \<or> n_TotalMem c < n_AllocatedMem c + mem then (Inr reserveNoHeadroom, d)
     else run_state
       (attempt (r_hincrby R (NodeCapacityKey n) FieldAllocatedCPU (r_tostring R (fl (of_int cpu)))) (\<lambda>_.
        attempt (r_hincrby R (NodeCapacityKey n) FieldAllocatedMem (r_tostring R (fl (of_int mem)))) (\<lambda>_.
        ok reserveOK))) d)"
    unfolding run[symmetric] using w q
    by (simp add: reserveScript_def run_on_error exists hget m nums lua_number_def tonumber_int fl_diff gap
        del: of_int_diff)
  show ?thesis
  proof (cases "n_AllocatedCPU c + cpu \<le> n_TotalCPU c \<and> n_AllocatedMem c + mem \<le> n_TotalMem c")
    case False
    then have "n_TotalCPU c < n_AllocatedCPU c + cpu \<or> n_TotalMem c < n_AllocatedMem c + mem" by linarith
    with run' False show ?thesis by simp
  next
    case True
    then have small: "\<bar>cpu\<bar> \<le> 2 ^ 53" "\<bar>mem\<bar> \<le> 2 ^ 53"
      and sums: "in_int64 (n_AllocatedCPU c + cpu)" "in_int64 (n_AllocatedMem c + mem)"
      using w q by (auto simp: in_int64_def)
    obtain r1 d1 where r1: "run_state (r_hincrby R (NodeCapacityKey n) FieldAllocatedCPU (Itoa cpu)) d = (r1, d1)"
      by fastforce
    have d1: "r1 = Inr () \<and>
      view d1 = (view d)(NodeCapacityKey n \<mapsto> RHash (m(FieldAllocatedCPU \<mapsto> Itoa (n_AllocatedCPU c + cpu))))"
      using hincrby[OF _ s(7) q(2) sums(1) r1] m by simp
    obtain r2 d2 where r2: "run_state (r_hincrby R (NodeCapacityKey n) FieldAllocatedMem (Itoa mem)) d1 = (r2, d2)"
      by fastforce
    have d2: "r2 = Inr () \<and> view d2 = put_alloc (view d) n (n_AllocatedCPU c + cpu) (n_AllocatedMem c + mem)"
      using hincrby[OF _ s(8) q(4) sums(2) r2] m by (simp add: d1 put_alloc_def)
    have "(r, d') = (Inr reserveOK, d2)"
      unfolding run' using True r1 r2 d1 d2 by (simp add: run_on_error fl_of_int[OF small(1)] fl_of_int[OF small(2)] tostring_int[OF small(1)] tostring_int[OF small(2)])
    with True d2 show ?thesis by simp
  qed
qed

lemma run_reserve_missing:
  "view d (NodeCapacityKey n) = None \<Longrightarrow>
   run_state (reserveScript R (NodeCapacityKey n) a b) d = (Inr reserveNoSuchNode, d)"
  by (simp add: reserveScript_def run_on_error exists)

text \<open>Releasing subtracts and clamps at zero.\<close>

lemma fl_release:
  assumes "0 \<le> a" "a \<le> 2 ^ 52" "0 \<le> q"
  shows "(if fl (of_int a - fl (of_int q)) < 0 then 0 else fl (of_int a - fl (of_int q))) = (of_int (max 0 (a - q)) :: rat)"
proof (cases "q \<le> a")
  case True
  then have "fl (of_int q) = (of_int q :: rat)" using assms by (intro fl_of_int) auto
  moreover have "fl (of_int (a - q)) = (of_int (a - q) :: rat)" using assms True by (intro fl_of_int) auto
  ultimately show ?thesis using True by simp
next
  case False
  then have "rat_of_int a < fl (of_int q)" using fits_rounded[OF assms] by simp
  then have "fl (of_int a - fl (of_int q)) \<le> 0" by (intro fl_nonpos) simp
  then show ?thesis using False by simp
qed

lemma run_release:
  assumes c: "holds_capacity (view d) n c" "within_totals c"
    and q: "0 \<le> cpu" "in_int64 cpu" "0 \<le> mem" "in_int64 mem"
    and run: "run_state (releaseScript R (NodeCapacityKey n) (Itoa cpu) (Itoa mem)) d = (r, d')"
  shows "r = Inr 1 \<and>
    view d' = put_alloc (view d) n (max 0 (n_AllocatedCPU c - cpu)) (max 0 (n_AllocatedMem c - mem))"
proof -
  obtain m where m: "view d (NodeCapacityKey n) = Some (RHash m)" "hash_at (view d) (NodeCapacityKey n) = m"
    "is_hash (view d) (NodeCapacityKey n)" "view d (NodeCapacityKey n) \<noteq> None"
    "m FieldTotalCPU = Some (Itoa (n_TotalCPU c))" "m FieldTotalMem = Some (Itoa (n_TotalMem c))"
    "m FieldAllocatedCPU = Some (Itoa (n_AllocatedCPU c))" "m FieldAllocatedMem = Some (Itoa (n_AllocatedMem c))"
    using holds_capacityE[OF c(1)] by blast
  note s = within_totals_small[OF c(2)]
  have w: "0 \<le> n_AllocatedCPU c" "n_AllocatedCPU c \<le> 2 ^ 52" "0 \<le> n_AllocatedMem c" "n_AllocatedMem c \<le> 2 ^ 52"
    using c(2) by (auto simp: within_totals_def)
  have nums: "r_tonumber R (Itoa (n_AllocatedCPU c)) = Some (of_int (n_AllocatedCPU c))"
     "r_tonumber R (Itoa (n_AllocatedMem c)) = Some (of_int (n_AllocatedMem c))"
    using s by (simp_all add: tonumber_int fl_of_int)
  have tx: "r_tostring R (of_int (max 0 (n_AllocatedCPU c - cpu))) = Itoa (max 0 (n_AllocatedCPU c - cpu))"
     "r_tostring R (of_int (max 0 (n_AllocatedMem c - mem))) = Itoa (max 0 (n_AllocatedMem c - mem))"
    using w q by (auto intro!: tostring_int)
  define fs where "fs = [(FieldAllocatedCPU, Itoa (max 0 (n_AllocatedCPU c - cpu))),
    (FieldAllocatedMem, Itoa (max 0 (n_AllocatedMem c - mem)))]"
  have "(r, d') = run_state (attempt (r_hset R (NodeCapacityKey n) fs) (\<lambda>_. ok 1)) d"
    unfolding run[symmetric] fs_def tx[symmetric]
    by (simp add: releaseScript_def Let_def number_or_def run_on_error exists hget m nums lua_number_def
        tonumber_int q fl_release[OF w(1,2) q(1)] fl_release[OF w(3,4) q(3)] cong: if_cong split del: if_split del: of_int_max)
  moreover obtain r1 d1 where r1: "run_state (r_hset R (NodeCapacityKey n) fs) d = (r1, d1)" by fastforce
  moreover have "r1 = Inr () \<and> view d1 = (view d)(NodeCapacityKey n \<mapsto> RHash (m ++ map_of fs))"
    using hset[OF _ _ r1] m by (simp add: fs_def)
  ultimately show ?thesis
    by (auto simp: run_on_error put_alloc_def fs_def m(2) fun_upd_twist)
qed

lemma run_release_missing:
  "view d (NodeCapacityKey n) = None \<Longrightarrow>
   run_state (releaseScript R (NodeCapacityKey n) a b) d = (Inr 0, d)"
  by (simp add: releaseScript_def run_on_error exists)

end


section \<open>The accounting invariant\<close>

text \<open>The requests recorded in deployments and pods are not negative.\<close>

definition request_ok :: "(string \<rightharpoonup> string) \<Rightarrow> bool" where
  "request_ok m \<longleftrightarrow> (\<forall>s n. m FieldCPURequest = Some s \<and> atoi s = Inr n \<longrightarrow> 0 \<le> n) \<and>
     (\<forall>s n. m FieldMemRequest = Some s \<and> atoi s = Inr n \<longrightarrow> 0 \<le> n)"

definition requests_ok :: "keyspace \<Rightarrow> bool" where
  "requests_ok v \<longleftrightarrow> (\<forall>k m. (HasPrefix k ''pod:'' \<or> HasPrefix k ''deployment:'') \<and> v k = Some (RHash m) \<longrightarrow> request_ok m)"

definition accounting_ok :: "keyspace \<Rightarrow> bool" where
  "accounting_ok v \<longleftrightarrow> no_oversubscription v \<and> requests_ok v"

lemma no_prefix_keys [simp]:
  "\<not> HasPrefix LogStreamKey ''pod:''" "\<not> HasPrefix LogStreamKey ''deployment:''"
  "\<not> HasPrefix NodeRegistryKey ''pod:''" "\<not> HasPrefix NodeRegistryKey ''deployment:''"
  "\<not> HasPrefix (NodeCapacityKey n) ''pod:''" "\<not> HasPrefix (NodeCapacityKey n) ''deployment:''"
  "\<not> HasPrefix (NodeStatusKey n) ''pod:''" "\<not> HasPrefix (NodeStatusKey n) ''deployment:''"
  "\<not> HasPrefix (NodeCommandsKey n) ''pod:''" "\<not> HasPrefix (NodeCommandsKey n) ''deployment:''"
  "\<not> HasPrefix (TelemetryCPUKey d p) ''pod:''" "\<not> HasPrefix (TelemetryCPUKey d p) ''deployment:''"
  by (simp_all add: HasPrefix_def key_defs)

lemma glob_pods_prefix: "glob PodKeyPattern k \<Longrightarrow> HasPrefix k ''pod:''"
  using glob_literal[of "''pod:''" "''*:*''" k] by (auto simp: PodKeyPattern_def HasPrefix_def)

lemma not_pod_keys [simp]:
  "\<not> glob PodKeyPattern (NodeCapacityKey n)" "\<not> glob PodKeyPattern NodeRegistryKey"
  "\<not> glob PodKeyPattern LogStreamKey" "\<not> glob PodKeyPattern (NodeStatusKey n)"
  using glob_pods_prefix no_prefix_keys by blast+

lemma requests_ok_upd:
  "requests_ok v \<Longrightarrow> (\<And>m. x = Some (RHash m) \<Longrightarrow> HasPrefix k ''pod:'' \<or> HasPrefix k ''deployment:'' \<Longrightarrow> request_ok m) \<Longrightarrow>
   requests_ok (v(k := x))"
  by (auto simp: requests_ok_def)

lemma no_capacity_key [simp]:
  "HasPrefix k ''pod:'' \<Longrightarrow> k \<noteq> NodeCapacityKey n" "HasPrefix k ''deployment:'' \<Longrightarrow> k \<noteq> NodeCapacityKey n"
  using no_prefix_keys(5,6)[of n] by auto

lemma accounting_ignored [simp]:
  "ignores accounting_ok LogStreamKey" "ignores accounting_ok NodeRegistryKey"
  "ignores accounting_ok (NodeStatusKey n)" "ignores accounting_ok (NodeCommandsKey n)"
  "ignores accounting_ok (TelemetryCPUKey d p)"
  unfolding ignores_def accounting_ok_def
  by (auto intro!: requests_ok_upd intro: ignoresD[OF no_oversubscription_ignored(1)]
      ignoresD[OF no_oversubscription_ignored(2)] ignoresD[OF no_oversubscription_ignored(3)]
      ignoresD[OF no_oversubscription_ignored(4)] ignoresD[OF no_oversubscription_ignored(7)])

lemma accounting_put_alloc:
  assumes "accounting_ok v" "holds_capacity v n c" "within_totals (c\<lparr>n_AllocatedCPU := a, n_AllocatedMem := b\<rparr>)"
  shows "accounting_ok (put_alloc v n a b)"
proof -
  have "no_oversubscription (put_alloc v n a b)"
    using assms by (intro no_oversubscription_put_alloc) (auto simp: accounting_ok_def)
  moreover have "requests_ok (put_alloc v n a b)"
    unfolding put_alloc_def using assms(1) by (intro requests_ok_upd) (auto simp: accounting_ok_def)
  ultimately show ?thesis by (simp add: accounting_ok_def)
qed

lemma accounting_capacity:
  assumes "accounting_ok v" "v (NodeCapacityKey n) \<noteq> None"
  obtains c where "holds_capacity v n c" "within_totals c"
  using assms no_oversubscriptionD[of v n] by (auto simp: accounting_ok_def)

lemma accounting_del: "accounting_ok v \<Longrightarrow> accounting_ok (\<lambda>k. if k \<in> set ks then None else v k)"
  by (auto simp: accounting_ok_def no_oversubscription_def requests_ok_def holds_capacity_def)

text \<open>Writing a hash of requests that are not negative.\<close>

lemma request_ok_merge: "request_ok m \<Longrightarrow> request_ok m' \<Longrightarrow> request_ok (m ++ m')"
  by (auto simp: request_ok_def map_add_Some_iff)

lemma accounting_request:
  assumes "accounting_ok v" "HasPrefix k ''pod:'' \<or> HasPrefix k ''deployment:''"
  shows "request_ok (hash_at v k)"
proof (cases "\<exists>m. v k = Some (RHash m)")
  case True
  then obtain m where m: "v k = Some (RHash m)" ..
  then have "request_ok m" using assms unfolding accounting_ok_def requests_ok_def by blast
  with m show ?thesis by (simp add: hash_at_def)
next
  case False
  then have "hash_at v k = Map.empty" by (auto simp: hash_at_def split: option.split rvalue.split)
  then show ?thesis by (simp add: request_ok_def)
qed

lemma accounting_hash:
  assumes "accounting_ok v" "HasPrefix k ''pod:'' \<or> HasPrefix k ''deployment:''" "request_ok (map_of fs)"
  shows "accounting_ok (v(k \<mapsto> RHash (hash_at v k ++ map_of fs)))"
proof -
  have "request_ok (hash_at v k)" using assms(1,2) by (rule accounting_request)
  then have "requests_ok (v(k \<mapsto> RHash (hash_at v k ++ map_of fs)))"
    using assms by (intro requests_ok_upd) (auto simp: accounting_ok_def intro: request_ok_merge)
  moreover have "ignores no_oversubscription k"
    using assms(2) by (intro no_oversubscription_ignores) auto
  ultimately show ?thesis using assms(1) by (simp add: accounting_ok_def ignoresD)
qed

lemma request_ok_read:
  assumes "request_ok (map_of fs)"
  shows "MapToPod fs = Inr p \<Longrightarrow> 0 \<le> p_CPURequest p \<and> 0 \<le> p_MemRequest p"
    "MapToDeployment fs = Inr d \<Longrightarrow> 0 \<le> d_CPURequest d \<and> 0 \<le> d_MemRequest d"
proof -
  have "atoi (mget fs f) = Inr n \<Longrightarrow> map_of fs f = Some (mget fs f)" for f n
    by (auto simp: mget_def atoi_def split: option.splits if_splits)
  then have "atoi (mget fs FieldCPURequest) = Inr n \<Longrightarrow> 0 \<le> n"
    "atoi (mget fs FieldMemRequest) = Inr n \<Longrightarrow> 0 \<le> n" for n
    using assms unfolding request_ok_def by blast+
  then show "MapToPod fs = Inr p \<Longrightarrow> 0 \<le> p_CPURequest p \<and> 0 \<le> p_MemRequest p"
    "MapToDeployment fs = Inr d \<Longrightarrow> 0 \<le> d_CPURequest d \<and> 0 \<le> d_MemRequest d"
    by (auto simp: MapToPod_def MapToDeployment_def required_Inr)
qed

text \<open>
  The setting of the safety theorems: a server that keeps its contract, any faults, and other
  components that keep the accounting invariant.
\<close>

locale cluster = guarded R view E accounting_ok for R :: "'db redis" and view and E :: "('db, 'e) env_scheme"
begin

lemma reserve_keeps:
  assumes "0 \<le> cpu" "in_int64 cpu" "0 \<le> mem" "in_int64 mem" "accounting_ok (view d)"
  shows "accounting_ok (view (snd (run_state (reserveScript R (NodeCapacityKey n) (Itoa cpu) (Itoa mem)) d)))"
proof (cases "view d (NodeCapacityKey n) = None")
  case True
  then show ?thesis using assms(5) by (simp add: run_reserve_missing)
next
  case False
  with assms(5) obtain c where c: "holds_capacity (view d) n c" "within_totals c" by (rule accounting_capacity)
  obtain r d' where run: "run_state (reserveScript R (NodeCapacityKey n) (Itoa cpu) (Itoa mem)) d = (r, d')" by fastforce
  from run_reserve[OF c assms(1-4) run] c assms show ?thesis
    by (auto simp: run within_totals_def split: if_splits intro!: accounting_put_alloc[OF assms(5) c(1)])
qed

lemma release_keeps:
  assumes "0 \<le> cpu" "in_int64 cpu" "0 \<le> mem" "in_int64 mem" "accounting_ok (view d)"
  shows "accounting_ok (view (snd (run_state (releaseScript R (NodeCapacityKey n) (Itoa cpu) (Itoa mem)) d)))"
proof (cases "view d (NodeCapacityKey n) = None")
  case True
  then show ?thesis using assms(5) by (simp add: run_release_missing)
next
  case False
  with assms(5) obtain c where c: "holds_capacity (view d) n c" "within_totals c" by (rule accounting_capacity)
  obtain r d' where run: "run_state (releaseScript R (NodeCapacityKey n) (Itoa cpu) (Itoa mem)) d = (r, d')" by fastforce
  from run_release[OF c assms(1-4) run] c assms show ?thesis
    by (auto simp: run within_totals_def intro!: accounting_put_alloc[OF assms(5) c(1)])
qed

lemma keeps_Reserve [keeps_intros]:
  "0 \<le> cpu \<Longrightarrow> in_int64 cpu \<Longrightarrow> 0 \<le> mem \<Longrightarrow> in_int64 mem \<Longrightarrow> keeps J (Reserve E n cpu mem)"
  unfolding Reserve_def EvalScript_def Let_def server_R
  by (intro keeps_intros keeps_send) (simp_all add: reserve_keeps)

lemma keeps_Release [keeps_intros]:
  "0 \<le> cpu \<Longrightarrow> in_int64 cpu \<Longrightarrow> 0 \<le> mem \<Longrightarrow> in_int64 mem \<Longrightarrow> keeps J (Release E n cpu mem)"
  unfolding Release_def EvalScript_def Let_def server_R
  by (intro keeps_intros keeps_send) (simp_all add: release_keeps)

lemma keeps_HashSet_requests:
  assumes "HasPrefix k ''pod:'' \<or> HasPrefix k ''deployment:''" "request_ok (map_of (wire R fs))"
    "fs \<noteq> []" "distinct (map fst fs)"
  shows "keeps J (HashSet E k fs)"
  unfolding HashSet_def server_R
  by (rule keeps_send) (use assms in \<open>simp add: view_hset accounting_hash\<close>)

lemma keeps_Delete [keeps_intros]: "keeps J (DeleteKey E ks)"
  unfolding DeleteKey_def server_R by (rule keeps_send) (simp add: view_del accounting_del)

lemma ensures_HashGet_requests:
  assumes "HasPrefix k ''pod:'' \<or> HasPrefix k ''deployment:''"
  shows "ensures J (HashGet E k) (\<lambda>r. \<forall>fs. r = Inr fs \<longrightarrow> request_ok (map_of fs))"
  by (rule ensures_HashGet) (rule accounting_request[OF _ assms])

lemma keeps_HashSet_pod:
  assumes "0 \<le> p_CPURequest p" "0 \<le> p_MemRequest p" "pod_typed p"
  shows "keeps J (HashSet E (PodKey dn pid) (PodToMap p))"
proof (rule keeps_HashSet_requests)
  show "HasPrefix (PodKey dn pid) ''pod:'' \<or> HasPrefix (PodKey dn pid) ''deployment:''"
    by (simp add: PodKey_def HasPrefix_def)
  have "map_of (wire R (PodToMap p)) FieldCPURequest = Some (Itoa (p_CPURequest p))"
    "map_of (wire R (PodToMap p)) FieldMemRequest = Some (Itoa (p_MemRequest p))"
    by (simp_all add: PodToMap_def)
  then show "request_ok (map_of (wire R (PodToMap p)))"
    using assms by (simp add: request_ok_def pod_typed_def)
qed simp_all

end


section \<open>Reservations and releases, run by the client\<close>

lemma put_alloc_restore:
  "holds_capacity v n c \<Longrightarrow> put_alloc (put_alloc v n a b) n (n_AllocatedCPU c) (n_AllocatedMem c) = v"
  by (auto simp: holds_capacity_def put_alloc_def hash_at_def fun_upd_idem_iff fun_eq_iff)

lemma run_EvalScript_quiet:
  "quiet E \<Longrightarrow> run_state (EvalScript E m) w =
     (fst (run_state m (db w)), w\<lparr>tick := Suc (tick w), db := snd (run_state m (db w))\<rparr>)"
  by (simp add: EvalScript_def run_send_quiet)

context redis_server
begin

text \<open>The calls as the schedulers see them.\<close>

lemma run_Reserve:
  assumes "quiet E" "server E = R"
    and "holds_capacity (view (db w)) n c" "within_totals c"
    and "0 \<le> cpu" "in_int64 cpu" "0 \<le> mem" "in_int64 mem"
  shows "\<exists>w'. run_state (Reserve E n cpu mem) w =
      (Inr (n_AllocatedCPU c + cpu \<le> n_TotalCPU c \<and> n_AllocatedMem c + mem \<le> n_TotalMem c), w') \<and>
    (if n_AllocatedCPU c + cpu \<le> n_TotalCPU c \<and> n_AllocatedMem c + mem \<le> n_TotalMem c
     then view (db w') = put_alloc (view (db w)) n (n_AllocatedCPU c + cpu) (n_AllocatedMem c + mem)
     else db w' = db w)"
proof -
  obtain r d' where run: "run_state (reserveScript R (NodeCapacityKey n) (Itoa cpu) (Itoa mem)) (db w) = (r, d')"
    by fastforce
  show ?thesis
    using run_reserve[OF assms(3-8) run]
    by (auto simp: Reserve_def run_on_error run_EvalScript_quiet[OF assms(1)] run Let_def assms(2) split: if_splits)
qed

lemma run_Release:
  assumes "quiet E" "server E = R"
    and "holds_capacity (view (db w)) n c" "within_totals c"
    and "0 \<le> cpu" "in_int64 cpu" "0 \<le> mem" "in_int64 mem"
  shows "\<exists>w'. run_state (Release E n cpu mem) w = (Inr (), w') \<and>
    view (db w') = put_alloc (view (db w)) n (max 0 (n_AllocatedCPU c - cpu)) (max 0 (n_AllocatedMem c - mem))"
proof -
  obtain r d' where run: "run_state (releaseScript R (NodeCapacityKey n) (Itoa cpu) (Itoa mem)) (db w) = (r, d')"
    by fastforce
  show ?thesis
    using run_release[OF assms(3-8) run]
    by (auto simp: Release_def run_on_error run_EvalScript_quiet[OF assms(1)] run Let_def assms(2))
qed

lemma run_Release_any:
  assumes "quiet E" "server E = R"
    and "view (db w) (NodeCapacityKey n) = None \<or> (\<exists>c. holds_capacity (view (db w)) n c \<and> within_totals c)"
    and "0 \<le> cpu" "in_int64 cpu" "0 \<le> mem" "in_int64 mem"
  shows "\<exists>w'. run_state (Release E n cpu mem) w = (Inr (), w') \<and>
    (view (db w) (NodeCapacityKey n) = None \<longrightarrow> db w' = db w) \<and>
    (\<forall>c. holds_capacity (view (db w)) n c \<longrightarrow>
       view (db w') = put_alloc (view (db w)) n (max 0 (n_AllocatedCPU c - cpu)) (max 0 (n_AllocatedMem c - mem)))"
  using assms(3)
proof
  assume "view (db w) (NodeCapacityKey n) = None"
  then show ?thesis
    by (auto simp: run_EvalScript_quiet[OF assms(1)] run_on_error Release_def Let_def arg_int assms(2) run_release_missing holds_capacity_def)
next
  assume "\<exists>c. holds_capacity (view (db w)) n c \<and> within_totals c"
  then obtain c where c: "holds_capacity (view (db w)) n c" "within_totals c" by blast
  then have "view (db w) (NodeCapacityKey n) \<noteq> None" by (auto simp: holds_capacity_def)
  with run_Release[OF assms(1,2) c assms(4-7)] holds_capacity_unique[OF c(1)] show ?thesis by auto
qed

end

text \<open>C2. \<open>Reserve\<close> in an undisturbed run: it answers true exactly when the request fits in both
  dimensions, and then both allocations grow by exactly the request; otherwise it answers false and
  the database is left as it was. Requests of any 64-bit size are covered, also those beyond the
  range in which Lua's numbers are exact.\<close>

theorem Reserve_exact:
  assumes "redis_server (server E) view" "quiet E"
    and "holds_capacity (view (db w)) n c" "within_totals c"
    and "0 \<le> cpu" "in_int64 cpu" "0 \<le> mem" "in_int64 mem"
  shows "\<exists>w'. run_state (Reserve E n cpu mem) w =
      (Inr (n_AllocatedCPU c + cpu \<le> n_TotalCPU c \<and> n_AllocatedMem c + mem \<le> n_TotalMem c), w') \<and>
    (if n_AllocatedCPU c + cpu \<le> n_TotalCPU c \<and> n_AllocatedMem c + mem \<le> n_TotalMem c
     then view (db w') = put_alloc (view (db w)) n (n_AllocatedCPU c + cpu) (n_AllocatedMem c + mem)
     else db w' = db w)"
  by (rule redis_server.run_Reserve[OF assms(1,2) refl assms(3-8)])

definition demo_db :: mem where
  "demo_db = [(NodeCapacityKey ''n1'', Some (MHash [(FieldTotalCPU, Itoa 4000), (FieldTotalMem, Itoa 8192),
     (FieldAllocatedCPU, Itoa 3500), (FieldAllocatedMem, Itoa 1024)]))]"

definition demo_world :: "mem world" where
  "demo_world = \<lparr>db = demo_db, tick = 0\<rparr>"

definition demo_capacity :: NodeCapacity where
  "demo_capacity = \<lparr>n_TotalCPU = 4000, n_TotalMem = 8192, n_AllocatedCPU = 3500, n_AllocatedMem = 1024\<rparr>"

lemma demo_holds: "holds_capacity (mem_view (db demo_world)) ''n1'' demo_capacity" "within_totals demo_capacity"
  by (simp_all add: holds_capacity_def mem_view_def mem_get_def demo_world_def demo_db_def demo_capacity_def within_totals_def)

theorem Reserve_exact_witness:
  "\<exists>w'. run_state (Reserve mem_env ''n1'' 500 256) demo_world = (Inr True, w') \<and>
     mem_view (db w') = put_alloc (mem_view demo_db) ''n1'' 4000 1280"
  using Reserve_exact[of mem_env mem_view demo_world "''n1''" demo_capacity 500 256]
    mem.redis_server_axioms demo_holds
  by (simp add: demo_capacity_def demo_world_def in_int64_def)

text \<open>Safety of reservations: whatever faults the network produces and whatever other components do
  between two commands, as long as these keep the accounting invariant, \<open>Reserve\<close> keeps it: no node's
  allocation ever exceeds its total.\<close>

theorem Reserve_safe:
  assumes "guarded (server E) view E accounting_ok" "accounting_ok (view (db w))"
    and "0 \<le> cpu" "in_int64 cpu" "0 \<le> mem" "in_int64 mem"
    and "run_state (Reserve E n cpu mem) w = (r, w')"
  shows "accounting_ok (view (db w'))"
proof -
  have "cluster (server E) view E" using assms(1) by (simp add: cluster_def)
  then show ?thesis
    using keepsE[OF cluster.keeps_Reserve[of "server E" view E cpu mem n] _ assms(7)] assms
    by (simp add: guarded.J_def[OF assms(1)])
qed

lemma demo_accounting: "accounting_ok (mem_view (db demo_world))"
proof -
  have "no_oversubscription (mem_view (db demo_world))"
    using demo_holds
    by (auto simp: no_oversubscription_def demo_world_def demo_db_def mem_view_def mem_get_def key_simps
        split: if_splits)
  then show ?thesis
    by (auto simp: accounting_ok_def requests_ok_def demo_world_def demo_db_def mem_view_def mem_get_def
        split: if_splits)
qed

theorem Reserve_safe_witness:
  "accounting_ok (mem_view (db (snd (run_state (Reserve mem_env ''n1'' 501 256) demo_world))))"
  using Reserve_safe[of mem_env mem_view demo_world 501 256 "''n1''", OF _ demo_accounting _ _ _ _ prod.collapse[symmetric]]
  by (simp add: in_int64_def)

text \<open>\<open>Release\<close> in an undisturbed run: each allocation shrinks by what is released, clamped at zero, and
  nothing else changes; a node without a capacity hash is left alone.\<close>

theorem Release_exact:
  assumes "redis_server (server E) view" "quiet E"
    and "0 \<le> cpu" "in_int64 cpu" "0 \<le> mem" "in_int64 mem"
    and "accounting_ok (view (db w))"
  shows "\<exists>w'. run_state (Release E n cpu mem) w = (Inr (), w') \<and>
    (view (db w) (NodeCapacityKey n) = None \<longrightarrow> db w' = db w) \<and>
    (\<forall>c. holds_capacity (view (db w)) n c \<longrightarrow>
       view (db w') = put_alloc (view (db w)) n (max 0 (n_AllocatedCPU c - cpu)) (max 0 (n_AllocatedMem c - mem)))"
proof -
  have "view (db w) (NodeCapacityKey n) = None \<or> (\<exists>c. holds_capacity (view (db w)) n c \<and> within_totals c)"
    using assms(7) accounting_capacity by blast
  from redis_server.run_Release_any[OF assms(1,2) refl this assms(3-6)] show ?thesis .
qed

theorem Release_exact_witness:
  "\<exists>w'. run_state (Release mem_env ''n1'' 500 2000) demo_world = (Inr (), w') \<and>
     mem_view (db w') = put_alloc (mem_view demo_db) ''n1'' 3000 0"
  using Release_exact[of mem_env mem_view 500 2000 demo_world "''n1''"]
    mem.redis_server_axioms demo_holds demo_accounting
  by (auto simp: demo_capacity_def demo_world_def in_int64_def)

text \<open>A reservation that is given back leaves no trace: \<open>Reserve\<close> followed by \<open>Release\<close> of the same
  amounts restores the keyspace exactly.\<close>

theorem Reserve_Release_restores:
  assumes "redis_server (server E) view" "quiet E"
    and "holds_capacity (view (db w)) n c" "accounting_ok (view (db w))"
    and "0 \<le> cpu" "in_int64 cpu" "0 \<le> mem" "in_int64 mem"
    and "run_state (Reserve E n cpu mem) w = (Inr True, w1)"
    and "run_state (Release E n cpu mem) w1 = (r, w2)"
  shows "r = Inr () \<and> view (db w2) = view (db w)"
proof -
  let ?v = "view (db w)"
  have "?v (NodeCapacityKey n) \<noteq> None" using assms(3) by (auto simp: holds_capacity_def)
  with assms(4) obtain c' where "holds_capacity ?v n c'" "within_totals c'" by (rule accounting_capacity)
  with assms(3) have c: "within_totals c" using holds_capacity_unique by blast
  have fits: "n_AllocatedCPU c + cpu \<le> n_TotalCPU c" "n_AllocatedMem c + mem \<le> n_TotalMem c"
    and v1: "view (db w1) = put_alloc ?v n (n_AllocatedCPU c + cpu) (n_AllocatedMem c + mem)"
    using redis_server.run_Reserve[OF assms(1,2) refl assms(3) c assms(5-8)] assms(9) by auto
  have c1: "holds_capacity (view (db w1)) n (c\<lparr>n_AllocatedCPU := n_AllocatedCPU c + cpu, n_AllocatedMem := n_AllocatedMem c + mem\<rparr>)"
    unfolding v1 by (rule holds_put_alloc[OF assms(3)])
  have "within_totals (c\<lparr>n_AllocatedCPU := n_AllocatedCPU c + cpu, n_AllocatedMem := n_AllocatedMem c + mem\<rparr>)"
    using c fits assms(5,7) by (simp add: within_totals_def)
  from redis_server.run_Release[OF assms(1,2) refl c1 this assms(5-8)] assms(10)
  have "r = Inr ()" "view (db w2) = put_alloc (put_alloc ?v n (n_AllocatedCPU c + cpu) (n_AllocatedMem c + mem)) n
      (n_AllocatedCPU c) (n_AllocatedMem c)"
    using c by (auto simp: v1 within_totals_def)
  then show ?thesis using put_alloc_restore[OF assms(3)] by simp
qed

theorem Reserve_Release_restores_witness:
  "\<exists>w1 w2. run_state (Reserve mem_env ''n1'' 500 256) demo_world = (Inr True, w1) \<and>
     run_state (Release mem_env ''n1'' 500 256) w1 = (Inr (), w2) \<and> mem_view (db w2) = mem_view demo_db"
proof -
  obtain w1 where 1: "run_state (Reserve mem_env ''n1'' 500 256) demo_world = (Inr True, w1)"
    using mem.run_Reserve[of mem_env demo_world "''n1''" demo_capacity 500 256] demo_holds
    by (auto simp: demo_capacity_def in_int64_def)
  obtain r w2 where 2: "run_state (Release mem_env ''n1'' 500 256) w1 = (r, w2)" by fastforce
  from Reserve_Release_restores[of mem_env mem_view, OF _ _ demo_holds(1) demo_accounting _ _ _ _ 1 2] mem.redis_server_axioms
  have "r = Inr () \<and> mem_view (db w2) = mem_view (db demo_world)" by (simp add: in_int64_def)
  with 1 2 show ?thesis by (auto simp: demo_world_def)
qed

end
