(* ===== verification/Scheduler.thy ===== *)
theory Scheduler
  imports Capacity
begin

text \<open>
  \<open>internal/scheduler/scheduler.go\<close>: which nodes are alive, in which order they are tried, and the
  placement of replicas with its rollback. The lemmas show that the candidates are exactly the live
  nodes with room, tightest fit first; that a placement reserves, records and dispatches; that a
  failed record gives the reservation back; and that scheduling keeps the accounting invariant under
  any faults and any interference.
\<close>


section \<open>Live nodes\<close>

text \<open>The loop bodies are definitions of their own, named after their function.\<close>

definition LiveNodes_body where
  "LiveNodes_body E nodeID live =
     on_error (Exists E (NodeStatusKey nodeID))
       (\<lambda>e. State_Monad.return (Return (Inl (Errorf ''check lease for %s: %w'' [ArgS nodeID, ArgE e]))))
       (\<lambda>present. State_Monad.return (Next (if present then live @ [nodeID] else live)))"

definition LiveNodes :: "('db, 'e) env_scheme \<Rightarrow> (('db, 'm) world_scheme, string list) fallible" where
  "LiveNodes E =
     on_error (SetMembers E NodeRegistryKey)
       (\<lambda>e. throw (Errorf ''read node registry: %w'' [ArgE e]))
       (\<lambda>registered. loop (LiveNodes_body E) registered [] (\<lambda>live. ok (sort live)))"


section \<open>Candidates in best-fit order\<close>

record candidate =
  cand_nodeID :: string
  cand_capacity :: NodeCapacity

text \<open>The share of a dimension that would be left over, in \<open>float64\<close>.\<close>

definition left_over :: "int \<Rightarrow> int \<Rightarrow> int \<Rightarrow> rat" where
  "left_over tot alloc req =
     (if tot > 0 then fl (fl (of_int (i64 (i64 (tot - alloc) - req))) / fl (of_int tot)) else 0)"

definition score :: "int \<Rightarrow> int \<Rightarrow> candidate \<Rightarrow> rat" where
  "score cpuReq memReq c =
     (let k = cand_capacity c in
      fl (left_over (n_TotalCPU k) (n_AllocatedCPU k) cpuReq + left_over (n_TotalMem k) (n_AllocatedMem k) memReq))"

definition candidate_less :: "int \<Rightarrow> int \<Rightarrow> candidate \<Rightarrow> candidate \<Rightarrow> bool" where
  "candidate_less cpuReq memReq = less_then (score cpuReq memReq) (\<lambda>a b. cand_nodeID a < cand_nodeID b)"

definition bestFitOrder_body where
  "bestFitOrder_body E l cpuReq memReq nodeID fits =
     on_error (HashGet E (NodeCapacityKey nodeID))
       (\<lambda>e. State_Monad.return (Return (Inl (Errorf ''read capacity for %s: %w'' [ArgS nodeID, ArgE e]))))
       (\<lambda>fs.
         if fs = [] then State_Monad.return (Next fits) else
         case MapToNodeCapacity fs of
           Inl e \<Rightarrow> do {
             Warn E l ''capacity_hash_malformed''
               (Sprintf ''skipping node %s during placement: %v'' [ArgS nodeID, ArgE e]) [NodeID nodeID];
             State_Monad.return (Next fits) }
         | Inr k \<Rightarrow>
             State_Monad.return (Next
               (if i64 (n_TotalCPU k - n_AllocatedCPU k) < cpuReq then fits
                else if i64 (n_TotalMem k - n_AllocatedMem k) < memReq then fits
                else fits @ [\<lparr>cand_nodeID = nodeID, cand_capacity = k\<rparr>])))"

definition bestFitOrder ::
  "('db, 'e) env_scheme \<Rightarrow> Logger \<Rightarrow> int \<Rightarrow> int \<Rightarrow> (('db, 'm) world_scheme, candidate list) fallible"
where
  "bestFitOrder E l cpuReq memReq =
     attempt (LiveNodes E) (\<lambda>liveNodes.
       loop (bestFitOrder_body E l cpuReq memReq) liveNodes []
         (\<lambda>fits. ok (sort_stable (candidate_less cpuReq memReq) fits)))"


section \<open>Placing replicas\<close>

definition hex_EncodeToString :: "nat list \<Rightarrow> string" where
  "hex_EncodeToString bs = concat (map (\<lambda>b. [hex_digit (b div 16), hex_digit (b mod 16)]) bs)"

definition newPodID :: "('db, 'e) env_scheme \<Rightarrow> (('db, 'm) world_scheme, string) fallible" where
  "newPodID E = attempt (rand_Read E) (\<lambda>b. ok (hex_EncodeToString b))"

definition releaseAfterFailure ::
  "('db, 'e) env_scheme \<Rightarrow> Logger \<Rightarrow> string \<Rightarrow> DeploymentSpec \<Rightarrow> (('db, 'm) world_scheme, unit) state"
where
  "releaseAfterFailure E l nodeID dep =
     on_error (Release E nodeID (d_CPURequest dep) (d_MemRequest dep))
       (\<lambda>e. Error E l ''capacity_release_failed''
              (Sprintf ''could not roll back reservation on %s: %v'' [ArgS nodeID, ArgE e])
              [DeploymentID (d_Name dep), NodeID nodeID])
       (\<lambda>_. State_Monad.return ())"

definition new_pod :: "DeploymentSpec \<Rightarrow> string \<Rightarrow> string \<Rightarrow> int \<Rightarrow> PodSpec" where
  "new_pod dep podID nodeID now =
     \<lparr>p_Deployment = d_Name dep, p_PodID = podID, p_Status = StatusPending, p_NodeID = nodeID,
      p_CPURequest = d_CPURequest dep, p_MemRequest = d_MemRequest dep, p_CreatedAt = Itoa now,
      p_PID = 0, p_StartedAt = [], p_RestartCount = 0, p_ConsecutiveFailures = 0, p_LastHealthOKAt = [],
      p_BackoffNextSeconds = 0, p_LastRestartAt = [], p_PIDStartTime = 0, p_HostPort = 0\<rparr>"

text \<open>The part of \<open>scheduleOne\<close> after a successful reservation on a node.\<close>

definition place_reserved ::
  "('db, 'e) env_scheme \<Rightarrow> Logger \<Rightarrow> DeploymentSpec \<Rightarrow> string \<Rightarrow> (('db, 'm) world_scheme, string) fallible"
where
  "place_reserved E l dep nodeID =
     on_error (newPodID E)
       (\<lambda>e. do {
          releaseAfterFailure E l nodeID dep;
          throw (Errorf ''generate pod id: %w'' [ArgE e]) })
       (\<lambda>podID. do {
          now \<leftarrow> now_unix E;
          on_error (HashSet E (PodKey (d_Name dep) podID) (PodToMap (new_pod dep podID nodeID now)))
            (\<lambda>e. do {
               releaseAfterFailure E l nodeID dep;
               throw (Errorf ''write pod hash for %s/%s: %w'' [ArgS (d_Name dep), ArgS podID, ArgE e]) })
            (\<lambda>_. do {
               on_error (SendCommand E nodeID
                   \<lparr>c_Type = CommandStartPod, c_Deployment = d_Name dep, c_PodID = podID\<rparr>)
                 (\<lambda>e. Warn E l ''start_command_dispatch_failed''
                        (Sprintf ''pod stays Pending until the next sweep: %v'' [ArgE e])
                        [DeploymentID (d_Name dep), PodID podID, NodeID nodeID])
                 (\<lambda>_. State_Monad.return ());
               Info E l ''pod_scheduled''
                 (Sprintf ''placed pod on %s reserving %dm CPU and %dMB''
                    [ArgS nodeID, ArgD (d_CPURequest dep), ArgD (d_MemRequest dep)])
                 [DeploymentID (d_Name dep), PodID podID, NodeID nodeID];
               ok podID }) })"

definition scheduleOne_body where
  "scheduleOne_body E l dep c _ =
     on_error (Reserve E (cand_nodeID c) (d_CPURequest dep) (d_MemRequest dep))
       (\<lambda>e. State_Monad.return (Return (Inl e)))
       (\<lambda>reserved.
         if \<not> reserved then State_Monad.return (Next ())
         else do { r \<leftarrow> place_reserved E l dep (cand_nodeID c); State_Monad.return (Return r) })"

definition scheduleOne ::
  "('db, 'e) env_scheme \<Rightarrow> Logger \<Rightarrow> DeploymentSpec \<Rightarrow> (('db, 'm) world_scheme, string) fallible"
where
  "scheduleOne E l dep =
     attempt (bestFitOrder E l (d_CPURequest dep) (d_MemRequest dep)) (\<lambda>candidates.
       loop (scheduleOne_body E l dep) candidates () (\<lambda>_. ok []))"

definition ScheduleReplicas_body where
  "ScheduleReplicas_body E l dep cnt i created =
     on_error (scheduleOne E l dep)
       (\<lambda>e. State_Monad.return (Return (created, Some e)))
       (\<lambda>podID.
         if podID = [] then do {
           Warn E l ''pods_unschedulable''
             (Sprintf ''placed %d of %d replicas; no node has %dm CPU and %dMB free''
                [ArgD (int (length created)), ArgD cnt, ArgD (d_CPURequest dep), ArgD (d_MemRequest dep)])
             [DeploymentID (d_Name dep)];
           State_Monad.return (Break created) }
         else State_Monad.return (Next (created @ [podID])))"

text \<open>\<open>ScheduleReplicas\<close> returns the created pods also when it returns an error.\<close>

definition ScheduleReplicas ::
  "('db, 'e) env_scheme \<Rightarrow> Logger \<Rightarrow> DeploymentSpec \<Rightarrow> int \<Rightarrow>
   (('db, 'm) world_scheme, string list \<times> error option) state"
where
  "ScheduleReplicas E l dep cnt =
     (if cnt \<le> 0 then State_Monad.return ([], None) else
      loop (ScheduleReplicas_body E l dep cnt) [0..<nat cnt] [] (\<lambda>created. State_Monad.return (created, None)))"


section \<open>Safety under any environment\<close>

context guarded
begin

lemma keeps_LiveNodes [keeps_intros]: "keeps J (LiveNodes E)"
  unfolding LiveNodes_def LiveNodes_body_def by (intro keeps_intros)

lemma keeps_bestFitOrder [keeps_intros]: "ignores I LogStreamKey \<Longrightarrow> keeps J (bestFitOrder E l cpu mem)"
  unfolding bestFitOrder_def bestFitOrder_body_def by (intro keeps_intros)

lemma keeps_newPodID [keeps_intros]: "keeps J (newPodID E)"
  unfolding newPodID_def by (intro keeps_intros)

end

context cluster
begin

lemma keeps_releaseAfterFailure [keeps_intros]:
  assumes "deployment_typed dep" "0 \<le> d_CPURequest dep" "0 \<le> d_MemRequest dep"
  shows "keeps J (releaseAfterFailure E l n dep)"
  unfolding releaseAfterFailure_def using assms
  by (intro keeps_intros) (simp_all add: deployment_typed_def)

lemma keeps_place_reserved [keeps_intros]:
  assumes "deployment_typed dep" "0 \<le> d_CPURequest dep" "0 \<le> d_MemRequest dep"
  shows "keeps J (place_reserved E l dep n)"
proof -
  have "keeps J (HashSet E (PodKey (d_Name dep) pid) (PodToMap (new_pod dep pid n now)))" for pid now
    using assms by (intro keeps_HashSet_pod) (simp_all add: new_pod_def deployment_typed_def pod_typed_def in_uint64_def)
  then show ?thesis unfolding place_reserved_def using assms by (intro keeps_intros) simp_all
qed

lemma keeps_scheduleOne [keeps_intros]:
  assumes "deployment_typed dep" "0 \<le> d_CPURequest dep" "0 \<le> d_MemRequest dep"
  shows "keeps J (scheduleOne E l dep)"
  unfolding scheduleOne_def scheduleOne_body_def using assms
  by (intro keeps_intros) (simp_all add: deployment_typed_def)

lemma keeps_ScheduleReplicas [keeps_intros]:
  assumes "deployment_typed dep" "0 \<le> d_CPURequest dep" "0 \<le> d_MemRequest dep"
  shows "keeps J (ScheduleReplicas E l dep cnt)"
  unfolding ScheduleReplicas_def ScheduleReplicas_body_def using assms by (intro keeps_intros) simp_all

end

text \<open>Scheduling never oversubscribes a node: from a state that satisfies the accounting invariant,
  \<open>ScheduleReplicas\<close> for any deployment with requests that are not negative ends in one, for every
  number of replicas, every pattern of lost commands and lost replies, and any concurrent activity of
  other schedulers, controllers and agents that itself keeps the invariant.\<close>

theorem ScheduleReplicas_safe:
  assumes "guarded (server E) view E accounting_ok" "accounting_ok (view (db w))"
    and "deployment_typed dep" "0 \<le> d_CPURequest dep" "0 \<le> d_MemRequest dep"
    and "run_state (ScheduleReplicas E l dep cnt) w = (r, w')"
  shows "accounting_ok (view (db w'))"
proof -
  have "cluster (server E) view E" using assms(1) by (simp add: cluster_def)
  then show ?thesis
    using keepsE[OF cluster.keeps_ScheduleReplicas[of "server E" view E dep l cnt] _ assms(6)] assms(1-5)
    by (simp add: guarded.J_def[OF assms(1)])
qed

text \<open>The same environment with a network that loses every second command after execution.\<close>

definition lossy_env :: "mem env" where
  "lossy_env = mem_env\<lparr>fault_at := (\<lambda>n. if even n then Delivered else ReplyLost RedisNil)\<rparr>"

lemma lossy_env_guarded [simp]: "server lossy_env = mem_redis" "guarded mem_redis mem_view lossy_env I"
  by (simp_all add: lossy_env_def mem_env_def guarded_def guarded_axioms_def mem.redis_server_axioms)

definition demo_logger :: Logger where
  "demo_logger = \<lparr>l_component = ''scheduler'', l_client = True\<rparr>"

theorem ScheduleReplicas_safe_witness:
  "accounting_ok (mem_view (db (snd (run_state (ScheduleReplicas lossy_env demo_logger demo_deployment 3) demo_world))))"
  using ScheduleReplicas_safe[of lossy_env mem_view demo_world demo_deployment demo_logger 3,
      OF _ demo_accounting _ _ _ prod.collapse[symmetric]]
  by simp

section \<open>Undisturbed runs\<close>

lemma for_range_filter:
  assumes "\<And>x acc w. x \<in> set xs \<Longrightarrow> N w \<Longrightarrow> \<exists>w'. run_state (f x acc) w = (Next (if P x then acc @ [g x] else acc), w') \<and> N w'"
    and "N w"
  shows "\<exists>w'. run_state (for_range f xs acc) w = (Inl (acc @ map g (filter P xs)), w') \<and> N w'"
  using assms
proof (induction xs arbitrary: acc w)
  case (Cons x xs)
  obtain w1 where w1: "run_state (f x acc) w = (Next (if P x then acc @ [g x] else acc), w1)" "N w1"
    using Cons.prems(1)[of x w acc] Cons.prems(2) by auto
  then show ?case
    using Cons.IH[of w1 "if P x then acc @ [g x] else acc"] Cons.prems(1) by auto
qed simp

context redis_server
begin

lemma run_SetMembers:
  assumes "quiet E" "server E = R" "is_set (view (db w)) k"
  shows "\<exists>xs w'. run_state (SetMembers E k) w = (Inr xs, w') \<and> set xs = set_at (view (db w)) k \<and> distinct xs \<and> db w' = db w"
  using smembers[OF assms(3)] by (auto simp: SetMembers_def run_send_quiet[OF assms(1)] assms(2))

lemma run_Exists:
  "quiet E \<Longrightarrow> server E = R \<Longrightarrow> \<exists>w'. run_state (Exists E k) w = (Inr (view (db w) k \<noteq> None), w') \<and> db w' = db w"
  by (auto simp: Exists_def run_send_quiet exists)

lemma run_HashGet:
  assumes "quiet E" "server E = R" "is_hash (view (db w)) k"
  shows "\<exists>fs w'. run_state (HashGet E k) w = (Inr fs, w') \<and> map_of fs = hash_at (view (db w)) k \<and>
    (fs = [] \<longleftrightarrow> view (db w) k = None) \<and> db w' = db w"
  using hgetall[OF assms(3)] map_of_empty_hash[OF _ assms(3)]
  by (fastforce simp: HashGet_def run_send_quiet[OF assms(1)] assms(2))

end


section \<open>Placement\<close>

definition live_nodes :: "keyspace \<Rightarrow> string set" where
  "live_nodes v = {n \<in> set_at v NodeRegistryKey. v (NodeStatusKey n) \<noteq> None}"

text \<open>The capacity of a node has room for a request.\<close>

definition has_room :: "keyspace \<Rightarrow> string \<Rightarrow> NodeCapacity \<Rightarrow> int \<Rightarrow> int \<Rightarrow> bool" where
  "has_room v n c cpu mem \<longleftrightarrow> holds_capacity v n c \<and> n_AllocatedCPU c + cpu \<le> n_TotalCPU c \<and> n_AllocatedMem c + mem \<le> n_TotalMem c"

definition fitting :: "keyspace \<Rightarrow> int \<Rightarrow> int \<Rightarrow> candidate set" where
  "fitting v cpu mem = {k. cand_nodeID k \<in> live_nodes v \<and> has_room v (cand_nodeID k) (cand_capacity k) cpu mem}"

lemma decode_capacity:
  assumes "holds_capacity v n c" "within_totals c" "map_of fs = hash_at v (NodeCapacityKey n)"
  shows "MapToNodeCapacity fs = Inr c"
proof -
  have "mget fs FieldTotalCPU = Itoa (n_TotalCPU c)" "mget fs FieldTotalMem = Itoa (n_TotalMem c)"
    "mget fs FieldAllocatedCPU = Itoa (n_AllocatedCPU c)" "mget fs FieldAllocatedMem = Itoa (n_AllocatedMem c)"
    using assms(1,3) by (auto simp: mget_def elim!: holds_capacityE)
  with within_totals_small[OF assms(2)] show ?thesis
    by (simp add: MapToNodeCapacity_def required_def)
qed

lemma less_callback_candidates: "less_callback (candidate_less cpu mem)"
  unfolding candidate_less_def by (intro less_callback_less_then less_callback_key)

context redis_server
begin

lemma run_LiveNodes:
  assumes "quiet E" "server E = R" "is_set (view (db w)) NodeRegistryKey"
  shows "\<exists>ns w'. run_state (LiveNodes E) w = (Inr ns, w') \<and> set ns = live_nodes (view (db w)) \<and>
    sorted ns \<and> distinct ns \<and> db w' = db w"
proof -
  obtain xs w1 where w1: "run_state (SetMembers E NodeRegistryKey) w = (Inr xs, w1)"
    "set xs = set_at (view (db w)) NodeRegistryKey" "distinct xs" "db w1 = db w"
    using run_SetMembers[OF assms] by blast
  let ?P = "\<lambda>n. view (db w) (NodeStatusKey n) \<noteq> None"
  have "\<exists>w'. run_state (for_range (LiveNodes_body E) xs []) w1 = (Inl ([] @ map (\<lambda>n. n) (filter ?P xs)) :: string list + (error + string list), w') \<and> db w' = db w"
  proof (rule for_range_filter[where N = "\<lambda>w'. db w' = db w"])
    fix n acc w2
    assume "db w2 = db w"
    with run_Exists[OF assms(1,2), of "NodeStatusKey n" w2]
    show "\<exists>w'. run_state (LiveNodes_body E n acc) w2 = (Next (if ?P n then acc @ [n] else acc), w') \<and> db w' = db w"
      by (auto simp: LiveNodes_body_def run_on_error)
  qed (rule w1(4))
  then obtain w2 where "run_state (for_range (LiveNodes_body E) xs []) w1 = (Inl (filter ?P xs) :: string list + (error + string list), w2)" "db w2 = db w" by auto
  then have "run_state (LiveNodes E) w = (Inr (sort (filter ?P xs)), w2)"
    by (simp add: LiveNodes_def run_on_error w1(1) run_loop)
  moreover have "set (sort (filter ?P xs)) = live_nodes (view (db w))" by (auto simp: live_nodes_def w1(2))
  ultimately show ?thesis using \<open>db w2 = db w\<close> w1(3) by auto
qed

lemma run_bestFitOrder:
  assumes "quiet E" "server E = R" "is_set (view (db w)) NodeRegistryKey" "accounting_ok (view (db w))"
    and "0 \<le> cpu" "0 \<le> mem"
  shows "\<exists>cs w'. run_state (bestFitOrder E l cpu mem) w = (Inr cs, w') \<and> set cs = fitting (view (db w)) cpu mem \<and>
    distinct (map cand_nodeID cs) \<and> sorted_wrt (\<lambda>a b. \<not> candidate_less cpu mem b a) cs \<and> db w' = db w"
proof -
  let ?v = "view (db w)"
  obtain ns w1 where w1: "run_state (LiveNodes E) w = (Inr ns, w1)" "set ns = live_nodes ?v" "distinct ns" "db w1 = db w"
    using run_LiveNodes[OF assms(1-3)] by blast
  define P where "P n \<longleftrightarrow> (\<exists>c. has_room ?v n c cpu mem)" for n
  define g where "g n = \<lparr>cand_nodeID = n, cand_capacity = (THE c. holds_capacity ?v n c)\<rparr>" for n
  have the: "(THE c. holds_capacity ?v n c) = c" if "holds_capacity ?v n c" for n c
    using that holds_capacity_unique by blast
  let ?f = "bestFitOrder_body E l cpu mem"
  have step: "\<exists>w'. run_state (?f n acc) w2 = (Next (if P n then acc @ [g n] else acc) :: (candidate list, error + candidate list) flow, w') \<and> db w' = db w"
    if e: "db w2 = db w" for n acc w2
  proof (cases "?v (NodeCapacityKey n) = None")
    case True
    then have "is_hash (view (db w2)) (NodeCapacityKey n)" using e by (simp add: is_hash_def)
    from run_HashGet[OF assms(1,2) this] True e show ?thesis
      by (auto simp: bestFitOrder_body_def run_on_error P_def has_room_def holds_capacity_def)
  next
    case False
    with assms(4) obtain c where c: "holds_capacity ?v n c" "within_totals c" by (rule accounting_capacity)
    then have "is_hash (view (db w2)) (NodeCapacityKey n)" using e by (auto elim: holds_capacityE)
    from run_HashGet[OF assms(1,2) this] obtain fs w3 where fs: "run_state (HashGet E (NodeCapacityKey n)) w2 = (Inr fs, w3)"
      "map_of fs = hash_at ?v (NodeCapacityKey n)" "fs \<noteq> []" "db w3 = db w"
      using e False by auto
    have dec: "MapToNodeCapacity fs = Inr c" by (rule decode_capacity[OF c fs(2)])
    have diff: "i64 (n_TotalCPU c - n_AllocatedCPU c) = n_TotalCPU c - n_AllocatedCPU c"
      "i64 (n_TotalMem c - n_AllocatedMem c) = n_TotalMem c - n_AllocatedMem c"
      using c(2) by (auto simp: within_totals_def in_int64_def)
    have "P n \<longleftrightarrow> n_AllocatedCPU c + cpu \<le> n_TotalCPU c \<and> n_AllocatedMem c + mem \<le> n_TotalMem c"
      unfolding P_def has_room_def using c(1) by (metis holds_capacity_unique)
    then show ?thesis using fs dec diff the[OF c(1)]
      by (auto simp: bestFitOrder_body_def run_on_error g_def)
  qed
  have "\<exists>w'. run_state (for_range ?f ns []) w1 = (Inl ([] @ map g (filter P ns)) :: candidate list + (error + candidate list), w') \<and> db w' = db w"
    by (rule for_range_filter[where N = "\<lambda>w'. db w' = db w"]) (erule step, rule w1(4))
  then obtain w2 where w2: "run_state (for_range ?f ns []) w1 = (Inl (map g (filter P ns)) :: candidate list + (error + candidate list), w2)" "db w2 = db w" by auto
  define cs where "cs = sort_stable (candidate_less cpu mem) (map g (filter P ns))"
  have "run_state (bestFitOrder E l cpu mem) w = (Inr cs, w2)"
    by (simp add: bestFitOrder_def run_on_error w1(1) run_loop w2(1) cs_def)
  moreover have "set cs = fitting ?v cpu mem"
  proof -
    have "set cs = g ` {n \<in> live_nodes ?v. P n}" by (auto simp: cs_def w1(2))
    also have "\<dots> = fitting ?v cpu mem"
      by (force simp: fitting_def P_def g_def has_room_def the image_iff)
    finally show ?thesis .
  qed
  moreover have "distinct (map cand_nodeID cs)"
  proof -
    have "mset (map cand_nodeID cs) = mset (filter P ns)" by (simp add: cs_def g_def multiset.map_comp comp_def)
    then show ?thesis using w1(3) by (metis distinct_filter mset_eq_imp_distinct_iff)
  qed
  moreover have "sorted_wrt (\<lambda>a b. \<not> candidate_less cpu mem b a) cs"
    unfolding cs_def by (rule less_callback.sort_stable_sorted[OF less_callback_candidates])
  ultimately show ?thesis using w2(2) by blast
qed

text \<open>A log call changes nothing but the log stream.\<close>

lemma run_log:
  assumes "quiet E" "server E = R"
  shows "\<exists>w' x. run_state (log E l level et msg ids) w = ((), w') \<and> view (db w') = (view (db w))(LogStreamKey := x)"
proof (cases "l_client l")
  case True
  then show ?thesis
    using view_xadd[of LogStreamKey _ "db w"]
    by (auto simp: log_def Let_def StreamAppend_def run_send_quiet[OF assms(1)] assms(2))
next
  case False
  then show ?thesis by (auto simp: log_def intro!: exI[of _ "view (db w) LogStreamKey"])
qed

lemma run_Info:
  assumes "quiet E" "server E = R"
  shows "\<exists>w' x. run_state (Info E l et msg ids) w = ((), w') \<and> view (db w') = (view (db w))(LogStreamKey := x)"
    "\<exists>w' x. run_state (Warn E l et msg ids) w = ((), w') \<and> view (db w') = (view (db w))(LogStreamKey := x)"
    "\<exists>w' x. run_state (Error E l et msg ids) w = ((), w') \<and> view (db w') = (view (db w))(LogStreamKey := x)"
  unfolding Info_def Warn_def Error_def by (rule run_log[OF assms])+

lemma run_HashSet:
  assumes "quiet E" "server E = R" "is_hash (view (db w)) k" "fs \<noteq> []" "distinct (map fst fs)"
  shows "\<exists>w'. run_state (HashSet E k fs) w = (Inr (), w') \<and>
    view (db w') = (view (db w))(k \<mapsto> RHash (hash_at (view (db w)) k ++ map_of (wire R fs)))"
  using assms(3-5) by (simp add: HashSet_def run_send_quiet[OF assms(1)] assms(2) reply_hset view_hset)

lemma run_SendCommand:
  assumes "quiet E" "server E = R" "is_list (view (db w)) (NodeCommandsKey n)"
  shows "\<exists>w'. run_state (SendCommand E n cmd) w = (Inr (), w') \<and>
    view (db w') = (view (db w))(NodeCommandsKey n \<mapsto> RList (list_at (view (db w)) (NodeCommandsKey n) @ [EncodeCommand cmd]))"
  using assms(3)
  by (simp add: SendCommand_def ListPush_def run_on_error run_send_quiet[OF assms(1)] assms(2) reply_rpush view_rpush put_list_def)

lemma is_list_upd [simp]: "is_list (v(k := x)) k' = (if k' = k then (case x of None \<Rightarrow> True | Some (RList _) \<Rightarrow> True | _ \<Rightarrow> False) else is_list v k')"
  by (simp add: is_list_def)

lemma list_at_upd [simp]: "list_at (v(k := x)) k' = (if k' = k then (case x of Some (RList m) \<Rightarrow> m | _ \<Rightarrow> []) else list_at v k')"
  by (simp add: list_at_def)

text \<open>The keyspace after a pod has been recorded and its start command queued; \<open>x\<close> is the log.\<close>

lemma run_place_reserved:
  assumes "quiet E" "server E = R" "rand_at E (tick w) = Inr bytes"
    and "is_hash (view (db w)) (PodKey (d_Name dep) (hex_EncodeToString bytes))"
    and "is_list (view (db w)) (NodeCommandsKey n)"
  defines "pid \<equiv> hex_EncodeToString bytes"
  shows "\<exists>w' x. run_state (place_reserved E l dep n) w = (Inr pid, w') \<and>
    view (db w') = (view (db w))
      (PodKey (d_Name dep) pid \<mapsto> RHash (hash_at (view (db w)) (PodKey (d_Name dep) pid) ++
           map_of (wire R (PodToMap (new_pod dep pid n (unix_at E (Suc (tick w))))))),
       NodeCommandsKey n \<mapsto> RList (list_at (view (db w)) (NodeCommandsKey n) @
           [EncodeCommand \<lparr>c_Type = CommandStartPod, c_Deployment = d_Name dep, c_PodID = pid\<rparr>]),
       LogStreamKey := x)"
proof -
  let ?w1 = "w\<lparr>tick := Suc (Suc (tick w))\<rparr>"
  let ?pod = "new_pod dep pid n (unix_at E (Suc (tick w)))"
  obtain w2 where w2: "run_state (HashSet E (PodKey (d_Name dep) pid) (PodToMap ?pod)) ?w1 = (Inr (), w2)"
    "view (db w2) = (view (db w))(PodKey (d_Name dep) pid \<mapsto> RHash (hash_at (view (db w)) (PodKey (d_Name dep) pid) ++
           map_of (wire R (PodToMap ?pod))))"
    using run_HashSet[OF assms(1,2), of ?w1 "PodKey (d_Name dep) pid" "PodToMap ?pod"] assms(4) by (auto simp: pid_def)
  have "is_list (view (db w2)) (NodeCommandsKey n)" using assms(5) by (simp add: w2(2) key_simps)
  from run_SendCommand[OF assms(1,2) this] obtain w3 where
    w3: "run_state (SendCommand E n \<lparr>c_Type = CommandStartPod, c_Deployment = d_Name dep, c_PodID = pid\<rparr>) w2 = (Inr (), w3)"
    "view (db w3) = (view (db w2))(NodeCommandsKey n \<mapsto> RList (list_at (view (db w2)) (NodeCommandsKey n) @
           [EncodeCommand \<lparr>c_Type = CommandStartPod, c_Deployment = d_Name dep, c_PodID = pid\<rparr>]))" by blast
  define msg where "msg = Sprintf ''placed pod on %s reserving %dm CPU and %dMB''
     [ArgS n, ArgD (d_CPURequest dep), ArgD (d_MemRequest dep)]"
  obtain w4 x where w4: "run_state (Info E l ''pod_scheduled'' msg [DeploymentID (d_Name dep), PodID pid, NodeID n]) w3 = ((), w4)"
    "view (db w4) = (view (db w3))(LogStreamKey := x)"
    using run_Info(1)[OF assms(1,2)] by blast
  have "run_state (place_reserved E l dep n) w = (Inr pid, w4)"
    using w2(1) w3(1) w4(1) assms(3)
    by (simp add: place_reserved_def newPodID_def run_on_error pid_def[symmetric] msg_def)
  moreover have "view (db w4) = (view (db w))
      (PodKey (d_Name dep) pid \<mapsto> RHash (hash_at (view (db w)) (PodKey (d_Name dep) pid) ++ map_of (wire R (PodToMap ?pod))),
       NodeCommandsKey n \<mapsto> RList (list_at (view (db w)) (NodeCommandsKey n) @
           [EncodeCommand \<lparr>c_Type = CommandStartPod, c_Deployment = d_Name dep, c_PodID = pid\<rparr>]),
       LogStreamKey := x)"
    by (simp add: w4(2) w3(2) w2(2) key_simps)
  ultimately show ?thesis by blast
qed

end

text \<open>What placing one replica of \<open>dep\<close> on node \<open>n\<close> means for the keyspace: the node's allocation
  grows by the request, the pod is recorded as Pending, the start command is appended to the node's
  queue. \<open>x\<close> is the log stream afterwards.\<close>

definition placed ::
  "'db redis \<Rightarrow> keyspace \<Rightarrow> DeploymentSpec \<Rightarrow> candidate \<Rightarrow> string \<Rightarrow> int \<Rightarrow> rvalue option \<Rightarrow> keyspace"
where
  "placed R v dep k pid now x =
     (put_alloc v (cand_nodeID k) (n_AllocatedCPU (cand_capacity k) + d_CPURequest dep)
        (n_AllocatedMem (cand_capacity k) + d_MemRequest dep))
     (PodKey (d_Name dep) pid \<mapsto> RHash (hash_at v (PodKey (d_Name dep) pid) ++
         map_of (wire R (PodToMap (new_pod dep pid (cand_nodeID k) now)))),
      NodeCommandsKey (cand_nodeID k) \<mapsto> RList (list_at v (NodeCommandsKey (cand_nodeID k)) @
         [EncodeCommand \<lparr>c_Type = CommandStartPod, c_Deployment = d_Name dep, c_PodID = pid\<rparr>]),
      LogStreamKey := x)"

text \<open>The keys a placement touches hold values of their types, and random bytes are to be had.\<close>

definition ready_to_place :: "('db, 'e) env_scheme \<Rightarrow> keyspace \<Rightarrow> DeploymentSpec \<Rightarrow> bool" where
  "ready_to_place E v dep \<longleftrightarrow> is_set v NodeRegistryKey \<and> accounting_ok v \<and> deployment_typed dep \<and>
     0 \<le> d_CPURequest dep \<and> 0 \<le> d_MemRequest dep \<and>
     (\<forall>n. is_list v (NodeCommandsKey n)) \<and> (\<forall>pid. is_hash v (PodKey (d_Name dep) pid)) \<and>
     (\<forall>t. \<exists>b. rand_at E t = Inr b \<and> length b = 8)"

lemma length_hex [simp]: "length (hex_EncodeToString b) = 2 * length b"
  by (induction b) (auto simp: hex_EncodeToString_def)

lemma hash_at_put_alloc [simp]:
  "hash_at (put_alloc v n a b) (PodKey d p) = hash_at v (PodKey d p)"
  "list_at (put_alloc v n a b) (NodeCommandsKey m) = list_at v (NodeCommandsKey m)"
  "is_hash (put_alloc v n a b) (PodKey d p) = is_hash v (PodKey d p)"
  "is_list (put_alloc v n a b) (NodeCommandsKey m) = is_list v (NodeCommandsKey m)"
  by (simp_all add: put_alloc_def key_simps)

lemma within_totals_accounting:
  assumes "accounting_ok v" "holds_capacity v n c"
  shows "within_totals c"
proof -
  have "v (NodeCapacityKey n) \<noteq> None" using assms(2) by (auto simp: holds_capacity_def)
  with assms(1) obtain c' where "holds_capacity v n c'" "within_totals c'" by (rule accounting_capacity)
  with assms(2) show ?thesis using holds_capacity_unique by blast
qed

context redis_server
begin

lemma run_scheduleOne:
  assumes "quiet E" "server E = R" and ready: "ready_to_place E (view (db w)) dep"
  defines "v \<equiv> view (db w)"
  shows "if fitting v (d_CPURequest dep) (d_MemRequest dep) = {}
    then \<exists>w'. run_state (scheduleOne E l dep) w = (Inr [], w') \<and> db w' = db w
    else \<exists>k pid now x w'. k \<in> fitting v (d_CPURequest dep) (d_MemRequest dep) \<and>
      (\<forall>k' \<in> fitting v (d_CPURequest dep) (d_MemRequest dep). \<not> candidate_less (d_CPURequest dep) (d_MemRequest dep) k' k) \<and>
      length pid = 16 \<and> run_state (scheduleOne E l dep) w = (Inr pid, w') \<and> view (db w') = placed R v dep k pid now x"
proof -
  have r: "is_set v NodeRegistryKey" "accounting_ok v" "deployment_typed dep" "0 \<le> d_CPURequest dep" "0 \<le> d_MemRequest dep"
    "\<And>n. is_list v (NodeCommandsKey n)" "\<And>pid. is_hash v (PodKey (d_Name dep) pid)"
    "\<And>t. \<exists>b. rand_at E t = Inr b \<and> length b = 8"
    using ready by (auto simp: ready_to_place_def v_def)
  have typed: "in_int64 (d_CPURequest dep)" "in_int64 (d_MemRequest dep)" using r(3) by (simp_all add: deployment_typed_def)
  obtain cs w1 where cs: "run_state (bestFitOrder E l (d_CPURequest dep) (d_MemRequest dep)) w = (Inr cs, w1)"
    "set cs = fitting v (d_CPURequest dep) (d_MemRequest dep)"
    "sorted_wrt (\<lambda>a b. \<not> candidate_less (d_CPURequest dep) (d_MemRequest dep) b a) cs" "db w1 = db w"
    using run_bestFitOrder[OF assms(1,2) r(1,2)[unfolded v_def] r(4,5), of l] by (auto simp: v_def)
  show ?thesis
  proof (cases cs)
    case Nil
    with cs show ?thesis by (auto simp: scheduleOne_def run_on_error run_loop)
  next
    case (Cons k ks)
    let ?n = "cand_nodeID k" and ?c = "cand_capacity k"
    have k: "k \<in> fitting v (d_CPURequest dep) (d_MemRequest dep)" using cs(2) Cons by auto
    have least: "\<forall>k' \<in> fitting v (d_CPURequest dep) (d_MemRequest dep). \<not> candidate_less (d_CPURequest dep) (d_MemRequest dep) k' k"
      unfolding cs(2)[symmetric] using cs(3) Cons by (auto dest: less_callback.asym[OF less_callback_candidates])
    have room: "holds_capacity (view (db w1)) ?n ?c" "n_AllocatedCPU ?c + d_CPURequest dep \<le> n_TotalCPU ?c"
      "n_AllocatedMem ?c + d_MemRequest dep \<le> n_TotalMem ?c"
      using k by (auto simp: fitting_def has_room_def v_def cs(4))
    have within: "within_totals ?c"
      using within_totals_accounting[OF r(2)] room(1) by (simp add: cs(4) v_def)
    obtain w2 where w2: "run_state (Reserve E ?n (d_CPURequest dep) (d_MemRequest dep)) w1 = (Inr True, w2)"
      "view (db w2) = put_alloc v ?n (n_AllocatedCPU ?c + d_CPURequest dep) (n_AllocatedMem ?c + d_MemRequest dep)"
      using run_Reserve[OF assms(1,2) room(1) within r(4) typed(1) r(5) typed(2)] room by (auto simp: cs(4) v_def)
    obtain b where b: "rand_at E (tick w2) = Inr b" "length b = 8" using r(8) by blast
    obtain w3 x where w3: "run_state (place_reserved E l dep ?n) w2 = (Inr (hex_EncodeToString b), w3)"
      "view (db w3) = placed R v dep k (hex_EncodeToString b) (unix_at E (Suc (tick w2))) x"
      using run_place_reserved[OF assms(1,2) b(1), of dep ?n l] r(6,7) by (auto simp: w2(2) placed_def)
    have "run_state (scheduleOne E l dep) w = (Inr (hex_EncodeToString b), w3)"
      by (simp add: scheduleOne_def scheduleOne_body_def run_on_error cs(1) Cons run_loop w2(1) w3(1))
    moreover have "length (hex_EncodeToString b) = 16" using b(2) by simp
    moreover have "fitting v (d_CPURequest dep) (d_MemRequest dep) \<noteq> {}" using k by blast
    ultimately show ?thesis using k least w3(2) by auto
  qed
qed

end

section \<open>Properties of placement\<close>

text \<open>C6. The candidates for a request are exactly the live nodes with room in both dimensions, each once,
  ordered by the leftover score and, on ties, by node id; reading them changes nothing.\<close>

theorem bestFitOrder_exact:
  assumes "redis_server (server E) view" "quiet E"
    and "is_set (view (db w)) NodeRegistryKey" "accounting_ok (view (db w))" "0 \<le> cpu" "0 \<le> mem"
  shows "\<exists>cs w'. run_state (bestFitOrder E l cpu mem) w = (Inr cs, w') \<and> db w' = db w \<and>
    set cs = {k. cand_nodeID k \<in> live_nodes (view (db w)) \<and> has_room (view (db w)) (cand_nodeID k) (cand_capacity k) cpu mem} \<and>
    distinct (map cand_nodeID cs) \<and>
    sorted_wrt (\<lambda>a b. score cpu mem a < score cpu mem b \<or>
      score cpu mem a = score cpu mem b \<and> cand_nodeID a \<le> cand_nodeID b) cs"
proof -
  from redis_server.run_bestFitOrder[OF assms(1,2) refl assms(3-6), of l] obtain cs w' where
    cs: "run_state (bestFitOrder E l cpu mem) w = (Inr cs, w')" "set cs = fitting (view (db w)) cpu mem"
    "distinct (map cand_nodeID cs)" "sorted_wrt (\<lambda>a b. \<not> candidate_less cpu mem b a) cs" "db w' = db w" by blast
  have "sorted_wrt (\<lambda>a b. score cpu mem a < score cpu mem b \<or>
      score cpu mem a = score cpu mem b \<and> cand_nodeID a \<le> cand_nodeID b) cs"
    by (rule sorted_wrt_mono_rel[OF _ cs(4)]) (auto simp: candidate_less_def less_then_def split: if_splits)
  with cs show ?thesis by (auto simp: fitting_def)
qed

text \<open>Two nodes: \<open>n1\<close> nearly full, \<open>n2\<close> empty; both alive.\<close>

definition duo_db :: mem where
  "duo_db = [(NodeRegistryKey, Some (MSet [''n1'', ''n2''])),
     (NodeStatusKey ''n1'', Some (MStr NodeStatusReady)), (NodeStatusKey ''n2'', Some (MStr NodeStatusReady)),
     (NodeCapacityKey ''n1'', Some (MHash [(FieldTotalCPU, Itoa 4000), (FieldTotalMem, Itoa 8192),
       (FieldAllocatedCPU, Itoa 3500), (FieldAllocatedMem, Itoa 1024)])),
     (NodeCapacityKey ''n2'', Some (MHash [(FieldTotalCPU, Itoa 4000), (FieldTotalMem, Itoa 8192),
       (FieldAllocatedCPU, Itoa 0), (FieldAllocatedMem, Itoa 0)]))]"

definition duo_world :: "mem world" where
  "duo_world = \<lparr>db = duo_db, tick = 0\<rparr>"

lemma duo_view: "mem_view (db duo_world) = [NodeRegistryKey \<mapsto> RSet {''n1'', ''n2''},
   NodeStatusKey ''n1'' \<mapsto> RStr NodeStatusReady, NodeStatusKey ''n2'' \<mapsto> RStr NodeStatusReady,
   NodeCapacityKey ''n1'' \<mapsto> RHash [FieldTotalCPU \<mapsto> Itoa 4000, FieldTotalMem \<mapsto> Itoa 8192,
       FieldAllocatedCPU \<mapsto> Itoa 3500, FieldAllocatedMem \<mapsto> Itoa 1024],
   NodeCapacityKey ''n2'' \<mapsto> RHash [FieldTotalCPU \<mapsto> Itoa 4000, FieldTotalMem \<mapsto> Itoa 8192,
       FieldAllocatedCPU \<mapsto> Itoa 0, FieldAllocatedMem \<mapsto> Itoa 0]]"
  by (rule ext) (simp add: mem_view_def mem_get_def duo_world_def duo_db_def key_simps fun_upd_twist)

lemma duo_ready: "ready_to_place mem_env (mem_view (db duo_world)) demo_deployment"
proof -
  have "no_oversubscription (mem_view (db duo_world))"
    unfolding no_oversubscription_def
  proof (intro allI impI)
    fix n
    assume "mem_view (db duo_world) (NodeCapacityKey n) \<noteq> None"
    then have "n = ''n1'' \<or> n = ''n2''" by (auto simp: duo_view key_simps split: if_splits)
    then have "holds_capacity (mem_view (db duo_world)) n \<lparr>n_TotalCPU = 4000, n_TotalMem = 8192,
        n_AllocatedCPU = if n = ''n1'' then 3500 else 0, n_AllocatedMem = if n = ''n1'' then 1024 else 0\<rparr>"
      by (auto simp: holds_capacity_def duo_view key_simps)
    moreover have "within_totals \<lparr>n_TotalCPU = 4000, n_TotalMem = 8192,
        n_AllocatedCPU = if n = ''n1'' then 3500 else 0, n_AllocatedMem = if n = ''n1'' then 1024 else 0\<rparr>"
      by (cases "n = ''n1''") (simp_all add: within_totals_def)
    ultimately show "\<exists>c. holds_capacity (mem_view (db duo_world)) n c \<and> within_totals c" by blast
  qed
  then show ?thesis
    by (auto simp: ready_to_place_def accounting_ok_def requests_ok_def is_set_def is_list_def is_hash_def duo_view
        key_simps mem_env_def split: if_splits)
qed

theorem bestFitOrder_exact_witness:
  "\<exists>cs w'. run_state (bestFitOrder mem_env demo_logger 250 128) duo_world = (Inr cs, w') \<and> set (map cand_nodeID cs) = {''n1'', ''n2''}"
proof -
  have ok: "is_set (mem_view (db duo_world)) NodeRegistryKey" "accounting_ok (mem_view (db duo_world))"
    using duo_ready by (simp_all add: ready_to_place_def)
  from bestFitOrder_exact[of mem_env mem_view, OF _ _ ok, of 250 128 demo_logger] mem.redis_server_axioms
  obtain cs w' where cs: "run_state (bestFitOrder mem_env demo_logger 250 128) duo_world = (Inr cs, w')"
    "set cs = {k. cand_nodeID k \<in> live_nodes (mem_view (db duo_world)) \<and>
       has_room (mem_view (db duo_world)) (cand_nodeID k) (cand_capacity k) 250 128}" by auto
  let ?k1 = "\<lparr>cand_nodeID = ''n1'', cand_capacity = \<lparr>n_TotalCPU = 4000, n_TotalMem = 8192, n_AllocatedCPU = 3500, n_AllocatedMem = 1024\<rparr>\<rparr>"
  let ?k2 = "\<lparr>cand_nodeID = ''n2'', cand_capacity = \<lparr>n_TotalCPU = 4000, n_TotalMem = 8192, n_AllocatedCPU = 0, n_AllocatedMem = 0\<rparr>\<rparr>"
  have "?k1 \<in> set cs" "?k2 \<in> set cs" "cand_nodeID ` set cs \<subseteq> {''n1'', ''n2''}"
    by (auto simp: cs(2) live_nodes_def has_room_def holds_capacity_def duo_view key_simps set_at_def)
  then have "set (map cand_nodeID cs) = {''n1'', ''n2''}" by (auto simp: image_iff) force+
  with cs(1) show ?thesis by blast
qed

text \<open>C3. Placing one replica: when no live node has room, nothing happens and the empty id is returned;
  otherwise the replica goes to a candidate that no other one beats, and the database changes by
  exactly the placement (allocation, pod record, start command) and the log.\<close>

theorem scheduleOne_exact:
  assumes "redis_server (server E) view" "quiet E" "ready_to_place E (view (db w)) dep"
  shows "if fitting (view (db w)) (d_CPURequest dep) (d_MemRequest dep) = {}
    then \<exists>w'. run_state (scheduleOne E l dep) w = (Inr [], w') \<and> db w' = db w
    else \<exists>k pid now x w'. k \<in> fitting (view (db w)) (d_CPURequest dep) (d_MemRequest dep) \<and>
      (\<forall>k' \<in> fitting (view (db w)) (d_CPURequest dep) (d_MemRequest dep).
         \<not> candidate_less (d_CPURequest dep) (d_MemRequest dep) k' k) \<and>
      length pid = 16 \<and> run_state (scheduleOne E l dep) w = (Inr pid, w') \<and>
      view (db w') = placed (server E) (view (db w)) dep k pid now x"
  by (rule redis_server.run_scheduleOne[OF assms(1,2) refl assms(3)])

lemma duo_fitting:
  "\<lparr>cand_nodeID = ''n1'', cand_capacity = \<lparr>n_TotalCPU = 4000, n_TotalMem = 8192, n_AllocatedCPU = 3500, n_AllocatedMem = 1024\<rparr>\<rparr>
   \<in> fitting (mem_view (db duo_world)) (d_CPURequest demo_deployment) (d_MemRequest demo_deployment)"
  by (simp add: fitting_def live_nodes_def has_room_def holds_capacity_def duo_view key_simps set_at_def)

theorem scheduleOne_exact_witness:
  "\<exists>pid w'. length pid = 16 \<and> run_state (scheduleOne mem_env demo_logger demo_deployment) duo_world = (Inr pid, w')"
proof -
  have "fitting (mem_view (db duo_world)) (d_CPURequest demo_deployment) (d_MemRequest demo_deployment) \<noteq> {}"
    using duo_fitting by blast
  with scheduleOne_exact[of mem_env mem_view duo_world demo_deployment demo_logger, OF _ _ duo_ready]
    mem.redis_server_axioms show ?thesis by (auto simp del: demo_deployment_fields)
qed

text \<open>C14. The rollback of a placement: when the pod record cannot be written because that one command is
  lost, the reservation taken before is given back: \<open>scheduleOne\<close>'s placement step ends with the error
  and the allocation is smaller by exactly the request; no pod, command or log entry is written.\<close>

theorem place_reserved_rolls_back:
  assumes "redis_server (server E) view" "\<And>t d. interfere E t d = d"
    and "\<And>t. fault_at E t = (if t = Suc (Suc (tick w)) then Lost e else Delivered)"
    and "rand_at E (tick w) = Inr bytes"
    and "holds_capacity (view (db w)) n c" "within_totals c" "deployment_typed dep"
    and "0 \<le> d_CPURequest dep" "d_CPURequest dep \<le> n_AllocatedCPU c"
    and "0 \<le> d_MemRequest dep" "d_MemRequest dep \<le> n_AllocatedMem c"
  shows "\<exists>w'. run_state (place_reserved E l dep n) w =
      (Inl (Errorf ''write pod hash for %s/%s: %w'' [ArgS (d_Name dep), ArgS (hex_EncodeToString bytes), ArgE e]), w') \<and>
    view (db w') = put_alloc (view (db w)) n (n_AllocatedCPU c - d_CPURequest dep) (n_AllocatedMem c - d_MemRequest dep)"
proof -
  let ?w2 = "w\<lparr>tick := Suc (Suc (tick w))\<rparr>"
  let ?pod = "new_pod dep (hex_EncodeToString bytes) n (unix_at E (Suc (tick w)))"
  have hset: "run_state (HashSet E (PodKey (d_Name dep) (hex_EncodeToString bytes)) (PodToMap ?pod)) ?w2 =
      (Inl e, w\<lparr>tick := Suc (Suc (Suc (tick w)))\<rparr>)"
    by (simp add: HashSet_def send_def assms(2,3) Let_def)
  obtain r d' where rel: "run_state (releaseScript (server E) (NodeCapacityKey n)
      (Itoa (d_CPURequest dep)) (Itoa (d_MemRequest dep))) (db w) = (r, d')" by fastforce
  have typed: "in_int64 (d_CPURequest dep)" "in_int64 (d_MemRequest dep)"
    using assms(7) by (simp_all add: deployment_typed_def)
  have eff: "r = Inr 1" "view d' = put_alloc (view (db w)) n (n_AllocatedCPU c - d_CPURequest dep) (n_AllocatedMem c - d_MemRequest dep)"
    using redis_server.run_release[OF assms(1,5,6,8) typed(1) assms(10) typed(2) rel] assms(9,11) by simp_all
  have "run_state (Release E n (d_CPURequest dep) (d_MemRequest dep)) (w\<lparr>tick := Suc (Suc (Suc (tick w)))\<rparr>) =
      (Inr (), w\<lparr>tick := Suc (Suc (Suc (Suc (tick w)))), db := d'\<rparr>)"
    by (simp add: Release_def Let_def run_on_error EvalScript_def send_def assms(2,3) rel eff
        redis_server.arg_int[OF assms(1)])
  with hset eff(2) show ?thesis
    by (simp add: place_reserved_def newPodID_def run_on_error assms(4) releaseAfterFailure_def)
qed

definition third_lost_env :: "mem env" where
  "third_lost_env = mem_env\<lparr>fault_at := (\<lambda>t. if t = Suc (Suc 0) then Lost RedisNil else Delivered)\<rparr>"

theorem place_reserved_rolls_back_witness:
  "\<exists>w'. run_state (place_reserved third_lost_env demo_logger demo_deployment ''n1'') demo_world =
      (Inl (Errorf ''write pod hash for %s/%s: %w'' [ArgS ''web'', ArgS ''0001020304050607'', ArgE RedisNil]), w') \<and>
    mem_view (db w') = put_alloc (mem_view demo_db) ''n1'' 3250 896"
proof -
  have "hex_EncodeToString [0, 1, 2, 3, 4, 5, 6, 7] = ''0001020304050607''"
    by (simp add: hex_EncodeToString_def hex_digit_def)
  moreover have "server third_lost_env = mem_redis" by (simp add: third_lost_env_def mem_env_def)
  ultimately show ?thesis
    using place_reserved_rolls_back[of third_lost_env mem_view demo_world RedisNil "[0, 1, 2, 3, 4, 5, 6, 7]" "''n1''"
        demo_capacity demo_deployment demo_logger, OF _ _ _ _ demo_holds] mem.redis_server_axioms
    by (simp add: third_lost_env_def mem_env_def demo_world_def demo_capacity_def)
qed

lemma ScheduleReplicas_loop_bound:
  "run_state (for_range (ScheduleReplicas_body E l dep cnt) xs created) w = (r, w') \<Longrightarrow>
   \<forall>p \<in> set created. p \<noteq> [] \<Longrightarrow>
   (case r of Inl s \<Rightarrow> length s \<le> length created + length xs \<and> (\<forall>p \<in> set s. p \<noteq> [])
    | Inr (s, _) \<Rightarrow> length s \<le> length created + length xs \<and> (\<forall>p \<in> set s. p \<noteq> []))"
proof (induction xs arbitrary: created w)
  case (Cons x xs)
  obtain q w1 where q: "run_state (scheduleOne E l dep) w = (q, w1)" by fastforce
  show ?case
  proof (cases "\<exists>p. q = Inr p \<and> p \<noteq> []")
    case True
    then obtain p where "q = Inr p" "p \<noteq> []" by blast
    with Cons.prems q have "run_state (for_range (ScheduleReplicas_body E l dep cnt) xs (created @ [p])) w1 = (r, w')"
      by (simp add: ScheduleReplicas_body_def[of E l dep cnt x created] run_on_error)
    from Cons.IH[OF this] Cons.prems(2) \<open>p \<noteq> []\<close> show ?thesis by (auto split: sum.splits)
  next
    case False
    then have "r = Inl created \<or> (\<exists>e. r = Inr (created, e))"
      using Cons.prems q
      by (cases q) (auto simp: ScheduleReplicas_body_def run_on_error split: prod.splits)
    then show ?thesis using Cons.prems(2) by auto
  qed
qed auto

text \<open>\<open>ScheduleReplicas\<close> never creates more pods than asked for, reports only pods with an id, and
  creates none for a count that is not positive, whatever the environment does.\<close>

theorem ScheduleReplicas_bounded:
  "case fst (run_state (ScheduleReplicas E l dep cnt) w) of (created, err) \<Rightarrow>
     int (length created) \<le> max 0 cnt \<and> [] \<notin> set created"
proof (cases "cnt \<le> 0")
  case False
  obtain r w' where r: "run_state (for_range (ScheduleReplicas_body E l dep cnt) [0..<nat cnt] []) w = (r, w')" by fastforce
  from ScheduleReplicas_loop_bound[OF r] False r show ?thesis
    by (auto simp: ScheduleReplicas_def run_loop split: sum.splits prod.splits)
qed (simp add: ScheduleReplicas_def)

end
