(* ===== verification/Replica.thy ===== *)
theory Replica
  imports Scheduler
begin

text \<open>
  \<open>internal/controller/replica.go\<close>: the delta engine that compares the pods of a deployment with its
  desired count, the choice of victims, removal through the node's queue or directly, and the sweep
  over all deployments with its orphan reaping. The endless loops around them (\<open>RunSweeper\<close>) are
  represented by one round.
\<close>


section \<open>Reading and deleting pods\<close>

record Delta =
  dl_Deployment :: string
  dl_Desired :: int
  dl_Observed :: int
  dl_Created :: int
  dl_Removed :: int

definition podsForDeployment_body where
  "podsForDeployment_body E l deployment key pods =
     on_error (HashGet E key)
       (\<lambda>e. State_Monad.return (Return (Inl (Errorf ''read pod %s: %w'' [ArgS key, ArgE e]))))
       (\<lambda>fs.
         if fs = [] then State_Monad.return (Next pods) else
         case MapToPod fs of
           Inl e \<Rightarrow> do {
             Warn E l ''pod_parse_failed'' (Error_text e) [DeploymentID deployment];
             State_Monad.return (Next pods) }
         | Inr pod \<Rightarrow> State_Monad.return (Next (pods @ [pod])))"

definition podsForDeployment ::
  "('db, 'e) env_scheme \<Rightarrow> Logger \<Rightarrow> string \<Rightarrow> (('db, 'm) world_scheme, PodSpec list) fallible"
where
  "podsForDeployment E l deployment =
     on_error (ScanKeys E (DeploymentPodsPattern deployment))
       (\<lambda>e. throw (Errorf ''scan pods of %s: %w'' [ArgS deployment, ArgE e]))
       (\<lambda>keys. loop (podsForDeployment_body E l deployment) keys [] (\<lambda>pods. ok pods))"

definition forceRemove ::
  "('db, 'e) env_scheme \<Rightarrow> PodSpec \<Rightarrow> (('db, 'm) world_scheme, unit) fallible"
where
  "forceRemove E pod =
     attempt
       (if p_NodeID pod \<noteq> [] \<and> ConsumesCapacity (p_Status pod)
        then on_error (Release E (p_NodeID pod) (p_CPURequest pod) (p_MemRequest pod))
               (\<lambda>e. throw (Errorf ''release capacity for %s: %w'' [ArgS (p_PodID pod), ArgE e]))
               (\<lambda>_. ok ())
        else ok ())
       (\<lambda>_. on_error (DeleteKey E [PodKey (p_Deployment pod) (p_PodID pod), TelemetryCPUKey (p_Deployment pod) (p_PodID pod)])
              (\<lambda>e. throw (Errorf ''delete pod %s: %w'' [ArgS (p_PodID pod), ArgE e]))
              (\<lambda>_. ok ()))"

definition deletePodRecords ::
  "('db, 'e) env_scheme \<Rightarrow> string \<Rightarrow> string list \<Rightarrow> (('db, 'm) world_scheme, unit) fallible"
where
  "deletePodRecords E deployment podIDs =
     on_error (DeleteKey E (concat (map (\<lambda>i. [PodKey deployment i, TelemetryCPUKey deployment i]) podIDs)))
       (\<lambda>e. throw (Errorf ''delete evicted pod records for %s: %w'' [ArgS deployment, ArgE e]))
       (\<lambda>_. ok ())"


section \<open>Victims\<close>

definition statusPriority :: "string \<Rightarrow> int" where
  "statusPriority status =
     (if status = StatusUnschedulable then 0
      else if status = StatusFailed then 1
      else if status = StatusCrashLoopBackOff then 2
      else if status = StatusPending then 3
      else 4)"

definition victim_less :: "PodSpec \<Rightarrow> PodSpec \<Rightarrow> bool" where
  "victim_less = less_then (\<lambda>p. statusPriority (p_Status p))
     (greater_then p_CreatedAt (\<lambda>a b. p_PodID a > p_PodID b))"

definition selectVictims :: "PodSpec list \<Rightarrow> int \<Rightarrow> PodSpec list" where
  "selectVictims pods cnt =
     (let ranked = sort_stable victim_less pods;
          cnt' = (if cnt > int (length ranked) then int (length ranked) else cnt)
      in take (nat cnt') ranked)"


section \<open>Removal\<close>

text \<open>Both results of the source: how many were removed, and the error.\<close>

definition removePods_body where
  "removePods_body E l deployment alive pod removed =
     (if p_NodeID pod \<in> set alive then
        on_error (SendCommand E (p_NodeID pod)
            \<lparr>c_Type = CommandStopPod, c_Deployment = deployment, c_PodID = p_PodID pod\<rparr>)
          (\<lambda>e. do {
             c \<leftarrow> ctx_Err E;
             case c of
               Some ce \<Rightarrow> State_Monad.return (Return (removed, Some ce))
             | None \<Rightarrow> do {
                 Warn E l ''stop_command_dispatch_failed'' (Error_text e) [DeploymentID deployment, PodID (p_PodID pod)];
                 State_Monad.return (Next removed) } })
          (\<lambda>_. State_Monad.return (Next (removed + 1)))
      else
        on_error (forceRemove E pod)
          (\<lambda>e. do {
             c \<leftarrow> ctx_Err E;
             case c of
               Some ce \<Rightarrow> State_Monad.return (Return (removed, Some ce))
             | None \<Rightarrow> do {
                 Warn E l ''force_remove_failed'' (Error_text e) [DeploymentID deployment, PodID (p_PodID pod)];
                 State_Monad.return (Next removed) } })
          (\<lambda>_. State_Monad.return (Next (removed + 1))))"

text \<open>\<open>None\<close> for the victims stands for \<open>nil\<close>: every pod of the deployment.\<close>

definition removePods ::
  "('db, 'e) env_scheme \<Rightarrow> Logger \<Rightarrow> string \<Rightarrow> PodSpec list option \<Rightarrow>
   (('db, 'm) world_scheme, int \<times> error option) state"
where
  "removePods E l deployment victims =
     on_error (case victims of None \<Rightarrow> podsForDeployment E l deployment | Some vs \<Rightarrow> ok vs)
       (\<lambda>e. State_Monad.return (0, Some e))
       (\<lambda>vs.
         if vs = [] then State_Monad.return (0, None) else
         on_error (LiveNodes E)
           (\<lambda>e. State_Monad.return (0, Some (Errorf ''list live nodes: %w'' [ArgE e])))
           (\<lambda>liveNodes.
             loop (removePods_body E l deployment liveNodes) vs 0
               (\<lambda>removed. State_Monad.return (removed, None))))"


section \<open>The delta engine\<close>

definition no_delta :: Delta where
  "no_delta = \<lparr>dl_Deployment = [], dl_Desired = 0, dl_Observed = 0, dl_Created = 0, dl_Removed = 0\<rparr>"

text \<open>The comparison of the pods found with the desired count, and the action that follows.\<close>

definition apply_delta ::
  "('db, 'e) env_scheme \<Rightarrow> Logger \<Rightarrow> string \<Rightarrow> DeploymentSpec \<Rightarrow> PodSpec list \<Rightarrow>
   (('db, 'm) world_scheme, Delta \<times> error option) state"
where
  "apply_delta E l name dep pods =
     (let live = filter (\<lambda>p. p_Status p \<noteq> StatusEvicted) pods;
          evicted = map p_PodID (filter (\<lambda>p. p_Status p = StatusEvicted) pods);
          observed = int (length live);
          desired = d_DesiredReplicas dep;
          delta = \<lparr>dl_Deployment = name, dl_Desired = desired, dl_Observed = observed,
                   dl_Created = 0, dl_Removed = 0\<rparr>
      in on_error (if evicted \<noteq> [] then deletePodRecords E name evicted else ok ())
           (\<lambda>e. State_Monad.return (delta, Some e))
           (\<lambda>_.
             if observed < desired then do {
               (created, err) \<leftarrow> ScheduleReplicas E l dep (i64 (desired - observed));
               State_Monad.return (delta\<lparr>dl_Created := int (length created)\<rparr>,
                 map_option (\<lambda>e. Errorf ''scale up %s: %w'' [ArgS name, ArgE e]) err) }
             else if observed > desired then do {
               (removed, err) \<leftarrow> removePods E l name (Some (selectVictims live (i64 (observed - desired))));
               State_Monad.return (delta\<lparr>dl_Removed := removed\<rparr>,
                 map_option (\<lambda>e. Errorf ''scale down %s: %w'' [ArgS name, ArgE e]) err) }
             else State_Monad.return (delta, None)))"

definition ReconcileDeployment ::
  "('db, 'e) env_scheme \<Rightarrow> Logger \<Rightarrow> string \<Rightarrow> (('db, 'm) world_scheme, Delta \<times> error option) state"
where
  "ReconcileDeployment E l name =
     (if name = [] then State_Monad.return (no_delta, Some (Errorf ''reconcile: empty deployment name'' [])) else
      on_error (HashGet E (DeploymentKey name))
        (\<lambda>e. State_Monad.return (no_delta, Some (Errorf ''read deployment %s: %w'' [ArgS name, ArgE e])))
        (\<lambda>fs.
          if fs = [] then do {
            (removed, err) \<leftarrow> removePods E l name None;
            State_Monad.return (no_delta\<lparr>dl_Deployment := name, dl_Removed := removed\<rparr>, err) }
          else case MapToDeployment fs of
            Inl e \<Rightarrow> State_Monad.return (no_delta, Some (Errorf ''parse deployment %s: %w'' [ArgS name, ArgE e]))
          | Inr dep \<Rightarrow>
              on_error (podsForDeployment E l name)
                (\<lambda>e. State_Monad.return (no_delta, Some e))
                (\<lambda>pods. apply_delta E l name dep pods)))"

definition logDelta ::
  "('db, 'e) env_scheme \<Rightarrow> Logger \<Rightarrow> string \<Rightarrow> Delta \<Rightarrow> (('db, 'm) world_scheme, unit) state"
where
  "logDelta E l event delta =
     Info E l event
       (Sprintf ''desired %d, observed %d, created %d, removed %d''
          [ArgD (dl_Desired delta), ArgD (dl_Observed delta), ArgD (dl_Created delta), ArgD (dl_Removed delta)])
       [DeploymentID (dl_Deployment delta)]"


section \<open>The sweep\<close>

definition collect_orphans_body where
  "collect_orphans_body E known key orphans =
     on_error (HashGet E key)
       (\<lambda>_. State_Monad.return (Next orphans))
       (\<lambda>fs.
         if fs = [] then State_Monad.return (Next orphans) else
         case MapToPod fs of
           Inl _ \<Rightarrow> State_Monad.return (Next orphans)
         | Inr pod \<Rightarrow> State_Monad.return (Next
             (if p_Deployment pod = [] \<or> p_Deployment pod \<in> set known then orphans else orphans @ [pod])))"

definition reap_body where
  "reap_body E l orphans deployment _ = do {
     (removed, err) \<leftarrow> removePods E l deployment (Some (filter (\<lambda>p. p_Deployment p = deployment) orphans));
     case err of
       Some e \<Rightarrow> State_Monad.return (Return (Inl e))
     | None \<Rightarrow>
         if removed > 0 then do {
           Info E l ''orphan_pods_reaped'' (Sprintf ''removed %d pod(s) of deleted deployment'' [ArgD removed])
             [DeploymentID deployment];
           State_Monad.return (Next ()) }
         else State_Monad.return (Next ()) }"

text \<open>The map \<open>orphansByDeployment\<close> is the list of orphans in scan order; its keys are visited in an
  order of the runtime's choice.\<close>

definition reapOrphanPods ::
  "('db, 'e) env_scheme \<Rightarrow> Logger \<Rightarrow> string list \<Rightarrow> (('db, 'm) world_scheme, unit) fallible"
where
  "reapOrphanPods E l known =
     on_error (ScanKeys E PodKeyPattern)
       (\<lambda>e. throw (Errorf ''scan pods: %w'' [ArgE e]))
       (\<lambda>keys.
         loop (collect_orphans_body E known) keys []
           (\<lambda>orphans. do {
              deployments \<leftarrow> range_keys E (remdups (map p_Deployment orphans));
              loop (reap_body E l orphans) deployments () (\<lambda>_. ok ()) }))"

definition ReconcileAll_body where
  "ReconcileAll_body E l key acc =
     (case acc of (known, deltas) \<Rightarrow>
      let name = TrimPrefix key ''deployment:'' in
      if name = [] \<or> name = key then State_Monad.return (Next (known, deltas)) else do {
        (delta, err) \<leftarrow> ReconcileDeployment E l name;
        case err of
          Some e \<Rightarrow> do {
            c \<leftarrow> ctx_Err E;
            case c of
              Some ce \<Rightarrow> State_Monad.return (Return (deltas, Some ce))
            | None \<Rightarrow> do {
                Error E l ''reconcile_failed'' (Error_text e) [DeploymentID name];
                State_Monad.return (Next (known @ [name], deltas)) } }
        | None \<Rightarrow>
            if dl_Created delta > 0 \<or> dl_Removed delta > 0 then do {
              logDelta E l ''sweep_reconciled'' delta;
              State_Monad.return (Next (known @ [name], deltas @ [delta])) }
            else State_Monad.return (Next (known @ [name], deltas @ [delta])) })"

definition ReconcileAll ::
  "('db, 'e) env_scheme \<Rightarrow> Logger \<Rightarrow> (('db, 'm) world_scheme, Delta list \<times> error option) state"
where
  "ReconcileAll E l =
     on_error (ScanKeys E DeploymentKeyPattern)
       (\<lambda>e. State_Monad.return ([], Some (Errorf ''scan deployments: %w'' [ArgE e])))
       (\<lambda>keys.
         loop (ReconcileAll_body E l) keys ([], [])
           (\<lambda>(known, deltas). do {
              r \<leftarrow> reapOrphanPods E l known;
              case r of
                Inr _ \<Rightarrow> State_Monad.return (deltas, None)
              | Inl e \<Rightarrow> do {
                  c \<leftarrow> ctx_Err E;
                  case c of
                    Some _ \<Rightarrow> State_Monad.return (deltas, None)
                  | None \<Rightarrow> do {
                      Error E l ''orphan_pod_reap_failed'' (Error_text e) [];
                      State_Monad.return (deltas, None) } } }))"

text \<open>One round of \<open>RunSweeper\<close>.\<close>

definition sweep_round :: "('db, 'e) env_scheme \<Rightarrow> Logger \<Rightarrow> (('db, 'm) world_scheme, unit) state" where
  "sweep_round E l = do {
     (_, err) \<leftarrow> ReconcileAll E l;
     case err of
       None \<Rightarrow> State_Monad.return ()
     | Some e \<Rightarrow> do {
         c \<leftarrow> ctx_Err E;
         case c of
           Some _ \<Rightarrow> State_Monad.return ()
         | None \<Rightarrow> Error E l ''sweep_failed'' (Error_text e) [] } }"


text \<open>One message of the subscription.\<close>

definition consume_event ::
  "('db, 'e) env_scheme \<Rightarrow> Logger \<Rightarrow> (string \<Rightarrow> error) \<Rightarrow> string \<Rightarrow> (('db, 'm) world_scheme, unit) state"
where
  "consume_event E l refusal payload =
     (case Decode refusal payload of
        Inl e \<Rightarrow> Warn E l ''event_decode_failed'' (Error_text e) []
      | Inr ev \<Rightarrow> do {
          (delta, err) \<leftarrow> ReconcileDeployment E l (ev_Deployment ev);
          case err of
            None \<Rightarrow> logDelta E l ''event_reconciled'' delta
          | Some e \<Rightarrow> do {
              c \<leftarrow> ctx_Err E;
              case c of
                Some _ \<Rightarrow> State_Monad.return ()
              | None \<Rightarrow> Error E l ''event_reconcile_failed'' (Error_text e) [DeploymentID (ev_Deployment ev)] } })"


section \<open>Safety of reconciliation\<close>

definition sound_pod :: "PodSpec \<Rightarrow> bool" where
  "sound_pod p \<longleftrightarrow> 0 \<le> p_CPURequest p \<and> 0 \<le> p_MemRequest p \<and> pod_typed p"

lemma sound_pod_read: "request_ok (map_of fs) \<Longrightarrow> MapToPod fs = Inr p \<Longrightarrow> sound_pod p"
  using request_ok_read(1)[of fs p] MapToPod_typed[of fs p] by (simp add: sound_pod_def)

lemma HasPrefix_trans: "HasPrefix k (p @ q) \<Longrightarrow> HasPrefix k p"
  by (auto simp: HasPrefix_iff)

lemma literal_prefix_pods:
  "HasPrefix k (literal_prefix (DeploymentPodsPattern d)) \<Longrightarrow> HasPrefix k ''pod:''"
  "HasPrefix k (literal_prefix PodKeyPattern) \<Longrightarrow> HasPrefix k ''pod:''"
  by (rule HasPrefix_trans, simp add: literal_prefix_def DeploymentPodsPattern_def PodKeyPattern_def, assumption?)+

lemma DeploymentKey_prefix [simp]: "HasPrefix (DeploymentKey n) ''deployment:''"
  by (simp add: DeploymentKey_def HasPrefix_def)

context cluster
begin

lemma ensures_podsForDeployment:
  "ensures J (podsForDeployment E l d) (\<lambda>r. \<forall>ps. r = Inr ps \<longrightarrow> (\<forall>p \<in> set ps. sound_pod p))"
  unfolding podsForDeployment_def
proof (rule ensures_on_error[OF ensures_ScanKeys])
  fix keys
  assume keys: "\<forall>ks. Inr keys = Inr ks \<longrightarrow> (\<forall>k \<in> set ks. HasPrefix k (literal_prefix (DeploymentPodsPattern d)))"
  show "ensures J (loop (podsForDeployment_body E l d) keys [] (\<lambda>pods. ok pods))
      (\<lambda>r. \<forall>ps. r = Inr ps \<longrightarrow> (\<forall>p \<in> set ps. sound_pod p))"
  proof (rule ensures_loop[where A = "\<lambda>ps. \<forall>p \<in> set ps. sound_pod p"])
    fix k ps
    assume "k \<in> set keys" and ps: "\<forall>p \<in> set ps. sound_pod p"
    with keys have k: "HasPrefix k ''pod:'' \<or> HasPrefix k ''deployment:''" using literal_prefix_pods(1) by blast
    show "ensures J (podsForDeployment_body E l d k ps)
       (\<lambda>r. case r of Next s' \<Rightarrow> \<forall>p \<in> set s'. sound_pod p | Break s' \<Rightarrow> \<forall>p \<in> set s'. sound_pod p
          | Return v \<Rightarrow> \<forall>ps. v = Inr ps \<longrightarrow> (\<forall>p \<in> set ps. sound_pod p))"
      unfolding podsForDeployment_body_def
      by (rule ensures_on_error[OF ensures_HashGet_requests[OF k]])
        (use ps in \<open>auto intro!: ensures_return ensures_bind[OF keeps_ensures[OF keeps_log_calls(2)], where Q' = "\<lambda>_. True"] sound_pod_read split: sum.split\<close>)
  qed (auto intro: ensures_return)
qed (simp add: ensures_return)

lemma keeps_podsForDeployment [keeps_intros]: "keeps J (podsForDeployment E l d)"
  by (rule ensures_keeps[OF ensures_podsForDeployment])

lemma keeps_forceRemove:
  "sound_pod p \<Longrightarrow> keeps J (forceRemove E p)"
  unfolding forceRemove_def by (intro keeps_intros) (simp_all add: sound_pod_def pod_typed_def)

lemma keeps_deletePodRecords [keeps_intros]: "keeps J (deletePodRecords E d ids)"
  unfolding deletePodRecords_def by (intro keeps_intros)

lemma keeps_removePods:
  assumes "\<And>vs. victims = Some vs \<Longrightarrow> \<forall>p \<in> set vs. sound_pod p"
  shows "keeps J (removePods E l d victims)"
  unfolding removePods_def
proof (rule keeps_on_error_with)
  show "ensures J (case victims of None \<Rightarrow> podsForDeployment E l d | Some vs \<Rightarrow> ok vs)
      (\<lambda>r. \<forall>ps. r = Inr ps \<longrightarrow> (\<forall>p \<in> set ps. sound_pod p))"
    using assms ensures_podsForDeployment by (cases victims) (auto intro: ensures_return)
next
  fix vs
  assume vs: "\<forall>ps. Inr vs = Inr ps \<longrightarrow> (\<forall>p \<in> set ps. sound_pod p)"
  have body: "keeps J (removePods_body E l d alive p s)" if "p \<in> set vs" for alive p s
    using that vs unfolding removePods_body_def by (intro keeps_intros keeps_forceRemove) auto
  show "keeps J (if vs = [] then State_Monad.return (0, None) else
         on_error (LiveNodes E)
           (\<lambda>e. State_Monad.return (0, Some (Errorf ''list live nodes: %w'' [ArgE e])))
           (\<lambda>liveNodes. loop (removePods_body E l d liveNodes) vs 0 (\<lambda>removed. State_Monad.return (removed, None))))"
    by (intro keeps_if keeps_return keeps_on_error keeps_LiveNodes keeps_loop_in body)
qed (rule keeps_return)

lemma selectVictims_subset: "set (selectVictims ps n) \<subseteq> set ps"
  unfolding selectVictims_def Let_def by (metis set_sort_stable set_take_subset)

lemma keeps_apply_delta:
  assumes "deployment_typed dep" "0 \<le> d_CPURequest dep" "0 \<le> d_MemRequest dep" "\<forall>p \<in> set pods. sound_pod p"
  shows "keeps J (apply_delta E l name dep pods)"
proof -
  have "\<forall>p \<in> set (selectVictims (filter (\<lambda>p. p_Status p \<noteq> StatusEvicted) pods) n). sound_pod p" for n
    using selectVictims_subset[of "filter (\<lambda>p. p_Status p \<noteq> StatusEvicted) pods" n] assms(4) by auto
  then show ?thesis
    unfolding apply_delta_def Let_def using assms(1-3)
    by (intro keeps_intros keeps_removePods) auto
qed

lemma keeps_ReconcileDeployment [keeps_intros]: "keeps J (ReconcileDeployment E l name)"
proof -
  have dk: "HasPrefix (DeploymentKey name) ''pod:'' \<or> HasPrefix (DeploymentKey name) ''deployment:''" by simp
  have inner: "keeps J (on_error (podsForDeployment E l name) (\<lambda>e. State_Monad.return (no_delta, Some e))
      (\<lambda>pods. apply_delta E l name dep pods))"
    if "request_ok (map_of fs)" "MapToDeployment fs = Inr dep" for fs dep
    using request_ok_read(2)[OF that] MapToDeployment_typed[OF that(2)]
    by (intro keeps_on_error_with[OF ensures_podsForDeployment] keeps_return keeps_apply_delta) auto
  show ?thesis
    unfolding ReconcileDeployment_def
    by (intro keeps_if keeps_return keeps_on_error_with[OF ensures_HashGet_requests[OF dk]])
      (auto intro!: keeps_if keeps_bind keeps_removePods keeps_case_sum keeps_case_prod inner)
qed

lemma keeps_logDelta [keeps_intros]: "keeps J (logDelta E l ev d)"
  unfolding logDelta_def by (intro keeps_intros) simp

lemma keeps_reapOrphanPods [keeps_intros]: "keeps J (reapOrphanPods E l known)"
  unfolding reapOrphanPods_def
proof (rule keeps_on_error_with[OF ensures_ScanKeys])
  fix keys
  assume keys: "\<forall>ks. Inr keys = Inr ks \<longrightarrow> (\<forall>k \<in> set ks. HasPrefix k (literal_prefix PodKeyPattern))"
  show "keeps J (loop (collect_orphans_body E known) keys []
      (\<lambda>orphans. do {
         deployments \<leftarrow> range_keys E (remdups (map p_Deployment orphans));
         loop (reap_body E l orphans) deployments () (\<lambda>_. ok ()) }))"
  proof (rule keeps_loop_with[where A = "\<lambda>ps. \<forall>p \<in> set ps. sound_pod p"])
    fix k ps
    assume "k \<in> set keys" and ps: "\<forall>p \<in> set ps. sound_pod p"
    with keys have k: "HasPrefix k ''pod:'' \<or> HasPrefix k ''deployment:''" using literal_prefix_pods(2) by blast
    show "ensures J (collect_orphans_body E known k ps)
       (\<lambda>r. case r of Next s' \<Rightarrow> \<forall>p \<in> set s'. sound_pod p | Break s' \<Rightarrow> \<forall>p \<in> set s'. sound_pod p | Return v \<Rightarrow> True)"
      unfolding collect_orphans_body_def
      by (rule ensures_on_error[OF ensures_HashGet_requests[OF k]])
        (use ps in \<open>auto intro!: ensures_return sound_pod_read split: sum.split\<close>)
  next
    fix ps :: "PodSpec list"
    assume "\<forall>p \<in> set ps. sound_pod p"
    then show "keeps J (do {
         deployments \<leftarrow> range_keys E (remdups (map p_Deployment ps));
         loop (reap_body E l ps) deployments () (\<lambda>_. ok ()) })"
      unfolding reap_body_def by (intro keeps_intros keeps_removePods) auto
  qed simp
qed (rule keeps_return)

lemma keeps_ReconcileAll [keeps_intros]: "keeps J (ReconcileAll E l)"
  unfolding ReconcileAll_def ReconcileAll_body_def Let_def by (intro keeps_intros) simp_all

lemma keeps_consume_event: "keeps J (consume_event E l U payload)"
  unfolding consume_event_def by (intro keeps_intros) simp_all

lemma keeps_sweep_round: "keeps J (sweep_round E l)"
  unfolding sweep_round_def by (intro keeps_intros) simp_all

end

text \<open>The sweep never oversubscribes a node: a whole round of reconciliation of every deployment and of
  orphan reaping, with all its placements, removals and direct releases, keeps the accounting
  invariant under any faults and any interference that keeps it.\<close>

theorem sweep_safe:
  assumes "guarded (server E) view E accounting_ok" "accounting_ok (view (db w))"
    and "run_state (sweep_round E l) w = (r, w')"
  shows "accounting_ok (view (db w'))"
proof -
  have "cluster (server E) view E" using assms(1) by (simp add: cluster_def)
  then show ?thesis
    using keepsE[OF cluster.keeps_sweep_round[of "server E" view E l] _ assms(3)] assms(1,2)
    by (simp add: guarded.J_def[OF assms(1)])
qed

theorem sweep_safe_witness:
  "accounting_ok (mem_view (db (snd (run_state (sweep_round lossy_env demo_logger) demo_world))))"
  using sweep_safe[of lossy_env mem_view demo_world demo_logger, OF _ demo_accounting prod.collapse[symmetric]]
  by simp


section \<open>Who is removed\<close>

lemma less_callback_victims: "less_callback victim_less"
  unfolding victim_less_def
  by (intro less_callback_less_then less_callback_greater_then less_callback_greater_key)

text \<open>C15. The choice of victims: the victims are as many of the pods as asked for (all of them if there
  are fewer), every other pod is kept, and no kept pod is worth less than a victim: a victim's status
  never ranks above that of a kept pod, and at equal rank the victim is not the older one. So a
  Running pod is only removed when every pod in a worse status is.\<close>

theorem selectVictims_correct:
  assumes "0 \<le> n"
  shows "\<exists>kept. mset pods = mset (selectVictims pods n) + mset kept \<and>
    int (length (selectVictims pods n)) = min n (int (length pods)) \<and>
    (\<forall>v \<in> set (selectVictims pods n). \<forall>k \<in> set kept. statusPriority (p_Status v) \<le> statusPriority (p_Status k) \<and>
       (statusPriority (p_Status v) = statusPriority (p_Status k) \<longrightarrow> p_CreatedAt k \<le> p_CreatedAt v))"
proof -
  define m where "m = nat (if n > int (length pods) then int (length pods) else n)"
  let ?r = "sort_stable victim_less pods"
  have v: "selectVictims pods n = take m ?r" by (simp add: selectVictims_def m_def Let_def)
  have "mset pods = mset (take m ?r) + mset (drop m ?r)"
    by (metis append_take_drop_id mset_append mset_sort_stable)
  moreover have "int (length (take m ?r)) = min n (int (length pods))" using assms by (simp add: m_def)
  moreover have "statusPriority (p_Status a) \<le> statusPriority (p_Status b) \<and>
       (statusPriority (p_Status a) = statusPriority (p_Status b) \<longrightarrow> p_CreatedAt b \<le> p_CreatedAt a)"
    if "a \<in> set (take m ?r)" "b \<in> set (drop m ?r)" for a b
    using less_callback.sort_stable_take_drop[OF less_callback_victims that]
    by (auto simp: victim_less_def less_then_def greater_then_def split: if_splits)
  ultimately show ?thesis unfolding v by blast
qed

theorem selectVictims_correct_witness:
  "\<exists>kept. mset [demo_pod, demo_pod\<lparr>p_Status := StatusFailed\<rparr>] =
     mset (selectVictims [demo_pod, demo_pod\<lparr>p_Status := StatusFailed\<rparr>] 1) + mset kept"
  using selectVictims_correct[of 1 "[demo_pod, demo_pod\<lparr>p_Status := StatusFailed\<rparr>]"] by auto

section \<open>Undisturbed reconciliation\<close>

context redis_server
begin

lemma run_ScanKeys:
  assumes "quiet E" "server E = R" "plain_pattern pat"
  shows "\<exists>ks w'. run_state (ScanKeys E pat) w = (Inr ks, w') \<and> scan_run R (db w) pat 0 ks \<and>
    set ks = {k. view (db w) k \<noteq> None \<and> glob pat k} \<and> db w' = db w"
proof -
  obtain ks where ks: "scan_run R (db w) pat 0 ks" "set ks = {k. view (db w) k \<noteq> None \<and> glob pat k}"
    using scan_all[OF assms(3)] by blast
  from scan_loop_quiet[OF assms(1), of w pat 0 ks "[]"] ks assms(2) obtain n where
    "scan_loop E pat 0 [] w = Some (Inr ks, w\<lparr>tick := n\<rparr>)" by auto
  then show ?thesis using ks by (auto simp: ScanKeys_def)
qed

end

text \<open>The pod that a key's hash records.\<close>

definition pod_at :: "keyspace \<Rightarrow> string \<Rightarrow> PodSpec \<Rightarrow> bool" where
  "pod_at v k p \<longleftrightarrow> v k \<noteq> None \<and> is_hash v k \<and> (\<exists>fs. map_of fs = hash_at v k \<and> MapToPod fs = Inr p)"

text \<open>Every key of the deployment's pods holds a readable pod, and SCAN reports each key once.\<close>

definition readable_pods :: "'db redis \<Rightarrow> ('db \<Rightarrow> keyspace) \<Rightarrow> 'db \<Rightarrow> string \<Rightarrow> bool" where
  "readable_pods R view d name \<longleftrightarrow> plain_pattern (DeploymentPodsPattern name) \<and>
     (\<forall>k. view d k \<noteq> None \<and> glob (DeploymentPodsPattern name) k \<longrightarrow> (\<exists>p. pod_at (view d) k p)) \<and>
     (\<forall>ks. scan_run R d (DeploymentPodsPattern name) 0 ks \<longrightarrow> distinct ks)"

lemma pod_at_decode: "pod_at v k p \<Longrightarrow> map_of fs = hash_at v k \<Longrightarrow> MapToPod fs = Inr p"
  unfolding pod_at_def using decode_cong(2) by metis

lemma for_range_map:
  assumes "\<And>x acc w. x \<in> set xs \<Longrightarrow> N w \<Longrightarrow> \<exists>w'. run_state (f x acc) w = (Next (acc @ [g x]), w') \<and> N w'"
    and "N w"
  shows "\<exists>w'. run_state (for_range f xs acc) w = (Inl (acc @ map g xs), w') \<and> N w'"
  using for_range_filter[of xs N f "\<lambda>_. True" g w acc] assms by simp

context redis_server
begin

lemma run_podsForDeployment:
  assumes "quiet E" "server E = R" "readable_pods R view (db w) name"
  shows "\<exists>ks pods w'. run_state (podsForDeployment E l name) w = (Inr pods, w') \<and> db w' = db w \<and>
    set ks = {k. view (db w) k \<noteq> None \<and> glob (DeploymentPodsPattern name) k} \<and> distinct ks \<and> list_all2 (pod_at (view (db w))) ks pods"
proof -
  have plain: "plain_pattern (DeploymentPodsPattern name)" using assms(3) by (simp add: readable_pods_def)
  from run_ScanKeys[OF assms(1,2) plain, of w] obtain ks w1 where
    ks: "run_state (ScanKeys E (DeploymentPodsPattern name)) w = (Inr ks, w1)" "scan_run R (db w) (DeploymentPodsPattern name) 0 ks"
    "set ks = {k. view (db w) k \<noteq> None \<and> glob (DeploymentPodsPattern name) k}" "db w1 = db w" by blast
  define g where "g k = (SOME p. pod_at (view (db w)) k p)" for k
  have g: "pod_at (view (db w)) k (g k)" if "k \<in> set ks" for k
    using that assms(3) unfolding ks(3) readable_pods_def g_def by (auto intro: someI_ex)
  have "\<exists>w'. run_state (for_range (podsForDeployment_body E l name) ks []) w1 =
      (Inl ([] @ map g ks) :: PodSpec list + (error + PodSpec list), w') \<and> db w' = db w"
  proof (rule for_range_map[where N = "\<lambda>w'. db w' = db w"])
    fix k acc w2
    assume k: "k \<in> set ks" and e: "db w2 = db w"
    have h: "is_hash (view (db w2)) k" "view (db w) k \<noteq> None" using g[OF k] by (auto simp: e pod_at_def)
    from run_HashGet[OF assms(1,2) h(1)] obtain fs w3 where fs: "run_state (HashGet E k) w2 = (Inr fs, w3)"
      "map_of fs = hash_at (view (db w)) k" "fs \<noteq> []" "db w3 = db w" using h(2) by (auto simp: e)
    with pod_at_decode[OF g[OF k] fs(2)]
    show "\<exists>w'. run_state (podsForDeployment_body E l name k acc) w2 = (Next (acc @ [g k]), w') \<and> db w' = db w"
      by (simp add: podsForDeployment_body_def run_on_error)
  qed (rule ks(4))
  then obtain w2 where w2: "run_state (for_range (podsForDeployment_body E l name) ks []) w1 =
      (Inl (map g ks) :: PodSpec list + (error + PodSpec list), w2)" "db w2 = db w" by auto
  have "run_state (podsForDeployment E l name) w = (Inr (map g ks), w2)"
    by (simp add: podsForDeployment_def run_on_error ks(1) run_loop w2(1))
  moreover have "list_all2 (pod_at (view (db w))) ks (map g ks)" using g by (simp add: list_all2_conv_all_nth)
  moreover have "distinct ks" using assms(3) ks(2) by (simp add: readable_pods_def)
  ultimately show ?thesis using ks(3) w2(2) by blast
qed

lemma run_DeleteKey:
  "quiet E \<Longrightarrow> server E = R \<Longrightarrow> \<exists>w'. run_state (DeleteKey E ks) w = (Inr (), w') \<and>
     view (db w') = (\<lambda>k. if k \<in> set ks then None else view (db w) k)"
  by (simp add: DeleteKey_def run_send_quiet reply_del view_del)

lemma run_deletePodRecords:
  assumes "quiet E" "server E = R"
  shows "\<exists>w'. run_state (deletePodRecords E name ids) w = (Inr (), w') \<and>
     view (db w') = (\<lambda>k. if \<exists>i \<in> set ids. k = PodKey name i \<or> k = TelemetryCPUKey name i then None else view (db w) k)"
proof -
  let ?ks = "concat (map (\<lambda>i. [PodKey name i, TelemetryCPUKey name i]) ids)"
  obtain w' where "run_state (DeleteKey E ?ks) w = (Inr (), w')"
    "view (db w') = (\<lambda>k. if k \<in> set ?ks then None else view (db w) k)"
    using run_DeleteKey[OF assms] by blast
  moreover have "k \<in> set ?ks \<longleftrightarrow> (\<exists>i \<in> set ids. k = PodKey name i \<or> k = TelemetryCPUKey name i)" for k by auto
  ultimately show ?thesis by (simp add: deletePodRecords_def run_on_error)
qed

end

definition deployment_at :: "keyspace \<Rightarrow> string \<Rightarrow> DeploymentSpec \<Rightarrow> bool" where
  "deployment_at v name dep \<longleftrightarrow> v (DeploymentKey name) \<noteq> None \<and> is_hash v (DeploymentKey name) \<and>
     (\<exists>fs. map_of fs = hash_at v (DeploymentKey name) \<and> MapToDeployment fs = Inr dep)"

lemma deployment_at_decode:
  "deployment_at v name dep \<Longrightarrow> map_of fs = hash_at v (DeploymentKey name) \<Longrightarrow> MapToDeployment fs = Inr dep"
  unfolding deployment_at_def using decode_cong(1) by metis

text \<open>The keys of a deployment's pods, and those among them that count as replicas.\<close>

definition pod_keys :: "keyspace \<Rightarrow> string \<Rightarrow> string set" where
  "pod_keys v name = {k. v k \<noteq> None \<and> glob (DeploymentPodsPattern name) k}"

definition replica_keys :: "keyspace \<Rightarrow> string \<Rightarrow> string set" where
  "replica_keys v name = {k \<in> pod_keys v name. \<exists>p. pod_at v k p \<and> p_Status p \<noteq> StatusEvicted}"

lemma removePods_loop_bound:
  "run_state (for_range (removePods_body E l d alive) vs s) w = (r, w') \<Longrightarrow>
   (case r of Inl s' \<Rightarrow> s \<le> s' \<and> s' \<le> s + int (length vs) | Inr (s', _) \<Rightarrow> s \<le> s' \<and> s' \<le> s + int (length vs))"
proof (induction vs arbitrary: s w)
  case (Cons p vs)
  obtain q w1 where q: "run_state (removePods_body E l d alive p s) w = (q, w1)" by fastforce
  have cases: "q = Next s \<or> q = Next (s + 1) \<or> (\<exists>e. q = Return (s, e))"
    using q unfolding removePods_body_def
    by (auto simp: run_on_error split: if_splits prod.splits sum.splits option.splits)
  then show ?case
    using Cons.prems q Cons.IH[of s w1] Cons.IH[of "s + 1" w1] by (auto split: sum.splits)
qed auto

lemma removePods_bound:
  "case fst (run_state (removePods E l d (Some vs)) w) of (removed, _) \<Rightarrow> 0 \<le> removed \<and> removed \<le> int (length vs)"
proof -
  obtain r w1 where ln: "run_state (LiveNodes E) w = (r, w1)" by fastforce
  show ?thesis
  proof (cases r)
    case (Inr alive)
    obtain q :: "int + (int \<times> error option)" and w2 where
      q: "run_state (for_range (removePods_body E l d alive) vs 0) w1 = (q, w2)" by fastforce
    from removePods_loop_bound[OF q] show ?thesis
      using q by (auto simp: removePods_def run_on_error ln Inr run_loop split: sum.splits prod.splits)
  qed (auto simp: removePods_def run_on_error ln)
qed

lemma ScheduleReplicas_count:
  "case fst (run_state (ScheduleReplicas E l dep cnt) w) of (created, err) \<Rightarrow> int (length created) \<le> max 0 cnt"
proof (cases "cnt \<le> 0")
  case False
  obtain r w' where r: "run_state (for_range (ScheduleReplicas_body E l dep cnt) [0..<nat cnt] []) w = (r, w')" by fastforce
  from ScheduleReplicas_loop_bound[OF r] False r show ?thesis
    by (auto simp: ScheduleReplicas_def run_loop split: sum.splits prod.splits)
qed (simp add: ScheduleReplicas_def)

lemma i64_count: "in_int64 d \<Longrightarrow> int n < d \<Longrightarrow> i64 (d - int n) = d - int n"
  by (rule i64_id) (auto simp: in_int64_def)

lemma selectVictims_length: "0 \<le> n \<Longrightarrow> int (length (selectVictims ps n)) \<le> n"
  by (simp add: selectVictims_def Let_def)

text \<open>What one call of the delta engine may report.\<close>

definition sound_delta :: "int \<Rightarrow> int \<Rightarrow> Delta \<Rightarrow> bool" where
  "sound_delta desired observed d \<longleftrightarrow> dl_Desired d = desired \<and> dl_Observed d = observed \<and>
     0 \<le> dl_Created d \<and> dl_Created d \<le> max 0 (desired - observed) \<and>
     0 \<le> dl_Removed d \<and> dl_Removed d \<le> max 0 (observed - desired)"

lemma apply_delta_sound:
  assumes "in_int64 (d_DesiredReplicas dep)"
    and "in_int64 (int (length (filter (\<lambda>p. p_Status p \<noteq> StatusEvicted) pods)) - d_DesiredReplicas dep)"
  shows "sound_delta (d_DesiredReplicas dep) (int (length (filter (\<lambda>p. p_Status p \<noteq> StatusEvicted) pods)))
     (fst (fst (run_state (apply_delta E l name dep pods) w)))"
proof -
  let ?live = "filter (\<lambda>p. p_Status p \<noteq> StatusEvicted) pods"
  let ?d = "d_DesiredReplicas dep" and ?n = "int (length ?live)"
  let ?ev = "map p_PodID (filter (\<lambda>p. p_Status p = StatusEvicted) pods)"
  obtain q w1 where q: "run_state (if ?ev \<noteq> [] then deletePodRecords E name ?ev else ok ()) w = (q, w1)" by fastforce
  consider "isl q" | "q = Inr ()" "?n < ?d" | "q = Inr ()" "?n > ?d" | "q = Inr ()" "?n = ?d"
    using linorder_less_linear[of ?n ?d] by (cases q) auto
  then show ?thesis
  proof cases
    case 2
    have "i64 (?d - ?n) = ?d - ?n" using 2 assms(1) by (rule_tac i64_count)
    with 2 q ScheduleReplicas_count[where E = E and l = l and dep = dep and cnt = "?d - ?n" and w = w1] show ?thesis
      by (auto simp: apply_delta_def Let_def run_on_error sound_delta_def split: prod.splits)
  next
    case 3
    have "i64 (?n - ?d) = ?n - ?d" using assms(2) by simp
    with 3 q removePods_bound[where E = E and l = l and d = name and vs = "selectVictims ?live (?n - ?d)" and w = w1] selectVictims_length[of "?n - ?d" ?live]
    show ?thesis by (auto simp: apply_delta_def Let_def run_on_error sound_delta_def split: prod.splits)
  qed (use q in \<open>auto simp: apply_delta_def Let_def run_on_error sound_delta_def isl_def\<close>)
qed

lemma pod_at_unique: "pod_at v k p \<Longrightarrow> pod_at v k q \<Longrightarrow> p = q"
  by (metis pod_at_decode pod_at_def sum.inject(2))

lemma pods_exchange:
  assumes "list_all2 (pod_at v) ks pods"
  shows "(\<exists>p \<in> set pods. P p) \<longleftrightarrow> (\<exists>k \<in> set ks. \<exists>p. pod_at v k p \<and> P p)"
  using assms
proof (induction rule: list_all2_induct)
  case (Cons k ks p pods)
  have "(\<exists>q. pod_at v k q \<and> P q) \<longleftrightarrow> P p" using Cons.hyps(1) pod_at_unique by blast
  with Cons.IH show ?case by auto
qed simp

lemma count_replicas:
  assumes "list_all2 (pod_at v) ks pods" "distinct ks" "set ks = pod_keys v name"
  shows "length (filter (\<lambda>p. p_Status p \<noteq> StatusEvicted) pods) = card (replica_keys v name)"
proof -
  have "length (filter P pods) = length (filter (\<lambda>k. \<exists>p. pod_at v k p \<and> P p) ks)" for P
    using assms(1)
  proof (induction rule: list_all2_induct)
    case (Cons k ks p pods)
    have "(\<exists>q. pod_at v k q \<and> P q) \<longleftrightarrow> P p" using Cons.hyps(1) pod_at_unique by blast
    with Cons.IH show ?case by simp
  qed simp
  also have "length (filter Q ks) = card {k \<in> set ks. Q k}" for Q
    using assms(2) by (metis distinct_card distinct_filter set_filter)
  finally show ?thesis by (simp add: replica_keys_def assms(3))
qed

context redis_server
begin

lemma run_ReconcileDeployment:
  assumes "quiet E" "server E = R" "name \<noteq> []" "deployment_at (view (db w)) name dep" "readable_pods R view (db w) name"
  shows "\<exists>ks pods w'. run_state (ReconcileDeployment E l name) w = run_state (apply_delta E l name dep pods) w' \<and>
    db w' = db w \<and> distinct ks \<and> set ks = pod_keys (view (db w)) name \<and> list_all2 (pod_at (view (db w))) ks pods \<and>
    length (filter (\<lambda>p. p_Status p \<noteq> StatusEvicted) pods) = card (replica_keys (view (db w)) name)"
proof -
  have h: "is_hash (view (db w)) (DeploymentKey name)" "view (db w) (DeploymentKey name) \<noteq> None"
    using assms(4) by (auto simp: deployment_at_def)
  from run_HashGet[OF assms(1,2) h(1)] obtain fs w1 where fs: "run_state (HashGet E (DeploymentKey name)) w = (Inr fs, w1)"
    "map_of fs = hash_at (view (db w)) (DeploymentKey name)" "fs \<noteq> []" "db w1 = db w" using h(2) by auto
  have dep: "MapToDeployment fs = Inr dep" by (rule deployment_at_decode[OF assms(4) fs(2)])
  have "readable_pods R view (db w1) name" using assms(5) fs(4) by simp
  from run_podsForDeployment[OF assms(1,2) this, of l] obtain ks pods w2 where
    p: "run_state (podsForDeployment E l name) w1 = (Inr pods, w2)" "db w2 = db w"
    "set ks = pod_keys (view (db w)) name" "distinct ks" "list_all2 (pod_at (view (db w))) ks pods"
    by (auto simp: fs(4) pod_keys_def)
  have "run_state (ReconcileDeployment E l name) w = run_state (apply_delta E l name dep pods) w2"
    using assms(3) fs dep p(1) by (simp add: ReconcileDeployment_def run_on_error)
  with p count_replicas[OF p(5,4,3)] show ?thesis by blast
qed

end


text \<open>C21. Evicted pods do not count, and a deployment with as many other pods as desired is left alone: the
  call succeeds and the only change of the keyspace is that the records (and telemetry) of the
  evicted pods are gone. Without evicted pods nothing changes at all.\<close>

theorem ReconcileDeployment_converged:
  assumes "redis_server (server E) view" "quiet E" "name \<noteq> []"
    and "deployment_at (view (db w)) name dep" "readable_pods (server E) view (db w) name"
    and "int (card (replica_keys (view (db w)) name)) = d_DesiredReplicas dep"
  shows "\<exists>w'. run_state (ReconcileDeployment E l name) w =
      ((\<lparr>dl_Deployment = name, dl_Desired = d_DesiredReplicas dep, dl_Observed = d_DesiredReplicas dep,
         dl_Created = 0, dl_Removed = 0\<rparr>, None), w') \<and>
    view (db w') = (\<lambda>k.
      if \<exists>pk \<in> pod_keys (view (db w)) name. \<exists>p. pod_at (view (db w)) pk p \<and> p_Status p = StatusEvicted \<and>
           (k = PodKey name (p_PodID p) \<or> k = TelemetryCPUKey name (p_PodID p))
      then None else view (db w) k)"
proof -
  let ?v = "view (db w)"
  from redis_server.run_ReconcileDeployment[OF assms(1,2) refl assms(3-5), of l] obtain ks pods w1 where
    run: "run_state (ReconcileDeployment E l name) w = run_state (apply_delta E l name dep pods) w1" "db w1 = db w"
    and n: "length (filter (\<lambda>p. p_Status p \<noteq> StatusEvicted) pods) = card (replica_keys ?v name)"
    and pods: "set ks = pod_keys ?v name" "list_all2 (pod_at ?v) ks pods" by blast
  let ?ev = "map p_PodID (filter (\<lambda>p. p_Status p = StatusEvicted) pods)"
  have "(\<exists>i \<in> set ?ev. k = PodKey name i \<or> k = TelemetryCPUKey name i) \<longleftrightarrow>
      (\<exists>p \<in> set pods. p_Status p = StatusEvicted \<and> (k = PodKey name (p_PodID p) \<or> k = TelemetryCPUKey name (p_PodID p)))" for k
    by auto
  then have ev: "(\<exists>i \<in> set ?ev. k = PodKey name i \<or> k = TelemetryCPUKey name i) \<longleftrightarrow>
      (\<exists>pk \<in> pod_keys ?v name. \<exists>p. pod_at ?v pk p \<and> p_Status p = StatusEvicted \<and>
           (k = PodKey name (p_PodID p) \<or> k = TelemetryCPUKey name (p_PodID p)))" for k
    unfolding pods_exchange[OF pods(2)] pods(1) by blast
  obtain w2 where w2: "run_state (if ?ev \<noteq> [] then deletePodRecords E name ?ev else ok ()) w1 = (Inr (), w2)"
    "view (db w2) = (\<lambda>k. if \<exists>i \<in> set ?ev. k = PodKey name i \<or> k = TelemetryCPUKey name i then None else ?v k)"
  proof (cases "?ev = []")
    case True
    then have "view (db w1) = (\<lambda>k. if \<exists>i \<in> set ?ev. k = PodKey name i \<or> k = TelemetryCPUKey name i then None else ?v k)"
      using run(2) by simp
    with True that show ?thesis by simp
  next
    case False
    from redis_server.run_deletePodRecords[OF assms(1,2) refl, of name ?ev w1, unfolded run(2)]
    obtain w' where "run_state (deletePodRecords E name ?ev) w1 = (Inr (), w')"
      "view (db w') = (\<lambda>k. if \<exists>i \<in> set ?ev. k = PodKey name i \<or> k = TelemetryCPUKey name i then None else ?v k)" by blast
    with False show ?thesis by (intro that[of w']) (simp_all only: simp_thms if_True)
  qed
  have "run_state (apply_delta E l name dep pods) w1 =
     ((\<lparr>dl_Deployment = name, dl_Desired = d_DesiredReplicas dep, dl_Observed = d_DesiredReplicas dep,
         dl_Created = 0, dl_Removed = 0\<rparr>, None), w2)"
    unfolding apply_delta_def Let_def run_on_error w2(1) using n assms(6) by simp
  then show ?thesis unfolding run(1) using w2(2) ev by simp
qed

lemma scan_run_mem_distinct: "scan_run mem_redis d pat cur ks \<Longrightarrow> distinct ks"
  by (induction rule: scan_run.induct) (auto simp: mem_redis_def)

text \<open>A deployment that wants one replica, with one running and one evicted pod.\<close>

definition pair_db :: mem where
  "pair_db = [(DeploymentKey ''web'', Some (MHash (wire mem_redis (DeploymentToMap (demo_deployment\<lparr>d_DesiredReplicas := 1\<rparr>))))),
     (PodKey ''web'' ''7f'', Some (MHash (wire mem_redis (PodToMap demo_pod)))),
     (PodKey ''web'' ''80'', Some (MHash (wire mem_redis (PodToMap (demo_pod\<lparr>p_PodID := ''80'', p_Status := StatusEvicted\<rparr>)))))]"

definition pair_world :: "mem world" where
  "pair_world = \<lparr>db = pair_db, tick = 0\<rparr>"

lemma pair_view: "mem_view (db pair_world) =
   [DeploymentKey ''web'' \<mapsto> RHash (map_of (wire mem_redis (DeploymentToMap (demo_deployment\<lparr>d_DesiredReplicas := 1\<rparr>)))),
    PodKey ''web'' ''7f'' \<mapsto> RHash (map_of (wire mem_redis (PodToMap demo_pod))),
    PodKey ''web'' ''80'' \<mapsto> RHash (map_of (wire mem_redis (PodToMap (demo_pod\<lparr>p_PodID := ''80'', p_Status := StatusEvicted\<rparr>))))]"
  by (rule ext) (simp add: mem_view_def mem_get_def pair_world_def pair_db_def key_simps fun_upd_twist)

lemma demo_pods_decode:
  "MapToPod (wire mem_redis (PodToMap demo_pod)) = Inr demo_pod"
  "MapToPod (wire mem_redis (PodToMap (demo_pod\<lparr>p_PodID := ''80'', p_Status := StatusEvicted\<rparr>))) =
     Inr (demo_pod\<lparr>p_PodID := ''80'', p_Status := StatusEvicted\<rparr>)"
proof -
  have "pod_typed demo_pod" by (simp add: pod_typed_def demo_pod_def in_int64_def in_uint64_def)
  then show "MapToPod (wire mem_redis (PodToMap demo_pod)) = Inr demo_pod"
    "MapToPod (wire mem_redis (PodToMap (demo_pod\<lparr>p_PodID := ''80'', p_Status := StatusEvicted\<rparr>))) =
     Inr (demo_pod\<lparr>p_PodID := ''80'', p_Status := StatusEvicted\<rparr>)"
    using mem.pod_merge[of demo_pod "[]"] mem.pod_merge[of "demo_pod\<lparr>p_PodID := ''80'', p_Status := StatusEvicted\<rparr>" "[]"]
    by (simp_all add: demo_pod_def pod_typed_def)
qed

lemma pair_keys: "pod_keys (mem_view (db pair_world)) ''web'' = {PodKey ''web'' ''7f'', PodKey ''web'' ''80''}"
proof -
  have "glob (DeploymentPodsPattern ''web'') (PodKey ''web'' p)" for p
    using glob_literal[of "''pod:web:''" "''*''" "PodKey ''web'' p"] glob_star
    by (simp add: DeploymentPodsPattern_def PodKey_def)
  moreover have "\<not> glob (DeploymentPodsPattern ''web'') (DeploymentKey n)" for n
    by (simp add: DeploymentPodsPattern_def DeploymentKey_def)
  ultimately show ?thesis by (auto simp: pod_keys_def pair_view split: if_splits)
qed

lemma pair_pods:
  "pod_at (mem_view (db pair_world)) (PodKey ''web'' ''7f'') demo_pod"
  "pod_at (mem_view (db pair_world)) (PodKey ''web'' ''80'') (demo_pod\<lparr>p_PodID := ''80'', p_Status := StatusEvicted\<rparr>)"
  using demo_pods_decode by (auto simp: pod_at_def pair_view key_simps is_hash_def hash_at_def)

lemma pair_ready:
  "deployment_at (mem_view (db pair_world)) ''web'' (demo_deployment\<lparr>d_DesiredReplicas := 1\<rparr>)"
  "readable_pods mem_redis mem_view (db pair_world) ''web''"
  "card (replica_keys (mem_view (db pair_world)) ''web'') = 1"
proof -
  have "MapToDeployment (wire mem_redis (DeploymentToMap (demo_deployment\<lparr>d_DesiredReplicas := 1\<rparr>))) =
      Inr (demo_deployment\<lparr>d_DesiredReplicas := 1\<rparr>)"
    using mem.deployment_merge[of "demo_deployment\<lparr>d_DesiredReplicas := 1\<rparr>" "[]"]
    by (simp add: demo_deployment_def deployment_typed_def in_int64_def)
  then show "deployment_at (mem_view (db pair_world)) ''web'' (demo_deployment\<lparr>d_DesiredReplicas := 1\<rparr>)"
    by (auto simp: deployment_at_def pair_view key_simps is_hash_def hash_at_def)
  show "readable_pods mem_redis mem_view (db pair_world) ''web''"
    unfolding readable_pods_def
  proof (intro conjI allI impI)
    fix k
    assume "mem_view (db pair_world) k \<noteq> None \<and> glob (DeploymentPodsPattern ''web'') k"
    then have "k \<in> pod_keys (mem_view (db pair_world)) ''web''" by (simp add: pod_keys_def)
    then show "\<exists>p. pod_at (mem_view (db pair_world)) k p" using pair_pods by (auto simp: pair_keys)
  qed (auto simp: plain_pattern_def DeploymentPodsPattern_def dest: scan_run_mem_distinct)
  have "replica_keys (mem_view (db pair_world)) ''web'' = {PodKey ''web'' ''7f''}"
  proof -
    have "p_Status p = StatusEvicted" if "pod_at (mem_view (db pair_world)) (PodKey ''web'' ''80'') p" for p
      using pod_at_unique[OF that pair_pods(2)] by simp
    moreover have "p_Status demo_pod \<noteq> StatusEvicted" by (simp add: demo_pod_def)
    ultimately show ?thesis unfolding replica_keys_def pair_keys using pair_pods(1) by blast
  qed
  then show "card (replica_keys (mem_view (db pair_world)) ''web'') = 1" by simp
qed


theorem ReconcileDeployment_converged_witness:
  "\<exists>w'. run_state (ReconcileDeployment mem_env demo_logger ''web'') pair_world =
      ((\<lparr>dl_Deployment = ''web'', dl_Desired = 1, dl_Observed = 1, dl_Created = 0, dl_Removed = 0\<rparr>, None), w') \<and>
    mem_view (db w') (PodKey ''web'' ''80'') = None"
proof -
  from ReconcileDeployment_converged[of mem_env mem_view "''web''" pair_world "demo_deployment\<lparr>d_DesiredReplicas := 1\<rparr>" demo_logger]
    mem.redis_server_axioms pair_ready
  obtain w' where "run_state (ReconcileDeployment mem_env demo_logger ''web'') pair_world =
      ((\<lparr>dl_Deployment = ''web'', dl_Desired = 1, dl_Observed = 1, dl_Created = 0, dl_Removed = 0\<rparr>, None), w')"
    "mem_view (db w') = (\<lambda>k.
      if \<exists>pk \<in> pod_keys (mem_view (db pair_world)) ''web''. \<exists>p. pod_at (mem_view (db pair_world)) pk p \<and> p_Status p = StatusEvicted \<and>
           (k = PodKey ''web'' (p_PodID p) \<or> k = TelemetryCPUKey ''web'' (p_PodID p))
      then None else mem_view (db pair_world) k)" by auto
  moreover have "\<exists>pk \<in> pod_keys (mem_view (db pair_world)) ''web''. \<exists>p. pod_at (mem_view (db pair_world)) pk p \<and>
      p_Status p = StatusEvicted \<and> (PodKey ''web'' ''80'' = PodKey ''web'' (p_PodID p) \<or> PodKey ''web'' ''80'' = TelemetryCPUKey ''web'' (p_PodID p))"
    using pair_pods(2) by (intro bexI[of _ "PodKey ''web'' ''80''"] exI[of _ "demo_pod\<lparr>p_PodID := ''80'', p_Status := StatusEvicted\<rparr>"])
      (simp_all add: pair_keys)
  ultimately show ?thesis by auto
qed

end
