(* ===== verification/Health.thy ===== *)
theory Health
  imports Replica
begin

text \<open>
  \<open>internal/controller/health.go\<close>: the eviction script, \<open>EvictNode\<close>, the sweep over registered nodes
  and the reading of expiry notifications. The endless loops (\<open>RunSweeper\<close>, \<open>consumeExpiries\<close>) are
  represented by one round and by the handling of one message.
\<close>


section \<open>The eviction script\<close>

text \<open>The inner loop over one page of keys. A missing field is \<open>false\<close> in Lua, which differs from every
  string.\<close>

fun evict_keys :: "'db redis \<Rightarrow> string \<Rightarrow> string \<Rightarrow> string list \<Rightarrow> int \<Rightarrow> ('db, int) fallible" where
  "evict_keys R nodeID evicted [] cnt = ok cnt"
| "evict_keys R nodeID evicted (key # ks) cnt =
     attempt (r_hget R key ''node_id'') (\<lambda>n.
     if n = Some nodeID then
       attempt (r_hget R key ''status'') (\<lambda>status.
       if status \<noteq> Some evicted then
         attempt (r_hset R key [(''status'', evicted)]) (\<lambda>_.
         evict_keys R nodeID evicted ks (cnt + 1))
       else evict_keys R nodeID evicted ks cnt)
     else evict_keys R nodeID evicted ks cnt)"

partial_function (option) evict_scan ::
  "'db redis \<Rightarrow> string \<Rightarrow> string \<Rightarrow> string \<Rightarrow> nat \<Rightarrow> int \<Rightarrow> 'db \<Rightarrow> ((error + int) \<times> 'db) option"
where
  "evict_scan R nodeID pat evicted cursor cnt d =
     (case run_state (r_scan R cursor pat) d of
        (Inl e, d1) \<Rightarrow> Some (Inl e, d1)
      | (Inr (ks, c), d1) \<Rightarrow>
          (case run_state (evict_keys R nodeID evicted ks cnt) d1 of
             (Inl e, d2) \<Rightarrow> Some (Inl e, d2)
           | (Inr n, d2) \<Rightarrow> if c = 0 then Some (Inr n, d2) else evict_scan R nodeID pat evicted c n d2))"

definition evictScript ::
  "'db redis \<Rightarrow> string \<Rightarrow> string \<Rightarrow> string \<Rightarrow> string \<Rightarrow> string \<Rightarrow> ('db, int) fallible"
where
  "evictScript R capKey registry nodeID pattern evicted =
     attempt (State (\<lambda>d. case evict_scan R nodeID pattern evicted 0 0 d of
                None \<Rightarrow> (Inl NeverReturns, d) | Some r \<Rightarrow> r)) (\<lambda>cnt.
     attempt (r_exists R capKey) (\<lambda>ex.
     attempt (if ex then r_hset R capKey [(''allocated_cpu'', r_tostring R 0), (''allocated_mem'', r_tostring R 0)] else ok ()) (\<lambda>_.
     attempt (r_srem R registry nodeID) (\<lambda>_.
     ok cnt))))"


section \<open>The controller\<close>

definition EvictNode ::
  "('db, 'e) env_scheme \<Rightarrow> Logger \<Rightarrow> string \<Rightarrow> (('db, 'm) world_scheme, unit) fallible"
where
  "EvictNode E l nodeID =
     (if nodeID = [] then ok () else
      on_error (Exists E (NodeStatusKey nodeID))
        (\<lambda>e. throw (Errorf ''check lease for %s: %w'' [ArgS nodeID, ArgE e]))
        (\<lambda>alive.
          if alive then ok () else
          on_error (EvalScript E (evictScript (server E) (NodeCapacityKey nodeID) NodeRegistryKey nodeID PodKeyPattern StatusEvicted))
            (\<lambda>e. throw (Errorf ''evict %s: %w'' [ArgS nodeID, ArgE e]))
            (\<lambda>evicted. do {
               Warn E l ''node_evicted''
                 (Sprintf ''lease expired: marked %d pod(s) Evicted and released its capacity'' [ArgD evicted])
                 [NodeID nodeID];
               ok () })))"

definition SweepOnce_body where
  "SweepOnce_body E l nodeID _ =
     on_error (Exists E (NodeStatusKey nodeID))
       (\<lambda>e. do {
          c \<leftarrow> ctx_Err E;
          case c of
            Some ce \<Rightarrow> State_Monad.return (Return (Inl ce))
          | None \<Rightarrow> do {
              Warn E l ''lease_check_failed'' (Error_text e) [NodeID nodeID];
              State_Monad.return (Next ()) } })
       (\<lambda>alive.
          if alive then State_Monad.return (Next ()) else
          on_error (EvictNode E l nodeID)
            (\<lambda>e. do {
               c \<leftarrow> ctx_Err E;
               case c of
                 Some ce \<Rightarrow> State_Monad.return (Return (Inl ce))
               | None \<Rightarrow> do {
                   Error E l ''evict_failed'' (Error_text e) [NodeID nodeID];
                   State_Monad.return (Next ()) } })
            (\<lambda>_. State_Monad.return (Next ())))"

definition SweepOnce ::
  "('db, 'e) env_scheme \<Rightarrow> Logger \<Rightarrow> (('db, 'm) world_scheme, unit) fallible"
where
  "SweepOnce E l =
     on_error (SetMembers E NodeRegistryKey)
       (\<lambda>e. throw (Errorf ''read node registry: %w'' [ArgE e]))
       (\<lambda>registered. loop (SweepOnce_body E l) registered () (\<lambda>_. ok ()))"

text \<open>One round of \<open>HealthController.RunSweeper\<close>.\<close>

definition health_round :: "('db, 'e) env_scheme \<Rightarrow> Logger \<Rightarrow> (('db, 'm) world_scheme, unit) state" where
  "health_round E l =
     on_error (SweepOnce E l)
       (\<lambda>e. do {
          c \<leftarrow> ctx_Err E;
          case c of
            Some _ \<Rightarrow> State_Monad.return ()
          | None \<Rightarrow> Error E l ''node_sweep_failed'' (Error_text e) [] })
       (\<lambda>_. State_Monad.return ())"

text \<open>\<open>None\<close> is the result \<open>"", false\<close>.\<close>

definition nodeIDFromStatusKey :: "string \<Rightarrow> string option" where
  "nodeIDFromStatusKey key =
     (if \<not> HasPrefix key ''node:'' \<or> \<not> HasSuffix key '':status'' then None
      else let i = TrimSuffix (TrimPrefix key ''node:'') '':status''
           in if i = [] \<or> CHR '':'' \<in> set i then None else Some i)"

text \<open>\<open>consumeExpiries\<close> on one message of the subscription.\<close>

definition handle_expiry ::
  "('db, 'e) env_scheme \<Rightarrow> Logger \<Rightarrow> string \<Rightarrow> (('db, 'm) world_scheme, unit) state"
where
  "handle_expiry E l payload =
     (case nodeIDFromStatusKey payload of
        None \<Rightarrow> State_Monad.return ()
      | Some nodeID \<Rightarrow>
          on_error (EvictNode E l nodeID)
            (\<lambda>e. do {
               c \<leftarrow> ctx_Err E;
               case c of
                 Some _ \<Rightarrow> State_Monad.return ()
               | None \<Rightarrow> Error E l ''evict_failed'' (Error_text e) [NodeID nodeID] })
            (\<lambda>_. State_Monad.return ()))"


section \<open>What eviction does to the keyspace\<close>

definition bound_to :: "keyspace \<Rightarrow> string \<Rightarrow> string \<Rightarrow> bool" where
  "bound_to v n k \<longleftrightarrow> hash_at v k ''node_id'' = Some n"

definition evicted_in :: "keyspace \<Rightarrow> string \<Rightarrow> string set \<Rightarrow> keyspace" where
  "evicted_in v n S = (\<lambda>k. if k \<in> S \<and> bound_to v n k
     then Some (RHash ((hash_at v k)(''status'' \<mapsto> StatusEvicted))) else v k)"

definition fresh_in :: "keyspace \<Rightarrow> string \<Rightarrow> string set \<Rightarrow> string set" where
  "fresh_in v n S = {k \<in> S. bound_to v n k \<and> hash_at v k ''status'' \<noteq> Some StatusEvicted}"

text \<open>Pods marked, allocation zeroed, node out of the registry.\<close>

definition evict_view :: "keyspace \<Rightarrow> string \<Rightarrow> keyspace" where
  "evict_view v n =
     (let v1 = evicted_in v n {k \<in> dom v. glob PodKeyPattern k};
          v2 = (if v (NodeCapacityKey n) = None then v1 else put_alloc v1 n 0 0)
      in put_set v2 NodeRegistryKey (set_at v NodeRegistryKey - {n}))"

definition pods_are_hashes :: "keyspace \<Rightarrow> bool" where
  "pods_are_hashes v \<longleftrightarrow> (\<forall>k. HasPrefix k ''pod:'' \<longrightarrow> is_hash v k)"

lemma bound_to_hash: "bound_to v n k \<Longrightarrow> \<exists>m. v k = Some (RHash m) \<and> hash_at v k = m"
  by (auto simp: bound_to_def hash_at_def split: option.splits rvalue.splits)

lemma hash_at_evicted: "hash_at (evicted_in v n S) k =
    (if k \<in> S \<and> bound_to v n k then (hash_at v k)(''status'' \<mapsto> StatusEvicted) else hash_at v k)"
  by (simp add: evicted_in_def hash_at_def)

lemma bound_to_evicted [simp]: "bound_to (evicted_in v n S) m k = bound_to v m k"
  by (simp add: bound_to_def hash_at_evicted)

lemma evicted_in_union: "evicted_in (evicted_in v n S) n T = evicted_in v n (S \<union> T)"
  by (rule ext) (auto simp: evicted_in_def hash_at_evicted bound_to_def hash_at_def)

lemma evicted_in_empty [simp]: "evicted_in v n {} = v"
  by (simp add: evicted_in_def)

lemma fresh_in_evicted: "fresh_in (evicted_in v n S) n T = fresh_in v n T - S"
  by (auto simp: fresh_in_def hash_at_evicted bound_to_def)

lemma evicted_in_single:
  assumes "bound_to v n k"
  shows "v(k \<mapsto> RHash ((hash_at v k)(''status'' \<mapsto> StatusEvicted))) = evicted_in v n {k}"
  using assms by (auto simp: evicted_in_def)

lemma evicted_in_old:
  assumes "bound_to v n k" "hash_at v k ''status'' = Some StatusEvicted"
  shows "evicted_in v n {k} = v"
proof -
  obtain m where "v k = Some (RHash m)" "hash_at v k = m" using bound_to_hash[OF assms(1)] by blast
  moreover have "m(''status'' \<mapsto> StatusEvicted) = m" using assms(2) calculation(2) by (simp add: fun_upd_idem)
  ultimately show ?thesis by (auto simp: evicted_in_def)
qed

lemma evicted_in_unbound: "\<not> bound_to v n k \<Longrightarrow> evicted_in v n {k} = v"
  by (auto simp: evicted_in_def)

lemma is_hash_evicted: "is_hash v k \<Longrightarrow> is_hash (evicted_in v n S) k"
  by (simp add: is_hash_def evicted_in_def)

lemma bound_to_present: "bound_to v n k \<Longrightarrow> v k \<noteq> None"
  by (drule bound_to_hash) auto

lemma dom_evicted: "dom (evicted_in v n S) = dom v"
proof -
  have "evicted_in v n S k \<noteq> None \<longleftrightarrow> v k \<noteq> None" for k
    using bound_to_present[of v n k] by (simp add: evicted_in_def)
  then show ?thesis by (auto simp: dom_def)
qed

lemma fresh_in_insert:
  "finite S \<Longrightarrow> card (fresh_in v n (insert k S)) =
     (if bound_to v n k \<and> hash_at v k ''status'' \<noteq> Some StatusEvicted then 1 else 0) + card (fresh_in v n S - {k})"
proof -
  assume "finite S"
  then have fin: "finite (fresh_in v n S - {k})" by (simp add: fresh_in_def)
  have "fresh_in v n (insert k S) = (if bound_to v n k \<and> hash_at v k ''status'' \<noteq> Some StatusEvicted
      then insert k (fresh_in v n S - {k}) else fresh_in v n S - {k})"
    by (auto simp: fresh_in_def)
  moreover have "card (insert k (fresh_in v n S - {k})) = Suc (card (fresh_in v n S - {k}))"
    using fin by (intro card_insert_disjoint) auto
  ultimately show ?thesis by simp
qed

context redis_server
begin

lemma run_evict_keys:
  assumes "\<forall>k \<in> set ks. is_hash (view d) k"
  shows "\<exists>d'. run_state (evict_keys R n StatusEvicted ks cnt) d = (Inr (cnt + int (card (fresh_in (view d) n (set ks)))), d') \<and>
    view d' = evicted_in (view d) n (set ks)"
  using assms
proof (induction ks arbitrary: cnt d)
  case Nil
  then show ?case by (simp add: fresh_in_def)
next
  case (Cons k ks)
  let ?b = "bound_to (view d) n k" and ?old = "hash_at (view d) k ''status'' = Some StatusEvicted"
  have h: "is_hash (view d) k" using Cons.prems by simp
  define d1 where "d1 = (if ?b \<and> \<not> ?old then snd (run_state (r_hset R k [(''status'', StatusEvicted)]) d) else d)"
  have v1: "view d1 = evicted_in (view d) n {k}"
  proof (cases "?b \<and> \<not> ?old")
    case True
    then show ?thesis
      using view_hset[of "[(''status'', StatusEvicted)]" k d] h evicted_in_single[of "view d" n k]
      by (simp add: d1_def)
  next
    case False
    then have "evicted_in (view d) n {k} = view d" using evicted_in_old evicted_in_unbound by blast
    with False show ?thesis unfolding d1_def by auto
  qed
  have step: "run_state (evict_keys R n StatusEvicted (k # ks) cnt) d =
      run_state (evict_keys R n StatusEvicted ks (cnt + (if ?b \<and> \<not> ?old then 1 else 0))) d1"
    using reply_hset[of "[(''status'', StatusEvicted)]" d k] h
    by (auto simp: run_on_error hget bound_to_def d1_def split: prod.splits)
  have "\<forall>k \<in> set ks. is_hash (view d1) k" using Cons.prems by (simp add: v1 is_hash_evicted)
  from Cons.IH[OF this, of "cnt + (if ?b \<and> \<not> ?old then 1 else 0)"] obtain d' where
    d': "run_state (evict_keys R n StatusEvicted ks (cnt + (if ?b \<and> \<not> ?old then 1 else 0))) d1 =
      (Inr (cnt + (if ?b \<and> \<not> ?old then 1 else 0) + int (card (fresh_in (view d) n (set ks) - {k}))), d')"
    "view d' = evicted_in (view d) n (set (k # ks))"
    by (auto simp: v1 fresh_in_evicted evicted_in_union)
  then show ?case unfolding step by (simp add: fresh_in_insert)
qed

lemma run_evict_scan:
  assumes "scan_ends R view K PodKeyPattern cur" "K = dom v" "pods_are_hashes v" "finite S"
    and "view d = evicted_in v n S"
  shows "\<exists>ks d'. scan_path R view K PodKeyPattern cur ks \<and> view d' = evicted_in v n (S \<union> set ks) \<and>
    evict_scan R n PodKeyPattern StatusEvicted cur (int (card (fresh_in v n S))) d =
      Some (Inr (int (card (fresh_in v n (S \<union> set ks)))), d')"
  using assms
proof (induction arbitrary: S d rule: scan_ends.induct)
  case (scan_endsI cur)
  have K: "dom (view d) = K" using scan_endsI.prems by (simp add: dom_evicted)
  obtain ks c where page: "run_state (r_scan R cur PodKeyPattern) d = (Inr (ks, c), d)" using scan_page by blast
  have "\<forall>k \<in> set ks. is_hash (view d) k"
    using scan_prefix[OF page] literal_prefix_pods(2) scan_endsI.prems
    by (auto simp: pods_are_hashes_def intro!: is_hash_evicted)
  from run_evict_keys[OF this, of n "int (card (fresh_in v n S))"] obtain d1 where
    d1: "run_state (evict_keys R n StatusEvicted ks (int (card (fresh_in v n S)))) d =
      (Inr (int (card (fresh_in v n S)) + int (card (fresh_in v n (set ks) - S))), d1)"
    "view d1 = evicted_in v n (S \<union> set ks)"
    by (auto simp: scan_endsI.prems fresh_in_evicted evicted_in_union)
  have "fresh_in v n (S \<union> set ks) = fresh_in v n S \<union> (fresh_in v n (set ks) - S)" by (auto simp: fresh_in_def)
  moreover have "finite (fresh_in v n S)" "finite (fresh_in v n (set ks))" using scan_endsI.prems by (auto simp: fresh_in_def)
  moreover have "fresh_in v n S \<inter> (fresh_in v n (set ks) - S) = {}" by (auto simp: fresh_in_def)
  ultimately have cnt: "int (card (fresh_in v n S)) + int (card (fresh_in v n (set ks) - S)) = int (card (fresh_in v n (S \<union> set ks)))"
    by (simp add: card_Un_disjoint)
  show ?case
  proof (cases "c = 0")
    case True
    then have "scan_path R view K PodKeyPattern cur ks" using page K by (auto intro: scan_path.path_last)
    moreover have "evict_scan R n PodKeyPattern StatusEvicted cur (int (card (fresh_in v n S))) d =
        Some (Inr (int (card (fresh_in v n (S \<union> set ks)))), d1)"
      by (subst evict_scan.simps) (simp add: page d1(1) cnt True)
    ultimately show ?thesis using d1(2) by blast
  next
    case False
    from scan_endsI.IH[OF K page False, of "S \<union> set ks" d1] scan_endsI.prems d1(2) obtain ks' d' where
      r: "scan_path R view K PodKeyPattern c ks'" "view d' = evicted_in v n (S \<union> set ks \<union> set ks')"
      "evict_scan R n PodKeyPattern StatusEvicted c (int (card (fresh_in v n (S \<union> set ks)))) d1 =
        Some (Inr (int (card (fresh_in v n (S \<union> set ks \<union> set ks')))), d')" by auto
    have "scan_path R view K PodKeyPattern cur (ks @ ks')" using page K False r(1) by (auto intro: scan_path.path_next)
    moreover have "evict_scan R n PodKeyPattern StatusEvicted cur (int (card (fresh_in v n S))) d =
        Some (Inr (int (card (fresh_in v n (S \<union> set ks \<union> set ks')))), d')"
      by (subst evict_scan.simps) (simp add: page d1(1) cnt False r(3))
    ultimately show ?thesis using r(2) by (auto simp: Un_assoc intro!: exI[of _ "ks @ ks'"])
  qed
qed

end


section \<open>Eviction, run by the client\<close>

lemma plain_PodKeyPattern [simp]: "plain_pattern PodKeyPattern"
  by (simp add: plain_pattern_def PodKeyPattern_def)

lemma evicted_in_other: "k \<notin> S \<Longrightarrow> evicted_in v n S k = v k"
  by (simp add: evicted_in_def)

lemma is_set_cong: "v k = v' k \<Longrightarrow> is_set v k = is_set v' k" "v k = v' k \<Longrightarrow> set_at v k = set_at v' k"
  by (simp_all add: is_set_def set_at_def)

lemma is_hash_cong: "v k = v' k \<Longrightarrow> is_hash v k = is_hash v' k" "v k = v' k \<Longrightarrow> hash_at v k = hash_at v' k"
  by (simp_all add: is_hash_def hash_at_def)

context redis_server
begin

lemma run_evictScript:
  fixes d
  defines "v \<equiv> view d"
  assumes "pods_are_hashes v" "is_hash v (NodeCapacityKey n)" "is_set v NodeRegistryKey"
  shows "\<exists>d'. run_state (evictScript R (NodeCapacityKey n) NodeRegistryKey n PodKeyPattern StatusEvicted) d =
      (Inr (int (card (fresh_in v n {k \<in> dom v. glob PodKeyPattern k}))), d') \<and> view d' = evict_view v n"
proof -
  let ?P = "{k \<in> dom v. glob PodKeyPattern k}"
  from run_evict_scan[OF scan_terminates[of PodKeyPattern d, folded v_def] refl assms(2), of "{}" d n]
  obtain ks d1 where d1: "scan_path R view (dom v) PodKeyPattern 0 ks" "view d1 = evicted_in v n (set ks)"
    "evict_scan R n PodKeyPattern StatusEvicted 0 0 d = Some (Inr (int (card (fresh_in v n (set ks)))), d1)"
    by (auto simp: v_def fresh_in_def)
  have ks: "set ks = ?P" using scan_complete[OF _ d1(1)] by auto
  have cap: "view d1 (NodeCapacityKey n) = v (NodeCapacityKey n)" and reg: "view d1 NodeRegistryKey = v NodeRegistryKey"
    by (simp_all add: d1(2) ks evicted_in_other)
  have zero: "r_tostring R 0 = Itoa 0" using tostring_int[of 0] by simp
  let ?fs = "[(''allocated_cpu'', Itoa 0), (''allocated_mem'', Itoa 0)]"
  obtain d2 where d2: "run_state (if v (NodeCapacityKey n) \<noteq> None then r_hset R (NodeCapacityKey n) ?fs else ok ()) d1 = (Inr (), d2)"
    "view d2 = (if v (NodeCapacityKey n) = None then view d1 else put_alloc (view d1) n 0 0)"
  proof (cases "v (NodeCapacityKey n) = None")
    case True
    then show ?thesis using that by simp
  next
    case False
    have "is_hash (view d1) (NodeCapacityKey n)" using assms(3) is_hash_cong(1)[of "view d1" "NodeCapacityKey n" v, OF cap] by simp
    then have "run_state (r_hset R (NodeCapacityKey n) ?fs) d1 = (Inr (), snd (run_state (r_hset R (NodeCapacityKey n) ?fs) d1))"
      "view (snd (run_state (r_hset R (NodeCapacityKey n) ?fs) d1)) = put_alloc (view d1) n 0 0"
      using reply_hset[of ?fs d1 "NodeCapacityKey n"] view_hset[of ?fs "NodeCapacityKey n" d1]
      by (simp_all add: prod_eq_iff put_alloc_def fun_upd_twist)
    with False that show ?thesis by auto
  qed
  have reg2: "view d2 NodeRegistryKey = v NodeRegistryKey" using reg by (simp add: d2(2) put_alloc_def key_simps)
  obtain r d3 where d3: "run_state (r_srem R NodeRegistryKey n) d2 = (r, d3)" by fastforce
  have "r = Inr ()" "view d3 = put_set (view d2) NodeRegistryKey (set_at v NodeRegistryKey - {n})"
    using srem[OF d3] assms(4) is_set_cong[of "view d2" NodeRegistryKey v, OF reg2] by simp_all
  then have "view d3 = evict_view v n" by (simp add: evict_view_def Let_def d2(2) d1(2) ks)
  moreover have "run_state (evictScript R (NodeCapacityKey n) NodeRegistryKey n PodKeyPattern StatusEvicted) d =
      (Inr (int (card (fresh_in v n ?P))), d3)"
    using d1(3) d2(1) d3 \<open>r = Inr ()\<close>
    by (auto simp: evictScript_def run_on_error exists cap zero ks split: if_splits)
  ultimately show ?thesis by blast
qed

lemma run_EvictNode:
  assumes "quiet E" "server E = R" "n \<noteq> []" "view (db w) (NodeStatusKey n) = None"
    and "pods_are_hashes (view (db w))" "is_hash (view (db w)) (NodeCapacityKey n)" "is_set (view (db w)) NodeRegistryKey"
  shows "\<exists>w' x. run_state (EvictNode E l n) w = (Inr (), w') \<and> view (db w') = (evict_view (view (db w)) n)(LogStreamKey := x)"
proof -
  obtain w1 where w1: "run_state (Exists E (NodeStatusKey n)) w = (Inr False, w1)" "db w1 = db w"
    using run_Exists[OF assms(1,2), of "NodeStatusKey n" w] assms(4) by auto
  from run_evictScript[of "db w" n] assms(5-7) obtain c d' where
    d': "run_state (evictScript R (NodeCapacityKey n) NodeRegistryKey n PodKeyPattern StatusEvicted) (db w) = (Inr c, d')"
    "view d' = evict_view (view (db w)) n" by blast
  define w2 where "w2 = w1\<lparr>tick := Suc (tick w1), db := d'\<rparr>"
  define msg where "msg = Sprintf ''lease expired: marked %d pod(s) Evicted and released its capacity'' [ArgD c]"
  obtain w3 x where w3: "run_state (Warn E l ''node_evicted'' msg [NodeID n]) w2 = ((), w3)"
    "view (db w3) = (view (db w2))(LogStreamKey := x)" using run_Info(2)[OF assms(1,2)] by blast
  have "run_state (EvictNode E l n) w = (Inr (), w3)"
    using assms(3) w1 d'(1) w3(1)
    by (simp add: EvictNode_def run_on_error run_EvalScript_quiet[OF assms(1)] assms(2) w2_def msg_def)
  then show ?thesis using w3(2) d'(2) by (auto simp: w2_def)
qed

end

lemma Itoa_0: "Itoa 0 = ''0''"
  by (simp add: Itoa_def dec_nat.simps digit_def)

lemma evict_view_apply: "evict_view v n k = (if k = NodeRegistryKey then
         (if set_at v k \<subseteq> {n} then None else Some (RSet (set_at v k - {n})))
       else if k = NodeCapacityKey n \<and> v k \<noteq> None then
         Some (RHash ((hash_at v k)(FieldAllocatedCPU \<mapsto> ''0'', FieldAllocatedMem \<mapsto> ''0'')))
       else if glob PodKeyPattern k \<and> hash_at v k FieldPodNodeID = Some n then
         Some (RHash ((hash_at v k)(FieldPodStatus \<mapsto> StatusEvicted)))
       else v k)"
  using bound_to_present[of v n k]
  unfolding evict_view_def Let_def put_set_def put_alloc_def hash_at_evicted
  by (auto simp: evicted_in_def bound_to_def key_simps Itoa_0)

lemma evict_view_facts:
  assumes "is_set v NodeRegistryKey"
  shows "evict_view v n (NodeStatusKey m) = v (NodeStatusKey m)"
    "pods_are_hashes v \<Longrightarrow> pods_are_hashes ((evict_view v n)(LogStreamKey := x))"
    "is_hash v (NodeCapacityKey n) \<Longrightarrow> is_hash (evict_view v n) (NodeCapacityKey n)"
    "is_set (evict_view v n) NodeRegistryKey"
  using assms
  by (auto simp: evict_view_apply key_simps pods_are_hashes_def is_hash_def is_set_def)

lemma evict_view_again:
  assumes "k \<noteq> LogStreamKey"
  shows "evict_view ((evict_view v n)(LogStreamKey := x)) n k = evict_view v n k"
proof -
  have same: "evict_view u n k = evict_view u' n k" if "u k = u' k" for u u'
    by (simp only: evict_view_apply set_at_def hash_at_def that)
  have "evict_view ((evict_view v n)(LogStreamKey := x)) n k = evict_view (evict_view v n) n k"
    by (rule same) (use assms in simp)
  also have "\<dots> = evict_view v n k"
  proof -
    consider "k = NodeRegistryKey" | "k = NodeCapacityKey n" "v k \<noteq> None"
      | "glob PodKeyPattern k" "hash_at v k FieldPodNodeID = Some n"
      | "k \<noteq> NodeRegistryKey" "\<not> (k = NodeCapacityKey n \<and> v k \<noteq> None)"
        "\<not> (glob PodKeyPattern k \<and> hash_at v k FieldPodNodeID = Some n)" by blast
    then show ?thesis
    proof cases
      case 1
      have "evict_view v n NodeRegistryKey =
          (if set_at v NodeRegistryKey \<subseteq> {n} then None else Some (RSet (set_at v NodeRegistryKey - {n})))"
        by (simp add: evict_view_apply)
      then show ?thesis
        by (auto simp: 1 evict_view_apply[of "evict_view v n" n NodeRegistryKey] set_at_def[of "evict_view v n"])
    next
      case 2
      define m where "m = (hash_at v k)(FieldAllocatedCPU \<mapsto> ''0'', FieldAllocatedMem \<mapsto> ''0'')"
      have "evict_view v n (NodeCapacityKey n) = Some (RHash m)" using 2 by (simp add: evict_view_apply key_simps m_def)
      moreover have "m(FieldAllocatedCPU \<mapsto> ''0'', FieldAllocatedMem \<mapsto> ''0'') = m" by (simp add: m_def fun_upd_twist)
      ultimately show ?thesis
        by (simp add: 2(1) evict_view_apply[of "evict_view v n" n "NodeCapacityKey n"] key_simps hash_at_def[of "evict_view v n"])
    next
      case 3
      then have "k \<noteq> NodeRegistryKey" "k \<noteq> NodeCapacityKey n" by auto
      with 3 have "evict_view v n k = Some (RHash ((hash_at v k)(FieldPodStatus \<mapsto> StatusEvicted)))"
        by (simp add: evict_view_apply)
      with 3 \<open>k \<noteq> NodeRegistryKey\<close> \<open>k \<noteq> NodeCapacityKey n\<close> show ?thesis
        by (simp add: evict_view_apply[of "evict_view v n" n k] hash_at_def)
    next
      case 4
      then have "evict_view v n k = v k" unfolding evict_view_apply by auto
      then show ?thesis by (rule same)
    qed
  qed
  finally show ?thesis .
qed

text \<open>C4. Evicting a dead node, in an undisturbed run: every pod bound to the node is marked Evicted, its
  allocation becomes zero in both dimensions, it leaves the registry, and nothing else changes but
  the log; in particular no pod of another node is touched.\<close>

theorem EvictNode_exact:
  assumes "redis_server (server E) view" "quiet E" "n \<noteq> []" "view (db w) (NodeStatusKey n) = None"
    and "pods_are_hashes (view (db w))" "is_hash (view (db w)) (NodeCapacityKey n)" "is_set (view (db w)) NodeRegistryKey"
  shows "\<exists>w'. run_state (EvictNode E l n) w = (Inr (), w') \<and>
    (\<forall>k. k \<noteq> LogStreamKey \<longrightarrow> view (db w') k =
      (if k = NodeRegistryKey then
         (if set_at (view (db w)) k \<subseteq> {n} then None else Some (RSet (set_at (view (db w)) k - {n})))
       else if k = NodeCapacityKey n \<and> view (db w) k \<noteq> None then
         Some (RHash ((hash_at (view (db w)) k)(FieldAllocatedCPU \<mapsto> ''0'', FieldAllocatedMem \<mapsto> ''0'')))
       else if glob PodKeyPattern k \<and> hash_at (view (db w)) k FieldPodNodeID = Some n then
         Some (RHash ((hash_at (view (db w)) k)(FieldPodStatus \<mapsto> StatusEvicted)))
       else view (db w) k))"
  using redis_server.run_EvictNode[OF assms(1,2) refl assms(3-7), of l] by (auto simp: evict_view_apply)

text \<open>A dead node with a running pod, beside a pod of another node.\<close>

definition dead_db :: mem where
  "dead_db = [(NodeRegistryKey, Some (MSet [''n1'', ''n2''])),
     (NodeCapacityKey ''n1'', Some (MHash [(FieldTotalCPU, Itoa 4000), (FieldTotalMem, Itoa 8192),
       (FieldAllocatedCPU, Itoa 250), (FieldAllocatedMem, Itoa 128)])),
     (PodKey ''web'' ''7f'', Some (MHash (wire mem_redis (PodToMap demo_pod)))),
     (PodKey ''web'' ''80'', Some (MHash (wire mem_redis (PodToMap (demo_pod\<lparr>p_PodID := ''80'', p_NodeID := ''n2''\<rparr>)))))]"

definition dead_world :: "mem world" where
  "dead_world = \<lparr>db = dead_db, tick = 0\<rparr>"

lemma dead_view: "mem_view (db dead_world) = [NodeRegistryKey \<mapsto> RSet {''n1'', ''n2''},
   NodeCapacityKey ''n1'' \<mapsto> RHash [FieldTotalCPU \<mapsto> Itoa 4000, FieldTotalMem \<mapsto> Itoa 8192,
       FieldAllocatedCPU \<mapsto> Itoa 250, FieldAllocatedMem \<mapsto> Itoa 128],
   PodKey ''web'' ''7f'' \<mapsto> RHash (map_of (wire mem_redis (PodToMap demo_pod))),
   PodKey ''web'' ''80'' \<mapsto> RHash (map_of (wire mem_redis (PodToMap (demo_pod\<lparr>p_PodID := ''80'', p_NodeID := ''n2''\<rparr>))))]"
  by (rule ext) (simp add: mem_view_def mem_get_def dead_world_def dead_db_def key_simps fun_upd_twist)

lemma dead_ready:
  "mem_view (db dead_world) (NodeStatusKey ''n1'') = None" "pods_are_hashes (mem_view (db dead_world))"
  "is_hash (mem_view (db dead_world)) (NodeCapacityKey ''n1'')" "is_set (mem_view (db dead_world)) NodeRegistryKey"
  by (auto simp: dead_view key_simps pods_are_hashes_def is_hash_def is_set_def)

theorem EvictNode_exact_witness:
  "\<exists>w'. run_state (EvictNode mem_env demo_logger ''n1'') dead_world = (Inr (), w') \<and>
     mem_view (db w') NodeRegistryKey = Some (RSet {''n2''}) \<and>
     hash_at (mem_view (db w')) (PodKey ''web'' ''7f'') FieldPodStatus = Some StatusEvicted \<and>
     mem_view (db w') (PodKey ''web'' ''80'') = mem_view (db dead_world) (PodKey ''web'' ''80'')"
proof -
  from EvictNode_exact[of mem_env mem_view "''n1''" dead_world demo_logger, OF _ _ _ dead_ready] mem.redis_server_axioms
  obtain w' where w': "run_state (EvictNode mem_env demo_logger ''n1'') dead_world = (Inr (), w')"
    "\<And>k. k \<noteq> LogStreamKey \<Longrightarrow> mem_view (db w') k =
      (if k = NodeRegistryKey then
         (if set_at (mem_view (db dead_world)) k \<subseteq> {''n1''} then None else Some (RSet (set_at (mem_view (db dead_world)) k - {''n1''})))
       else if k = NodeCapacityKey ''n1'' \<and> mem_view (db dead_world) k \<noteq> None then
         Some (RHash ((hash_at (mem_view (db dead_world)) k)(FieldAllocatedCPU \<mapsto> ''0'', FieldAllocatedMem \<mapsto> ''0'')))
       else if glob PodKeyPattern k \<and> hash_at (mem_view (db dead_world)) k FieldPodNodeID = Some ''n1'' then
         Some (RHash ((hash_at (mem_view (db dead_world)) k)(FieldPodStatus \<mapsto> StatusEvicted)))
       else mem_view (db dead_world) k)" by auto
  have nodes: "hash_at (mem_view (db dead_world)) (PodKey ''web'' ''7f'') FieldPodNodeID = Some ''n1''"
    "hash_at (mem_view (db dead_world)) (PodKey ''web'' ''80'') FieldPodNodeID = Some ''n2''"
    "set_at (mem_view (db dead_world)) NodeRegistryKey = {''n1'', ''n2''}"
    by (simp_all add: dead_view key_simps set_at_def PodToMap_def demo_pod_def mem_redis_def mem_arg_def)
  have "{''n1'', ''n2''} - {''n1''} = {''n2''}" by auto
  then have "mem_view (db w') NodeRegistryKey = Some (RSet {''n2''})" by (simp add: w'(2) key_simps nodes)
  moreover have "mem_view (db w') (PodKey ''web'' ''7f'') =
      Some (RHash ((hash_at (mem_view (db dead_world)) (PodKey ''web'' ''7f''))(FieldPodStatus \<mapsto> StatusEvicted)))"
    by (simp add: w'(2) key_simps nodes glob_all_pods)
  then have "hash_at (mem_view (db w')) (PodKey ''web'' ''7f'') FieldPodStatus = Some StatusEvicted"
    by (simp add: hash_at_def)
  moreover have "mem_view (db w') (PodKey ''web'' ''80'') = mem_view (db dead_world) (PodKey ''web'' ''80'')"
    by (simp add: w'(2) key_simps nodes)
  ultimately show ?thesis using w'(1) by blast
qed

text \<open>Eviction is idempotent: evicting a node that has just been evicted changes nothing but the log, so
  two controllers that race on the same dead node do not subtract twice.\<close>

theorem EvictNode_idempotent:
  assumes "redis_server (server E) view" "quiet E" "n \<noteq> []" "view (db w) (NodeStatusKey n) = None"
    and "pods_are_hashes (view (db w))" "is_hash (view (db w)) (NodeCapacityKey n)" "is_set (view (db w)) NodeRegistryKey"
    and "run_state (EvictNode E l n) w = (r1, w1)" "run_state (EvictNode E l n) w1 = (r2, w2)"
  shows "r1 = Inr () \<and> r2 = Inr () \<and> (\<forall>k. k \<noteq> LogStreamKey \<longrightarrow> view (db w2) k = view (db w1) k)"
proof -
  obtain x where 1: "r1 = Inr ()" "view (db w1) = (evict_view (view (db w)) n)(LogStreamKey := x)"
    using redis_server.run_EvictNode[OF assms(1,2) refl assms(3-7), of l] assms(8) by auto
  have ready: "view (db w1) (NodeStatusKey n) = None" "pods_are_hashes (view (db w1))"
    "is_hash (view (db w1)) (NodeCapacityKey n)" "is_set (view (db w1)) NodeRegistryKey"
    using assms(4-7) evict_view_facts[OF assms(7), of n] unfolding 1(2)
    by (simp_all add: key_simps is_set_def)
  obtain y where 2: "r2 = Inr ()" "view (db w2) = (evict_view (view (db w1)) n)(LogStreamKey := y)"
    using redis_server.run_EvictNode[OF assms(1,2) refl assms(3) ready, of l] assms(9) by auto
  have "view (db w2) k = view (db w1) k" if "k \<noteq> LogStreamKey" for k
    using that evict_view_again[where v = "view (db w)" and n = n and x = x and k = k] by (simp add: 2(2) 1(2))
  with 1(1) 2(1) show ?thesis by blast
qed

theorem EvictNode_idempotent_witness:
  "\<exists>w1 w2. run_state (EvictNode mem_env demo_logger ''n1'') dead_world = (Inr (), w1) \<and>
     run_state (EvictNode mem_env demo_logger ''n1'') w1 = (Inr (), w2) \<and>
     mem_view (db w2) NodeRegistryKey = mem_view (db w1) NodeRegistryKey"
proof -
  obtain r1 w1 where 1: "run_state (EvictNode mem_env demo_logger ''n1'') dead_world = (r1, w1)" by fastforce
  obtain r2 w2 where 2: "run_state (EvictNode mem_env demo_logger ''n1'') w1 = (r2, w2)" by fastforce
  from EvictNode_idempotent[of mem_env mem_view, OF _ _ _ dead_ready 1 2] mem.redis_server_axioms 1 2
  show ?thesis by (auto simp: key_simps)
qed

text \<open>A node whose lease is present is never evicted: \<open>EvictNode\<close> then returns without an error and
  without any change to the database.\<close>

theorem EvictNode_alive:
  assumes "redis_server (server E) view" "quiet E" "view (db w) (NodeStatusKey n) \<noteq> None"
  shows "\<exists>w'. run_state (EvictNode E l n) w = (Inr (), w') \<and> db w' = db w"
  using redis_server.run_Exists[OF assms(1,2) refl, of "NodeStatusKey n" w] assms(3)
  by (auto simp: EvictNode_def run_on_error)

theorem EvictNode_alive_witness:
  "\<exists>w'. run_state (EvictNode mem_env demo_logger ''n1'') duo_world = (Inr (), w') \<and> db w' = duo_db"
  using EvictNode_alive[of mem_env mem_view duo_world "''n1''" demo_logger] mem.redis_server_axioms
  by (simp add: duo_view key_simps) (simp add: duo_world_def)

text \<open>C22. Recognising an expired lease: the lease key of a node whose id is not empty and has no colon gives
  that id back; conversely every key from which an id is read is that node's lease key, with the one
  exception of the key \<open>node:status\<close>, where the prefix and the suffix overlap.\<close>

theorem nodeIDFromStatusKey_lease:
  "(i \<noteq> [] \<and> CHR '':'' \<notin> set i \<longrightarrow> nodeIDFromStatusKey (NodeStatusKey i) = Some i) \<and>
   (nodeIDFromStatusKey key = Some i \<longrightarrow> key = NodeStatusKey i \<or> key = ''node:status'' \<and> i = ''status'')"
proof (intro conjI impI)
  assume "i \<noteq> [] \<and> CHR '':'' \<notin> set i"
  moreover have "HasPrefix (NodeStatusKey i) ''node:''" "HasSuffix (NodeStatusKey i) '':status''"
    "TrimSuffix (TrimPrefix (NodeStatusKey i) ''node:'') '':status'' = i"
    using HasPrefix_append[of "''node:''" "i @ '':status''"] HasSuffix_append[of "''node:'' @ i" "'':status''"]
      TrimPrefix_append[of "''node:''" "i @ '':status''"] TrimSuffix_append[of i "'':status''"]
    by (simp_all add: NodeStatusKey_def)
  ultimately show "nodeIDFromStatusKey (NodeStatusKey i) = Some i" by (simp add: nodeIDFromStatusKey_def)
next
  assume "nodeIDFromStatusKey key = Some i"
  then have pre: "HasPrefix key ''node:''" and suf: "HasSuffix key '':status''"
    and i: "i = TrimSuffix (TrimPrefix key ''node:'') '':status''"
    by (auto simp: nodeIDFromStatusKey_def Let_def split: if_splits)
  obtain t where t: "key = ''node:'' @ t" using pre by (auto simp: HasPrefix_iff)
  then have i': "i = TrimSuffix t '':status''" using i TrimPrefix_append[of "''node:''" t] by simp
  show "key = NodeStatusKey i \<or> key = ''node:status'' \<and> i = ''status''"
  proof (cases "HasSuffix t '':status''")
    case True
    then obtain u where "t = u @ '':status''" by (auto simp: HasSuffix_iff)
    then show ?thesis using t i' TrimSuffix_append[of u "'':status''"] by (simp add: NodeStatusKey_def)
  next
    case False
    obtain u where u: "key = u @ '':status''" using suf by (auto simp: HasSuffix_iff)
    then have "u @ '':status'' = ''node:'' @ t" using t by simp
    then consider us where "u @ us = ''node:''" "'':status'' = us @ t" | us where "t = us @ '':status''"
      unfolding append_eq_append_conv2 by blast
    then show ?thesis
    proof cases
      case 1
      then have "us = [] \<or> us = '':''" by (auto simp: append_eq_Cons_conv Cons_eq_append_conv)
      with 1 False have "t = ''status''" by (auto simp: HasSuffix_def)
      then show ?thesis using t i' by (simp add: TrimSuffix_def HasSuffix_def)
    next
      case 2
      then show ?thesis using False by simp
    qed
  qed
qed

theorem nodeIDFromStatusKey_lease_witness:
  "nodeIDFromStatusKey (NodeStatusKey ''n1'') = Some ''n1'' \<and> nodeIDFromStatusKey ''node:status'' = Some ''status''"
  using nodeIDFromStatusKey_lease[of "''n1''" "''node:status''"]
  by (simp add: nodeIDFromStatusKey_def HasPrefix_def HasSuffix_def TrimPrefix_def TrimSuffix_def Let_def)

section \<open>Safety of eviction\<close>

context cluster
begin

text \<open>The same calculus inside a script, where the state is the database itself.\<close>

abbreviation K :: "'db \<Rightarrow> bool" where
  "K d \<equiv> accounting_ok (view d)"

lemma keeps_script_reads: "keeps K (r_hget R k f)" "keeps K (r_exists R k)"
  using hget_same[OF prod.collapse[symmetric]] by (auto simp: keeps_def exists)

lemma keeps_script_status:
  "HasPrefix k ''pod:'' \<Longrightarrow> keeps K (r_hset R k [(''status'', s)])"
  using accounting_hash[of _ k "[(''status'', s)]"] by (simp add: keeps_def view_hset request_ok_def)

lemma keeps_script_zero:
  assumes "\<And>x. keeps K (k x)"
  shows "keeps K (attempt (r_exists R (NodeCapacityKey n)) (\<lambda>ex.
     attempt (if ex then r_hset R (NodeCapacityKey n) [(''allocated_cpu'', r_tostring R 0), (''allocated_mem'', r_tostring R 0)]
              else ok ()) k))"
proof (rule keepsI)
  fix d
  let ?fs = "[(''allocated_cpu'', r_tostring R 0), (''allocated_mem'', r_tostring R 0)]"
  assume d: "K d"
  show "K (snd (run_state (attempt (r_exists R (NodeCapacityKey n)) (\<lambda>ex.
     attempt (if ex then r_hset R (NodeCapacityKey n) ?fs else ok ()) k)) d))"
  proof (cases "view d (NodeCapacityKey n) = None")
    case True
    then show ?thesis using keepsD[where P = K, OF assms d] by (simp add: run_on_error exists)
  next
    case False
    with d obtain c where c: "holds_capacity (view d) n c" "within_totals c" by (rule accounting_capacity)
    then have "is_hash (view d) (NodeCapacityKey n)" by (auto elim: holds_capacityE)
    moreover have "r_tostring R 0 = Itoa 0" using tostring_int[of 0] by simp
    ultimately have "view (snd (run_state (r_hset R (NodeCapacityKey n) ?fs) d)) = put_alloc (view d) n 0 0"
      using view_hset[of ?fs "NodeCapacityKey n" d] by (simp add: put_alloc_def fun_upd_twist)
    moreover have "accounting_ok (put_alloc (view d) n 0 0)"
      by (rule accounting_put_alloc[OF d c(1)]) (use c(2) in \<open>simp add: within_totals_def\<close>)
    moreover obtain r d1 where r: "run_state (r_hset R (NodeCapacityKey n) ?fs) d = (r, d1)" by fastforce
    ultimately have "K d1" by simp
    then show ?thesis
      using keepsD[where P = K, OF assms] False by (cases r) (simp_all add: run_on_error exists r)
  qed
qed

lemma keeps_script_srem: "keeps K (r_srem R NodeRegistryKey n)"
  by (simp add: keeps_def view_srem ignores_put_set)

lemma keeps_evict_keys:
  "\<forall>k \<in> set ks. HasPrefix k ''pod:'' \<Longrightarrow> keeps K (evict_keys R n StatusEvicted ks cnt)"
  by (induction ks arbitrary: cnt)
    (auto intro!: keeps_on_error keeps_script_reads keeps_script_status)

lemma evict_scan_keeps:
  assumes "evict_scan R n PodKeyPattern StatusEvicted cur cnt d = Some (r, d')" "accounting_ok (view d)"
  shows "accounting_ok (view d')"
proof -
  let ?P = "\<lambda>R' pat ev d p. R' = R \<longrightarrow> pat = PodKeyPattern \<longrightarrow> ev = StatusEvicted \<longrightarrow> accounting_ok (view d) \<longrightarrow> accounting_ok (view (snd p))"
  have "?P R PodKeyPattern StatusEvicted d (r, d')"
  proof (rule evict_scan.raw_induct[where P = "\<lambda>R' n pat ev cur cnt d p. ?P R' pat ev d p"])
    show "evict_scan R n PodKeyPattern StatusEvicted cur cnt d = Some (r, d')" by (rule assms(1))
  next
    fix f R' n pat ev cur cnt d p
    assume IH: "\<And>R' n pat ev cur cnt d p. f R' n pat ev cur cnt d = Some p \<Longrightarrow> ?P R' pat ev d p"
      and eq: "(case run_state (r_scan R' cur pat) d of
        (Inl e, d1) \<Rightarrow> Some (Inl e, d1)
      | (Inr (ks, c), d1) \<Rightarrow>
          (case run_state (evict_keys R' n ev ks cnt) d1 of
             (Inl e, d2) \<Rightarrow> Some (Inl e, d2)
           | (Inr m, d2) \<Rightarrow> if c = 0 then Some (Inr m, d2) else f R' n pat ev c m d2)) = Some p"
    show "?P R' pat ev d p"
    proof (intro impI)
      assume [simp]: "R' = R" "pat = PodKeyPattern" "ev = StatusEvicted" and d: "accounting_ok (view d)"
      obtain ks c where page: "run_state (r_scan R cur PodKeyPattern) d = (Inr (ks, c), d)" using scan_page by blast
      obtain q d2 where q: "run_state (evict_keys R n StatusEvicted ks cnt) d = (q, d2)" by fastforce
      have "accounting_ok (view d2)"
        using keepsE[OF keeps_evict_keys d q] scan_prefix[OF page] literal_prefix_pods(2) by blast
      then show "accounting_ok (view (snd p))"
        using eq IH[of R n PodKeyPattern StatusEvicted c _ d2 p] by (cases q) (auto simp: page q split: if_splits)
    qed
  qed
  with assms(2) show ?thesis by simp
qed

lemma keeps_evictScript:
  "keeps K (evictScript R (NodeCapacityKey n) NodeRegistryKey n PodKeyPattern StatusEvicted)"
proof -
  have "keeps K (State (\<lambda>d. case evict_scan R n PodKeyPattern StatusEvicted 0 0 d of
                None \<Rightarrow> (Inl NeverReturns, d) | Some r \<Rightarrow> r))"
    by (auto simp: keeps_def split: option.split dest: evict_scan_keeps)
  then show ?thesis
    unfolding evictScript_def
    by (intro keeps_on_error keeps_return keeps_script_srem keeps_script_zero)
qed

lemma keeps_EvictNode [keeps_intros]: "keeps J (EvictNode E l n)"
  unfolding EvictNode_def EvalScript_def server_R
  by (intro keeps_intros keeps_send keepsD[OF keeps_evictScript]) simp_all

lemma keeps_SweepOnce [keeps_intros]: "keeps J (SweepOnce E l)"
  unfolding SweepOnce_def SweepOnce_body_def by (intro keeps_intros) simp_all

lemma keeps_health: "keeps J (health_round E l)" "keeps J (handle_expiry E l msg)"
  unfolding health_round_def handle_expiry_def by (intro keeps_intros; simp)+

end

end
