(* ===== verification/Node.thy ===== *)
theory Node
  imports Health
begin

text \<open>
  \<open>internal/node/node.go\<close>: a worker node's registration, its allocation recomputed from the pods that
  are bound to it, its lease and its departure. \<open>RunHeartbeatLoop\<close> is represented by one tick.
\<close>

record Registrar =
  g_nodeID :: string
  g_totalCPU :: int
  g_totalMem :: int
  g_heartbeatInterval :: int \<comment> \<open>\<open>time.Duration\<close>, nanoseconds\<close>
  g_leaseTTL :: int

text \<open>The fields of \<open>config.Config\<close> that the constructor reads.\<close>

record NodeConfig =
  cfg_NodeID :: string
  cfg_TotalCPU :: int
  cfg_TotalMem :: int
  cfg_HeartbeatInterval :: int
  cfg_LeaseTTL :: int

definition NewRegistrar :: "NodeConfig \<Rightarrow> error + Registrar" where
  "NewRegistrar cfg =
     (if cfg_HeartbeatInterval cfg \<le> 0 \<or> cfg_LeaseTTL cfg \<le> 0 then
        Inl (Errorf ''heartbeat interval and lease TTL must both be positive (got %s and %s)''
               [ArgS (Duration_String (cfg_HeartbeatInterval cfg)), ArgS (Duration_String (cfg_LeaseTTL cfg))])
      else if i64 (cfg_HeartbeatInterval cfg * 2) \<ge> cfg_LeaseTTL cfg then
        Inl (Errorf ''heartbeat interval %s is too close to lease TTL %s: TTL must exceed twice the interval so one missed refresh cannot expire a live node''
               [ArgS (Duration_String (cfg_HeartbeatInterval cfg)), ArgS (Duration_String (cfg_LeaseTTL cfg))])
      else if cfg_TotalCPU cfg \<le> 0 \<or> cfg_TotalMem cfg \<le> 0 then
        Inl (Errorf ''node must advertise positive capacity (got cpu=%dm mem=%dMB)''
               [ArgD (cfg_TotalCPU cfg), ArgD (cfg_TotalMem cfg)])
      else Inr \<lparr>g_nodeID = cfg_NodeID cfg, g_totalCPU = cfg_TotalCPU cfg, g_totalMem = cfg_TotalMem cfg,
                g_heartbeatInterval = cfg_HeartbeatInterval cfg, g_leaseTTL = cfg_LeaseTTL cfg\<rparr>)"

definition ReconcileAllocations_body where
  "ReconcileAllocations_body E l r key acc =
     (case acc of (cpu, mem) \<Rightarrow>
      on_error (HashGet E key)
        (\<lambda>e. State_Monad.return (Return (Inl (Errorf ''read pod %s: %w'' [ArgS key, ArgE e]))))
        (\<lambda>fs.
          if fs = [] then State_Monad.return (Next (cpu, mem))
          else if mget fs FieldPodNodeID \<noteq> g_nodeID r then State_Monad.return (Next (cpu, mem))
          else if \<not> ConsumesCapacity (mget fs FieldPodStatus) then State_Monad.return (Next (cpu, mem))
          else case MapToPod fs of
            Inl e \<Rightarrow> do {
              Warn E l ''pod_hash_malformed''
                (Sprintf ''skipping unreadable pod %s during allocation reconcile: %v'' [ArgS key, ArgE e])
                [NodeID (g_nodeID r)];
              State_Monad.return (Next (cpu, mem)) }
          | Inr pod \<Rightarrow> State_Monad.return (Next (i64 (cpu + p_CPURequest pod), i64 (mem + p_MemRequest pod)))))"

definition ReconcileAllocations ::
  "('db, 'e) env_scheme \<Rightarrow> Logger \<Rightarrow> Registrar \<Rightarrow> (('db, 'm) world_scheme, int \<times> int) fallible"
where
  "ReconcileAllocations E l r =
     on_error (ScanKeys E PodKeyPattern)
       (\<lambda>e. throw (Errorf ''scan pods: %w'' [ArgE e]))
       (\<lambda>podKeys. loop (ReconcileAllocations_body E l r) podKeys (0, 0) (\<lambda>acc. ok acc))"

definition Register ::
  "('db, 'e) env_scheme \<Rightarrow> Logger \<Rightarrow> Registrar \<Rightarrow> (('db, 'm) world_scheme, unit) fallible"
where
  "Register E l r =
     on_error (ReconcileAllocations E l r)
       (\<lambda>e. throw (Errorf ''reconcile allocations for %s: %w'' [ArgS (g_nodeID r), ArgE e]))
       (\<lambda>(allocatedCPU, allocatedMem).
         let capacity = \<lparr>n_TotalCPU = g_totalCPU r, n_TotalMem = g_totalMem r,
                         n_AllocatedCPU = allocatedCPU, n_AllocatedMem = allocatedMem\<rparr> in
         on_error (HashSet E (NodeCapacityKey (g_nodeID r)) (NodeCapacityToMap capacity))
           (\<lambda>e. throw (Errorf ''write capacity hash for %s: %w'' [ArgS (g_nodeID r), ArgE e]))
           (\<lambda>_. on_error (SetAdd E NodeRegistryKey (g_nodeID r))
              (\<lambda>e. throw (Errorf ''join node registry as %s: %w'' [ArgS (g_nodeID r), ArgE e]))
              (\<lambda>_. do {
                 Info E l ''node_registered''
                   (Sprintf ''registered with cpu=%dm mem=%dMB, reclaimed allocations cpu=%dm mem=%dMB''
                      [ArgD (g_totalCPU r), ArgD (g_totalMem r), ArgD allocatedCPU, ArgD allocatedMem])
                   [NodeID (g_nodeID r)];
                 ok () })))"

definition Heartbeat ::
  "('db, 'e) env_scheme \<Rightarrow> Registrar \<Rightarrow> (('db, 'm) world_scheme, unit) fallible"
where
  "Heartbeat E r = SetKey E (NodeStatusKey (g_nodeID r)) NodeStatusReady (g_leaseTTL r)"

text \<open>One tick of \<open>RunHeartbeatLoop\<close>; the result says whether the loop goes on.\<close>

definition heartbeat_tick ::
  "('db, 'e) env_scheme \<Rightarrow> Logger \<Rightarrow> Registrar \<Rightarrow> (('db, 'm) world_scheme, bool) state"
where
  "heartbeat_tick E l r =
     on_error (Heartbeat E r)
       (\<lambda>e. do {
          c \<leftarrow> ctx_Err E;
          case c of
            Some _ \<Rightarrow> State_Monad.return False
          | None \<Rightarrow> do {
              Warn E l ''heartbeat_failed''
                (Sprintf ''lease refresh failed, will retry in %s: %v'' [ArgS (Duration_String (g_heartbeatInterval r)), ArgE e])
                [NodeID (g_nodeID r)];
              State_Monad.return True } })
       (\<lambda>_. State_Monad.return True)"

definition Deregister ::
  "('db, 'e) env_scheme \<Rightarrow> Logger \<Rightarrow> Registrar \<Rightarrow> (('db, 'm) world_scheme, unit) fallible"
where
  "Deregister E l r = do {
     Info E l ''node_deregistering'' ''clean shutdown, dropping liveness lease'' [NodeID (g_nodeID r)];
     on_error (DeleteKey E [NodeStatusKey (g_nodeID r)])
       (\<lambda>e. throw (Errorf ''drop lease for %s: %w'' [ArgS (g_nodeID r), ArgE e]))
       (\<lambda>_. ok ()) }"

section \<open>The recomputed allocation\<close>

definition request_of :: "keyspace \<Rightarrow> string \<Rightarrow> string \<Rightarrow> int" where
  "request_of v f k = (case hash_at v k f of
     None \<Rightarrow> 0 | Some s \<Rightarrow> (case atoi s of Inl _ \<Rightarrow> 0 | Inr n \<Rightarrow> n))"

text \<open>The pods that hold capacity on node \<open>n\<close>, and what they hold in a dimension.\<close>

definition holding :: "keyspace \<Rightarrow> string \<Rightarrow> string set" where
  "holding v n = {k \<in> dom v. glob PodKeyPattern k \<and> hash_at v k FieldPodNodeID = Some n \<and>
     hash_at v k FieldPodStatus \<noteq> Some StatusEvicted}"

definition held :: "keyspace \<Rightarrow> string \<Rightarrow> string \<Rightarrow> int" where
  "held v f n = (\<Sum>k \<in> holding v n. request_of v f k)"

definition readable_cluster :: "'db redis \<Rightarrow> ('db \<Rightarrow> keyspace) \<Rightarrow> 'db \<Rightarrow> bool" where
  "readable_cluster R view d \<longleftrightarrow> (\<forall>k \<in> dom (view d). glob PodKeyPattern k \<longrightarrow> (\<exists>p. pod_at (view d) k p)) \<and>
     (\<forall>ks. scan_run R d PodKeyPattern 0 ks \<longrightarrow> distinct ks)"

lemma pod_at_fields:
  assumes "pod_at v k p" "map_of fs = hash_at v k"
  shows "MapToPod fs = Inr p" "request_of v FieldCPURequest k = p_CPURequest p" "request_of v FieldMemRequest k = p_MemRequest p"
proof -
  show m: "MapToPod fs = Inr p" using assms by (rule pod_at_decode)
  have "atoi (mget fs f) = Inr n \<Longrightarrow> request_of v f k = n" for f n
    using assms(2) by (auto simp: request_of_def mget_def atoi_def split: option.splits if_splits)
  moreover have "atoi (mget fs FieldCPURequest) = Inr (p_CPURequest p)" "atoi (mget fs FieldMemRequest) = Inr (p_MemRequest p)"
    using m by (auto simp: MapToPod_def required_Inr)
  ultimately show "request_of v FieldCPURequest k = p_CPURequest p" "request_of v FieldMemRequest k = p_MemRequest p" by auto
qed

context redis_server
begin

lemma run_ReconcileAllocations_body:
  assumes "quiet E" "server E = R" "g_nodeID r \<noteq> []" "pod_at (view (db w)) k p"
  shows "\<exists>w'. db w' = db w \<and> run_state (ReconcileAllocations_body E l r k (a, b)) w =
    (Next (if hash_at (view (db w)) k FieldPodNodeID = Some (g_nodeID r) \<and> hash_at (view (db w)) k FieldPodStatus \<noteq> Some StatusEvicted
           then (i64 (a + request_of (view (db w)) FieldCPURequest k), i64 (b + request_of (view (db w)) FieldMemRequest k))
           else (a, b)), w')"
proof -
  let ?v = "view (db w)"
  have h: "is_hash ?v k" "?v k \<noteq> None" using assms(4) by (auto simp: pod_at_def)
  from run_HashGet[OF assms(1,2) h(1)] obtain fs w1 where fs: "run_state (HashGet E k) w = (Inr fs, w1)"
    "map_of fs = hash_at ?v k" "fs \<noteq> []" "db w1 = db w" using h(2) by auto
  note p = pod_at_fields[OF assms(4) fs(2)]
  have "mget fs FieldPodNodeID = g_nodeID r \<longleftrightarrow> hash_at ?v k FieldPodNodeID = Some (g_nodeID r)"
    "mget fs FieldPodStatus \<noteq> StatusEvicted \<longleftrightarrow> hash_at ?v k FieldPodStatus \<noteq> Some StatusEvicted"
    using assms(3) fs(2) by (auto simp: mget_def split: option.splits)
  with fs p show ?thesis
    by (auto simp: ReconcileAllocations_body_def run_on_error ConsumesCapacity_def)
qed

lemma run_allocation_loop:
  assumes "quiet E" "server E = R" "g_nodeID r \<noteq> []" "\<forall>k \<in> set ks. \<exists>p. pod_at (view (db w)) k p"
  defines "Q \<equiv> \<lambda>k. hash_at (view (db w)) k FieldPodNodeID = Some (g_nodeID r) \<and> hash_at (view (db w)) k FieldPodStatus \<noteq> Some StatusEvicted"
  shows "\<exists>w'. db w' = db w \<and> run_state (for_range (ReconcileAllocations_body E l r) ks (i64 a, i64 b)) w =
    (Inl (i64 (a + sum_list (map (request_of (view (db w)) FieldCPURequest) (filter Q ks))),
          i64 (b + sum_list (map (request_of (view (db w)) FieldMemRequest) (filter Q ks)))) ::
       (int \<times> int) + (error + (int \<times> int)), w')"
proof -
  let ?v = "view (db w)"
  have "\<exists>w'. db w' = db w \<and> run_state (for_range (ReconcileAllocations_body E l r) ks (i64 a, i64 b)) w0 =
    (Inl (i64 (a + sum_list (map (request_of ?v FieldCPURequest) (filter Q ks))),
          i64 (b + sum_list (map (request_of ?v FieldMemRequest) (filter Q ks)))) ::
       (int \<times> int) + (error + (int \<times> int)), w')" if "db w0 = db w" for w0
    using that assms(4)
  proof (induction ks arbitrary: a b w0)
    case Nil
    then show ?case by auto
  next
    case (Cons k ks)
    obtain p where p: "pod_at (view (db w0)) k p" using Cons.prems by auto
    let ?c = "request_of ?v FieldCPURequest k" and ?m = "request_of ?v FieldMemRequest k"
    from run_ReconcileAllocations_body[OF assms(1-3) p, of l "i64 a" "i64 b"] obtain w1 where
      w1: "db w1 = db w" "run_state (ReconcileAllocations_body E l r k (i64 a, i64 b)) w0 =
        (Next (i64 (if Q k then a + ?c else a), i64 (if Q k then b + ?m else b)) :: (int \<times> int, error + (int \<times> int)) flow, w1)"
      unfolding Cons.prems(1) by (cases "Q k") (auto simp: Q_def)
    from Cons.IH[OF w1(1), of "if Q k then a + ?c else a" "if Q k then b + ?m else b"] Cons.prems(2)
    show ?case by (auto simp: w1(2) algebra_simps)
  qed
  then show ?thesis by blast
qed

lemma run_ReconcileAllocations:
  assumes "quiet E" "server E = R" "g_nodeID r \<noteq> []" "readable_cluster R view (db w)"
  shows "\<exists>w'. run_state (ReconcileAllocations E l r) w =
      (Inr (i64 (held (view (db w)) FieldCPURequest (g_nodeID r)), i64 (held (view (db w)) FieldMemRequest (g_nodeID r))), w') \<and>
    db w' = db w"
proof -
  let ?v = "view (db w)"
  have plain: "plain_pattern PodKeyPattern" by (simp add: plain_pattern_def PodKeyPattern_def)
  from run_ScanKeys[OF assms(1,2) plain, of w] obtain ks w1 where
    ks: "run_state (ScanKeys E PodKeyPattern) w = (Inr ks, w1)" "scan_run R (db w) PodKeyPattern 0 ks"
    "set ks = {k. ?v k \<noteq> None \<and> glob PodKeyPattern k}" "db w1 = db w" by blast
  let ?Q = "\<lambda>k. hash_at ?v k FieldPodNodeID = Some (g_nodeID r) \<and> hash_at ?v k FieldPodStatus \<noteq> Some StatusEvicted"
  have "distinct ks" using assms(4) ks(2) by (simp add: readable_cluster_def)
  moreover have "set (filter ?Q ks) = holding ?v (g_nodeID r)" by (auto simp: ks(3) holding_def)
  ultimately have sums: "sum_list (map (request_of ?v f) (filter ?Q ks)) = held ?v f (g_nodeID r)" for f
    unfolding held_def by (simp only: sum_list_distinct_conv_sum_set[OF distinct_filter])
  have "\<forall>k \<in> set ks. \<exists>p. pod_at (view (db w1)) k p"
    using assms(4) by (auto simp: readable_cluster_def ks(3,4))
  from run_allocation_loop[OF assms(1-3) this, of l 0 0] obtain w2 where
    "db w2 = db w" "run_state (for_range (ReconcileAllocations_body E l r) ks (0, 0)) w1 =
      (Inl (i64 (held ?v FieldCPURequest (g_nodeID r)), i64 (held ?v FieldMemRequest (g_nodeID r))) :: (int \<times> int) + (error + (int \<times> int)), w2)"
    unfolding ks(4) sums by auto
  then show ?thesis by (auto simp: ReconcileAllocations_def run_on_error ks(1) run_loop)
qed

lemma run_Register:
  assumes "quiet E" "server E = R" "g_nodeID r \<noteq> []" "readable_cluster R view (db w)"
    and "is_hash (view (db w)) (NodeCapacityKey (g_nodeID r))" "is_set (view (db w)) NodeRegistryKey"
  shows "\<exists>w' x. run_state (Register E l r) w = (Inr (), w') \<and>
    view (db w') = (view (db w))
      (NodeCapacityKey (g_nodeID r) \<mapsto> RHash (hash_at (view (db w)) (NodeCapacityKey (g_nodeID r)) ++
         map_of (wire R (NodeCapacityToMap \<lparr>n_TotalCPU = g_totalCPU r, n_TotalMem = g_totalMem r,
           n_AllocatedCPU = i64 (held (view (db w)) FieldCPURequest (g_nodeID r)),
           n_AllocatedMem = i64 (held (view (db w)) FieldMemRequest (g_nodeID r))\<rparr>))),
       NodeRegistryKey \<mapsto> RSet (insert (g_nodeID r) (set_at (view (db w)) NodeRegistryKey)),
       LogStreamKey := x)"
proof -
  let ?v = "view (db w)" and ?n = "g_nodeID r"
  let ?a = "i64 (held ?v FieldCPURequest ?n)" and ?b = "i64 (held ?v FieldMemRequest ?n)"
  define fs where "fs = NodeCapacityToMap \<lparr>n_TotalCPU = g_totalCPU r, n_TotalMem = g_totalMem r, n_AllocatedCPU = ?a, n_AllocatedMem = ?b\<rparr>"
  obtain w1 where w1: "run_state (ReconcileAllocations E l r) w = (Inr (?a, ?b), w1)" "db w1 = db w"
    using run_ReconcileAllocations[OF assms(1-4)] by blast
  obtain w2 where w2: "run_state (HashSet E (NodeCapacityKey ?n) fs) w1 = (Inr (), w2)"
    "view (db w2) = ?v(NodeCapacityKey ?n \<mapsto> RHash (hash_at ?v (NodeCapacityKey ?n) ++ map_of (wire R fs)))"
    using run_HashSet[OF assms(1,2), of w1 "NodeCapacityKey ?n" fs] assms(5) w1(2)
    by (auto simp: fs_def NodeCapacityToMap_def)
  obtain w3 where w3: "run_state (SetAdd E NodeRegistryKey ?n) w2 = (Inr (), w3)"
    "view (db w3) = (view (db w2))(NodeRegistryKey \<mapsto> RSet (insert ?n (set_at ?v NodeRegistryKey)))"
    using assms(6) by (simp add: SetAdd_def run_send_quiet[OF assms(1)] assms(2) reply_sadd view_sadd w2(2) key_simps
        is_set_def set_at_def put_set_def)
  define msg where "msg = Sprintf ''registered with cpu=%dm mem=%dMB, reclaimed allocations cpu=%dm mem=%dMB''
    [ArgD (g_totalCPU r), ArgD (g_totalMem r), ArgD ?a, ArgD ?b]"
  obtain w4 x where w4: "run_state (Info E l ''node_registered'' msg [NodeID ?n]) w3 = ((), w4)"
    "view (db w4) = (view (db w3))(LogStreamKey := x)" using run_Info(1)[OF assms(1,2)] by blast
  have "run_state (Register E l r) w = (Inr (), w4)"
    using w1(1) w2(1) w3(1) w4(1) by (simp add: Register_def run_on_error fs_def[symmetric] msg_def[symmetric])
  then show ?thesis using w4(2) unfolding w3(2) w2(2) fs_def by blast
qed

end

text \<open>C8. Registration rebuilds the books from the pods themselves: whatever the capacity hash held before,
  afterwards it holds the node's totals and, in each dimension, the sum of the requests of exactly the
  pods that are bound to this node and not evicted; the node is a member of the registry; no other
  key changes except the event log. In particular a restart of the agent loses no allocation.\<close>

theorem Register_exact:
  assumes "redis_server (server E) view" "quiet E" "g_nodeID r \<noteq> []" "readable_cluster (server E) view (db w)"
    and "is_hash (view (db w)) (NodeCapacityKey (g_nodeID r))" "is_set (view (db w)) NodeRegistryKey"
  shows "\<exists>w'. run_state (Register E l r) w = (Inr (), w') \<and>
    holds_capacity (view (db w')) (g_nodeID r) \<lparr>n_TotalCPU = g_totalCPU r, n_TotalMem = g_totalMem r,
      n_AllocatedCPU = i64 (held (view (db w)) FieldCPURequest (g_nodeID r)),
      n_AllocatedMem = i64 (held (view (db w)) FieldMemRequest (g_nodeID r))\<rparr> \<and>
    set_at (view (db w')) NodeRegistryKey = insert (g_nodeID r) (set_at (view (db w)) NodeRegistryKey) \<and>
    (\<forall>k. k \<noteq> LogStreamKey \<longrightarrow> k \<noteq> NodeRegistryKey \<longrightarrow> k \<noteq> NodeCapacityKey (g_nodeID r) \<longrightarrow>
       view (db w') k = view (db w) k)"
  using redis_server.run_Register[OF assms(1,2) refl assms(3-6), of l]
  by (auto simp: holds_capacity_def key_simps NodeCapacityToMap_def redis_server.arg_int[OF assms(1)] set_at_def)

definition demo_registrar :: Registrar where
  "demo_registrar = \<lparr>g_nodeID = ''n1'', g_totalCPU = 4000, g_totalMem = 8192, g_heartbeatInterval = 3 * 10 ^ 9, g_leaseTTL = 10 ^ 10\<rparr>"

lemma dead_pods:
  "pod_at (mem_view (db dead_world)) (PodKey ''web'' ''7f'') demo_pod"
  "pod_at (mem_view (db dead_world)) (PodKey ''web'' ''80'') (demo_pod\<lparr>p_PodID := ''80'', p_NodeID := ''n2''\<rparr>)"
proof -
  have "MapToPod (wire mem_redis (PodToMap demo_pod)) = Inr demo_pod"
    "MapToPod (wire mem_redis (PodToMap (demo_pod\<lparr>p_PodID := ''80'', p_NodeID := ''n2''\<rparr>))) = Inr (demo_pod\<lparr>p_PodID := ''80'', p_NodeID := ''n2''\<rparr>)"
    using mem.pod_merge[of demo_pod "[]"] mem.pod_merge[of "demo_pod\<lparr>p_PodID := ''80'', p_NodeID := ''n2''\<rparr>" "[]"]
    by (simp_all add: pod_typed_def demo_pod_def in_int64_def in_uint64_def)
  then show "pod_at (mem_view (db dead_world)) (PodKey ''web'' ''7f'') demo_pod"
    "pod_at (mem_view (db dead_world)) (PodKey ''web'' ''80'') (demo_pod\<lparr>p_PodID := ''80'', p_NodeID := ''n2''\<rparr>)"
    by (auto simp: pod_at_def dead_view key_simps is_hash_def hash_at_def)
qed

lemma dead_readable: "readable_cluster mem_redis mem_view (db dead_world)"
  using dead_pods
  by (auto simp: readable_cluster_def dead_view key_simps dest: scan_run_mem_distinct split: if_splits)

lemma dead_held:
  "held (mem_view (db dead_world)) FieldCPURequest ''n1'' = 250" "held (mem_view (db dead_world)) FieldMemRequest ''n1'' = 128"
proof -
  have h: "hash_at (mem_view (db dead_world)) (PodKey ''web'' ''7f'') = map_of (wire mem_redis (PodToMap demo_pod))"
    "hash_at (mem_view (db dead_world)) (PodKey ''web'' ''80'') = map_of (wire mem_redis (PodToMap (demo_pod\<lparr>p_PodID := ''80'', p_NodeID := ''n2''\<rparr>)))"
    by (simp_all add: dead_view key_simps)
  have "holding (mem_view (db dead_world)) ''n1'' = {PodKey ''web'' ''7f''}"
    unfolding holding_def
    by (auto simp: dead_view key_simps glob_all_pods PodToMap_def demo_pod_def mem_redis_def mem_arg_def split: if_splits)
  then show "held (mem_view (db dead_world)) FieldCPURequest ''n1'' = 250" "held (mem_view (db dead_world)) FieldMemRequest ''n1'' = 128"
    using pod_at_fields(2,3)[OF dead_pods(1) h(1)[symmetric]] by (simp_all add: held_def demo_pod_def)
qed

theorem Register_exact_witness:
  "\<exists>w'. run_state (Register mem_env demo_logger demo_registrar) dead_world = (Inr (), w') \<and>
    holds_capacity (mem_view (db w')) ''n1'' \<lparr>n_TotalCPU = 4000, n_TotalMem = 8192, n_AllocatedCPU = 250, n_AllocatedMem = 128\<rparr> \<and>
    set_at (mem_view (db w')) NodeRegistryKey = {''n1'', ''n2''}"
proof -
  have "set_at (mem_view (db dead_world)) NodeRegistryKey = {''n1'', ''n2''}" by (simp add: dead_view key_simps set_at_def)
  then show ?thesis
    using Register_exact[of mem_env mem_view demo_registrar dead_world demo_logger] mem.redis_server_axioms
      dead_readable dead_ready dead_held
    by (auto simp: demo_registrar_def in_int64_def)
qed

text \<open>The constructor's guard: below the range where doubling the interval overflows, a registrar is built
  exactly when the lease outlives two heartbeat intervals and both capacities are positive, and it
  then carries the configuration's values.\<close>

theorem NewRegistrar_accepts:
  assumes "cfg_HeartbeatInterval cfg < 2 ^ 62" "in_int64 (cfg_HeartbeatInterval cfg)"
  shows "NewRegistrar cfg = Inr r \<longleftrightarrow>
      0 < cfg_HeartbeatInterval cfg \<and> 2 * cfg_HeartbeatInterval cfg < cfg_LeaseTTL cfg \<and>
      0 < cfg_TotalCPU cfg \<and> 0 < cfg_TotalMem cfg \<and>
      r = \<lparr>g_nodeID = cfg_NodeID cfg, g_totalCPU = cfg_TotalCPU cfg, g_totalMem = cfg_TotalMem cfg,
           g_heartbeatInterval = cfg_HeartbeatInterval cfg, g_leaseTTL = cfg_LeaseTTL cfg\<rparr>"
proof -
  have "i64 (cfg_HeartbeatInterval cfg * 2) = cfg_HeartbeatInterval cfg * 2" if "0 < cfg_HeartbeatInterval cfg"
    using that assms by (intro i64_id) (simp add: in_int64_def)
  then show ?thesis by (auto simp: NewRegistrar_def split: if_splits)
qed

theorem NewRegistrar_accepts_witness:
  "NewRegistrar \<lparr>cfg_NodeID = ''n1'', cfg_TotalCPU = 4000, cfg_TotalMem = 8192, cfg_HeartbeatInterval = 3 * 10 ^ 9, cfg_LeaseTTL = 10 ^ 10\<rparr> =
     Inr demo_registrar"
  by (subst NewRegistrar_accepts) (simp_all add: in_int64_def demo_registrar_def)

end
