(* ===== verification/Host.thy ===== *)
theory Host
  imports Capacity
begin

text \<open>
  The machine a node agent runs on, and the identity of processes: \<open>internal/supervisor/process.go\<close> and
  \<open>identity.go\<close>. The operating system is not part of the repository, so it is a parameter: a record with one
  operation per call the sources make, over an unknown machine state, and the contract \<open>unix_kernel\<close> that
  states the documented behaviour of those calls over the process table.
\<close>


section \<open>The kernel as a parameter\<close>

datatype errno = EPERM | ESRCH | EINVAL

abbreviation (input) SIGKILL :: int where "SIGKILL \<equiv> 9"
abbreviation (input) SIGTERM :: int where "SIGTERM \<equiv> 15"

text \<open>\<open>os.ReadFile\<close>, the names that \<open>os.ReadDir\<close> lists, \<open>os.Stat\<close>, \<open>os.OpenFile\<close>, an \<open>exec.Command\<close> with its
  environment, started in a process group of its own, \<open>syscall.Kill\<close>, and whether a port can be listened on
  or answers a connection.\<close>

record 'os kernel =
  k_ReadFile :: "string \<Rightarrow> ('os, string) fallible"
  k_ReadDir :: "string \<Rightarrow> ('os, string list) fallible"
  k_Stat :: "string \<Rightarrow> ('os, unit) fallible"
  k_OpenFile :: "string \<Rightarrow> ('os, unit) fallible"
  k_Start :: "string \<Rightarrow> string list \<Rightarrow> ('os, int) fallible"
  k_Kill :: "int \<Rightarrow> int \<Rightarrow> ('os, errno option) state"
  k_Listen :: "int \<Rightarrow> ('os, unit) fallible"
  k_Dial :: "string \<Rightarrow> ('os, unit) fallible"

text \<open>The environment of an agent: the one of any component, the kernel, what everything else on the machine
  does to it before a call, the monotonic clock in nanoseconds, the part of the wall clock below a second, and the
  agent's own environment and pid.\<close>

record ('db, 'os) host_env = "'db env" +
  kernel :: "'os kernel"
  moves :: "nat \<Rightarrow> 'os \<Rightarrow> 'os"
  nano_at :: "nat \<Rightarrow> int"
  frac_at :: "nat \<Rightarrow> nat"
  Getenv :: "string \<Rightarrow> string"
  Getpid :: int

record ('db, 'os) host_world = "'db world" +
  os :: 'os

definition sys ::
  "('db, 'os, 'e) host_env_scheme \<Rightarrow> ('os, 'a) state \<Rightarrow> (('db, 'os, 'm) host_world_scheme, 'a) state"
where
  "sys E m = State (\<lambda>w. case run_state m (moves E (tick w) (os w)) of (r, s) \<Rightarrow> (r, w\<lparr>tick := Suc (tick w), os := s\<rparr>))"

definition now_nano :: "('db, 'os, 'e) host_env_scheme \<Rightarrow> (('db, 'os, 'm) host_world_scheme, int) state" where
  "now_nano E = State (\<lambda>w. (nano_at E (tick w), w\<lparr>tick := Suc (tick w)\<rparr>))"

text \<open>The wall clock in nanoseconds since 1970.\<close>

definition now_wall :: "('db, 'os, 'e) host_env_scheme \<Rightarrow> (('db, 'os, 'm) host_world_scheme, int) state" where
  "now_wall E = State (\<lambda>w.
     (unix_at E (tick w) * 10 ^ 9 + int (frac_at E (tick w) mod 10 ^ 9), w\<lparr>tick := Suc (tick w)\<rparr>))"


section \<open>Process identity\<close>

text \<open>The error of \<open>strconv.ParseUint\<close>; its text is not modelled.\<close>

definition ParseUint_error :: "string \<Rightarrow> error" where
  "ParseUint_error s = Errorf ''strconv.ParseUint: parsing %q'' [ArgS s]"

abbreviation (input) statStartTimeField :: nat where "statStartTimeField \<equiv> 22"

text \<open>The fields of a stat line from the state on, if there is a closing parenthesis with something after it.\<close>

definition after_comm :: "string \<Rightarrow> string list option" where
  "after_comm line =
     (case LastIndexByte line (CHR '')'') of
        None \<Rightarrow> None
      | Some close \<Rightarrow> if close + 2 \<ge> length line then None else Some (Fields (drop (close + 2) line)))"

definition parse_start_time :: "int \<Rightarrow> string \<Rightarrow> error + int" where
  "parse_start_time pid line =
     (case after_comm line of
        None \<Rightarrow> Inl (Errorf ''malformed stat for pid %d'' [ArgD pid])
      | Some rest \<Rightarrow>
          (let idx = statStartTimeField - 3 in
           if idx \<ge> length rest then
             Inl (Errorf ''stat for pid %d has %d fields after comm, need %d'' [ArgD pid, ArgD (int (length rest)), ArgD (int idx + 1)])
           else (case ParseUint (rest ! idx) of
                   None \<Rightarrow> Inl (Errorf ''parse start time for pid %d: %w'' [ArgD pid, ArgE (ParseUint_error (rest ! idx))])
                 | Some ticks \<Rightarrow> Inr ticks)))"

definition stat_path :: "int \<Rightarrow> string" where
  "stat_path pid = Sprintf ''/proc/%d/stat'' [ArgD pid]"

definition ProcessStartTime ::
  "('db, 'os, 'e) host_env_scheme \<Rightarrow> int \<Rightarrow> (('db, 'os, 'm) host_world_scheme, int) fallible"
where
  "ProcessStartTime E pid =
     (if pid \<le> 0 then throw (Errorf ''invalid pid %d'' [ArgD pid]) else
      on_error (sys E (k_ReadFile (kernel E) (stat_path pid)))
        (\<lambda>e. throw (Errorf ''read stat for pid %d: %w'' [ArgD pid, ArgE e]))
        (\<lambda>data. State_Monad.return (parse_start_time pid data)))"

definition PIDAlive ::
  "('db, 'os, 'e) host_env_scheme \<Rightarrow> int \<Rightarrow> (('db, 'os, 'm) host_world_scheme, bool) state"
where
  "PIDAlive E pid =
     (if pid \<le> 0 then State_Monad.return False else do {
        err \<leftarrow> sys E (k_Kill (kernel E) pid 0);
        State_Monad.return (case err of None \<Rightarrow> True | Some e \<Rightarrow> e = EPERM) })"

definition IsSameProcess ::
  "('db, 'os, 'e) host_env_scheme \<Rightarrow> int \<Rightarrow> int \<Rightarrow> (('db, 'os, 'm) host_world_scheme, bool) state"
where
  "IsSameProcess E pid wantStartTime =
     (if pid \<le> 0 \<or> wantStartTime = 0 then State_Monad.return False else do {
        alive \<leftarrow> PIDAlive E pid;
        if \<not> alive then State_Monad.return False else
        on_error (ProcessStartTime E pid)
          (\<lambda>e. State_Monad.return False)
          (\<lambda>got. State_Monad.return (got = wantStartTime)) })"



section \<open>The documented behaviour\<close>

text \<open>A process: start time, user and system time in clock ticks, its group and its initial environment.\<close>

record proc =
  pr_start :: int
  pr_utime :: int
  pr_stime :: int
  pr_group :: int
  pr_environ :: "string list"

text \<open>\<open>proc(5)\<close>: the pid, the command in parentheses (any bytes), and from field 3 on words separated by blanks.\<close>

definition stat_line :: "int \<Rightarrow> string \<Rightarrow> string list \<Rightarrow> string" where
  "stat_line pid comm ws = Itoa pid @ '' ('' @ comm @ '') '' @ unwords ws @ newline"

definition stat_words :: "proc \<Rightarrow> string list \<Rightarrow> bool" where
  "stat_words p ws \<longleftrightarrow> list_all plain_word ws \<and> 19 < length ws \<and>
     ws ! 11 = Itoa (pr_utime p) \<and> ws ! 12 = Itoa (pr_stime p) \<and> ws ! 19 = Itoa (pr_start p)"

definition environ_path :: "int \<Rightarrow> string" where
  "environ_path pid = ''/proc/'' @ Itoa pid @ ''/environ''"

definition environ_text :: "string list \<Rightarrow> string" where
  "environ_text es = concat (map (\<lambda>e. e @ [CHR 0x00]) es)"

text \<open>
  The contract: a process has its stat line and, unless access is denied, its environment under \<open>/proc\<close>, which
  is empty until the program is loaded; signal 0 probes for existence; other signals end at most members of the group they are sent to; a started process
  has a fresh pid, leads its own group and carries the given environment; the remaining calls leave the
  process table alone.
\<close>

locale unix_kernel =
  fixes K :: "'os kernel" and procs :: "'os \<Rightarrow> int \<Rightarrow> proc option"
  assumes pid_positive: "procs s pid = Some p \<Longrightarrow> 0 < pid \<and> in_int64 pid"
    and times_typed: "procs s pid = Some p \<Longrightarrow> in_uint64 (pr_start p) \<and> in_uint64 (pr_utime p) \<and> in_uint64 (pr_stime p)"
    and stat_file: "procs s pid = Some p \<Longrightarrow>
      \<exists>comm ws. fst (run_state (k_ReadFile K (stat_path pid)) s) = Inr (stat_line pid comm ws) \<and> stat_words p ws"
    and stat_missing: "procs s pid = None \<Longrightarrow> isl (fst (run_state (k_ReadFile K (stat_path pid)) s))"
    and environ_file: "fst (run_state (k_ReadFile K (environ_path pid)) s) = Inr data \<Longrightarrow>
      \<exists>p. procs s pid = Some p \<and> (data = environ_text (pr_environ p) \<or> data = [])"
    and proc_dir: "fst (run_state (k_ReadDir K ''/proc'') s) = Inr names \<Longrightarrow>
      {pid. Some pid \<in> Atoi ` set names} = dom (procs s)"
    and probe: "0 < pid \<Longrightarrow> run_state (k_Kill K pid 0) s = (r, s') \<Longrightarrow>
      procs s' = procs s \<and> (if procs s pid = None then r = Some ESRCH else r = None \<or> r = Some EPERM)"
    and signal_group: "0 < g \<Longrightarrow> run_state (k_Kill K (- g) sig) s = (r, s') \<Longrightarrow>
      procs s' pid = procs s pid \<or> procs s' pid = None \<and> (\<exists>p. procs s pid = Some p \<and> pr_group p = g)"
    and start: "run_state (k_Start K path envs) s = (Inr pid, s') \<Longrightarrow>
      procs s pid = None \<and> (\<exists>p. procs s' = (procs s)(pid \<mapsto> p) \<and> pr_environ p = envs \<and> pr_group p = pid \<and> 0 < pr_start p)"
    and start_fails: "run_state (k_Start K path envs) s = (Inl e, s') \<Longrightarrow> procs s' = procs s"
    and looks: "procs (snd (run_state (k_ReadFile K f) s)) = procs s"
      "procs (snd (run_state (k_ReadDir K f) s)) = procs s"
      "procs (snd (run_state (k_Stat K f) s)) = procs s"
      "procs (snd (run_state (k_OpenFile K f) s)) = procs s"
      "procs (snd (run_state (k_Listen K port) s)) = procs s"
      "procs (snd (run_state (k_Dial K f) s)) = procs s"

text \<open>A run in which neither the cluster nor the rest of the machine interferes.\<close>

definition calm :: "('db, 'os, 'e) host_env_scheme \<Rightarrow> bool" where
  "calm E \<longleftrightarrow> quiet E \<and> (\<forall>n s. moves E n s = s)"

lemma calm_quiet [simp]: "calm E \<Longrightarrow> quiet E"
  by (simp add: calm_def)

lemma run_sys_calm:
  "calm E \<Longrightarrow> run_state (sys E m) w = (fst (run_state m (os w)), w\<lparr>tick := Suc (tick w), os := snd (run_state m (os w))\<rparr>)"
  by (simp add: calm_def sys_def split: prod.split)

lemma run_now_nano [simp]: "run_state (now_nano E) w = (nano_at E (tick w), w\<lparr>tick := Suc (tick w)\<rparr>)"
  by (simp add: now_nano_def)

lemma after_comm_stat_line:
  assumes "list_all plain_word ws" "ws \<noteq> []"
  shows "after_comm (stat_line pid comm ws) = Some ws"
proof -
  have "LastIndexByte (stat_line pid comm ws) (CHR '')'') = Some (length (Itoa pid @ '' ('' @ comm))"
    using LastIndexByte_last[of "CHR '')''" "'' '' @ unwords ws @ newline" "Itoa pid @ '' ('' @ comm"] unwords_plain[OF assms(1)]
    by (simp add: stat_line_def newline_def)
  moreover have "drop (length (Itoa pid @ '' ('' @ comm) + 2) (stat_line pid comm ws) = unwords ws @ newline"
    by (simp add: stat_line_def numeral_eq_Suc)
  moreover have "length (Itoa pid @ '' ('' @ comm) + 2 < length (stat_line pid comm ws)"
    by (simp add: stat_line_def newline_def)
  ultimately show ?thesis using assms by (simp add: after_comm_def Fields_unwords)
qed

text \<open>The start time is read correctly whatever the command is called: for a stat line whose command contains
  blanks, parentheses or anything else, the parser delivers field 22.\<close>

theorem parse_start_time_any_comm:
  assumes "stat_words p ws" "in_uint64 (pr_start p)"
  shows "parse_start_time pid (stat_line pid comm ws) = Inr (pr_start p)"
proof -
  have "after_comm (stat_line pid comm ws) = Some ws"
    using assms(1) by (intro after_comm_stat_line) (auto simp: stat_words_def)
  then show ?thesis using assms by (simp add: parse_start_time_def stat_words_def)
qed

theorem parse_start_time_any_comm_witness:
  "parse_start_time 7 (stat_line 7 '') S 1 (x'' (replicate 19 ''0'' @ [''42''])) = Inr 42"
proof -
  let ?p = "\<lparr>pr_start = 42, pr_utime = 0, pr_stime = 0, pr_group = 7, pr_environ = []\<rparr>"
  have "stat_words ?p (replicate 19 ''0'' @ [''42''])" by code_simp
  then show ?thesis using parse_start_time_any_comm[of ?p "replicate 19 ''0'' @ [''42'']" 7] by (simp add: in_uint64_def)
qed

text \<open>Two processes of the same pid are told apart by their start times.\<close>

definition same_process :: "(int \<Rightarrow> proc option) \<Rightarrow> int \<Rightarrow> int \<Rightarrow> bool" where
  "same_process P pid t \<longleftrightarrow> t \<noteq> 0 \<and> (\<exists>p. P pid = Some p \<and> pr_start p = t)"

context unix_kernel
begin

text \<open>What a look at the machine leaves as it is.\<close>

definition same_host :: "('db, 'os, 'm) host_world_scheme \<Rightarrow> ('db, 'os, 'm) host_world_scheme \<Rightarrow> bool" where
  "same_host w w' \<longleftrightarrow> db w' = db w \<and> procs (os w') = procs (os w)"

lemma run_look:
  assumes "calm E" "\<And>s. procs (snd (run_state m s)) = procs s"
  shows "\<exists>w'. run_state (sys E m) w = (fst (run_state m (os w)), w') \<and> same_host w w'"
  using assms by (simp add: run_sys_calm same_host_def)

lemma run_ProcessStartTime:
  assumes "calm E" "kernel E = K" "procs (os w) pid = Some p"
  shows "\<exists>w'. run_state (ProcessStartTime E pid) w = (Inr (pr_start p), w') \<and> same_host w w'"
proof -
  obtain comm ws where f: "fst (run_state (k_ReadFile K (stat_path pid)) (os w)) = Inr (stat_line pid comm ws)" "stat_words p ws"
    using stat_file[OF assms(3)] by blast
  have "parse_start_time pid (stat_line pid comm ws) = Inr (pr_start p)"
  proof -
    have "after_comm (stat_line pid comm ws) = Some ws"
      using f(2) by (intro after_comm_stat_line) (auto simp: stat_words_def)
    then show ?thesis using f(2) times_typed[OF assms(3)] by (simp add: parse_start_time_def stat_words_def)
  qed
  then show ?thesis
    using f(1) pid_positive[OF assms(3)] assms(1,2)
    by (simp add: ProcessStartTime_def run_on_error run_sys_calm same_host_def looks)
qed

lemma run_PIDAlive:
  assumes "calm E" "kernel E = K"
  shows "\<exists>w'. run_state (PIDAlive E pid) w = (procs (os w) pid \<noteq> None, w') \<and> same_host w w'"
proof (cases "0 < pid")
  case True
  obtain r s' where k: "run_state (k_Kill K pid 0) (os w) = (r, s')" by fastforce
  from probe[OF True k] show ?thesis
    using True assms k by (auto simp: PIDAlive_def run_sys_calm same_host_def split: if_splits)
next
  case False
  then have "procs (os w) pid = None" using pid_positive[of "os w" pid] by (cases "procs (os w) pid") auto
  then show ?thesis using False by (simp add: PIDAlive_def same_host_def)
qed

lemma run_IsSameProcess:
  assumes "calm E" "kernel E = K"
  shows "\<exists>w'. run_state (IsSameProcess E pid t) w = (same_process (procs (os w)) pid t, w') \<and> same_host w w'"
proof -
  obtain w1 where a: "run_state (PIDAlive E pid) w = (procs (os w) pid \<noteq> None, w1)" "same_host w w1"
    using run_PIDAlive[OF assms] by blast
  show ?thesis
  proof (cases "pid \<le> 0 \<or> t = 0")
    case True
    then have "\<not> same_process (procs (os w)) pid t" using pid_positive[of "os w" pid] by (auto simp: same_process_def)
    then show ?thesis using True by (simp add: IsSameProcess_def same_host_def)
  next
    case False
    show ?thesis
    proof (cases "procs (os w) pid")
      case None
      then show ?thesis using a False by (auto simp: IsSameProcess_def same_process_def)
    next
      case (Some p)
      then have "procs (os w1) pid = Some p" using a(2) by (simp add: same_host_def)
      from run_ProcessStartTime[OF assms this] obtain w2 where "run_state (ProcessStartTime E pid) w1 = (Inr (pr_start p), w2)" "same_host w1 w2" by blast
      then show ?thesis
        using a False Some by (auto simp: IsSameProcess_def same_process_def same_host_def run_on_error)
    qed
  qed
qed

end

text \<open>A recorded process is recognised exactly: with nothing else happening, the check answers yes if and only if
  a process with that pid exists whose start time is the recorded one and not zero; a recycled pid is
  never taken for the recorded process.\<close>

theorem IsSameProcess_exact:
  assumes "unix_kernel (kernel E) procs" "calm E"
  shows "\<exists>w'. run_state (IsSameProcess E pid t) w = (same_process (procs (os w)) pid t, w') \<and>
    db w' = db w \<and> procs (os w') = procs (os w)"
  using unix_kernel.run_IsSameProcess[OF assms(1,2) refl] unix_kernel.same_host_def[OF assms(1)] by metis


section \<open>A machine that meets the contract\<close>

text \<open>The process table as an association list, a clock for start times, the files that can be executed and the
  ports that are taken.\<close>

record machine =
  ma_procs :: "(int \<times> proc) list"
  ma_ticks :: nat
  ma_files :: "string list"
  ma_ports :: "int list"

definition proc_ok :: "int \<Rightarrow> proc \<Rightarrow> bool" where
  "proc_ok pid p \<longleftrightarrow> 0 < pid \<and> in_int64 pid \<and> in_uint64 (pr_start p) \<and> in_uint64 (pr_utime p) \<and> in_uint64 (pr_stime p)"

definition ma_table :: "machine \<Rightarrow> (int \<times> proc) list" where
  "ma_table m = filter (\<lambda>(pid, p). proc_ok pid p) (ma_procs m)"

definition ma_view :: "machine \<Rightarrow> int \<Rightarrow> proc option" where
  "ma_view m = map_of (ma_table m)"

text \<open>The command name has a blank and parentheses in it.\<close>

definition ma_stat :: "int \<Rightarrow> proc \<Rightarrow> string" where
  "ma_stat pid p = stat_line pid ''a (b) c'' (replicate 11 ''0'' @ [Itoa (pr_utime p), Itoa (pr_stime p)] @ replicate 6 ''0'' @ [Itoa (pr_start p)])"

definition ma_read :: "string \<Rightarrow> machine \<Rightarrow> error + string" where
  "ma_read f m =
     (case find (\<lambda>(pid, p). stat_path pid = f) (ma_table m) of
        Some (pid, p) \<Rightarrow> Inr (ma_stat pid p)
      | None \<Rightarrow>
          (case find (\<lambda>(pid, p). environ_path pid = f) (ma_table m) of
             Some (pid, p) \<Rightarrow> Inr (environ_text (pr_environ p))
           | None \<Rightarrow> Inl (Errorf ''open %s: no such file or directory'' [ArgS f])))"

definition ma_start :: "string \<Rightarrow> string list \<Rightarrow> machine \<Rightarrow> (error + int) \<times> machine" where
  "ma_start path envs m =
     (let pid = 1 + foldr max (map fst (ma_procs m)) 0;
          t = int (ma_ticks m) + 1
      in if path \<in> set (ma_files m) \<and> in_int64 pid \<and> in_uint64 t
         then (Inr pid, m\<lparr>ma_ticks := Suc (ma_ticks m), ma_procs :=
                (pid, \<lparr>pr_start = t, pr_utime = 0, pr_stime = 0, pr_group = pid, pr_environ = envs\<rparr>) # ma_procs m\<rparr>)
         else (Inl (Errorf ''fork/exec %s'' [ArgS path]), m))"

definition ma_kill :: "int \<Rightarrow> int \<Rightarrow> machine \<Rightarrow> errno option \<times> machine" where
  "ma_kill pid sig m =
     (if 0 < pid then (if pid \<in> fst ` set (ma_table m) then (if sig = 0 then None else Some EINVAL) else Some ESRCH, m)
      else if sig = 0 \<or> \<not> (\<exists>x \<in> set (ma_table m). pr_group (snd x) = - pid) then (Some ESRCH, m)
      else (None, m\<lparr>ma_procs := filter (\<lambda>x. map_option pr_group (ma_view m (fst x)) \<noteq> Some (- pid)) (ma_procs m)\<rparr>))"

definition ma_kernel :: "machine kernel" where
  "ma_kernel =
     \<lparr>k_ReadFile = (\<lambda>f. State (\<lambda>m. (ma_read f m, m))),
      k_ReadDir = (\<lambda>f. State (\<lambda>m. (Inr (''self'' # map (\<lambda>(pid, p). Itoa pid) (ma_table m)), m))),
      k_Stat = (\<lambda>f. State (\<lambda>m. (if f \<in> set (ma_files m) then Inr () else Inl (Errorf ''stat %s'' [ArgS f]), m))),
      k_OpenFile = (\<lambda>f. ok ()),
      k_Start = (\<lambda>path envs. State (ma_start path envs)),
      k_Kill = (\<lambda>pid sig. State (ma_kill pid sig)),
      k_Listen = (\<lambda>port. State (\<lambda>m. (if port \<in> set (ma_ports m) then Inl (Errorf ''address already in use'' []) else Inr (), m))),
      k_Dial = (\<lambda>a. ok ())\<rparr>"

lemma stat_path_text: "stat_path pid = ''/proc/'' @ Itoa pid @ ''/stat''"
  by (simp add: stat_path_def Sprintf_def)

lemma proc_paths:
  "stat_path p = stat_path q \<longleftrightarrow> p = q" "environ_path p = environ_path q \<longleftrightarrow> p = q" "stat_path p \<noteq> environ_path q"
proof -
  show "stat_path p = stat_path q \<longleftrightarrow> p = q" "environ_path p = environ_path q \<longleftrightarrow> p = q"
    by (simp_all add: stat_path_text environ_path_def)
  have "last (stat_path p) \<noteq> last (environ_path q)" by (simp add: stat_path_text environ_path_def)
  then show "stat_path p \<noteq> environ_path q" by metis
qed

lemma find_map_of: "find (\<lambda>(q, p). q = k) xs = map_option (Pair k) (map_of xs k)"
  by (induction xs) auto

lemma find_none_const: "find (\<lambda>(q, p). False) xs = None"
  by (induction xs) auto

lemma ma_read_paths:
  "ma_read (stat_path pid) m = (case ma_view m pid of Some p \<Rightarrow> Inr (ma_stat pid p) | None \<Rightarrow> Inl (Errorf ''open %s: no such file or directory'' [ArgS (stat_path pid)]))"
  "ma_read (environ_path pid) m = (case ma_view m pid of Some p \<Rightarrow> Inr (environ_text (pr_environ p)) | None \<Rightarrow> Inl (Errorf ''open %s: no such file or directory'' [ArgS (environ_path pid)]))"
  by (simp_all add: ma_read_def ma_view_def proc_paths proc_paths(3)[symmetric] find_map_of find_none_const split: option.split)

lemma ma_view_ok: "ma_view m pid = Some p \<Longrightarrow> proc_ok pid p"
  by (auto simp: ma_view_def ma_table_def dest!: map_of_SomeD)

lemma ma_view_None: "ma_view m pid = None \<longleftrightarrow> pid \<notin> fst ` set (ma_table m)"
  by (simp add: ma_view_def map_of_eq_None_iff)

lemma fresh_pid: "pid \<in> set xs \<Longrightarrow> pid \<le> foldr max xs (0::int)" "0 \<le> foldr max xs (0::int)"
  by (induction xs) auto

lemma map_of_filter_fst: "map_of (filter (\<lambda>x. Q (fst x)) xs) k = (if Q k then map_of xs k else None)"
  by (induction xs) auto

lemma ma_view_drop:
  "ma_view (m\<lparr>ma_procs := filter (\<lambda>x. Q (fst x)) (ma_procs m)\<rparr>) k = (if Q k then ma_view m k else None)"
proof -
  have "filter (\<lambda>(q, p). proc_ok q p) (filter (\<lambda>x. Q (fst x)) (ma_procs m)) =
    filter (\<lambda>x. Q (fst x)) (filter (\<lambda>(q, p). proc_ok q p) (ma_procs m))"
    by (simp add: conj_commute)
  then show ?thesis by (simp add: ma_view_def ma_table_def map_of_filter_fst del: filter_filter)
qed

lemma ma_kill_group:
  assumes "0 < g"
  shows "ma_view (snd (ma_kill (- g) sig m)) pid = ma_view m pid \<or>
    ma_view (snd (ma_kill (- g) sig m)) pid = None \<and> (\<exists>p. ma_view m pid = Some p \<and> pr_group p = g)"
proof -
  let ?Q = "\<lambda>q. map_option pr_group (ma_view m q) \<noteq> Some g"
  have "snd (ma_kill (- g) sig m) = m \<or> snd (ma_kill (- g) sig m) = m\<lparr>ma_procs := filter (\<lambda>x. ?Q (fst x)) (ma_procs m)\<rparr>"
    using assms by (simp add: ma_kill_def)
  then show ?thesis using ma_view_drop[of ?Q m pid] by (cases "?Q pid") auto
qed

lemma ma_start_fresh:
  assumes "ma_start path envs m = (Inr pid, m')"
  shows "ma_view m pid = None \<and>
    (\<exists>p. ma_view m' = (ma_view m)(pid \<mapsto> p) \<and> pr_environ p = envs \<and> pr_group p = pid \<and> 0 < pr_start p)"
proof -
  have "pid \<notin> fst ` set (ma_table m)" "0 < pid" "in_int64 pid"
    using assms fresh_pid(1)[of pid "map fst (ma_procs m)"] fresh_pid(2)[of "map fst (ma_procs m)"]
    by (auto simp: ma_start_def ma_table_def Let_def split: if_splits)
  moreover obtain p where "ma_procs m' = (pid, p) # ma_procs m" "proc_ok pid p"
    "pr_environ p = envs \<and> pr_group p = pid \<and> 0 < pr_start p"
    using assms \<open>0 < pid\<close> by (auto simp: ma_start_def Let_def proc_ok_def in_uint64_def split: if_splits)
  moreover from this have "ma_view m' = (ma_view m)(pid \<mapsto> p)" by (simp add: ma_view_def ma_table_def)
  ultimately show ?thesis unfolding ma_view_None by blast
qed

lemma ma_stat_words:
  "stat_words p (replicate 11 ''0'' @ [Itoa (pr_utime p), Itoa (pr_stime p)] @ replicate 6 ''0'' @ [Itoa (pr_start p)])"
proof -
  have "plain_word ''0''" by code_simp
  then show ?thesis by (simp add: stat_words_def plain_word_Itoa nth_append list_all_iff)
qed

interpretation mach: unix_kernel ma_kernel ma_view
proof
  fix s pid p
  assume p: "ma_view s pid = Some p"
  from ma_view_ok[OF p] show "0 < pid \<and> in_int64 pid" "in_uint64 (pr_start p) \<and> in_uint64 (pr_utime p) \<and> in_uint64 (pr_stime p)"
    by (simp_all add: proc_ok_def)
  show "\<exists>comm ws. fst (run_state (k_ReadFile ma_kernel (stat_path pid)) s) = Inr (stat_line pid comm ws) \<and> stat_words p ws"
    using p ma_stat_words[of p] by (auto simp: ma_kernel_def ma_read_paths ma_stat_def)
next
  fix s pid
  assume "ma_view s pid = None"
  then show "isl (fst (run_state (k_ReadFile ma_kernel (stat_path pid)) s))" by (simp add: ma_kernel_def ma_read_paths)
next
  fix s pid data
  assume "fst (run_state (k_ReadFile ma_kernel (environ_path pid)) s) = Inr data"
  then show "\<exists>p. ma_view s pid = Some p \<and> (data = environ_text (pr_environ p) \<or> data = [])"
    by (auto simp: ma_kernel_def ma_read_paths split: option.splits)
next
  fix s names
  assume "fst (run_state (k_ReadDir ma_kernel ''/proc'') s) = Inr names"
  then have n: "names = ''self'' # map (\<lambda>(pid, p). Itoa pid) (ma_table s)" by (simp add: ma_kernel_def)
  have "Atoi ''self'' = None" by code_simp
  moreover have "(q, p) \<in> set (ma_table s) \<Longrightarrow> Atoi (Itoa q) = Some q" for q p
    by (auto simp: ma_table_def proc_ok_def)
  ultimately have "Some pid \<in> Atoi ` set names \<longleftrightarrow> pid \<in> fst ` set (ma_table s)" for pid
    by (force simp: n image_iff)
  then show "{pid. Some pid \<in> Atoi ` set names} = dom (ma_view s)" by (simp add: ma_view_def dom_map_of_conv_image_fst)
next
  fix pid s r s'
  assume "0 < pid" "run_state (k_Kill ma_kernel pid 0) s = (r, s')"
  then show "ma_view s' = ma_view s \<and> (if ma_view s pid = None then r = Some ESRCH else r = None \<or> r = Some EPERM)"
    by (cases "pid \<in> fst ` set (ma_table s)") (simp_all add: ma_kernel_def ma_kill_def ma_view_None)
next
  fix g sig s r s' pid
  assume "0 < g" "run_state (k_Kill ma_kernel (- g) sig) s = (r, s')"
  then show "ma_view s' pid = ma_view s pid \<or> ma_view s' pid = None \<and> (\<exists>p. ma_view s pid = Some p \<and> pr_group p = g)"
    using ma_kill_group[of g sig s] by (simp add: ma_kernel_def)
next
  fix path envs s pid s'
  assume "run_state (k_Start ma_kernel path envs) s = (Inr pid, s')"
  then show "ma_view s pid = None \<and> (\<exists>p. ma_view s' = (ma_view s)(pid \<mapsto> p) \<and> pr_environ p = envs \<and> pr_group p = pid \<and> 0 < pr_start p)"
    by (auto simp: ma_kernel_def dest: ma_start_fresh)
next
  fix path envs s e s'
  assume "run_state (k_Start ma_kernel path envs) s = (Inl e, s')"
  then show "ma_view s' = ma_view s" by (auto simp: ma_kernel_def ma_start_def Let_def split: if_splits)
qed (simp_all add: ma_kernel_def)


definition mem_host :: "(mem, machine) host_env" where
  "mem_host = \<lparr>server = mem_redis, fault_at = fault_at mem_env, interfere = interfere mem_env, ctx_done = ctx_done mem_env,
     unix_at = unix_at mem_env, text_time_at = text_time_at mem_env, rand_at = rand_at mem_env, map_order = map_order mem_env,
     kernel = ma_kernel, moves = (\<lambda>_ s. s), nano_at = (\<lambda>n. int n * 10 ^ 9), frac_at = (\<lambda>_. 0), Getenv = (\<lambda>_. []), Getpid = 1\<rparr>"

lemma mem_host_simps [simp]: "server mem_host = mem_redis" "quiet mem_host" "kernel mem_host = ma_kernel" "calm mem_host"
  by (simp_all add: mem_host_def mem_env_def quiet_def calm_def)

lemma mem_host_guarded [simp]: "guarded mem_redis mem_view mem_host I"
  by unfold_locales (simp_all add: mem_host_def mem_env_def)

text \<open>A machine with one process, pid 7, started at tick 42, and one executable.\<close>

definition demo_machine :: machine where
  "demo_machine = \<lparr>ma_procs = [(7, \<lparr>pr_start = 42, pr_utime = 10, pr_stime = 5, pr_group = 7, pr_environ = []\<rparr>)],
     ma_ticks = 42, ma_files = [''/bin/web''], ma_ports = [20000]\<rparr>"

definition on_machine :: "mem \<Rightarrow> (mem, machine) host_world" where
  "on_machine d = \<lparr>db = d, tick = 0, os = demo_machine\<rparr>"

lemma on_machine_simps [simp]: "db (on_machine d) = d" "os (on_machine d) = demo_machine"
  by (simp_all add: on_machine_def)

lemma demo_process:
  "ma_view demo_machine 7 = Some \<lparr>pr_start = 42, pr_utime = 10, pr_stime = 5, pr_group = 7, pr_environ = []\<rparr>"
  by (simp add: ma_view_def ma_table_def demo_machine_def proc_ok_def in_int64_def in_uint64_def)

theorem IsSameProcess_exact_witness:
  "fst (run_state (IsSameProcess mem_host 7 42) (on_machine [])) \<and> \<not> fst (run_state (IsSameProcess mem_host 7 41) (on_machine []))"
  using IsSameProcess_exact[of mem_host ma_view 7 42 "on_machine []"] IsSameProcess_exact[of mem_host ma_view 7 41 "on_machine []"]
    mach.unix_kernel_axioms by (auto simp: same_process_def demo_process)

end
