(* ===== verification/Supervisor.thy ===== *)
theory Supervisor
  imports Host Replica
begin

text \<open>
  \<open>internal/supervisor/spawn.go\<close> and \<open>consumer.go\<close>: the agent's side of a pod. Starting its process and recording
  the process identity, choosing a host port, stopping the process, and carrying out the commands
  that the control plane queues for the node.
\<close>


section \<open>Environment of a workload\<close>

abbreviation (input) PodIDEnv :: string where "PodIDEnv \<equiv> ''MINIK8S_POD_ID''"
abbreviation (input) DeploymentEnv :: string where "DeploymentEnv \<equiv> ''MINIK8S_DEPLOYMENT''"
abbreviation (input) NodeIDEnv :: string where "NodeIDEnv \<equiv> ''MINIK8S_NODE_ID''"
abbreviation (input) PortEnv :: string where "PortEnv \<equiv> ''PORT''"

abbreviation (input) minHostPort :: int where "minHostPort \<equiv> 20000"
abbreviation (input) maxHostPort :: int where "maxHostPort \<equiv> 60000"
abbreviation (input) portScanLimit :: nat where "portScanLimit \<equiv> 512"

abbreviation (input) stopGrace :: int where "stopGrace \<equiv> 5 * 10 ^ 9"

record Supervisor =
  sv_logger :: Logger
  sv_nodeID :: string

definition NewSupervisor :: "Logger \<Rightarrow> string \<Rightarrow> Supervisor" where
  "NewSupervisor l nodeID = \<lparr>sv_logger = l, sv_nodeID = nodeID\<rparr>"

definition envOrDefault :: "('db, 'os, 'e) host_env_scheme \<Rightarrow> string \<Rightarrow> string \<Rightarrow> string" where
  "envOrDefault E key fallback = (let v = Getenv E key in if v \<noteq> [] then v else fallback)"

definition workload_env ::
  "('db, 'os, 'e) host_env_scheme \<Rightarrow> Supervisor \<Rightarrow> DeploymentSpec \<Rightarrow> PodSpec \<Rightarrow> int \<Rightarrow> string list"
where
  "workload_env E s dep pod hostPort =
     [''PATH='' @ envOrDefault E ''PATH'' ''/usr/local/bin:/usr/bin:/bin'',
      ''HOME='' @ envOrDefault E ''HOME'' ''/tmp'',
      PodIDEnv @ ''='' @ p_PodID pod,
      DeploymentEnv @ ''='' @ d_Name dep,
      NodeIDEnv @ ''='' @ sv_nodeID s,
      PortEnv @ ''='' @ Itoa hostPort]"

abbreviation (input) pod_ids :: "Supervisor \<Rightarrow> string \<Rightarrow> string \<Rightarrow> KeyValue list" where
  "pod_ids s deployment podID \<equiv> [DeploymentID deployment, PodID podID, NodeID (sv_nodeID s)]"


section \<open>Ending a process\<close>

text \<open>The polling loop: \<open>Some True\<close> when the process is seen to be gone, \<open>Some False\<close> when the grace period is over.
  On a clock that stands still the loop does not end, which \<open>terminate\<close> marks with \<open>NeverReturns\<close>.\<close>

partial_function (option) terminate_loop ::
  "('db, 'os, 'e) host_env_scheme \<Rightarrow> int \<Rightarrow> int \<Rightarrow> ('db, 'os, 'm) host_world_scheme \<Rightarrow>
   (bool \<times> ('db, 'os, 'm) host_world_scheme) option"
where
  "terminate_loop E pid deadline w =
     (case run_state (now_nano E) w of
        (now, w1) \<Rightarrow>
          if now < deadline then
            (case run_state (PIDAlive E pid) w1 of
               (alive, w2) \<Rightarrow> if \<not> alive then Some (True, w2) else terminate_loop E pid deadline w2)
          else Some (False, w1))"

definition terminate ::
  "('db, 'os, 'e) host_env_scheme \<Rightarrow> int \<Rightarrow> (('db, 'os, 'm) host_world_scheme, unit) fallible"
where
  "terminate E pid =
     (if pid \<le> 0 then ok () else do {
        sys E (k_Kill (kernel E) (- pid) SIGTERM);
        now \<leftarrow> now_nano E;
        gone \<leftarrow> State (\<lambda>w. case terminate_loop E pid (now + stopGrace) w of
                               None \<Rightarrow> (Inl NeverReturns, w) | Some (b, w') \<Rightarrow> (Inr b, w'));
        case gone of
          Inl e \<Rightarrow> throw e
        | Inr True \<Rightarrow> ok ()
        | Inr False \<Rightarrow> do { sys E (k_Kill (kernel E) (- pid) SIGKILL); ok () } })"


section \<open>Host ports\<close>

definition portFree :: "('db, 'os, 'e) host_env_scheme \<Rightarrow> int \<Rightarrow> (('db, 'os, 'm) host_world_scheme, bool) state" where
  "portFree E port =
     on_error (sys E (k_Listen (kernel E) port)) (\<lambda>e. State_Monad.return False) (\<lambda>_. State_Monad.return True)"

text \<open>The map of claimed ports is the list of its keys.\<close>

definition claimedPorts_body ::
  "('db, 'e) env_scheme \<Rightarrow> string \<Rightarrow> string \<Rightarrow> int list \<Rightarrow> (('db, 'm) world_scheme, (int list, error + int list) flow) state"
where
  "claimedPorts_body E nodeID key claimed =
     on_error (HashGet E key)
       (\<lambda>e. State_Monad.return (Next claimed))
       (\<lambda>fs.
         if fs = [] then State_Monad.return (Next claimed)
         else if mget fs FieldPodNodeID \<noteq> nodeID then State_Monad.return (Next claimed)
         else State_Monad.return (Next
           (case Atoi (mget fs FieldPodHostPort) of
              Some port \<Rightarrow> if port > 0 then port # claimed else claimed
            | None \<Rightarrow> claimed)))"

definition claimedPorts ::
  "('db, 'e) env_scheme \<Rightarrow> Supervisor \<Rightarrow> (('db, 'm) world_scheme, int list) fallible"
where
  "claimedPorts E s =
     on_error (ScanKeys E PodKeyPattern)
       (\<lambda>e. throw (Errorf ''scan pods: %w'' [ArgE e]))
       (\<lambda>keys. loop (claimedPorts_body E (sv_nodeID s)) keys [] (\<lambda>claimed. ok claimed))"

definition candidate_ports :: "int \<Rightarrow> int list" where
  "candidate_ports preferred =
     (if preferred \<ge> minHostPort \<and> preferred \<le> maxHostPort then [preferred]
      else if preferred > 0 then [minHostPort + preferred mod 1000]
      else []) @ map (\<lambda>i. minHostPort + int i) [0..<portScanLimit]"

definition try_port ::
  "('db, 'os, 'e) host_env_scheme \<Rightarrow> int list \<Rightarrow> int \<Rightarrow> unit \<Rightarrow> (('db, 'os, 'm) host_world_scheme, (unit, error + int) flow) state"
where
  "try_port E claimed port u =
     (if port < minHostPort \<or> port > maxHostPort \<or> port \<in> set claimed then State_Monad.return (Next ()) else do {
        free \<leftarrow> portFree E port;
        if \<not> free then State_Monad.return (Next ()) else State_Monad.return (Return (Inr port)) })"

definition allocateHostPort ::
  "('db, 'os, 'e) host_env_scheme \<Rightarrow> Supervisor \<Rightarrow> int \<Rightarrow> (('db, 'os, 'm) host_world_scheme, int) fallible"
where
  "allocateHostPort E s preferred =
     attempt (claimedPorts E s) (\<lambda>claimed.
       loop (try_port E claimed) (candidate_ports preferred) ()
         (\<lambda>_. throw (Errorf ''no free host port in range %d-%d'' [ArgD minHostPort, ArgD (minHostPort + int portScanLimit)])))"


section \<open>Starting a pod\<close>

definition launch ::
  "('db, 'os, 'e) host_env_scheme \<Rightarrow> Supervisor \<Rightarrow> DeploymentSpec \<Rightarrow> PodSpec \<Rightarrow> string \<Rightarrow> int \<Rightarrow>
   (('db, 'os, 'm) host_world_scheme, unit) fallible"
where
  "launch E s dep pod podKey hostPort =
     on_error (sys E (k_Stat (kernel E) (d_ExecPath dep)))
       (\<lambda>e. throw (Errorf ''exec path %s is not usable: %w'' [ArgS (d_ExecPath dep), ArgE e]))
       (\<lambda>_. on_error (sys E (k_OpenFile (kernel E) ''/dev/null''))
       (\<lambda>e. throw (Errorf ''open %s: %w'' [ArgS ''/dev/null'', ArgE e]))
       (\<lambda>_. on_error (sys E (k_Start (kernel E) (d_ExecPath dep) (workload_env E s dep pod hostPort)))
       (\<lambda>e. throw (Errorf ''start %s: %w'' [ArgS (d_ExecPath dep), ArgE e]))
       (\<lambda>pid. on_error (ProcessStartTime E pid)
       (\<lambda>e. throw (Errorf ''process %d exited immediately after start: %w'' [ArgD pid, ArgE e]))
       (\<lambda>startTime. do {
          now \<leftarrow> now_unix E;
          on_error (HashSet E podKey
              [(FieldPodPID, VInt pid), (FieldPodPIDStartTime, VInt startTime), (FieldPodHostPort, VInt hostPort),
               (FieldPodStartedAt, VStr (Itoa now)), (FieldPodStatus, VStr StatusRunning)])
            (\<lambda>e. attempt (terminate E pid) (\<lambda>_. throw (Errorf ''record identity for pid %d: %w'' [ArgD pid, ArgE e])))
            (\<lambda>_. do {
               Info E (sv_logger s) ''pod_started''
                 (Sprintf ''spawned %s as pid %d on port %d'' [ArgS (d_ExecPath dep), ArgD pid, ArgD hostPort])
                 (pod_ids s (d_Name dep) (p_PodID pod));
               ok () }) }))))"

definition markFailedIfSpawnFails ::
  "('db, 'e) env_scheme \<Rightarrow> Supervisor \<Rightarrow> string \<Rightarrow> string \<Rightarrow> string \<Rightarrow> (('db, 'm) world_scheme, unit) fallible \<Rightarrow>
   (('db, 'm) world_scheme, unit) fallible"
where
  "markFailedIfSpawnFails E s podKey deployment podID spawn =
     on_error spawn
       (\<lambda>err. do {
          on_error (HashSet E podKey [(FieldPodStatus, VStr StatusFailed)])
            (\<lambda>setErr. Error E (sv_logger s) ''pod_status_write_failed''
               (Sprintf ''could not mark pod Failed after spawn error: %v'' [ArgE setErr]) (pod_ids s deployment podID))
            (\<lambda>_. State_Monad.return ());
          Error E (sv_logger s) ''pod_spawn_failed'' (Error_text err) (pod_ids s deployment podID);
          throw err })
       (\<lambda>_. ok ())"

text \<open>The two platforms have the same \<open>Spawn\<close> around their own identity check and their own \<open>launch\<close>.\<close>

definition spawn_with where
  "spawn_with same start E s deployment podID =
     on_error (HashGet E (DeploymentKey deployment))
       (\<lambda>e. throw (Errorf ''read deployment %s: %w'' [ArgS deployment, ArgE e]))
       (\<lambda>depFields.
         if depFields = [] then throw (Errorf ''deployment %s no longer exists'' [ArgS deployment]) else
         case MapToDeployment depFields of
           Inl e \<Rightarrow> throw (Errorf ''deployment %s is malformed: %w'' [ArgS deployment, ArgE e])
         | Inr dep \<Rightarrow>
     on_error (HashGet E (PodKey deployment podID))
       (\<lambda>e. throw (Errorf ''read pod %s: %w'' [ArgS podID, ArgE e]))
       (\<lambda>podFields.
         if podFields = [] then throw (Errorf ''pod %s/%s no longer exists'' [ArgS deployment, ArgS podID]) else
         case MapToPod podFields of
           Inl e \<Rightarrow> throw (Errorf ''pod %s/%s is malformed: %w'' [ArgS deployment, ArgS podID, ArgE e])
         | Inr pod \<Rightarrow> do {
             alive \<leftarrow> same (p_PID pod) (p_PIDStartTime pod);
             if alive then do {
               Info E (sv_logger s) ''pod_already_running''
                 (Sprintf ''pid %d is already serving this pod, not spawning a duplicate'' [ArgD (p_PID pod)])
                 (pod_ids s deployment podID);
               ok () }
             else
               on_error (if p_HostPort pod = 0 then allocateHostPort E s (d_Port dep) else ok (p_HostPort pod))
                 (\<lambda>e. throw (Errorf ''allocate host port for %s/%s: %w'' [ArgS deployment, ArgS podID, ArgE e]))
                 (\<lambda>hostPort. markFailedIfSpawnFails E s (PodKey deployment podID) deployment podID
                    (start dep pod (PodKey deployment podID) hostPort)) }))"

definition Spawn ::
  "('db, 'os, 'e) host_env_scheme \<Rightarrow> Supervisor \<Rightarrow> string \<Rightarrow> string \<Rightarrow> (('db, 'os, 'm) host_world_scheme, unit) fallible"
where
  "Spawn E s = spawn_with (IsSameProcess E) (launch E s) E s"


section \<open>Stopping a pod\<close>

definition stop_with where
  "stop_with same kill E s deployment podID =
     on_error (HashGet E (PodKey deployment podID))
       (\<lambda>e. throw (Errorf ''read pod %s: %w'' [ArgS podID, ArgE e]))
       (\<lambda>fs.
         if fs = [] then ok () else
         case MapToPod fs of
           Inl e \<Rightarrow> throw (Errorf ''pod %s/%s is malformed: %w'' [ArgS deployment, ArgS podID, ArgE e])
         | Inr pod \<Rightarrow> do {
             alive \<leftarrow> same (p_PID pod) (p_PIDStartTime pod);
             attempt
               (if alive then attempt (kill (p_PID pod)) (\<lambda>_. do {
                  Info E (sv_logger s) ''pod_stopped'' (Sprintf ''terminated pid %d'' [ArgD (p_PID pod)])
                    (pod_ids s deployment podID);
                  ok () })
                else ok ())
               (\<lambda>_. on_error (HashSet E (PodKey deployment podID) [(FieldPodPID, VInt 0), (FieldPodPIDStartTime, VInt 0)])
                  (\<lambda>e. throw (Errorf ''clear identity for %s/%s: %w'' [ArgS deployment, ArgS podID, ArgE e]))
                  (\<lambda>_. ok ())) })"

definition Stop ::
  "('db, 'os, 'e) host_env_scheme \<Rightarrow> Supervisor \<Rightarrow> string \<Rightarrow> string \<Rightarrow> (('db, 'os, 'm) host_world_scheme, unit) fallible"
where
  "Stop E s = stop_with (IsSameProcess E) (terminate E) E s"


section \<open>Commands\<close>

definition releaseCapacity ::
  "('db, 'e) env_scheme \<Rightarrow> PodSpec \<Rightarrow> (('db, 'm) world_scheme, unit) fallible"
where
  "releaseCapacity E pod = Release E (p_NodeID pod) (p_CPURequest pod) (p_MemRequest pod)"

definition StopAndRemove ::
  "('db, 'os, 'e) host_env_scheme \<Rightarrow> Supervisor \<Rightarrow> string \<Rightarrow> string \<Rightarrow> (('db, 'os, 'm) host_world_scheme, unit) fallible"
where
  "StopAndRemove E s deployment podID =
     on_error (HashGet E (PodKey deployment podID))
       (\<lambda>e. throw (Errorf ''read pod %s: %w'' [ArgS podID, ArgE e]))
       (\<lambda>fs.
         if fs = [] then ok () else
         case MapToPod fs of
           Inl e \<Rightarrow>
             on_error (DeleteKey E [PodKey deployment podID])
               (\<lambda>delErr. throw (Errorf ''delete malformed pod %s: %w'' [ArgS podID, ArgE delErr]))
               (\<lambda>_. ok ())
         | Inr pod \<Rightarrow>
             attempt (Stop E s deployment podID) (\<lambda>_.
             attempt (if ConsumesCapacity (p_Status pod) \<and> p_NodeID pod \<noteq> [] then releaseCapacity E pod else ok ()) (\<lambda>_. do {
               on_error (DeleteKey E [TelemetryCPUKey deployment podID])
                 (\<lambda>e. Warn E (sv_logger s) ''telemetry_cleanup_failed'' (Error_text e) [DeploymentID deployment, PodID podID])
                 (\<lambda>_. State_Monad.return ());
               on_error (DeleteKey E [PodKey deployment podID])
                 (\<lambda>e. throw (Errorf ''delete pod %s: %w'' [ArgS podID, ArgE e]))
                 (\<lambda>_. do {
                    Info E (sv_logger s) ''pod_removed''
                      (Sprintf ''released %dm CPU and %dMB back to the node'' [ArgD (p_CPURequest pod), ArgD (p_MemRequest pod)])
                      (pod_ids s deployment podID);
                    ok () }) })))"

definition handleCommand ::
  "('db, 'os, 'e) host_env_scheme \<Rightarrow> Supervisor \<Rightarrow> Command \<Rightarrow> (('db, 'os, 'm) host_world_scheme, unit) state"
where
  "handleCommand E s cmd =
     (if c_Type cmd = CommandStartPod then
        on_error (Spawn E s (c_Deployment cmd) (c_PodID cmd)) (\<lambda>_. State_Monad.return ()) (\<lambda>_. State_Monad.return ())
      else if c_Type cmd = CommandStopPod then
        on_error (StopAndRemove E s (c_Deployment cmd) (c_PodID cmd))
          (\<lambda>e. Error E (sv_logger s) ''pod_stop_failed'' (Error_text e) (pod_ids s (c_Deployment cmd) (c_PodID cmd)))
          (\<lambda>_. State_Monad.return ())
      else Warn E (sv_logger s) ''command_unknown''
             (Sprintf ''ignoring unrecognized command type %q'' [ArgS (c_Type cmd)]) [NodeID (sv_nodeID s)])"


section \<open>Ending a process always comes to an end\<close>

definition clock_advances :: "('db, 'os, 'e) host_env_scheme \<Rightarrow> bool" where
  "clock_advances E \<longleftrightarrow> (\<forall>m n. m \<le> n \<longrightarrow> nano_at E m \<le> nano_at E n) \<and> (\<forall>t. \<exists>n. t \<le> nano_at E n)"

text \<open>The last call of a run was a probe that did not find the process.\<close>

definition seen_gone :: "'os kernel \<Rightarrow> int \<Rightarrow> 'os \<Rightarrow> bool" where
  "seen_gone K pid t \<longleftrightarrow> (\<exists>s r. run_state (k_Kill K pid 0) s = (r, t) \<and> r \<noteq> None \<and> r \<noteq> Some EPERM)"

lemma run_sys:
  "run_state (sys E m) w = (fst (run_state m (moves E (tick w) (os w))),
     w\<lparr>tick := Suc (tick w), os := snd (run_state m (moves E (tick w) (os w)))\<rparr>)"
  by (simp add: sys_def split: prod.split)

lemma run_PIDAlive_any:
  assumes "0 < pid"
  shows "\<exists>alive w'. run_state (PIDAlive E pid) w = (alive, w') \<and> tick w' = Suc (tick w) \<and>
    (\<not> alive \<longrightarrow> seen_gone (kernel E) pid (os w'))"
proof -
  obtain r t where k: "run_state (k_Kill (kernel E) pid 0) (moves E (tick w) (os w)) = (r, t)" by fastforce
  then have "\<not> (case r of None \<Rightarrow> True | Some e \<Rightarrow> e = EPERM) \<Longrightarrow> seen_gone (kernel E) pid t"
    unfolding seen_gone_def by (auto split: option.splits intro!: exI)
  with k assms show ?thesis by (simp add: PIDAlive_def sys_def)
qed

lemma keeps_db_host [keeps_intros]:
  "keeps (\<lambda>w. db w = d) (sys E m)" "keeps (\<lambda>w. db w = d) (now_nano E)"
  by (simp_all add: keeps_def run_sys)

lemma keeps_db_PIDAlive [keeps_intros]: "keeps (\<lambda>w. db w = d) (PIDAlive E pid)"
  unfolding PIDAlive_def by (intro keeps_intros)

text \<open>The loop ends, and what looking at the clock and probing keep holds afterwards.\<close>

lemma terminate_loop_returns:
  assumes "clock_advances E" "0 < pid" "keeps P (now_nano E)" "keeps P (PIDAlive E pid)" "P w"
  shows "\<exists>b w'. terminate_loop E pid deadline w = Some (b, w') \<and> P w' \<and> (b \<longrightarrow> seen_gone (kernel E) pid (os w'))"
proof -
  obtain N where N: "deadline \<le> nano_at E N" using assms(1) unfolding clock_advances_def by blast
  show ?thesis
    using assms(5)
  proof (induction "N - tick w" arbitrary: w rule: less_induct)
    case less
    define w1 where "w1 = w\<lparr>tick := Suc (tick w)\<rparr>"
    have P1: "P w1" using keepsD[OF assms(3) less.prems] by (simp add: w1_def)
    obtain alive w2 where w2: "run_state (PIDAlive E pid) w1 = (alive, w2)" "tick w2 = Suc (tick w1)"
      "\<not> alive \<longrightarrow> seen_gone (kernel E) pid (os w2)"
      using run_PIDAlive_any[OF assms(2)] by blast
    have P2: "P w2" by (rule keepsE[OF assms(4) P1 w2(1)])
    have step: "terminate_loop E pid deadline w =
      (if nano_at E (tick w) < deadline then (if \<not> alive then Some (True, w2) else terminate_loop E pid deadline w2) else Some (False, w1))"
      by (subst terminate_loop.simps) (simp add: w1_def[symmetric] w2(1))
    show ?case
    proof (cases "nano_at E (tick w) < deadline \<and> alive")
      case True
      then have "tick w < N" using N assms(1) by (meson clock_advances_def leD le_less_trans linorder_not_less order_trans)
      then show ?thesis using less.hyps[OF _ P2] step True w2(2) by (auto simp: w1_def)
    next
      case False
      then show ?thesis using step P1 P2 w2(3) by auto
    qed
  qed
qed

text \<open>C37. Ending a process comes to an end on any machine whose clock advances, whatever else happens on it: the
  call returns, and the last thing it did was to find that the process is gone or to send SIGKILL to
  its group.\<close>

theorem terminate_returns:
  assumes "clock_advances E"
  shows "\<exists>w'. run_state (terminate E pid) w = (Inr (), w') \<and> db w' = db w \<and>
    (0 < pid \<longrightarrow> seen_gone (kernel E) pid (os w') \<or> (\<exists>s. os w' = snd (run_state (k_Kill (kernel E) (- pid) SIGKILL) s)))"
proof (cases "0 < pid")
  case True
  obtain u w1 where w1: "run_state (sys E (k_Kill (kernel E) (- pid) SIGTERM)) w = (u, w1)" "db w1 = db w"
    using run_sys by fastforce
  obtain b w2 where w2: "terminate_loop E pid (nano_at E (tick w1) + stopGrace) (w1\<lparr>tick := Suc (tick w1)\<rparr>) = Some (b, w2)"
    "db w2 = db w1" "b \<longrightarrow> seen_gone (kernel E) pid (os w2)"
    using terminate_loop_returns[OF assms True keeps_db_host(2) keeps_db_PIDAlive, of "w1\<lparr>tick := Suc (tick w1)\<rparr>" "db w1" "nano_at E (tick w1) + stopGrace"]
    by auto
  show ?thesis
  proof (cases b)
    case True
    then show ?thesis using w1 w2 \<open>0 < pid\<close> by (simp add: terminate_def)
  next
    case False
    obtain v w3 where w3: "run_state (sys E (k_Kill (kernel E) (- pid) SIGKILL)) w2 = (v, w3)" "db w3 = db w2"
      "os w3 = snd (run_state (k_Kill (kernel E) (- pid) SIGKILL) (moves E (tick w2) (os w2)))"
      using run_sys by fastforce
    then show ?thesis using w1 w2 \<open>0 < pid\<close> False by (auto simp: terminate_def)
  qed
qed (simp add: terminate_def)

lemma mem_host_clock: "clock_advances mem_host"
proof -
  have "\<exists>n. t \<le> int n * 1000000000" for t by (rule exI[of _ "nat t"]) (cases "0 \<le> t"; simp)
  then show ?thesis by (simp add: clock_advances_def mem_host_def)
qed

theorem terminate_returns_witness:
  "\<exists>w'. run_state (terminate mem_host 7) (on_machine []) = (Inr (), w') \<and>
    (seen_gone ma_kernel 7 (os w') \<or> (\<exists>s. os w' = snd (run_state (k_Kill ma_kernel (- 7) SIGKILL) s)))"
  using terminate_returns[OF mem_host_clock, of 7 "on_machine []"] by auto


section \<open>Host ports: functional behaviour\<close>

text \<open>The documented behaviour of listening on a port: it fails exactly when the port is in use, and closing the
  listener leaves everything as it was.\<close>

locale tcp_ports =
  fixes K :: "'os kernel" and busy :: "'os \<Rightarrow> int set"
  assumes listen: "port \<notin> busy s \<Longrightarrow> run_state (k_Listen K port) s = (Inr (), s)"
    and listen_busy: "port \<in> busy s \<Longrightarrow> \<exists>e. run_state (k_Listen K port) s = (Inl e, s)"

interpretation ma_tcp: tcp_ports ma_kernel "\<lambda>m. set (ma_ports m)"
  by unfold_locales (simp_all add: ma_kernel_def)

text \<open>The ports that the pods of a node have in their records.\<close>

definition claimed_at :: "keyspace \<Rightarrow> string \<Rightarrow> string \<Rightarrow> int set" where
  "claimed_at v nodeID k =
     (if v k \<noteq> None \<and> is_hash v k \<and> (case hash_at v k FieldPodNodeID of None \<Rightarrow> [] | Some n \<Rightarrow> n) = nodeID
      then {port. 0 < port \<and> Atoi (case hash_at v k FieldPodHostPort of None \<Rightarrow> [] | Some x \<Rightarrow> x) = Some port} else {})"

definition claimed_ports :: "keyspace \<Rightarrow> string \<Rightarrow> int set" where
  "claimed_ports v nodeID = (\<Union>k \<in> {k. v k \<noteq> None \<and> glob PodKeyPattern k}. claimed_at v nodeID k)"

context redis_server
begin

lemma run_claimedPorts_body:
  assumes "quiet E" "server E = R"
  shows "\<exists>c' w'. run_state (claimedPorts_body E nodeID k c) w = (Next c', w') \<and> db w' = db w \<and> world.more w' = world.more w \<and>
    set c' = set c \<union> claimed_at (view (db w)) nodeID k"
proof (cases "is_hash (view (db w)) k")
  case True
  obtain fs where "run_state (r_hgetall R k) (db w) = (Inr fs, db w)" "map_of fs = hash_at (view (db w)) k" "fs = [] \<longleftrightarrow> view (db w) k = None"
    using hgetall[OF True] map_of_empty_hash[OF _ True] by metis
  then show ?thesis
    using True assms
    by (auto simp: claimedPorts_body_def run_on_error HashGet_def run_send_quiet claimed_at_def mget_def split: option.splits)
next
  case False
  obtain e where "run_state (r_hgetall R k) (db w) = (Inl e, db w)" using hgetall_wrong[OF False] by blast
  then show ?thesis
    using False assms by (auto simp: claimedPorts_body_def run_on_error HashGet_def run_send_quiet claimed_at_def)
qed

lemma run_claimedPorts:
  assumes "quiet E" "server E = R"
  shows "\<exists>c w'. run_state (claimedPorts E s) w = (Inr c, w') \<and> db w' = db w \<and> world.more w' = world.more w \<and>
    set c = claimed_ports (view (db w)) (sv_nodeID s)"
proof -
  have "plain_pattern PodKeyPattern" by (simp add: plain_pattern_def PodKeyPattern_def)
  from scan_all[OF this] obtain ks where ks: "scan_run R (db w) PodKeyPattern 0 ks"
    "set ks = {k. view (db w) k \<noteq> None \<and> glob PodKeyPattern k}" by blast
  obtain n where n: "run_state (ScanKeys E PodKeyPattern) w = (Inr ks, w\<lparr>tick := n\<rparr>)"
    using scan_loop_quiet[OF assms(1), of w PodKeyPattern 0 ks "[]"] ks(1) assms(2) by (auto simp: ScanKeys_def)
  have "\<exists>c w'. run_state (for_range (claimedPorts_body E (sv_nodeID s)) ks []) (w\<lparr>tick := n\<rparr>) = (Inl c, w') \<and>
    (db w' = db w \<and> world.more w' = world.more w \<and> set c = (\<Union>k \<in> set ks. claimed_at (view (db w)) (sv_nodeID s) k))"
    (is "\<exists>c w'. ?run c w' \<and> ?I ks c w'")
  proof (rule for_range_invariant[where I = ?I])
    fix old k c w1
    assume "?I old c w1"
    moreover obtain c' w' where "run_state (claimedPorts_body E (sv_nodeID s) k c) w1 = (Next c', w')" "db w' = db w1"
      "world.more w' = world.more w1" "set c' = set c \<union> claimed_at (view (db w1)) (sv_nodeID s) k"
      using run_claimedPorts_body[OF assms] by blast
    ultimately show "\<exists>c' w'. run_state (claimedPorts_body E (sv_nodeID s) k c) w1 = (Next c', w') \<and> ?I (old @ [k]) c' w'"
      by (intro exI[of _ c'] exI[of _ w']) auto
  qed simp
  then show ?thesis using n ks(2) by (auto simp: claimedPorts_def run_on_error run_loop claimed_ports_def)
qed

end

definition usable_port :: "keyspace \<Rightarrow> int set \<Rightarrow> string \<Rightarrow> int \<Rightarrow> bool" where
  "usable_port v taken nodeID port \<longleftrightarrow> minHostPort \<le> port \<and> port \<le> maxHostPort \<and> port \<notin> claimed_ports v nodeID \<and> port \<notin> taken"

lemma os_more: "world.more w = world.more w' \<Longrightarrow> os w = os w'"
  by (cases w; cases w') simp

context tcp_ports
begin

lemma run_try_port:
  assumes "calm E" "kernel E = K"
  shows "\<exists>w'. run_state (try_port E claimed port u) w =
      (if minHostPort \<le> port \<and> port \<le> maxHostPort \<and> port \<notin> set claimed \<and> port \<notin> busy (os w) then Return (Inr port) else Next (), w') \<and>
    db w' = db w \<and> os w' = os w"
  using listen[of port "os w"] listen_busy[of port "os w"] assms
  by (cases "port \<in> busy (os w)") (auto simp: try_port_def portFree_def run_on_error run_sys_calm)

lemma run_try_ports:
  assumes "calm E" "kernel E = K"
  shows "\<exists>w'. run_state (for_range (try_port E claimed) ports u) w =
      (case find (\<lambda>port. minHostPort \<le> port \<and> port \<le> maxHostPort \<and> port \<notin> set claimed \<and> port \<notin> busy (os w)) ports of
         None \<Rightarrow> Inl () | Some port \<Rightarrow> Inr (Inr port), w') \<and>
    db w' = db w \<and> os w' = os w"
proof (induction ports arbitrary: u w)
  case (Cons port ports)
  obtain w1 where w1: "run_state (try_port E claimed port u) w =
      (if minHostPort \<le> port \<and> port \<le> maxHostPort \<and> port \<notin> set claimed \<and> port \<notin> busy (os w) then Return (Inr port) else Next (), w1)"
    "db w1 = db w" "os w1 = os w" using run_try_port[OF assms] by blast
  show ?case using Cons.IH[of "()" w1] w1 by simp
qed simp

end

text \<open>A pod gets a port of its own, with nothing else happening: the port that is chosen lies between 20000 and
  60000, no pod of the node has it on record and it can be bound; the declared port is kept if it
  qualifies; and the search gives up only when none of the 512 ports from 20000 on qualifies.\<close>

theorem allocateHostPort_exact:
  fixes E :: "('db, 'os, 'e) host_env_scheme" and w :: "('db, 'os, 'm) host_world_scheme" and s :: Supervisor
  assumes "redis_server (server E) view" "tcp_ports (kernel E) busy" "calm E"
  defines "usable \<equiv> usable_port (view (db w)) (busy (os w)) (sv_nodeID s)"
  shows "\<exists>r w'. run_state (allocateHostPort E s preferred) w = (r, w') \<and> db w' = db w \<and> os w' = os w \<and>
    (\<forall>port. r = Inr port \<longrightarrow> usable port) \<and>
    (usable preferred \<longrightarrow> r = Inr preferred) \<and>
    (isl r \<longrightarrow> (\<forall>port. minHostPort \<le> port \<and> port < minHostPort + 512 \<longrightarrow> \<not> usable port))"
proof -
  obtain c w1 where c: "run_state (claimedPorts E s) w = (Inr c, w1)" "db w1 = db w" "world.more w1 = world.more w"
    "set c = claimed_ports (view (db w)) (sv_nodeID s)"
    using redis_server.run_claimedPorts[OF assms(1) calm_quiet[OF assms(3)] refl] by blast
  have os1: "os w1 = os w" using c(3) by (rule os_more)
  have us: "(\<lambda>port. minHostPort \<le> port \<and> port \<le> maxHostPort \<and> port \<notin> set c \<and> port \<notin> busy (os w)) = usable"
    by (rule ext) (simp add: usable_def usable_port_def c(4) os1)
  obtain w2 where w2: "run_state (for_range (try_port E c) (candidate_ports preferred) ()) w1 =
      (case find usable (candidate_ports preferred) of None \<Rightarrow> Inl () | Some port \<Rightarrow> Inr (Inr port), w2)" "db w2 = db w" "os w2 = os w"
    using tcp_ports.run_try_ports[OF assms(2,3) refl, of c "candidate_ports preferred" "()" w1] unfolding os1 us c(2) by blast
  have cands: "port \<in> set (candidate_ports preferred)" if "minHostPort \<le> port" "port < minHostPort + 512" for port
  proof -
    have "port = minHostPort + int (nat (port - minHostPort))" "nat (port - minHostPort) < 512" using that by auto
    then show ?thesis unfolding candidate_ports_def by (metis (no_types, lifting) UnI2 atLeast0LessThan image_eqI lessThan_iff set_append set_map set_upt)
  qed
  show ?thesis
  proof (cases "find usable (candidate_ports preferred)")
    case None
    have "\<not> usable preferred" using None by (auto simp: find_None_iff candidate_ports_def usable_def usable_port_def)
    moreover have "\<not> usable port" if "minHostPort \<le> port \<and> port < minHostPort + 512" for port
      using None cands that by (auto simp: find_None_iff)
    ultimately show ?thesis using c(1) w2 None by (auto simp: allocateHostPort_def run_on_error run_loop)
  next
    case (Some port)
    have "usable port" using Some by (auto simp: find_Some_iff)
    moreover have "usable preferred \<Longrightarrow> port = preferred"
      using Some by (auto simp: candidate_ports_def usable_def usable_port_def)
    ultimately show ?thesis using c(1) w2 Some by (auto simp: allocateHostPort_def run_on_error run_loop)
  qed
qed

theorem allocateHostPort_exact_witness:
  "\<exists>w'. run_state (allocateHostPort mem_host \<lparr>sv_logger = demo_logger, sv_nodeID = ''n1''\<rparr> 20001) (on_machine []) = (Inr 20001, w')"
proof -
  have "usable_port (mem_view []) (set (ma_ports demo_machine)) ''n1'' 20001"
    by (simp add: usable_port_def claimed_ports_def mem_view_def mem_get_def demo_machine_def)
  then show ?thesis
    using allocateHostPort_exact[of mem_host mem_view "\<lambda>m. set (ma_ports m)" "\<lparr>sv_logger = demo_logger, sv_nodeID = ''n1''\<rparr>" 20001 "on_machine []"]
      mem.redis_server_axioms ma_tcp.tcp_ports_axioms by auto
qed



section \<open>Writing some fields of a pod\<close>

definition patch_pod :: "(string \<times> string) list \<Rightarrow> PodSpec \<Rightarrow> PodSpec" where
  "patch_pod new p =
     (let str = (\<lambda>f old. case map_of new f of Some x \<Rightarrow> x | None \<Rightarrow> old);
          num = (\<lambda>f old. case map_of new f of Some x \<Rightarrow> atoiDefault x 0 | None \<Rightarrow> old)
      in p\<lparr>p_Deployment := str FieldPodDeployment (p_Deployment p), p_PodID := str FieldPodID (p_PodID p),
           p_Status := str FieldPodStatus (p_Status p), p_NodeID := str FieldPodNodeID (p_NodeID p),
           p_CreatedAt := str FieldPodCreatedAt (p_CreatedAt p), p_PID := num FieldPodPID (p_PID p),
           p_StartedAt := str FieldPodStartedAt (p_StartedAt p), p_RestartCount := num FieldPodRestartCount (p_RestartCount p),
           p_ConsecutiveFailures := num FieldPodConsecFailures (p_ConsecutiveFailures p),
           p_LastHealthOKAt := str FieldPodLastHealthOKAt (p_LastHealthOKAt p),
           p_BackoffNextSeconds := num FieldPodBackoffNextSec (p_BackoffNextSeconds p),
           p_LastRestartAt := str FieldPodLastRestartAt (p_LastRestartAt p),
           p_PIDStartTime := (case map_of new FieldPodPIDStartTime of Some x \<Rightarrow> parseUint x | None \<Rightarrow> p_PIDStartTime p),
           p_HostPort := num FieldPodHostPort (p_HostPort p)\<rparr>)"

lemma mget_patch: "mget (new @ fs) f = (case map_of new f of Some x \<Rightarrow> x | None \<Rightarrow> mget fs f)"
  by (auto simp: mget_def map_add_def split: option.splits)

lemma MapToPod_patch:
  assumes "MapToPod fs = Inr p" "map_of new FieldPodCPURequest = None" "map_of new FieldPodMemRequest = None"
  shows "MapToPod (new @ fs) = Inr (patch_pod new p)"
proof -
  have n: "atoiDefault (case z of Some x \<Rightarrow> x | None \<Rightarrow> y) 0 = (case z of Some x \<Rightarrow> atoiDefault x 0 | None \<Rightarrow> atoiDefault y 0)"
    and u: "parseUint (case z of Some x \<Rightarrow> x | None \<Rightarrow> y) = (case z of Some x \<Rightarrow> parseUint x | None \<Rightarrow> parseUint y)" for z y
    by (simp_all split: option.split)
  from assms(1) obtain cpu mem where c: "atoi (mget fs FieldPodCPURequest) = Inr cpu" "atoi (mget fs FieldPodMemRequest) = Inr mem"
    unfolding MapToPod_def required_Inr by blast
  show ?thesis
    using assms(1)[unfolded MapToPod_def required_def c sum.case] assms(2,3)
    by (simp only: MapToPod_def required_def mget_patch c sum.case option.case sum.inject n u)
      (auto simp: patch_pod_def Let_def; simp split: option.split)
qed

lemma pod_at_patch:
  assumes "pod_at v k p" "map_of new FieldPodCPURequest = None" "map_of new FieldPodMemRequest = None"
  shows "pod_at (v(k \<mapsto> RHash (hash_at v k ++ map_of new))) k (patch_pod new p)"
proof -
  obtain fs where "map_of fs = hash_at v k" "MapToPod fs = Inr p" using assms(1) by (auto simp: pod_at_def)
  with MapToPod_patch[OF this(2) assms(2,3)] show ?thesis
    by (auto simp: pod_at_def is_hash_def hash_at_def intro!: exI[of _ "new @ fs"])
qed

text \<open>What a Redis call leaves alone on the host.\<close>

lemma keeps_more_send [keeps_intros]: "keeps (\<lambda>w. world.more w = x) (send E m)"
  by (auto simp: keeps_def send_def Let_def split: fault.split option.split prod.split)

lemma keeps_more_clock [keeps_intros]:
  "keeps (\<lambda>w. world.more w = x) (now_text E)" "keeps (\<lambda>w. world.more w = x) (now_unix E)"
  by (simp_all add: keeps_def)

lemma keeps_more_calls [keeps_intros]:
  "keeps (\<lambda>w. world.more w = x) (HashGet E k)" "keeps (\<lambda>w. world.more w = x) (HashSet E k fs)"
  "keeps (\<lambda>w. world.more w = x) (DeleteKey E ks)" "keeps (\<lambda>w. world.more w = x) (StreamAppend E k sf)"
  "keeps (\<lambda>w. world.more w = x) (EvalScript E c)"
  unfolding HashGet_def HashSet_def DeleteKey_def StreamAppend_def EvalScript_def by (rule keeps_more_send)+

lemma keeps_more_log [keeps_intros]:
  "keeps (\<lambda>w. world.more w = x) (Info E l et msg ids)" "keeps (\<lambda>w. world.more w = x) (Warn E l et msg ids)"
  "keeps (\<lambda>w. world.more w = x) (Error E l et msg ids)"
  unfolding Info_def Warn_def Error_def log_def Let_def by (intro keeps_intros)+

lemma os_kept:
  assumes "keeps (\<lambda>w. world.more w = world.more w0) m" "run_state m w0 = (r, w')"
  shows "os w' = os w0"
  using keepsE[OF assms(1) refl assms(2)] by (rule os_more)

locale agent = redis_server R view + unix_kernel K procs
  for R :: "'db redis" and view and K :: "'os kernel" and procs
begin

lemma run_record:
  assumes "calm E" "server E = R" "is_hash (view (db w)) k" "fs \<noteq> []" "distinct (map fst fs)"
  shows "\<exists>w'. run_state (HashSet E k fs) w = (Inr (), w') \<and> os w' = os w \<and>
    view (db w') = (view (db w))(k \<mapsto> RHash (hash_at (view (db w)) k ++ map_of (wire R fs)))"
  using run_HashSet[OF calm_quiet[OF assms(1)] assms(2-5)] os_kept[OF keeps_more_calls(2)] by metis

lemma run_note:
  assumes "calm E" "server E = R"
  shows "\<exists>w' x. run_state (Info E l et msg ids) w = ((), w') \<and> os w' = os w \<and> view (db w') = (view (db w))(LogStreamKey := x)"
    "\<exists>w' x. run_state (Warn E l et msg ids) w = ((), w') \<and> os w' = os w \<and> view (db w') = (view (db w))(LogStreamKey := x)"
    "\<exists>w' x. run_state (Error E l et msg ids) w = ((), w') \<and> os w' = os w \<and> view (db w') = (view (db w))(LogStreamKey := x)"
  using run_Info[OF calm_quiet[OF assms(1)] assms(2)] os_kept[OF keeps_more_log(1)] os_kept[OF keeps_more_log(2)]
    os_kept[OF keeps_more_log(3)] by metis+

lemma run_fetch_pod:
  assumes "calm E" "server E = R" "pod_at (view (db w)) k p"
  shows "\<exists>fs w'. run_state (HashGet E k) w = (Inr fs, w') \<and> fs \<noteq> [] \<and> MapToPod fs = Inr p \<and> os w' = os w \<and> db w' = db w"
proof -
  have "is_hash (view (db w)) k" "view (db w) k \<noteq> None" using assms(3) by (simp_all add: pod_at_def)
  with run_HashGet[OF calm_quiet[OF assms(1)] assms(2) this(1)] obtain fs w' where
    "run_state (HashGet E k) w = (Inr fs, w')" "map_of fs = hash_at (view (db w)) k" "fs \<noteq> []" "db w' = db w" by auto
  then show ?thesis using pod_at_decode[OF assms(3)] os_kept[OF keeps_more_calls(1)] by blast
qed

lemma run_fetch_deployment:
  assumes "calm E" "server E = R" "deployment_at (view (db w)) name dep"
  shows "\<exists>fs w'. run_state (HashGet E (DeploymentKey name)) w = (Inr fs, w') \<and> fs \<noteq> [] \<and> MapToDeployment fs = Inr dep \<and>
    os w' = os w \<and> db w' = db w"
proof -
  have "is_hash (view (db w)) (DeploymentKey name)" "view (db w) (DeploymentKey name) \<noteq> None"
    using assms(3) by (simp_all add: deployment_at_def)
  with run_HashGet[OF calm_quiet[OF assms(1)] assms(2) this(1)] obtain fs w' where
    "run_state (HashGet E (DeploymentKey name)) w = (Inr fs, w')" "map_of fs = hash_at (view (db w)) (DeploymentKey name)"
    "fs \<noteq> []" "db w' = db w" by auto
  then show ?thesis using deployment_at_decode[OF assms(3)] os_kept[OF keeps_more_calls(1)] by blast
qed

end

interpretation mem_agent: agent mem_redis mem_view ma_kernel ma_view ..

section \<open>Starting a pod: functional behaviour\<close>

text \<open>The fields that a successful start writes.\<close>

definition identity_fields :: "int \<Rightarrow> int \<Rightarrow> int \<Rightarrow> int \<Rightarrow> (string \<times> rarg) list" where
  "identity_fields pid startTime hostPort now =
     [(FieldPodPID, VInt pid), (FieldPodPIDStartTime, VInt startTime), (FieldPodHostPort, VInt hostPort),
      (FieldPodStartedAt, VStr (Itoa now)), (FieldPodStatus, VStr StatusRunning)]"

definition started_pod :: "PodSpec \<Rightarrow> int \<Rightarrow> int \<Rightarrow> int \<Rightarrow> int \<Rightarrow> PodSpec" where
  "started_pod p pid startTime hostPort now =
     p\<lparr>p_PID := pid, p_PIDStartTime := startTime, p_HostPort := hostPort, p_StartedAt := Itoa now, p_Status := StatusRunning\<rparr>"

context agent
begin

lemma patch_identity:
  assumes "in_int64 pid" "in_uint64 t" "in_int64 port"
  shows "patch_pod (wire R (identity_fields pid t port now)) p = started_pod p pid t port now"
  using assms by (simp add: patch_pod_def identity_fields_def started_pod_def Let_def)

lemma run_launch:
  assumes "calm E" "kernel E = K" "server E = R" "pod_at (view (db w)) key p" "key \<noteq> LogStreamKey"
  shows "\<exists>r w'. run_state (launch E s dep p key port) w = (r, w') \<and>
    (if r = Inr () then \<exists>pid q now x. procs (os w) pid = None \<and> procs (os w') = (procs (os w))(pid \<mapsto> q) \<and>
        pr_environ q = workload_env E s dep p port \<and> pr_group q = pid \<and> 0 < pr_start q \<and> in_int64 pid \<and> in_uint64 (pr_start q) \<and>
        view (db w') = (view (db w))(key \<mapsto> RHash (hash_at (view (db w)) key ++
          map_of (wire R (identity_fields pid (pr_start q) port now))), LogStreamKey := x)
     else isl r \<and> procs (os w') = procs (os w) \<and> db w' = db w)"
proof -
  let ?path = "d_ExecPath dep" and ?env = "workload_env E s dep p port"
  obtain a w1 where w1: "run_state (sys E (k_Stat K ?path)) w = (a, w1)" "same_host w w1"
    using run_look[OF assms(1), of "k_Stat K ?path"] looks by blast
  obtain b w2 where w2: "run_state (sys E (k_OpenFile K ''/dev/null'')) w1 = (b, w2)" "same_host w1 w2"
    using run_look[OF assms(1), of "k_OpenFile K ''/dev/null''"] looks by blast
  obtain c t where k: "run_state (k_Start K ?path ?env) (os w2) = (c, t)" by fastforce
  define w3 where "w3 = w2\<lparr>tick := Suc (tick w2), os := t\<rparr>"
  have w3: "run_state (sys E (k_Start K ?path ?env)) w2 = (c, w3)" by (simp add: run_sys_calm[OF assms(1)] k w3_def)
  have p2: "procs (os w2) = procs (os w)" and d2: "db w2 = db w" using w1 w2 by (simp_all add: same_host_def)
  show ?thesis
  proof (cases "isl a \<or> isl b \<or> isl c")
    case True
    have "isl c \<Longrightarrow> procs t = procs (os w)" using start_fails k p2 by (cases c) fastforce+
    then show ?thesis
      using True w1 w2 w3 d2 p2
      by (cases a; cases b; cases c) (auto simp: launch_def run_on_error assms(2) same_host_def w3_def)
  next
    case False
    then obtain pid where pid: "a = Inr ()" "b = Inr ()" "c = Inr pid" by (cases a; cases b; cases c) auto
    from start[OF k[unfolded pid(3)]] obtain q where q: "procs (os w2) pid = None" "procs t = (procs (os w2))(pid \<mapsto> q)"
      "pr_environ q = ?env" "pr_group q = pid" "0 < pr_start q" by blast
    have q3: "procs (os w3) pid = Some q" by (simp add: w3_def q)
    from run_ProcessStartTime[OF assms(1,2) q3] obtain w4 where
      w4: "run_state (ProcessStartTime E pid) w3 = (Inr (pr_start q), w4)" "same_host w3 w4" by blast
    define w5 where "w5 = w4\<lparr>tick := Suc (tick w4)\<rparr>"
    define now where "now = unix_at E (tick w4)"
    have v5: "view (db w5) = view (db w)" using w4(2) d2 by (simp add: w5_def same_host_def w3_def)
    have "is_hash (view (db w5)) key" using assms(4) by (simp add: v5 pod_at_def)
    then obtain w6 where w6: "run_state (HashSet E key (identity_fields pid (pr_start q) port now)) w5 = (Inr (), w6)" "os w6 = os w5"
      "view (db w6) = (view (db w))(key \<mapsto> RHash (hash_at (view (db w)) key ++ map_of (wire R (identity_fields pid (pr_start q) port now))))"
      using run_record[OF assms(1,3), of w5 key "identity_fields pid (pr_start q) port now"] v5
      by (auto simp: identity_fields_def)
    obtain w7 x where w7: "run_state (Info E (sv_logger s) ''pod_started''
        (Sprintf ''spawned %s as pid %d on port %d'' [ArgS ?path, ArgD pid, ArgD port]) (pod_ids s (d_Name dep) (p_PodID p))) w6 = ((), w7)"
      "os w7 = os w6" "view (db w7) = (view (db w6))(LogStreamKey := x)" using run_note(1)[OF assms(1,3)] by blast
    have "run_state (launch E s dep p key port) w = (Inr (), w7)"
      using w1(1) w2(1) w3 w4(1) w6(1) w7(1) pid
      by (simp add: launch_def run_on_error assms(2) w5_def now_def identity_fields_def)
    moreover have "procs (os w7) = (procs (os w))(pid \<mapsto> q)"
      using w4(2) by (simp add: w7(2) w6(2) w5_def same_host_def w3_def q(2) p2)
    moreover have "in_int64 pid" "in_uint64 (pr_start q)" using pid_positive[OF q3] times_typed[OF q3] by simp_all
    ultimately show ?thesis using q p2 w7(3) w6(3) by auto
  qed
qed

lemma run_try_port_any:
  assumes "calm E" "kernel E = K"
  shows "\<exists>f w'. run_state (try_port E claimed port u) w = (f, w') \<and> same_host w w' \<and>
    (f = Next () \<or> f = Return (Inr port) \<and> minHostPort \<le> port \<and> port \<le> maxHostPort \<and> port \<notin> set claimed)"
proof -
  obtain r w1 where "run_state (sys E (k_Listen K port)) w = (r, w1)" "same_host w w1"
    using run_look[OF assms(1), of "k_Listen K port"] looks by blast
  then show ?thesis
    using assms(2) by (cases r) (auto simp: try_port_def portFree_def run_on_error same_host_def)
qed

lemma run_try_ports_any:
  assumes "calm E" "kernel E = K"
  shows "\<exists>r w'. run_state (for_range (try_port E claimed) ports u) w = (r, w') \<and> same_host w w' \<and>
    (r = Inl () \<or> (\<exists>port. r = Inr (Inr port) \<and> minHostPort \<le> port \<and> port \<le> maxHostPort \<and> port \<notin> set claimed))"
proof (induction ports arbitrary: u w)
  case Nil
  then show ?case by (simp add: same_host_def)
next
  case (Cons port ports)
  obtain f w1 where w1: "run_state (try_port E claimed port u) w = (f, w1)" "same_host w w1"
    "f = Next () \<or> f = Return (Inr port) \<and> minHostPort \<le> port \<and> port \<le> maxHostPort \<and> port \<notin> set claimed"
    using run_try_port_any[OF assms] by blast
  from w1(3) show ?case
  proof
    assume "f = Next ()"
    with w1(1,2) Cons.IH[of "()" w1] show ?thesis by (auto simp: same_host_def)
  next
    assume "f = Return (Inr port) \<and> minHostPort \<le> port \<and> port \<le> maxHostPort \<and> port \<notin> set claimed"
    with w1(1,2) show ?thesis by auto
  qed
qed

lemma run_allocate:
  assumes "calm E" "kernel E = K" "server E = R"
  shows "\<exists>r w'. run_state (allocateHostPort E s preferred) w = (r, w') \<and> same_host w w' \<and>
    (\<forall>port. r = Inr port \<longrightarrow> minHostPort \<le> port \<and> port \<le> maxHostPort)"
proof -
  obtain c w1 where c: "run_state (claimedPorts E s) w = (Inr c, w1)" "db w1 = db w" "world.more w1 = world.more w"
    using run_claimedPorts[OF calm_quiet[OF assms(1)] assms(3)] by blast
  have "same_host w w1" using c(2) os_more[OF c(3)] by (simp add: same_host_def)
  moreover obtain r w2 where "run_state (for_range (try_port E c) (candidate_ports preferred) ()) w1 = (r, w2)" "same_host w1 w2"
    "r = Inl () \<or> (\<exists>port. r = Inr (Inr port) \<and> minHostPort \<le> port \<and> port \<le> maxHostPort \<and> port \<notin> set c)"
    using run_try_ports_any[OF assms(1,2)] by blast
  ultimately show ?thesis
    using c(1) by (auto simp: allocateHostPort_def run_on_error run_loop same_host_def)
qed

text \<open>Everything up to the identity check.\<close>

lemma run_spawn_reads:
  assumes "calm E" "kernel E = K" "server E = R"
    and "deployment_at (view (db w)) deployment dep" "pod_at (view (db w)) (PodKey deployment podID) p"
  shows "\<exists>w'. same_host w w' \<and> run_state (Spawn E s deployment podID) w =
    (if same_process (procs (os w)) (p_PID p) (p_PIDStartTime p)
     then run_state (do { Info E (sv_logger s) ''pod_already_running''
                 (Sprintf ''pid %d is already serving this pod, not spawning a duplicate'' [ArgD (p_PID p)])
                 (pod_ids s deployment podID); ok () }) w'
     else run_state (on_error (if p_HostPort p = 0 then allocateHostPort E s (d_Port dep) else ok (p_HostPort p))
                 (\<lambda>e. throw (Errorf ''allocate host port for %s/%s: %w'' [ArgS deployment, ArgS podID, ArgE e]))
                 (\<lambda>hostPort. markFailedIfSpawnFails E s (PodKey deployment podID) deployment podID
                    (launch E s dep p (PodKey deployment podID) hostPort))) w')"
proof -
  obtain fs w1 where w1: "run_state (HashGet E (DeploymentKey deployment)) w = (Inr fs, w1)" "fs \<noteq> []"
    "MapToDeployment fs = Inr dep" "os w1 = os w" "db w1 = db w" using run_fetch_deployment[OF assms(1,3,4)] by blast
  have "pod_at (view (db w1)) (PodKey deployment podID) p" using assms(5) by (simp add: w1)
  from run_fetch_pod[OF assms(1,3) this] obtain gs w2 where w2: "run_state (HashGet E (PodKey deployment podID)) w1 = (Inr gs, w2)"
    "gs \<noteq> []" "MapToPod gs = Inr p" "os w2 = os w1" "db w2 = db w1" by blast
  obtain w3 where w3: "run_state (IsSameProcess E (p_PID p) (p_PIDStartTime p)) w2 = (same_process (procs (os w)) (p_PID p) (p_PIDStartTime p), w3)"
    "same_host w2 w3" using run_IsSameProcess[OF assms(1,2), of _ _ w2] by (metis w2(4) w1(4))
  have "same_host w w3" using w3(2) by (simp add: same_host_def w2 w1)
  then show ?thesis
    using w1(1-3) w2(1-3) w3(1)
    by (intro exI[of _ w3]) (simp add: Spawn_def spawn_with_def run_on_error)
qed

lemma patch_failed: "patch_pod (wire R [(FieldPodStatus, VStr StatusFailed)]) p = p\<lparr>p_Status := StatusFailed\<rparr>"
  by (simp add: patch_pod_def Let_def)

lemma pod_at_typed: "pod_at v k p \<Longrightarrow> pod_typed p"
  by (auto simp: pod_at_def dest: MapToPod_typed)

lemma pod_at_log: "pod_at v k p \<Longrightarrow> k \<noteq> LogStreamKey \<Longrightarrow> pod_at (v(LogStreamKey := x)) k p"
  by (simp add: pod_at_def is_hash_def hash_at_def)

lemma run_marked_launch:
  assumes "calm E" "kernel E = K" "server E = R" "pod_at (view (db w)) key p" "key \<noteq> LogStreamKey" "in_int64 port"
  shows "\<exists>r w'. run_state (markFailedIfSpawnFails E s key deployment podID (launch E s dep p key port)) w = (r, w') \<and>
    (\<forall>k. k \<noteq> LogStreamKey \<and> k \<noteq> key \<longrightarrow> view (db w') k = view (db w) k) \<and>
    (if r = Inr () then \<exists>pid q now. procs (os w) pid = None \<and> procs (os w') = (procs (os w))(pid \<mapsto> q) \<and>
        pr_environ q = workload_env E s dep p port \<and> pr_group q = pid \<and> 0 < pr_start q \<and>
        pod_at (view (db w')) key (started_pod p pid (pr_start q) port now) \<and>
        hash_at (view (db w')) key FieldPodPID = Some (Itoa pid)
     else isl r \<and> procs (os w') = procs (os w) \<and> pod_at (view (db w')) key (p\<lparr>p_Status := StatusFailed\<rparr>))"
proof -
  obtain r w1 where l: "run_state (launch E s dep p key port) w = (r, w1)"
    "if r = Inr () then \<exists>pid q now x. procs (os w) pid = None \<and> procs (os w1) = (procs (os w))(pid \<mapsto> q) \<and>
        pr_environ q = workload_env E s dep p port \<and> pr_group q = pid \<and> 0 < pr_start q \<and> in_int64 pid \<and> in_uint64 (pr_start q) \<and>
        view (db w1) = (view (db w))(key \<mapsto> RHash (hash_at (view (db w)) key ++
          map_of (wire R (identity_fields pid (pr_start q) port now))), LogStreamKey := x)
     else isl r \<and> procs (os w1) = procs (os w) \<and> db w1 = db w"
    using run_launch[OF assms(1-5)] by blast
  show ?thesis
  proof (cases "r = Inr ()")
    case True
    with l(2) obtain pid q now x where q: "procs (os w) pid = None" "procs (os w1) = (procs (os w))(pid \<mapsto> q)"
      "pr_environ q = workload_env E s dep p port" "0 < pr_start q" "in_int64 pid" "in_uint64 (pr_start q)" "pr_group q = pid"
      and v: "view (db w1) = (view (db w))(key \<mapsto> RHash (hash_at (view (db w)) key ++
          map_of (wire R (identity_fields pid (pr_start q) port now))), LogStreamKey := x)" by auto
    have "pod_at (view (db w1)) key (started_pod p pid (pr_start q) port now)"
      unfolding v patch_identity[OF q(5,6) assms(6), symmetric]
      by (rule pod_at_log[OF pod_at_patch[OF assms(4)] assms(5)]) (simp_all add: identity_fields_def)
    moreover have "hash_at (view (db w1)) key FieldPodPID = Some (Itoa pid)"
      using assms(5) by (simp add: v hash_at_def identity_fields_def)
    ultimately show ?thesis using l(1) True q v by (auto simp: markFailedIfSpawnFails_def run_on_error)
  next
    case False
    with l(2) obtain e where e: "r = Inl e" "procs (os w1) = procs (os w)" "db w1 = db w" by (cases r) auto
    have "is_hash (view (db w1)) key" using assms(4) by (simp add: e pod_at_def)
    from run_record[OF assms(1,3) this, of "[(FieldPodStatus, VStr StatusFailed)]"] obtain w2 where
      w2: "run_state (HashSet E key [(FieldPodStatus, VStr StatusFailed)]) w1 = (Inr (), w2)" "os w2 = os w1"
      "view (db w2) = (view (db w))(key \<mapsto> RHash (hash_at (view (db w)) key ++ map_of (wire R [(FieldPodStatus, VStr StatusFailed)])))"
      by (auto simp: e)
    obtain w3 x where w3: "run_state (Error E (sv_logger s) ''pod_spawn_failed'' (Error_text e) (pod_ids s deployment podID)) w2 = ((), w3)"
      "os w3 = os w2" "view (db w3) = (view (db w2))(LogStreamKey := x)" using run_note(3)[OF assms(1,3)] by blast
    have "pod_at (view (db w3)) key (p\<lparr>p_Status := StatusFailed\<rparr>)"
      unfolding w3(3) w2(3) patch_failed[symmetric] by (rule pod_at_log[OF pod_at_patch[OF assms(4)] assms(5)]) simp_all
    then show ?thesis
      using l(1) e w2 w3 by (auto simp: markFailedIfSpawnFails_def run_on_error)
  qed
qed

lemma run_Spawn:
  assumes "calm E" "kernel E = K" "server E = R"
    and "deployment_at (view (db w)) deployment dep" "pod_at (view (db w)) (PodKey deployment podID) p"
  shows "\<exists>r w'. run_state (Spawn E s deployment podID) w = (r, w') \<and>
    (\<forall>k. k \<noteq> LogStreamKey \<and> k \<noteq> PodKey deployment podID \<longrightarrow> view (db w') k = view (db w) k) \<and>
    (if same_process (procs (os w)) (p_PID p) (p_PIDStartTime p)
     then r = Inr () \<and> procs (os w') = procs (os w) \<and> pod_at (view (db w')) (PodKey deployment podID) p
     else if r = Inr ()
     then \<exists>pid q port now. procs (os w) pid = None \<and> procs (os w') = (procs (os w))(pid \<mapsto> q) \<and>
       pr_environ q = workload_env E s dep p port \<and> (p_HostPort p \<noteq> 0 \<longrightarrow> port = p_HostPort p) \<and>
       same_process (procs (os w')) pid (pr_start q) \<and> pr_group q = pid \<and>
       pod_at (view (db w')) (PodKey deployment podID) (started_pod p pid (pr_start q) port now) \<and>
       hash_at (view (db w')) (PodKey deployment podID) FieldPodPID = Some (Itoa pid)
     else isl r \<and> procs (os w') = procs (os w) \<and>
       (pod_at (view (db w')) (PodKey deployment podID) p \<or>
        pod_at (view (db w')) (PodKey deployment podID) (p\<lparr>p_Status := StatusFailed\<rparr>)))"
proof -
  let ?key = "PodKey deployment podID"
  have key: "?key \<noteq> LogStreamKey" by (simp add: key_simps)
  obtain w1 where w1: "same_host w w1" "run_state (Spawn E s deployment podID) w =
    (if same_process (procs (os w)) (p_PID p) (p_PIDStartTime p)
     then run_state (do { Info E (sv_logger s) ''pod_already_running''
                 (Sprintf ''pid %d is already serving this pod, not spawning a duplicate'' [ArgD (p_PID p)])
                 (pod_ids s deployment podID); ok () }) w1
     else run_state (on_error (if p_HostPort p = 0 then allocateHostPort E s (d_Port dep) else ok (p_HostPort p))
                 (\<lambda>e. throw (Errorf ''allocate host port for %s/%s: %w'' [ArgS deployment, ArgS podID, ArgE e]))
                 (\<lambda>hostPort. markFailedIfSpawnFails E s ?key deployment podID (launch E s dep p ?key hostPort))) w1)"
    using run_spawn_reads[OF assms] by blast
  have h1: "db w1 = db w" "procs (os w1) = procs (os w)" using w1(1) by (simp_all add: same_host_def)
  show ?thesis
  proof (cases "same_process (procs (os w)) (p_PID p) (p_PIDStartTime p)")
    case True
    obtain w2 x where "run_state (Info E (sv_logger s) ''pod_already_running''
        (Sprintf ''pid %d is already serving this pod, not spawning a duplicate'' [ArgD (p_PID p)]) (pod_ids s deployment podID)) w1 = ((), w2)"
      "os w2 = os w1" "view (db w2) = (view (db w1))(LogStreamKey := x)" using run_note(1)[OF assms(1,3)] by blast
    then show ?thesis using True w1(2) h1 assms(5) key by (auto intro: pod_at_log)
  next
    case False
    obtain a w2 where w2: "run_state (if p_HostPort p = 0 then allocateHostPort E s (d_Port dep) else ok (p_HostPort p)) w1 = (a, w2)"
      "same_host w1 w2" "\<forall>port. a = Inr port \<longrightarrow> in_int64 port \<and> (p_HostPort p \<noteq> 0 \<longrightarrow> port = p_HostPort p)"
    proof (cases "p_HostPort p = 0")
      case True
      then show ?thesis using that run_allocate[OF assms(1-3), of s "d_Port dep" w1] by (fastforce simp: in_int64_def)
    next
      case False
      then show ?thesis using that[of "Inr (p_HostPort p)" w1] pod_at_typed[OF assms(5)] by (simp add: same_host_def pod_typed_def)
    qed
    have h2: "db w2 = db w" "procs (os w2) = procs (os w)" using w2(2) h1 by (simp_all add: same_host_def)
    show ?thesis
    proof (cases a)
      case (Inl e)
      then show ?thesis using False w1(2) w2(1) h2 assms(5) by (auto simp: run_on_error)
    next
      case (Inr port)
      have at2: "pod_at (view (db w2)) ?key p" using assms(5) h2 by simp
      from run_marked_launch[OF assms(1-3) at2 key, of port s deployment podID dep] w2(3) Inr
      obtain r w3 where w3: "run_state (markFailedIfSpawnFails E s ?key deployment podID (launch E s dep p ?key port)) w2 = (r, w3)"
        "\<forall>k. k \<noteq> LogStreamKey \<and> k \<noteq> ?key \<longrightarrow> view (db w3) k = view (db w) k"
        "if r = Inr () then \<exists>pid q now. procs (os w) pid = None \<and> procs (os w3) = (procs (os w))(pid \<mapsto> q) \<and>
            pr_environ q = workload_env E s dep p port \<and> pr_group q = pid \<and> 0 < pr_start q \<and>
            pod_at (view (db w3)) ?key (started_pod p pid (pr_start q) port now) \<and>
            hash_at (view (db w3)) ?key FieldPodPID = Some (Itoa pid)
         else isl r \<and> procs (os w3) = procs (os w) \<and> pod_at (view (db w3)) ?key (p\<lparr>p_Status := StatusFailed\<rparr>)"
        unfolding h2 by blast
      have run: "run_state (Spawn E s deployment podID) w = (r, w3)"
        using False w1(2) w2(1) w3(1) Inr by (simp add: run_on_error)
      show ?thesis
      proof (cases "r = Inr ()")
        case True
        with w3(3) obtain pid q now where q: "procs (os w) pid = None" "procs (os w3) = (procs (os w))(pid \<mapsto> q)"
          "pr_environ q = workload_env E s dep p port" "0 < pr_start q" "pod_at (view (db w3)) ?key (started_pod p pid (pr_start q) port now)"
          "pr_group q = pid" "hash_at (view (db w3)) ?key FieldPodPID = Some (Itoa pid)" by auto
        have "same_process (procs (os w3)) pid (pr_start q)" using q(2,4) by (simp add: same_process_def)
        with q w2(3) Inr have "\<exists>pid q port now. procs (os w) pid = None \<and> procs (os w3) = (procs (os w))(pid \<mapsto> q) \<and>
          pr_environ q = workload_env E s dep p port \<and> (p_HostPort p \<noteq> 0 \<longrightarrow> port = p_HostPort p) \<and>
          same_process (procs (os w3)) pid (pr_start q) \<and> pr_group q = pid \<and>
          pod_at (view (db w3)) ?key (started_pod p pid (pr_start q) port now) \<and>
          hash_at (view (db w3)) ?key FieldPodPID = Some (Itoa pid)" by blast
        then show ?thesis using False True run w3(2) by (intro exI[of _ r] exI[of _ w3]) simp
      next
        case False
        then show ?thesis using \<open>\<not> same_process _ _ _\<close> run w3(2,3) by auto
      qed
    qed
  qed
qed

end


lemma pair_host:
  "deployment_at (mem_view pair_db) ''web'' (demo_deployment\<lparr>d_DesiredReplicas := 1\<rparr>)"
  "pod_at (mem_view pair_db) (PodKey ''web'' ''7f'') demo_pod"
  using pair_ready(1) pair_pods(1) by (simp_all add: pair_world_def)

text \<open>The machine on which the process of \<open>demo_pod\<close> runs.\<close>

definition busy_machine :: machine where
  "busy_machine = demo_machine\<lparr>ma_procs := [(42, \<lparr>pr_start = 2 ^ 63, pr_utime = 0, pr_stime = 0, pr_group = 42, pr_environ = []\<rparr>)]\<rparr>"

lemma busy_process:
  "ma_view busy_machine 42 = Some \<lparr>pr_start = 2 ^ 63, pr_utime = 0, pr_stime = 0, pr_group = 42, pr_environ = []\<rparr>"
  by (simp add: ma_view_def ma_table_def busy_machine_def proc_ok_def in_int64_def in_uint64_def)

abbreviation demo_supervisor :: Supervisor where
  "demo_supervisor \<equiv> \<lparr>sv_logger = demo_logger, sv_nodeID = ''n1''\<rparr>"


section \<open>Removing a pod: functional behaviour\<close>

text \<open>At most members of one process group are gone.\<close>

definition only_group :: "(int \<Rightarrow> proc option) \<Rightarrow> (int \<Rightarrow> proc option) \<Rightarrow> int \<Rightarrow> bool" where
  "only_group P P' g \<longleftrightarrow> (\<forall>q. P' q = P q \<or> P' q = None \<and> (\<exists>p. P q = Some p \<and> pr_group p = g))"

lemma only_group_refl [simp]: "only_group P P g"
  by (simp add: only_group_def)

lemma only_group_trans: "only_group P P1 g \<Longrightarrow> only_group P1 P2 g \<Longrightarrow> only_group P P2 g"
  unfolding only_group_def by metis

lemma keeps_more_Release [keeps_intros]: "keeps (\<lambda>w. world.more w = x) (Release E n c m)"
  unfolding Release_def Let_def by (intro keeps_intros)

context agent
begin

lemma run_signal:
  assumes "calm E" "0 < g"
  shows "\<exists>u w'. run_state (sys E (k_Kill K (- g) sig)) w = (u, w') \<and> db w' = db w \<and> only_group (procs (os w)) (procs (os w')) g"
proof -
  obtain r s' where k: "run_state (k_Kill K (- g) sig) (os w) = (r, s')" by fastforce
  then have "only_group (procs (os w)) (procs s') g"
    unfolding only_group_def using signal_group[OF assms(2) k] by blast
  then show ?thesis using k by (simp add: run_sys_calm[OF assms(1)])
qed

lemma run_terminate:
  assumes "calm E" "kernel E = K" "clock_advances E"
  shows "\<exists>w'. run_state (terminate E pid) w = (Inr (), w') \<and> db w' = db w \<and> only_group (procs (os w)) (procs (os w')) pid"
proof (cases "0 < pid")
  case True
  obtain u w1 where w1: "run_state (sys E (k_Kill K (- pid) SIGTERM)) w = (u, w1)" "db w1 = db w"
    "only_group (procs (os w)) (procs (os w1)) pid" using run_signal[OF assms(1) True] by blast
  let ?P = "\<lambda>w'. same_host w1 w'"
  have kp: "keeps ?P (now_nano E)" "keeps ?P (PIDAlive E pid)"
  proof -
    show "keeps ?P (now_nano E)" by (simp add: keeps_def same_host_def)
    show "keeps ?P (PIDAlive E pid)"
    proof (rule keepsI)
      fix v assume v: "?P v"
      from run_PIDAlive[OF assms(1,2), of pid v] obtain v' where "run_state (PIDAlive E pid) v = (procs (os v) pid \<noteq> None, v')" "same_host v v'" by blast
      then show "?P (snd (run_state (PIDAlive E pid) v))" using v by (simp add: same_host_def)
    qed
  qed
  have "?P (w1\<lparr>tick := Suc (tick w1)\<rparr>)" by (simp add: same_host_def)
  from terminate_loop_returns[OF assms(3) True kp this, of "nano_at E (tick w1) + stopGrace"]
  obtain b w2 where w2: "terminate_loop E pid (nano_at E (tick w1) + stopGrace) (w1\<lparr>tick := Suc (tick w1)\<rparr>) = Some (b, w2)" "same_host w1 w2" by blast
  obtain v w3 where w3: "run_state (sys E (k_Kill K (- pid) SIGKILL)) w2 = (v, w3)" "db w3 = db w2"
    "only_group (procs (os w2)) (procs (os w3)) pid" using run_signal[OF assms(1) True] by blast
  have g: "only_group (procs (os w)) (procs (os w2)) pid" using w1(3) w2(2) by (simp add: same_host_def)
  show ?thesis
    using w1 w2 w3 True only_group_trans[OF g w3(3)] g assms(2)
    by (cases b) (simp_all add: terminate_def same_host_def)
qed (simp add: terminate_def)

lemma patch_cleared:
  "patch_pod (wire R [(FieldPodPID, VInt 0), (FieldPodPIDStartTime, VInt 0)]) p = p\<lparr>p_PID := 0, p_PIDStartTime := 0\<rparr>"
  by (simp add: patch_pod_def Let_def in_int64_def in_uint64_def)

lemma run_Stop:
  fixes w :: "('db, 'os, 'm) host_world_scheme"
  assumes "calm E" "kernel E = K" "server E = R" "clock_advances E" "pod_at (view (db w)) (PodKey deployment podID) p"
  shows "\<exists>w' x h. run_state (Stop E s deployment podID) w = (Inr (), w') \<and>
    view (db w') = (view (db w))(LogStreamKey := x, PodKey deployment podID \<mapsto> RHash h) \<and>
    pod_at (view (db w')) (PodKey deployment podID) (p\<lparr>p_PID := 0, p_PIDStartTime := 0\<rparr>) \<and>
    (if same_process (procs (os w)) (p_PID p) (p_PIDStartTime p) then only_group (procs (os w)) (procs (os w')) (p_PID p)
     else procs (os w') = procs (os w))"
proof -
  let ?key = "PodKey deployment podID" and ?new = "[(FieldPodPID, VInt 0), (FieldPodPIDStartTime, VInt 0)]"
  have key: "?key \<noteq> LogStreamKey" by (simp add: key_simps)
  obtain fs w1 where w1: "run_state (HashGet E ?key) w = (Inr fs, w1)" "fs \<noteq> []" "MapToPod fs = Inr p" "os w1 = os w" "db w1 = db w"
    using run_fetch_pod[OF assms(1,3,5)] by blast
  let ?same = "same_process (procs (os w)) (p_PID p) (p_PIDStartTime p)"
  obtain w2 where w2: "run_state (IsSameProcess E (p_PID p) (p_PIDStartTime p)) w1 = (?same, w2)" "same_host w1 w2"
    using run_IsSameProcess[OF assms(1,2), of _ _ w1] by (metis w1(4))
  define body :: "(('db, 'os, 'm) host_world_scheme, unit) fallible" where "body = (if ?same then attempt (terminate E (p_PID p)) (\<lambda>_. do {
      Info E (sv_logger s) ''pod_stopped'' (Sprintf ''terminated pid %d'' [ArgD (p_PID p)]) (pod_ids s deployment podID); ok () }) else ok ())"
  obtain w3 x where w3: "run_state body w2 = (Inr (), w3)" "view (db w3) = (view (db w))(LogStreamKey := x)"
    "if ?same then only_group (procs (os w)) (procs (os w3)) (p_PID p) else procs (os w3) = procs (os w)"
  proof (cases ?same)
    case True
    obtain v where v: "run_state (terminate E (p_PID p)) w2 = (Inr (), v)" "db v = db w2" "only_group (procs (os w2)) (procs (os v)) (p_PID p)"
      using run_terminate[OF assms(1,2,4)] by blast
    obtain v' x where v': "run_state (Info E (sv_logger s) ''pod_stopped'' (Sprintf ''terminated pid %d'' [ArgD (p_PID p)]) (pod_ids s deployment podID)) v = ((), v')"
      "os v' = os v" "view (db v') = (view (db v))(LogStreamKey := x)" using run_note(1)[OF assms(1,3)] by blast
    show ?thesis
      by (rule that[of v' x]) (use True v v' w2(2) w1(4,5) in \<open>simp_all add: body_def run_on_error same_host_def\<close>)
  next
    case False
    show ?thesis
      by (rule that[of w2 "view (db w) LogStreamKey"]) (use False w2(2) w1(4,5) in \<open>simp_all add: body_def same_host_def\<close>)
  qed
  have at3: "pod_at (view (db w3)) ?key p" using pod_at_log[OF assms(5) key] by (simp add: w3(2))
  then have "is_hash (view (db w3)) ?key" by (simp add: pod_at_def)
  from run_record[OF assms(1,3) this, of ?new] obtain w4 where w4: "run_state (HashSet E ?key ?new) w3 = (Inr (), w4)" "os w4 = os w3"
    "view (db w4) = (view (db w3))(?key \<mapsto> RHash (hash_at (view (db w3)) ?key ++ map_of (wire R ?new)))" by auto
  have "pod_at (view (db w4)) ?key (p\<lparr>p_PID := 0, p_PIDStartTime := 0\<rparr>)"
    unfolding w4(3) patch_cleared[symmetric] by (rule pod_at_patch[OF at3]) simp_all
  moreover have "run_state (Stop E s deployment podID) w = (Inr (), w4)"
    using w1(1-3) w2(1) w3(1) w4(1) by (simp add: Stop_def stop_with_def run_on_error body_def)
  ultimately show ?thesis using w3(2,3) w4(2,3) by auto
qed

end

context agent
begin

lemma run_delete:
  "calm E \<Longrightarrow> server E = R \<Longrightarrow> \<exists>w'. run_state (DeleteKey E ks) w = (Inr (), w') \<and> os w' = os w \<and>
     view (db w') = (\<lambda>k. if k \<in> set ks then None else view (db w) k)"
  by (simp add: DeleteKey_def run_send_quiet reply_del view_del)

lemma run_give_back:
  assumes "calm E" "server E = R" "sound_pod p"
    and "view (db w) (NodeCapacityKey (p_NodeID p)) = None \<or> (\<exists>c. holds_capacity (view (db w)) (p_NodeID p) c \<and> within_totals c)"
  shows "\<exists>w'. run_state (if ConsumesCapacity (p_Status p) \<and> p_NodeID p \<noteq> [] then releaseCapacity E p else ok ()) w = (Inr (), w') \<and> os w' = os w \<and>
    (\<forall>k. k \<noteq> NodeCapacityKey (p_NodeID p) \<longrightarrow> view (db w') k = view (db w) k) \<and>
    (\<forall>n c. holds_capacity (view (db w)) n c \<longrightarrow> holds_capacity (view (db w')) n
       (if n = p_NodeID p \<and> n \<noteq> [] \<and> ConsumesCapacity (p_Status p)
        then c\<lparr>n_AllocatedCPU := max 0 (n_AllocatedCPU c - p_CPURequest p), n_AllocatedMem := max 0 (n_AllocatedMem c - p_MemRequest p)\<rparr> else c))"
proof (cases "ConsumesCapacity (p_Status p) \<and> p_NodeID p \<noteq> []")
  case True
  let ?n = "p_NodeID p"
  have r: "0 \<le> p_CPURequest p" "in_int64 (p_CPURequest p)" "0 \<le> p_MemRequest p" "in_int64 (p_MemRequest p)"
    using assms(3) by (simp_all add: sound_pod_def pod_typed_def)
  from run_Release_any[OF calm_quiet[OF assms(1)] assms(2), of w "p_NodeID p", OF assms(4) r] obtain w' where
    w': "run_state (Release E ?n (p_CPURequest p) (p_MemRequest p)) w = (Inr (), w')"
    "view (db w) (NodeCapacityKey ?n) = None \<longrightarrow> db w' = db w"
    "\<forall>c. holds_capacity (view (db w)) ?n c \<longrightarrow> view (db w') = put_alloc (view (db w)) ?n (max 0 (n_AllocatedCPU c - p_CPURequest p)) (max 0 (n_AllocatedMem c - p_MemRequest p))"
    by (elim exE conjE)
  have os': "os w' = os w" by (rule os_kept[OF keeps_more_Release w'(1)])
  from assms(4) show ?thesis
  proof
    assume "view (db w) (NodeCapacityKey ?n) = None"
    then show ?thesis using w' os' True by (auto simp: releaseCapacity_def holds_capacity_def)
  next
    assume "\<exists>c. holds_capacity (view (db w)) ?n c \<and> within_totals c"
    then obtain c where c: "holds_capacity (view (db w)) ?n c" by blast
    with w'(3) have v: "view (db w') = put_alloc (view (db w)) ?n (max 0 (n_AllocatedCPU c - p_CPURequest p)) (max 0 (n_AllocatedMem c - p_MemRequest p))" by blast
    have "holds_capacity (view (db w')) n (if n = ?n \<and> n \<noteq> [] \<and> ConsumesCapacity (p_Status p)
        then d\<lparr>n_AllocatedCPU := max 0 (n_AllocatedCPU d - p_CPURequest p), n_AllocatedMem := max 0 (n_AllocatedMem d - p_MemRequest p)\<rparr> else d)"
      if d: "holds_capacity (view (db w)) n d" for n d
    proof (cases "n = ?n")
      case n: True
      then have "d = c" using holds_capacity_unique[OF c] d by simp
      then show ?thesis using holds_put_alloc[OF c] n True by (simp add: v)
    next
      case False
      then show ?thesis using d by (simp add: v holds_put_alloc_other)
    qed
    moreover have "k \<noteq> NodeCapacityKey ?n \<longrightarrow> view (db w') k = view (db w) k" for k by (simp add: v put_alloc_def)
    ultimately show ?thesis using w'(1) os' True by (auto simp: releaseCapacity_def)
  qed
qed auto

lemma run_StopAndRemove:
  assumes "calm E" "kernel E = K" "server E = R" "clock_advances E" "accounting_ok (view (db w))"
    and "pod_at (view (db w)) (PodKey deployment podID) p"
  shows "\<exists>w'. run_state (StopAndRemove E s deployment podID) w = (Inr (), w') \<and>
    view (db w') (PodKey deployment podID) = None \<and> view (db w') (TelemetryCPUKey deployment podID) = None \<and>
    (\<forall>n c. holds_capacity (view (db w)) n c \<longrightarrow> holds_capacity (view (db w')) n
       (if n = p_NodeID p \<and> n \<noteq> [] \<and> ConsumesCapacity (p_Status p)
        then c\<lparr>n_AllocatedCPU := max 0 (n_AllocatedCPU c - p_CPURequest p), n_AllocatedMem := max 0 (n_AllocatedMem c - p_MemRequest p)\<rparr> else c)) \<and>
    (\<forall>k. k \<notin> {LogStreamKey, PodKey deployment podID, TelemetryCPUKey deployment podID, NodeCapacityKey (p_NodeID p)} \<longrightarrow>
       view (db w') k = view (db w) k) \<and>
    (if same_process (procs (os w)) (p_PID p) (p_PIDStartTime p) then only_group (procs (os w)) (procs (os w')) (p_PID p)
     else procs (os w') = procs (os w))"
proof -
  let ?key = "PodKey deployment podID" and ?tel = "TelemetryCPUKey deployment podID" and ?n = "p_NodeID p"
  have pod: "HasPrefix ?key ''pod:'' \<or> HasPrefix ?key ''deployment:''" by (simp add: PodKey_def HasPrefix_def)
  have sound: "sound_pod p"
  proof -
    obtain fs where "map_of fs = hash_at (view (db w)) ?key" "MapToPod fs = Inr p" using assms(6) by (auto simp: pod_at_def)
    then show ?thesis using accounting_request[OF assms(5) pod] by (intro sound_pod_read[of fs]) simp_all
  qed
  obtain fs w1 where w1: "run_state (HashGet E ?key) w = (Inr fs, w1)" "fs \<noteq> []" "MapToPod fs = Inr p" "os w1 = os w" "db w1 = db w"
    using run_fetch_pod[OF assms(1,3,6)] by blast
  have "pod_at (view (db w1)) ?key p" using assms(6) w1 by simp
  from run_Stop[OF assms(1-4) this, of s] obtain w2 x h where w2: "run_state (Stop E s deployment podID) w1 = (Inr (), w2)"
    "view (db w2) = (view (db w))(LogStreamKey := x, ?key \<mapsto> RHash h)"
    "if same_process (procs (os w)) (p_PID p) (p_PIDStartTime p) then only_group (procs (os w)) (procs (os w2)) (p_PID p)
     else procs (os w2) = procs (os w)" unfolding w1(4,5) by blast
  have hc: "holds_capacity (view (db w2)) n c = holds_capacity (view (db w)) n c" for n c
    by (simp add: holds_capacity_def w2(2) key_simps)
  have "view (db w2) (NodeCapacityKey ?n) = None \<or> (\<exists>c. holds_capacity (view (db w2)) ?n c \<and> within_totals c)"
  proof -
    have "view (db w2) (NodeCapacityKey ?n) = view (db w) (NodeCapacityKey ?n)" by (simp add: w2(2) key_simps)
    then show ?thesis using accounting_capacity[OF assms(5), of ?n] unfolding hc by metis
  qed
  from run_give_back[OF assms(1,3) sound this] obtain w3 where
    w3: "run_state (if ConsumesCapacity (p_Status p) \<and> ?n \<noteq> [] then releaseCapacity E p else ok ()) w2 = (Inr (), w3)" "os w3 = os w2"
    "\<forall>k. k \<noteq> NodeCapacityKey ?n \<longrightarrow> view (db w3) k = view (db w2) k"
    "\<forall>n c. holds_capacity (view (db w)) n c \<longrightarrow> holds_capacity (view (db w3)) n
       (if n = ?n \<and> n \<noteq> [] \<and> ConsumesCapacity (p_Status p)
        then c\<lparr>n_AllocatedCPU := max 0 (n_AllocatedCPU c - p_CPURequest p), n_AllocatedMem := max 0 (n_AllocatedMem c - p_MemRequest p)\<rparr> else c)"
    unfolding hc by blast
  obtain w4 where w4: "run_state (DeleteKey E [?tel]) w3 = (Inr (), w4)" "os w4 = os w3"
    "view (db w4) = (\<lambda>k. if k \<in> set [?tel] then None else view (db w3) k)" using run_delete[OF assms(1,3)] by blast
  obtain w5 where w5: "run_state (DeleteKey E [?key]) w4 = (Inr (), w5)" "os w5 = os w4"
    "view (db w5) = (\<lambda>k. if k \<in> set [?key] then None else view (db w4) k)" using run_delete[OF assms(1,3)] by blast
  obtain w6 y where w6: "run_state (Info E (sv_logger s) ''pod_removed''
      (Sprintf ''released %dm CPU and %dMB back to the node'' [ArgD (p_CPURequest p), ArgD (p_MemRequest p)]) (pod_ids s deployment podID)) w5 = ((), w6)"
    "os w6 = os w5" "view (db w6) = (view (db w5))(LogStreamKey := y)" using run_note(1)[OF assms(1,3)] by blast
  have run: "run_state (StopAndRemove E s deployment podID) w = (Inr (), w6)"
    using w1(1-3) w2(1) w3(1) w4(1) w5(1) w6(1) by (simp add: StopAndRemove_def run_on_error)
  have v6: "view (db w6) k = (if k = LogStreamKey then y else if k = ?key \<or> k = ?tel then None else view (db w3) k)" for k
    by (simp add: w6(3) w5(3) w4(3))
  have "holds_capacity (view (db w6)) n c = holds_capacity (view (db w3)) n c" for n c
    by (simp add: holds_capacity_def v6 key_simps)
  then show ?thesis
    using run w3 w2(2,3) v6 by (intro exI[of _ w6]) (simp add: w6(2) w5(2) w4(2) key_simps)
qed

end


definition host_db :: mem where
  "host_db = mem_put (PodKey ''web'' ''7f'') (MHash (wire mem_redis (PodToMap demo_pod))) demo_db"

lemma host_db_view:
  "mem_view host_db = (mem_view demo_db)(PodKey ''web'' ''7f'' \<mapsto> RHash (map_of (wire mem_redis (PodToMap demo_pod))))"
  by (simp add: host_db_def PodToMap_def)

lemma host_db_ready:
  "accounting_ok (mem_view host_db)" "pod_at (mem_view host_db) (PodKey ''web'' ''7f'') demo_pod"
  "holds_capacity (mem_view host_db) ''n1'' demo_capacity"
proof -
  let ?m = "map_of (wire mem_redis (PodToMap demo_pod))"
  have "request_ok ?m" by (simp add: request_ok_def PodToMap_def demo_pod_def in_int64_def)
  moreover have "HasPrefix (PodKey ''web'' ''7f'') ''pod:''" by (simp add: PodKey_def HasPrefix_def)
  moreover have "hash_at (mem_view demo_db) (PodKey ''web'' ''7f'') = Map.empty" "is_hash (mem_view demo_db) (PodKey ''web'' ''7f'')"
    by (simp_all add: hash_at_def is_hash_def mem_view_def mem_get_def demo_db_def key_simps)
  ultimately show "accounting_ok (mem_view host_db)"
    using demo_accounting accounting_hash[of "mem_view demo_db" "PodKey ''web'' ''7f''" "wire mem_redis (PodToMap demo_pod)"] by (simp add: host_db_view demo_world_def)
  show "pod_at (mem_view host_db) (PodKey ''web'' ''7f'') demo_pod"
    using demo_pods_decode(1) by (auto simp: pod_at_def host_db_view is_hash_def hash_at_def)
  show "holds_capacity (mem_view host_db) ''n1'' demo_capacity"
    using demo_holds(1) by (simp add: holds_capacity_def host_db_view key_simps demo_world_def)
qed



section \<open>Safety of the agent's operations\<close>

lemma terminate_loop_db:
  assumes "terminate_loop E pid deadline w = Some (b, w')"
  shows "db w' = db w"
proof -
  have "db (snd p) = db w" if "terminate_loop E pid deadline w = Some p" for p
  proof (rule terminate_loop.raw_induct[where P = "\<lambda>E pid deadline w p. db (snd p) = db w", OF _ that])
    fix f E pid deadline w p
    assume IH: "\<And>E pid deadline w p. f E pid deadline w = Some p \<Longrightarrow> db (snd p) = db w"
      and eq: "(case run_state (now_nano E) w of (now, w1) \<Rightarrow>
          if now < deadline then (case run_state (PIDAlive E pid) w1 of (alive, w2) \<Rightarrow> if \<not> alive then Some (True, w2) else f E pid deadline w2)
          else Some (False, w1)) = Some p"
    obtain alive w2 where w2: "run_state (PIDAlive E pid) (w\<lparr>tick := Suc (tick w)\<rparr>) = (alive, w2)" by fastforce
    have "db w2 = db w" using keepsE[OF keeps_db_PIDAlive _ w2] by simp
    then show "db (snd p) = db w" using eq IH[of E pid deadline w2 p] w2 by (auto split: if_splits)
  qed
  then show ?thesis using assms by fastforce
qed

lemma keeps_db_terminate [keeps_intros]: "keeps (\<lambda>w. db w = d) (terminate E pid)"
proof -
  have "keeps (\<lambda>w. db w = d) (State (\<lambda>w. case terminate_loop E pid t w of
      None \<Rightarrow> (Inl NeverReturns, w) | Some (b, w') \<Rightarrow> (Inr b, w')))" for t
    by (auto simp: keeps_def split: option.split dest: terminate_loop_db)
  then show ?thesis unfolding terminate_def by (intro keeps_intros)
qed

locale host_cluster = cluster R view E
  for R :: "'db redis" and view and E :: "('db, 'os, 'e) host_env_scheme"
begin

lemma keeps_db_J: "(\<And>d. keeps (\<lambda>w. db w = d) m) \<Longrightarrow> keeps J m"
  by (auto simp: keeps_def J_def)

lemma keeps_host [keeps_intros]:
  "keeps J (sys E m)" "keeps J (now_nano E)" "keeps J (PIDAlive E pid)" "keeps J (terminate E pid)"
  by (intro keeps_db_J keeps_intros)+

lemma keeps_identity [keeps_intros]: "keeps J (ProcessStartTime E pid)" "keeps J (IsSameProcess E pid t)"
proof -
  show p: "keeps J (ProcessStartTime E pid)" for pid unfolding ProcessStartTime_def by (intro keeps_intros)
  show "keeps J (IsSameProcess E pid t)" unfolding IsSameProcess_def by (intro keeps_intros p)
qed

lemma keeps_pod_fields:
  assumes "fs \<noteq> []" "distinct (map fst fs)" "FieldPodCPURequest \<notin> fst ` set fs" "FieldPodMemRequest \<notin> fst ` set fs"
  shows "keeps J (HashSet E (PodKey d i) fs)"
proof (rule keeps_HashSet_requests)
  have "map_of (wire R fs) f = None" if "f \<notin> fst ` set fs" for f
    using that by (force simp: wire_def map_of_eq_None_iff)
  then show "request_ok (map_of (wire R fs))" using assms(3,4) by (simp add: request_ok_def)
qed (use assms in \<open>simp_all add: PodKey_def HasPrefix_def\<close>)

lemma keeps_claimedPorts [keeps_intros]: "keeps J (claimedPorts E s)"
  unfolding claimedPorts_def claimedPorts_body_def by (intro keeps_intros)

lemma keeps_allocateHostPort [keeps_intros]: "keeps J (allocateHostPort E s preferred)"
  unfolding allocateHostPort_def try_port_def portFree_def by (intro keeps_intros)

lemma keeps_launch [keeps_intros]: "keeps J (launch E s dep p (PodKey d i) port)"
proof -
  have "keeps J (HashSet E (PodKey d i) [(FieldPodPID, VInt a), (FieldPodPIDStartTime, VInt b), (FieldPodHostPort, VInt c),
      (FieldPodStartedAt, VStr t), (FieldPodStatus, VStr StatusRunning)])" for a b c t
    by (rule keeps_pod_fields) simp_all
  then show ?thesis unfolding launch_def by (intro keeps_intros) simp_all
qed

lemma keeps_markFailed [keeps_intros]:
  assumes "keeps J m"
  shows "keeps J (markFailedIfSpawnFails E s (PodKey d i) a b m)"
proof -
  have "keeps J (HashSet E (PodKey d i) [(FieldPodStatus, VStr StatusFailed)])" by (rule keeps_pod_fields) simp_all
  then show ?thesis unfolding markFailedIfSpawnFails_def by (intro keeps_intros assms) simp_all
qed

lemma keeps_Spawn [keeps_intros]: "keeps J (Spawn E s d i)"
  unfolding Spawn_def spawn_with_def by (intro keeps_intros) simp_all

lemma keeps_Stop [keeps_intros]: "keeps J (Stop E s d i)"
proof -
  have "keeps J (HashSet E (PodKey d i) [(FieldPodPID, VInt 0), (FieldPodPIDStartTime, VInt 0)])" by (rule keeps_pod_fields) simp_all
  then show ?thesis unfolding Stop_def stop_with_def by (intro keeps_intros) simp_all
qed

lemma keeps_StopAndRemove [keeps_intros]: "keeps J (StopAndRemove E s d i)"
  unfolding StopAndRemove_def
proof (rule keeps_on_error_with[OF ensures_HashGet_requests])
  show "HasPrefix (PodKey d i) ''pod:'' \<or> HasPrefix (PodKey d i) ''deployment:''" by (simp add: PodKey_def HasPrefix_def)
next
  fix fs
  assume fs: "\<forall>gs. Inr fs = Inr gs \<longrightarrow> request_ok (map_of gs)"
  have "keeps J (releaseCapacity E p)" if "MapToPod fs = Inr p" for p
    using sound_pod_read[OF _ that] fs unfolding releaseCapacity_def
    by (intro keeps_Release) (simp_all add: sound_pod_def pod_typed_def)
  then show "keeps J (if fs = [] then ok () else case MapToPod fs of
       Inl e \<Rightarrow> on_error (DeleteKey E [PodKey d i]) (\<lambda>delErr. throw (Errorf ''delete malformed pod %s: %w'' [ArgS i, ArgE delErr])) (\<lambda>_. ok ())
     | Inr pod \<Rightarrow>
         attempt (Stop E s d i) (\<lambda>_.
         attempt (if ConsumesCapacity (p_Status pod) \<and> p_NodeID pod \<noteq> [] then releaseCapacity E pod else ok ()) (\<lambda>_. do {
           on_error (DeleteKey E [TelemetryCPUKey d i])
             (\<lambda>e. Warn E (sv_logger s) ''telemetry_cleanup_failed'' (Error_text e) [DeploymentID d, PodID i])
             (\<lambda>_. State_Monad.return ());
           on_error (DeleteKey E [PodKey d i])
             (\<lambda>e. throw (Errorf ''delete pod %s: %w'' [ArgS i, ArgE e]))
             (\<lambda>_. do {
                Info E (sv_logger s) ''pod_removed''
                  (Sprintf ''released %dm CPU and %dMB back to the node'' [ArgD (p_CPURequest pod), ArgD (p_MemRequest pod)])
                  (pod_ids s d i);
                ok () }) })))"
    by (intro keeps_intros) simp_all
qed (rule keeps_return)

lemma keeps_handleCommand [keeps_intros]: "keeps J (handleCommand E s cmd)"
  unfolding handleCommand_def by (intro keeps_intros) simp_all

end

interpretation mem_cluster: host_cluster mem_redis mem_view mem_host
  by (simp add: host_cluster_def cluster_def)

end
