(* ===== verification/Telemetry.thy ===== *)
theory Telemetry
  imports Supervisor
begin

text \<open>
  \<open>internal/supervisor/telemetry.go\<close>: CPU samples of the node's pods, taken from two readings of the cumulative
  CPU time and published as percentages of the pod's request, the last three per pod.
\<close>


section \<open>Reading CPU time\<close>

abbreviation (input) telemetrySamples :: int where "telemetrySamples \<equiv> 3"
abbreviation (input) utimeField :: nat where "utimeField \<equiv> 14"
abbreviation (input) stimeField :: nat where "stimeField \<equiv> 15"
abbreviation (input) sampleTTLFactor :: int where "sampleTTLFactor \<equiv> 4"

record cpuSample =
  cs_ticks :: int
  cs_at :: int

definition parse_cpu_ticks :: "int \<Rightarrow> string \<Rightarrow> error + int" where
  "parse_cpu_ticks pid data =
     (case after_comm data of
        None \<Rightarrow> Inl (Errorf ''malformed stat for %d'' [ArgD pid])
      | Some rest \<Rightarrow>
          (let uIdx = utimeField - 3; sIdx = stimeField - 3 in
           if sIdx \<ge> length rest then Inl (Errorf ''stat for %d has too few fields'' [ArgD pid]) else
           case ParseUint (rest ! uIdx) of
             None \<Rightarrow> Inl (Errorf ''parse utime for %d: %w'' [ArgD pid, ArgE (ParseUint_error (rest ! uIdx))])
           | Some utime \<Rightarrow>
               (case ParseUint (rest ! sIdx) of
                  None \<Rightarrow> Inl (Errorf ''parse stime for %d: %w'' [ArgD pid, ArgE (ParseUint_error (rest ! sIdx))])
                | Some stime \<Rightarrow> Inr ((utime + stime) mod 2 ^ 64))))"

definition processCPUTicks ::
  "('db, 'os, 'e) host_env_scheme \<Rightarrow> int \<Rightarrow> (('db, 'os, 'm) host_world_scheme, int) fallible"
where
  "processCPUTicks E pid =
     on_error (sys E (k_ReadFile (kernel E) (stat_path pid)))
       (\<lambda>e. throw (Errorf ''read stat for %d: %w'' [ArgD pid, ArgE e]))
       (\<lambda>data. State_Monad.return (parse_cpu_ticks pid data))"

text \<open>Every operation on \<open>float64\<close> rounds. A quotient beyond the range of an \<open>int\<close>, for which Go leaves the
  conversion open, is not modelled.\<close>

definition cpuPercentOfRequest :: "cpuSample \<Rightarrow> cpuSample \<Rightarrow> int \<Rightarrow> int" where
  "cpuPercentOfRequest prev cur cpuRequestMillicores =
     (let elapsed = Seconds (max (- (2 ^ 63)) (min (2 ^ 63 - 1) (cs_at cur - cs_at prev))) in
      if elapsed \<le> 0 \<or> cpuRequestMillicores \<le> 0 \<or> cs_ticks cur < cs_ticks prev then 0 else
      let cpuSeconds = fl (fl (of_int (cs_ticks cur - cs_ticks prev)) / 100);
          usedMillicores = fl (fl (cpuSeconds / elapsed) * 1000);
          percent = trunc (fl (fl (usedMillicores / fl (of_int cpuRequestMillicores)) * 100))
      in if percent < 0 then 0 else percent)"


section \<open>Publishing\<close>

definition publishSample ::
  "('db, 'e) env_scheme \<Rightarrow> PodSpec \<Rightarrow> int \<Rightarrow> int \<Rightarrow> (('db, 'm) world_scheme, unit) fallible"
where
  "publishSample E pod percent interval =
     (let key = TelemetryCPUKey (p_Deployment pod) (p_PodID pod) in
      on_error (ListPush E key (Itoa percent)) (\<lambda>e. throw (Errorf ''push sample: %w'' [ArgE e]))
      (\<lambda>_. on_error (ListTrim E key (- telemetrySamples) (- 1)) (\<lambda>e. throw (Errorf ''trim samples: %w'' [ArgE e]))
      (\<lambda>_. let interval = (if interval \<le> 0 then 5 * 10 ^ 9 else interval) in
        on_error (Expire E key (i64 (interval * sampleTTLFactor))) (\<lambda>e. throw (Errorf ''set sample expiry: %w'' [ArgE e]))
        (\<lambda>_. ok ()))))"

text \<open>The map of baselines is an association list, the set of pods seen a list of ids. The map is shared with the
  caller, so it is part of every result.\<close>

type_synonym baselines = "(string \<times> cpuSample) list"

definition collectOnce_body ::
  "('db, 'os, 'e) host_env_scheme \<Rightarrow> Supervisor \<Rightarrow> int \<Rightarrow> string \<Rightarrow> baselines \<times> string list \<Rightarrow>
   (('db, 'os, 'm) host_world_scheme, (baselines \<times> string list, baselines \<times> error option) flow) state"
where
  "collectOnce_body E s interval key acc =
     (case acc of (lst, seen) \<Rightarrow>
      on_error (HashGet E key)
        (\<lambda>e. State_Monad.return (Next (lst, seen)))
        (\<lambda>fs.
          if fs = [] then State_Monad.return (Next (lst, seen)) else
          case MapToPod fs of
            Inl e \<Rightarrow> State_Monad.return (Next (lst, seen))
          | Inr pod \<Rightarrow>
              if p_NodeID pod \<noteq> sv_nodeID s then State_Monad.return (Next (lst, seen))
              else if p_Status pod \<noteq> StatusRunning \<or> p_PID pod \<le> 0 then State_Monad.return (Next (lst, seen))
              else do {
                same \<leftarrow> IsSameProcess E (p_PID pod) (p_PIDStartTime pod);
                if \<not> same then State_Monad.return (Next (lst, seen)) else
                on_error (processCPUTicks E (p_PID pod))
                  (\<lambda>e. State_Monad.return (Next (lst, seen)))
                  (\<lambda>ticks. do {
                     let ident = p_Deployment pod @ ''/'' @ p_PodID pod;
                     let seen = ident # seen;
                     now \<leftarrow> now_nano E;
                     let prev = map_of lst ident;
                     let cur = \<lparr>cs_ticks = ticks, cs_at = now\<rparr>;
                     let lst = (ident, cur) # lst;
                     case prev of
                       None \<Rightarrow> State_Monad.return (Next (lst, seen))
                     | Some prev \<Rightarrow>
                         on_error (publishSample E pod (cpuPercentOfRequest prev cur (p_CPURequest pod)) interval)
                           (\<lambda>e. do {
                              c \<leftarrow> ctx_Err E;
                              case c of
                                Some ce \<Rightarrow> State_Monad.return (Return (lst, Some ce))
                              | None \<Rightarrow> do {
                                  Warn E (sv_logger s) ''telemetry_publish_failed'' (Error_text e)
                                    [DeploymentID (p_Deployment pod), PodID (p_PodID pod)];
                                  State_Monad.return (Next (lst, seen)) } })
                           (\<lambda>_. State_Monad.return (Next (lst, seen))) }) }))"

definition collectOnce ::
  "('db, 'os, 'e) host_env_scheme \<Rightarrow> Supervisor \<Rightarrow> baselines \<Rightarrow> int \<Rightarrow> (('db, 'os, 'm) host_world_scheme, baselines \<times> error option) state"
where
  "collectOnce E s lst interval =
     on_error (ScanKeys E PodKeyPattern)
       (\<lambda>e. State_Monad.return (lst, Some (Errorf ''scan pods: %w'' [ArgE e])))
       (\<lambda>keys. loop (collectOnce_body E s interval) keys (lst, [])
          (\<lambda>(lst, seen). State_Monad.return (filter (\<lambda>x. fst x \<in> set seen) lst, None)))"

text \<open>One tick of \<open>RunTelemetryCollector\<close>, with the baselines carried from tick to tick.\<close>

definition telemetry_tick ::
  "('db, 'os, 'e) host_env_scheme \<Rightarrow> Supervisor \<Rightarrow> int \<Rightarrow> baselines \<Rightarrow> (('db, 'os, 'm) host_world_scheme, baselines) state"
where
  "telemetry_tick E s interval lst = do {
     let interval = (if interval \<le> 0 then 5 * 10 ^ 9 else interval);
     (lst, err) \<leftarrow> collectOnce E s lst interval;
     case err of
       None \<Rightarrow> State_Monad.return lst
     | Some e \<Rightarrow> do {
         c \<leftarrow> ctx_Err E;
         case c of
           Some _ \<Rightarrow> State_Monad.return lst
         | None \<Rightarrow> do {
             Warn E (sv_logger s) ''telemetry_collection_failed'' (Error_text e) [NodeID (sv_nodeID s)];
             State_Monad.return lst } } }"


section \<open>Correctness\<close>

text \<open>CPU time is read correctly whatever the command is called: from a stat line with any command name the
  parser delivers the sum of user and system time, as a 64-bit number.\<close>

theorem parse_cpu_ticks_any_comm:
  assumes "stat_words p ws" "in_uint64 (pr_utime p)" "in_uint64 (pr_stime p)"
  shows "parse_cpu_ticks pid (stat_line pid comm ws) = Inr ((pr_utime p + pr_stime p) mod 2 ^ 64)"
proof -
  have "after_comm (stat_line pid comm ws) = Some ws"
    using assms(1) by (intro after_comm_stat_line) (auto simp: stat_words_def)
  then show ?thesis using assms by (simp add: parse_cpu_ticks_def stat_words_def)
qed

theorem parse_cpu_ticks_any_comm_witness:
  "parse_cpu_ticks 7 (stat_line 7 ''a) R 9 9 (b'' (replicate 11 ''0'' @ [''10'', ''5''] @ replicate 7 ''0'')) = Inr 15"
proof -
  let ?p = "\<lparr>pr_start = 0, pr_utime = 10, pr_stime = 5, pr_group = 7, pr_environ = []\<rparr>"
  let ?ws = "replicate 11 ''0'' @ [''10'', ''5''] @ replicate 7 ''0''"
  have "stat_words ?p ?ws" by code_simp
  then show ?thesis using parse_cpu_ticks_any_comm[of ?p ?ws 7] by (simp add: in_uint64_def)
qed

lemma trunc_mono: "x \<le> y \<Longrightarrow> trunc x \<le> trunc y"
  unfolding trunc_def by (auto intro: ceiling_mono floor_mono order_trans[of _ 0])

text \<open>The published percentage is never negative and grows with the CPU time used: for the same interval and
  request, more ticks give at least the same percentage, in spite of the rounding of every
  operation, as long as the result fits in an integer.\<close>

theorem cpuPercent_monotone:
  assumes "cs_at cur = cs_at cur'" "cs_ticks cur \<le> cs_ticks cur'" "cpuPercentOfRequest prev cur' req < 2 ^ 63"
  shows "0 \<le> cpuPercentOfRequest prev cur req \<and> cpuPercentOfRequest prev cur req \<le> cpuPercentOfRequest prev cur' req"
proof (cases "cs_ticks prev \<le> cs_ticks cur \<and> 0 < req \<and> 0 < Seconds (max (- (2 ^ 63)) (min (2 ^ 63 - 1) (cs_at cur - cs_at prev)))")
  case True
  define el where "el = Seconds (max (- (2 ^ 63)) (min (2 ^ 63 - 1) (cs_at cur - cs_at prev)))"
  define pct where "pct t = fl (fl (fl (fl (fl (fl (of_int t) / 100) / el) * 1000) / fl (of_int req)) * 100)" for t :: int
  have pos: "0 < el" "0 \<le> req" "0 \<le> fl (of_int req)" using True by (auto simp: el_def intro!: fl_nonneg)
  have mono: "0 \<le> pct t \<and> pct t \<le> pct t'" if "0 \<le> t" "t \<le> t'" for t t'
    unfolding pct_def using that pos
    by (intro conjI fl_nonneg fl_mono mult_right_mono divide_right_mono mult_nonneg_nonneg divide_nonneg_nonneg) auto
  have "cpuPercentOfRequest prev c req = max 0 (trunc (pct (cs_ticks c - cs_ticks prev)))"
    if "cs_at c = cs_at cur" "cs_ticks prev \<le> cs_ticks c" for c
    using True that by (simp add: cpuPercentOfRequest_def Let_def pct_def el_def max_def)
  then show ?thesis
    using True assms(1,2) mono[of "cs_ticks cur - cs_ticks prev" "cs_ticks cur' - cs_ticks prev"]
    by (auto intro: max.coboundedI2 trunc_mono)
next
  case False
  then have "cpuPercentOfRequest prev cur req = 0" by (auto simp: cpuPercentOfRequest_def Let_def not_less not_le)
  moreover have "0 \<le> cpuPercentOfRequest prev cur' req" by (simp add: cpuPercentOfRequest_def Let_def)
  ultimately show ?thesis by simp
qed

theorem cpuPercent_monotone_witness:
  "cpuPercentOfRequest \<lparr>cs_ticks = 100, cs_at = 0\<rparr> \<lparr>cs_ticks = 600, cs_at = 5 * 10 ^ 9\<rparr> 1000 = 100 \<and>
   cpuPercentOfRequest \<lparr>cs_ticks = 100, cs_at = 0\<rparr> \<lparr>cs_ticks = 600, cs_at = 5 * 10 ^ 9\<rparr> 1000
     \<le> cpuPercentOfRequest \<lparr>cs_ticks = 100, cs_at = 0\<rparr> \<lparr>cs_ticks = 1100, cs_at = 5 * 10 ^ 9\<rparr> 1000"
proof -
  have "Seconds 5000000000 = 5" by (simp add: Seconds_def Let_def)
  then have v: "cpuPercentOfRequest \<lparr>cs_ticks = 100, cs_at = 0\<rparr> \<lparr>cs_ticks = 600, cs_at = 5 * 10 ^ 9\<rparr> 1000 = 100"
    "cpuPercentOfRequest \<lparr>cs_ticks = 100, cs_at = 0\<rparr> \<lparr>cs_ticks = 1100, cs_at = 5 * 10 ^ 9\<rparr> 1000 = 200"
    by (simp_all add: cpuPercentOfRequest_def Let_def trunc_def)
  then show ?thesis
    using cpuPercent_monotone[of "\<lparr>cs_ticks = 600, cs_at = 5 * 10 ^ 9\<rparr>" "\<lparr>cs_ticks = 1100, cs_at = 5 * 10 ^ 9\<rparr>"
      "\<lparr>cs_ticks = 100, cs_at = 0\<rparr>" 1000] by simp
qed

text \<open>The list of samples after a publication.\<close>

definition keep_samples :: "string list \<Rightarrow> string list" where
  "keep_samples xs = drop (length xs - nat telemetrySamples) xs"

lemma index_range_tail: "index_range xs (- telemetrySamples) (- 1) = keep_samples xs"
proof (cases "length xs < 3")
  case True
  then show ?thesis by (cases xs) (simp_all add: index_range_def keep_samples_def)
next
  case False
  then have "max 0 (int (length xs) - 3) = int (length xs - 3)" "nat (int (length xs) - 3) = length xs - 3" by simp_all
  then show ?thesis using False by (simp add: index_range_def keep_samples_def Let_def)
qed

lemma is_list_put [simp]: "is_list (put_list v k xs) k"
  by (simp add: is_list_def put_list_def)

context redis_server
begin

lemma run_publishSample:
  assumes "quiet E" "server E = R" "is_list (view (db w)) (TelemetryCPUKey (p_Deployment p) (p_PodID p))"
  shows "\<exists>w'. run_state (publishSample E p percent interval) w = (Inr (), w') \<and>
    view (db w') = (view (db w))(TelemetryCPUKey (p_Deployment p) (p_PodID p) \<mapsto>
      RList (keep_samples (list_at (view (db w)) (TelemetryCPUKey (p_Deployment p) (p_PodID p)) @ [Itoa percent]))) \<and>
    world.more w' = world.more w"
proof -
  let ?k = "TelemetryCPUKey (p_Deployment p) (p_PodID p)"
  let ?xs = "list_at (view (db w)) ?k @ [Itoa percent]"
  let ?d1 = "snd (run_state (r_rpush R ?k (Itoa percent)) (db w))"
  have v1: "view ?d1 = put_list (view (db w)) ?k ?xs" using assms(3) by (simp add: view_rpush)
  have t: "fst (run_state (r_ltrim R ?k (- 3) (- 1)) ?d1) = Inr ()"
    "view (snd (run_state (r_ltrim R ?k (- 3) (- 1)) ?d1)) = (view (db w))(?k \<mapsto> RList (keep_samples ?xs))"
    using ltrim[of ?k "- 3" "- 1" ?d1, OF prod.collapse[symmetric]] index_range_tail[of ?xs]
    by (auto simp: v1 put_list_def keep_samples_def)
  have x: "fst (run_state (r_expire R ?k ttl) d) = Inr ()" for ttl d using expire[of ?k ttl d, OF prod.collapse[symmetric]] by simp
  show ?thesis
    using assms(1,2) reply_rpush[OF assms(3)] t x
    by (simp add: publishSample_def Let_def run_on_error ListPush_def ListTrim_def Expire_def run_send_quiet view_expire)
qed

end

text \<open>A publication keeps the last three samples, with nothing else happening: the pod's list becomes its old
  content with the new percentage at the end, cut down to the last three, and no other key changes.\<close>

theorem publishSample_exact:
  assumes "redis_server (server E) view" "quiet E" "is_list (view (db w)) (TelemetryCPUKey (p_Deployment p) (p_PodID p))"
  shows "\<exists>w'. run_state (publishSample E p percent interval) w = (Inr (), w') \<and>
    view (db w') = (view (db w))(TelemetryCPUKey (p_Deployment p) (p_PodID p) \<mapsto>
      RList (keep_samples (list_at (view (db w)) (TelemetryCPUKey (p_Deployment p) (p_PodID p)) @ [Itoa percent])))"
  using redis_server.run_publishSample[OF assms(1,2) refl assms(3)] by blast

theorem publishSample_exact_witness:
  "\<exists>w'. run_state (publishSample mem_host demo_pod 90 0)
      (on_machine [(TelemetryCPUKey ''web'' ''7f'', Some (MList [''10'', ''20'', ''30'']))]) = (Inr (), w') \<and>
    mem_view (db w') (TelemetryCPUKey ''web'' ''7f'') = Some (RList [''20'', ''30'', ''90''])"
proof -
  let ?w = "on_machine [(TelemetryCPUKey ''web'' ''7f'', Some (MList [''10'', ''20'', ''30'']))]"
  have v: "mem_view (db ?w) (TelemetryCPUKey ''web'' ''7f'') = Some (RList [''10'', ''20'', ''30''])"
    by (simp add: mem_view_def mem_get_def)
  moreover have "Itoa 90 = ''90''" by code_simp
  ultimately show ?thesis
    using publishSample_exact[of mem_host mem_view ?w demo_pod 90 0] mem.redis_server_axioms
    by (auto simp: demo_pod_def is_list_def list_at_def keep_samples_def)
qed


section \<open>Accounting\<close>

lemma keeps_db_processCPUTicks [keeps_intros]: "keeps (\<lambda>w. db w = d) (processCPUTicks E pid)"
  unfolding processCPUTicks_def by (intro keeps_intros)

context host_cluster
begin

lemma keeps_processCPUTicks [keeps_intros]: "keeps J (processCPUTicks E pid)"
  by (intro keeps_db_J keeps_intros)

lemma keeps_publishSample [keeps_intros]: "keeps J (publishSample E p n i)"
  unfolding publishSample_def Let_def by (intro keeps_intros; simp)

lemma keeps_telemetry_tick: "keeps J (telemetry_tick E s i b)"
  unfolding telemetry_tick_def collectOnce_def collectOnce_body_def Let_def by (intro keeps_intros; simp)

end

end
