(* ===== verification/PodHealth.thy ===== *)
theory PodHealth
  imports Supervisor "HOL-Library.Sublist"
begin

text \<open>
  \<open>internal/supervisor/health.go\<close>: the agent's self-healing. Each tick probes the pods of the node; a pod that
  fails often enough in a row is declared failed and restarted after a delay that doubles with every
  restart.
\<close>


section \<open>Configuration and delays\<close>

abbreviation (input) probeHost :: string where "probeHost \<equiv> ''127.0.0.1''"

record HealthConfig =
  h_Interval :: int
  h_FailureThreshold :: int
  h_BackoffBase :: int
  h_BackoffMax :: int

abbreviation (input) Second :: int where "Second \<equiv> 10 ^ 9"

text \<open>The defaults that \<open>RunHealthChecker\<close> fills in before its loop.\<close>

definition health_defaults :: "HealthConfig \<Rightarrow> HealthConfig" where
  "health_defaults cfg =
     (let cfg = (if h_Interval cfg \<le> 0 then cfg\<lparr>h_Interval := 5 * Second\<rparr> else cfg);
          cfg = (if h_FailureThreshold cfg \<le> 0 then cfg\<lparr>h_FailureThreshold := 3\<rparr> else cfg);
          cfg = (if h_BackoffBase cfg \<le> 0 then cfg\<lparr>h_BackoffBase := Second\<rparr> else cfg)
      in if h_BackoffMax cfg < h_BackoffBase cfg then cfg\<lparr>h_BackoffMax := 30 * Second\<rparr> else cfg)"

fun backoff_loop :: "nat \<Rightarrow> int \<Rightarrow> int \<Rightarrow> int" where
  "backoff_loop 0 delay cap = delay"
| "backoff_loop (Suc n) delay cap =
     (let delay = i64 (delay * 2) in if delay \<ge> cap then cap else backoff_loop n delay cap)"

definition backoffFor :: "int \<Rightarrow> HealthConfig \<Rightarrow> int" where
  "backoffFor restartCount cfg =
     (let restartCount = (if restartCount < 0 then 0 else restartCount)
      in backoff_loop (nat restartCount) (h_BackoffBase cfg) (h_BackoffMax cfg))"

definition nowUnix :: "('db, 'e) env_scheme \<Rightarrow> (('db, 'm) world_scheme, string) state" where
  "nowUnix E = do { now \<leftarrow> now_unix E; State_Monad.return (Itoa now) }"


section \<open>Probing\<close>

definition portAnswers :: "('db, 'os, 'e) host_env_scheme \<Rightarrow> int \<Rightarrow> (('db, 'os, 'm) host_world_scheme, bool) state" where
  "portAnswers E port =
     on_error (sys E (k_Dial (kernel E) (probeHost @ '':'' @ Itoa port)))
       (\<lambda>e. State_Monad.return False) (\<lambda>_. State_Monad.return True)"

definition podHealthy :: "('db, 'os, 'e) host_env_scheme \<Rightarrow> PodSpec \<Rightarrow> (('db, 'os, 'm) host_world_scheme, bool) state" where
  "podHealthy E pod =
     (if p_PID pod = 0 then State_Monad.return False else do {
        same \<leftarrow> IsSameProcess E (p_PID pod) (p_PIDStartTime pod);
        if \<not> same then State_Monad.return False
        else if p_HostPort pod = 0 then State_Monad.return True
        else portAnswers E (p_HostPort pod) })"

text \<open>\<open>time.Since(time.Unix(last, 0))\<close>: the instant is kept as a 64-bit count of seconds since year 1, and a difference
  is clipped to the range of a \<open>Duration\<close>.\<close>

definition since_unix :: "int \<Rightarrow> int \<Rightarrow> int" where
  "since_unix wall since =
     (let epoch = 62135596800; u = i64 (since + epoch) - epoch
      in max (- (2 ^ 63)) (min (2 ^ 63 - 1) (wall - u * Second)))"

definition restartIfBackoffElapsed ::
  "('db, 'os, 'e) host_env_scheme \<Rightarrow> Supervisor \<Rightarrow> PodSpec \<Rightarrow> HealthConfig \<Rightarrow> (('db, 'os, 'm) host_world_scheme, unit) fallible"
where
  "restartIfBackoffElapsed E s pod cfg = do {
     let last = (case ParseInt (p_LastRestartAt pod) of None \<Rightarrow> 0 | Some n \<Rightarrow> n);
     let wait = i64 (p_BackoffNextSeconds pod * Second);
     let wait = (if wait \<le> 0 then h_BackoffBase cfg else wait);
     early \<leftarrow> (if last > 0 then do { wall \<leftarrow> now_wall E; State_Monad.return (since_unix wall last < wait) }
               else State_Monad.return False);
     if early then ok () else do {
       let podKey = PodKey (p_Deployment pod) (p_PodID pod);
       let next = backoffFor (i64 (p_RestartCount pod + 1)) cfg;
       now \<leftarrow> nowUnix E;
       on_error (HashSet E podKey
           [(FieldPodRestartCount, VInt (i64 (p_RestartCount pod + 1))),
            (FieldPodBackoffNextSec, VInt (trunc (Seconds next))),
            (FieldPodLastRestartAt, VStr now),
            (FieldPodConsecFailures, VInt 0),
            (FieldPodStatus, VStr StatusCrashLoopBackOff)])
         (\<lambda>e. throw (Errorf ''record restart attempt for %s: %w'' [ArgS (p_PodID pod), ArgE e]))
         (\<lambda>_. do {
            Info E (sv_logger s) ''pod_restarting''
              (Sprintf ''attempt %d, next delay %s'' [ArgD (i64 (p_RestartCount pod + 1)), ArgS (Duration_String next)])
              [DeploymentID (p_Deployment pod), PodID (p_PodID pod)];
            Spawn E s (p_Deployment pod) (p_PodID pod) }) } }"

definition checkPod ::
  "('db, 'os, 'e) host_env_scheme \<Rightarrow> Supervisor \<Rightarrow> PodSpec \<Rightarrow> HealthConfig \<Rightarrow> (('db, 'os, 'm) host_world_scheme, unit) fallible"
where
  "checkPod E s pod cfg =
     (let podKey = PodKey (p_Deployment pod) (p_PodID pod) in
      if p_Status pod = StatusCrashLoopBackOff \<or> p_Status pod = StatusFailed
      then restartIfBackoffElapsed E s pod cfg
      else do {
        healthy \<leftarrow> podHealthy E pod;
        if healthy then
          (if p_ConsecutiveFailures pod = 0 then ok () else do {
             now \<leftarrow> nowUnix E;
             HashSet E podKey [(FieldPodConsecFailures, VInt 0), (FieldPodLastHealthOKAt, VStr now)] })
        else do {
          let failures = i64 (p_ConsecutiveFailures pod + 1);
          if failures < h_FailureThreshold cfg then do {
            Warn E (sv_logger s) ''pod_probe_failed''
              (Sprintf ''failure %d of %d'' [ArgD failures, ArgD (h_FailureThreshold cfg)])
              [DeploymentID (p_Deployment pod), PodID (p_PodID pod)];
            HashSet E podKey [(FieldPodConsecFailures, VInt failures)] }
          else do {
            let delay = backoffFor (p_RestartCount pod) cfg;
            Warn E (sv_logger s) ''pod_declared_failed''
              (Sprintf ''%d consecutive probe failures, restarting in %s'' [ArgD failures, ArgS (Duration_String delay)])
              [DeploymentID (p_Deployment pod), PodID (p_PodID pod)];
            now \<leftarrow> nowUnix E;
            HashSet E podKey
              [(FieldPodStatus, VStr StatusFailed), (FieldPodConsecFailures, VInt failures),
               (FieldPodBackoffNextSec, VInt (trunc (Seconds delay))), (FieldPodLastRestartAt, VStr now)] } } })"

definition CheckOnce_body ::
  "('db, 'os, 'e) host_env_scheme \<Rightarrow> Supervisor \<Rightarrow> HealthConfig \<Rightarrow> string \<Rightarrow> unit \<Rightarrow>
   (('db, 'os, 'm) host_world_scheme, (unit, error + unit) flow) state"
where
  "CheckOnce_body E s cfg key u =
     on_error (HashGet E key)
       (\<lambda>e. State_Monad.return (Next ()))
       (\<lambda>fs.
         if fs = [] then State_Monad.return (Next ()) else
         case MapToPod fs of
           Inl e \<Rightarrow> State_Monad.return (Next ())
         | Inr pod \<Rightarrow>
             if p_NodeID pod \<noteq> sv_nodeID s then State_Monad.return (Next ())
             else if p_Status pod = StatusEvicted then State_Monad.return (Next ())
             else on_error (checkPod E s pod cfg)
               (\<lambda>e. do {
                  c \<leftarrow> ctx_Err E;
                  case c of
                    Some ce \<Rightarrow> State_Monad.return (Return (Inl ce))
                  | None \<Rightarrow> do {
                      Warn E (sv_logger s) ''pod_health_check_failed'' (Error_text e)
                        [DeploymentID (p_Deployment pod), PodID (p_PodID pod)];
                      State_Monad.return (Next ()) } })
               (\<lambda>_. State_Monad.return (Next ())))"

definition CheckOnce ::
  "('db, 'os, 'e) host_env_scheme \<Rightarrow> Supervisor \<Rightarrow> HealthConfig \<Rightarrow> (('db, 'os, 'm) host_world_scheme, unit) fallible"
where
  "CheckOnce E s cfg =
     on_error (ScanKeys E PodKeyPattern)
       (\<lambda>e. throw (Errorf ''scan pods: %w'' [ArgE e]))
       (\<lambda>keys. loop (CheckOnce_body E s cfg) keys () (\<lambda>_. ok ()))"

text \<open>One tick of \<open>RunHealthChecker\<close>.\<close>

definition health_tick ::
  "('db, 'os, 'e) host_env_scheme \<Rightarrow> Supervisor \<Rightarrow> HealthConfig \<Rightarrow> (('db, 'os, 'm) host_world_scheme, unit) state"
where
  "health_tick E s cfg =
     on_error (CheckOnce E s (health_defaults cfg))
       (\<lambda>e. do {
          c \<leftarrow> ctx_Err E;
          case c of
            Some _ \<Rightarrow> State_Monad.return ()
          | None \<Rightarrow> Error E (sv_logger s) ''health_sweep_failed'' (Error_text e) [NodeID (sv_nodeID s)] })
       (\<lambda>_. State_Monad.return ())"


section \<open>The delays\<close>

lemma backoff_loop_exact:
  assumes "0 < d" "d \<le> cap" "cap < 2 ^ 62"
  shows "backoff_loop n d cap = min (d * 2 ^ n) cap"
  using assms(1,2)
proof (induction n arbitrary: d)
  case (Suc n)
  have i: "i64 (d * 2) = d * 2" using Suc.prems assms(3) by (simp add: in_int64_def)
  show ?case
  proof (cases "d * 2 \<ge> cap")
    case True
    have "d * 2 * 1 \<le> d * 2 * 2 ^ n" using Suc.prems by (intro mult_left_mono) simp_all
    then show ?thesis using True i by simp
  next
    case False
    then show ?thesis using Suc.IH[of "d * 2"] Suc.prems i by (simp add: mult.assoc)
  qed
qed simp

text \<open>The restart delay doubles with every restart up to the cap: for a positive base and a cap of at least the
  base (and below 146 years, where doubling cannot overflow), the loop computes the smaller of the
  base times two to the number of restarts and the cap.\<close>

theorem backoffFor_exact:
  assumes "0 < h_BackoffBase cfg" "h_BackoffBase cfg \<le> h_BackoffMax cfg" "h_BackoffMax cfg < 2 ^ 62"
  shows "backoffFor n cfg = min (h_BackoffBase cfg * 2 ^ nat n) (h_BackoffMax cfg)"
  using backoff_loop_exact[OF assms] assms(2) by (simp add: backoffFor_def min_def)

theorem backoffFor_exact_witness:
  "map (\<lambda>n. backoffFor n \<lparr>h_Interval = 0, h_FailureThreshold = 3, h_BackoffBase = Second, h_BackoffMax = 30 * Second\<rparr>) [0, 1, 4, 5, 1000] =
   [Second, 2 * Second, 16 * Second, 30 * Second, 30 * Second]"
  using backoffFor_exact[of "\<lparr>h_Interval = 0, h_FailureThreshold = 3, h_BackoffBase = Second, h_BackoffMax = 30 * Second\<rparr>"]
  by (simp add: min_def)


section \<open>Consecutive failures\<close>

text \<open>What a probe makes of a pod that is not waiting for a restart.\<close>

definition probed :: "HealthConfig \<Rightarrow> bool \<Rightarrow> string \<Rightarrow> PodSpec \<Rightarrow> PodSpec" where
  "probed cfg healthy now p =
     (let failures = i64 (p_ConsecutiveFailures p + 1) in
      if healthy then (if p_ConsecutiveFailures p = 0 then p else p\<lparr>p_ConsecutiveFailures := 0, p_LastHealthOKAt := now\<rparr>)
      else if failures < h_FailureThreshold cfg then p\<lparr>p_ConsecutiveFailures := failures\<rparr>
      else p\<lparr>p_Status := StatusFailed, p_ConsecutiveFailures := failures,
             p_BackoffNextSeconds := trunc (Seconds (backoffFor (p_RestartCount p) cfg)), p_LastRestartAt := now\<rparr>)"

fun probe_run :: "HealthConfig \<Rightarrow> (bool \<times> string) list \<Rightarrow> PodSpec \<Rightarrow> PodSpec" where
  "probe_run cfg [] p = p"
| "probe_run cfg ((healthy, now) # probes) p =
     (if p_Status p = StatusFailed then p else probe_run cfg probes (probed cfg healthy now p))"

lemma probe_run_failed: "p_Status p = StatusFailed \<Longrightarrow> probe_run cfg probes p = p"
  by (induction probes) auto

lemma sublist_replicate_break:
  assumes "k < n"
  shows "sublist (replicate n False) (replicate k False @ True # hs) \<longleftrightarrow> sublist (replicate n False) hs"
proof
  assume "sublist (replicate n False) (replicate k False @ True # hs)"
  then obtain ps ss where e: "replicate k False @ True # hs = ps @ replicate n False @ ss" by (auto simp: sublist_def)
  show "sublist (replicate n False) hs"
  proof (cases "length ps \<le> k")
    case True
    have "(replicate k False @ True # hs) ! k" by (simp add: nth_append)
    moreover have "\<not> (ps @ replicate n False @ ss) ! k" using True assms by (simp add: nth_append less_imp_diff_less)
    ultimately show ?thesis using e by simp
  next
    case False
    have "hs = drop (Suc k) (replicate k False @ True # hs)" by simp
    also have "\<dots> = drop (Suc k) ps @ replicate n False @ ss" unfolding e using False by simp
    finally show ?thesis unfolding sublist_def by blast
  qed
next
  assume "sublist (replicate n False) hs"
  then obtain ps ss where "hs = ps @ replicate n False @ ss" by (auto simp: sublist_def)
  then have "replicate k False @ True # hs = (replicate k False @ True # ps) @ replicate n False @ ss" by simp
  then show "sublist (replicate n False) (replicate k False @ True # hs)" unfolding sublist_def by blast
qed

lemma probe_run_threshold:
  assumes "p_Status p \<noteq> StatusFailed" "0 \<le> p_ConsecutiveFailures p" "p_ConsecutiveFailures p < h_FailureThreshold cfg"
    and "h_FailureThreshold cfg < 2 ^ 62"
  shows "p_Status (probe_run cfg probes p) = StatusFailed \<longleftrightarrow>
    sublist (replicate (nat (h_FailureThreshold cfg)) False) (replicate (nat (p_ConsecutiveFailures p)) False @ map fst probes)"
  using assms(1-3)
proof (induction probes arbitrary: p)
  case Nil
  then show ?case by (auto dest!: sublist_length_le)
next
  case (Cons x probes)
  obtain healthy now where x: "x = (healthy, now)" by fastforce
  let ?k = "nat (p_ConsecutiveFailures p)" and ?t = "nat (h_FailureThreshold cfg)"
  have i: "i64 (p_ConsecutiveFailures p + 1) = p_ConsecutiveFailures p + 1"
    using Cons.prems assms(4) by (simp add: in_int64_def)
  show ?case
  proof (cases healthy)
    case True
    have f: "p_ConsecutiveFailures (probed cfg True now p) = 0" "p_Status (probed cfg True now p) = p_Status p"
      by (simp_all add: probed_def Let_def)
    have "?k < ?t" using Cons.prems by simp
    from sublist_replicate_break[OF this, of "map fst probes"] Cons.IH[of "probed cfg True now p"] Cons.prems f x True
    show ?thesis by simp
  next
    case False
    show ?thesis
    proof (cases "p_ConsecutiveFailures p + 1 < h_FailureThreshold cfg")
      case less: True
      have f: "p_ConsecutiveFailures (probed cfg False now p) = p_ConsecutiveFailures p + 1" "p_Status (probed cfg False now p) = p_Status p"
        using less i by (simp_all add: probed_def Let_def)
      have e: "replicate ?k False @ False # map fst probes = replicate (nat (p_ConsecutiveFailures p + 1)) False @ map fst probes"
        using Cons.prems(2) by (simp add: replicate_app_Cons_same nat_add_distrib)
      show ?thesis using Cons.IH[of "probed cfg False now p"] Cons.prems f less x False by (simp add: e)
    next
      case reached: False
      have "p_Status (probed cfg False now p) = StatusFailed" using reached i by (simp add: probed_def Let_def)
      moreover have e: "replicate ?k False @ False # map fst probes = replicate ?t False @ map fst probes"
      proof -
        have "?t = Suc ?k" using reached Cons.prems by simp
        then show ?thesis by (simp add: replicate_app_Cons_same)
      qed
      ultimately show ?thesis using x False Cons.prems(1) by (simp add: probe_run_failed e)
    qed
  qed
qed




section \<open>Probing a pod: functional behaviour\<close>

lemma Seconds_range:
  assumes "0 \<le> d" "d < 2 ^ 62"
  shows "0 \<le> trunc (Seconds d)" "in_int64 (trunc (Seconds d))"
proof -
  define sec where "sec = d div 10 ^ 9"
  define frac where "frac = fl (fl (of_int (d mod 10 ^ 9)) / 10 ^ 9)"
  have "d div 10 ^ 9 \<le> 2 ^ 62 div 10 ^ 9" using assms by (intro zdiv_mono1) simp_all
  then have sec: "0 \<le> sec" "sec \<le> 2 ^ 33" using assms(1) by (simp_all add: sec_def pos_imp_zdiv_nonneg_iff)
  have m: "0 \<le> d mod 10 ^ 9" "d mod 10 ^ 9 \<le> 10 ^ 9" using pos_mod_bound[of "10 ^ 9" d] by simp_all
  define x where "x = rat_of_int (d mod 10 ^ 9) / 10 ^ 9"
  have "rat_of_int (d mod 10 ^ 9) \<le> of_int (10 ^ 9)" using m(2) by (simp only: of_int_le_iff)
  then have x: "0 \<le> x" "x \<le> of_int 1" using m(1) by (simp_all add: x_def)
  have "fl (of_int (d mod 10 ^ 9)) = of_int (d mod 10 ^ 9)" using m by (intro fl_of_int) simp
  then have "frac = fl x" by (simp add: frac_def x_def)
  then have frac: "0 \<le> frac" "frac \<le> of_int 1" using fl_nonneg[OF x(1)] fl_le[OF x(2,1)] by simp_all
  have s: "Seconds d = fl (of_int sec + frac)"
    using assms(1) sec fl_of_int[of sec] by (cases "d = 0") (simp_all add: Seconds_def Let_def sec_def frac_def)
  have "rat_of_int sec \<le> of_int (2 ^ 33)" using sec(2) by (simp only: of_int_le_iff)
  then have y: "0 \<le> of_int sec + frac" "of_int sec + frac \<le> of_int (2 ^ 33 + 1)" using sec(1) frac by simp_all
  have "0 \<le> Seconds d" "Seconds d \<le> of_int (2 ^ 33 + 1)"
    unfolding s using fl_nonneg[OF y(1)] fl_le[OF y(2,1)] by simp_all
  then show "0 \<le> trunc (Seconds d)" "in_int64 (trunc (Seconds d))"
    by (auto simp: trunc_def in_int64_def floor_less_iff le_floor_iff)
qed

definition sane_delays :: "HealthConfig \<Rightarrow> bool" where
  "sane_delays cfg \<longleftrightarrow> 0 < h_BackoffBase cfg \<and> h_BackoffBase cfg \<le> h_BackoffMax cfg \<and> h_BackoffMax cfg < 2 ^ 62"

lemma backoff_range:
  assumes "sane_delays cfg"
  shows "0 < backoffFor n cfg" "backoffFor n cfg < 2 ^ 62"
proof -
  have "backoffFor n cfg = min (h_BackoffBase cfg * 2 ^ nat n) (h_BackoffMax cfg)"
    using backoff_loop_exact[of "h_BackoffBase cfg" "h_BackoffMax cfg" "nat n"] assms
    by (cases "n < 0") (auto simp: backoffFor_def sane_delays_def min_def)
  then show "0 < backoffFor n cfg" "backoffFor n cfg < 2 ^ 62" using assms by (auto simp: sane_delays_def)
qed

context agent
begin

lemma run_write_pod:
  assumes "calm E" "server E = R" "pod_at (view (db w)) (PodKey d i) p" "fs \<noteq> []" "distinct (map fst fs)"
    "FieldPodCPURequest \<notin> fst ` set fs" "FieldPodMemRequest \<notin> fst ` set fs"
  shows "\<exists>w' h. run_state (HashSet E (PodKey d i) fs) w = (Inr (), w') \<and> os w' = os w \<and>
    view (db w') = (view (db w))(PodKey d i \<mapsto> RHash h) \<and> pod_at (view (db w')) (PodKey d i) (patch_pod (wire R fs) p)"
proof -
  have n: "map_of (wire R fs) f = None" if "f \<notin> fst ` set fs" for f
    using that by (force simp: wire_def map_of_eq_None_iff)
  have "is_hash (view (db w)) (PodKey d i)" using assms(3) by (simp add: pod_at_def)
  from run_record[OF assms(1,2) this assms(4,5)] pod_at_patch[OF assms(3) n[OF assms(6)] n[OF assms(7)]]
  show ?thesis by auto
qed

lemma run_podHealthy:
  assumes "calm E" "kernel E = K"
  shows "\<exists>h w'. run_state (podHealthy E p) w = (h, w') \<and> same_host w w' \<and>
    (h \<longrightarrow> same_process (procs (os w)) (p_PID p) (p_PIDStartTime p)) \<and>
    (same_process (procs (os w)) (p_PID p) (p_PIDStartTime p) \<and> p_HostPort p = 0 \<longrightarrow> h)"
proof (cases "p_PID p = 0")
  case True
  then have "\<not> same_process (procs (os w)) (p_PID p) (p_PIDStartTime p)"
    using pid_positive[of "os w" "p_PID p"] by (auto simp: same_process_def)
  then show ?thesis using True by (auto simp: podHealthy_def same_host_def)
next
  case False
  obtain w1 where w1: "run_state (IsSameProcess E (p_PID p) (p_PIDStartTime p)) w =
      (same_process (procs (os w)) (p_PID p) (p_PIDStartTime p), w1)" "same_host w w1" using run_IsSameProcess[OF assms] by blast
  obtain r w2 where w2: "run_state (sys E (k_Dial K (probeHost @ '':'' @ Itoa (p_HostPort p)))) w1 = (r, w2)" "same_host w1 w2"
    using run_look[OF assms(1), of "k_Dial K (probeHost @ '':'' @ Itoa (p_HostPort p))"] looks by blast
  show ?thesis
    using w1 w2 False assms(2)
    by (cases r) (auto simp: podHealthy_def portAnswers_def run_on_error same_host_def)
qed

lemma run_checkPod:
  fixes w :: "('db, 'os, 'm) host_world_scheme"
  assumes "calm E" "kernel E = K" "server E = R" "sane_delays cfg"
    and "p_Status p \<noteq> StatusFailed" "p_Status p \<noteq> StatusCrashLoopBackOff"
    and "pod_at (view (db w)) (PodKey (p_Deployment p) (p_PodID p)) p"
  shows "\<exists>healthy now w'. run_state (checkPod E s p cfg) w = (Inr (), w') \<and>
    pod_at (view (db w')) (PodKey (p_Deployment p) (p_PodID p)) (probed cfg healthy now p) \<and>
    (\<forall>k. k \<noteq> LogStreamKey \<and> k \<noteq> PodKey (p_Deployment p) (p_PodID p) \<longrightarrow> view (db w') k = view (db w) k) \<and>
    procs (os w') = procs (os w) \<and>
    (healthy \<longrightarrow> same_process (procs (os w)) (p_PID p) (p_PIDStartTime p)) \<and>
    (same_process (procs (os w)) (p_PID p) (p_PIDStartTime p) \<and> p_HostPort p = 0 \<longrightarrow> healthy)"
proof -
  let ?key = "PodKey (p_Deployment p) (p_PodID p)" and ?ids = "[DeploymentID (p_Deployment p), PodID (p_PodID p)]"
  have key: "?key \<noteq> LogStreamKey" by (simp add: key_simps)
  obtain healthy w1 where w1: "run_state (podHealthy E p) w = (healthy, w1)" "same_host w w1"
    "healthy \<longrightarrow> same_process (procs (os w)) (p_PID p) (p_PIDStartTime p)"
    "same_process (procs (os w)) (p_PID p) (p_PIDStartTime p) \<and> p_HostPort p = 0 \<longrightarrow> healthy"
    using run_podHealthy[OF assms(1,2)] by blast
  have at1: "pod_at (view (db w1)) ?key p" using assms(7) w1(2) by (simp add: same_host_def)
  let ?f = "i64 (p_ConsecutiveFailures p + 1)"
  \<comment> \<open>what is left: one write to the pod, perhaps after an entry in the log\<close>
  have "\<exists>now w'. run_state (checkPod E s p cfg) w = (Inr (), w') \<and> pod_at (view (db w')) ?key (probed cfg healthy now p) \<and>
    (\<forall>k. k \<noteq> LogStreamKey \<and> k \<noteq> ?key \<longrightarrow> view (db w') k = view (db w1) k) \<and> os w' = os w1"
  proof (cases healthy)
    case True
    show ?thesis
    proof (cases "p_ConsecutiveFailures p = 0")
      case zero: True
      then have "run_state (checkPod E s p cfg) w = (Inr (), w1)"
        using True assms(5,6) w1(1) by (simp add: checkPod_def Let_def)
      then show ?thesis using at1 True zero by (auto simp: probed_def)
    next
      case False
      define now where "now = Itoa (unix_at E (tick w1))"
      let ?fs = "[(FieldPodConsecFailures, VInt 0), (FieldPodLastHealthOKAt, VStr now)]"
      have "pod_at (view (db (w1\<lparr>tick := Suc (tick w1)\<rparr>))) ?key p" using at1 by simp
      from run_write_pod[OF assms(1,3) this, of ?fs] obtain w2 h where
        w2: "run_state (HashSet E ?key ?fs) (w1\<lparr>tick := Suc (tick w1)\<rparr>) = (Inr (), w2)" "os w2 = os w1"
        "view (db w2) = (view (db w1))(?key \<mapsto> RHash h)" "pod_at (view (db w2)) ?key (patch_pod (wire R ?fs) p)" by auto
      have "patch_pod (wire R ?fs) p = probed cfg True now p" using False by (simp add: patch_pod_def probed_def Let_def)
      moreover have "run_state (checkPod E s p cfg) w = (Inr (), w2)"
        using True False assms(5,6) w1(1) w2(1) by (simp add: checkPod_def Let_def nowUnix_def now_def)
      ultimately show ?thesis using w2 True by auto
    qed
  next
    case unhealthy: False
    show ?thesis
    proof (cases "?f < h_FailureThreshold cfg")
      case True
      obtain v x where v: "run_state (Warn E (sv_logger s) ''pod_probe_failed''
          (Sprintf ''failure %d of %d'' [ArgD ?f, ArgD (h_FailureThreshold cfg)]) ?ids) w1 = ((), v)"
        "os v = os w1" "view (db v) = (view (db w1))(LogStreamKey := x)" using run_note(2)[OF assms(1,3)] by blast
      let ?fs = "[(FieldPodConsecFailures, VInt ?f)]"
      have "pod_at (view (db v)) ?key p" using pod_at_log[OF at1 key] v(3) by simp
      from run_write_pod[OF assms(1,3) this, of ?fs] obtain w2 h where
        w2: "run_state (HashSet E ?key ?fs) v = (Inr (), w2)" "os w2 = os v"
        "view (db w2) = (view (db v))(?key \<mapsto> RHash h)" "pod_at (view (db w2)) ?key (patch_pod (wire R ?fs) p)" by auto
      have "patch_pod (wire R ?fs) p = probed cfg False [] p" using True by (simp add: patch_pod_def probed_def Let_def)
      moreover have "run_state (checkPod E s p cfg) w = (Inr (), w2)"
        using True unhealthy assms(5,6) w1(1) w2(1) v(1) by (simp add: checkPod_def Let_def)
      ultimately show ?thesis using w2 v unhealthy by auto
    next
      case False
      let ?delay = "backoffFor (p_RestartCount p) cfg"
      obtain v x where v: "run_state (Warn E (sv_logger s) ''pod_declared_failed''
          (Sprintf ''%d consecutive probe failures, restarting in %s'' [ArgD ?f, ArgS (Duration_String ?delay)]) ?ids) w1 = ((), v)"
        "os v = os w1" "view (db v) = (view (db w1))(LogStreamKey := x)" using run_note(2)[OF assms(1,3)] by blast
      define now where "now = Itoa (unix_at E (tick v))"
      let ?fs = "[(FieldPodStatus, VStr StatusFailed), (FieldPodConsecFailures, VInt ?f),
               (FieldPodBackoffNextSec, VInt (trunc (Seconds ?delay))), (FieldPodLastRestartAt, VStr now)]"
      have "pod_at (view (db (v\<lparr>tick := Suc (tick v)\<rparr>))) ?key p" using pod_at_log[OF at1 key] v(3) by simp
      from run_write_pod[OF assms(1,3) this, of ?fs] obtain w2 h where
        w2: "run_state (HashSet E ?key ?fs) (v\<lparr>tick := Suc (tick v)\<rparr>) = (Inr (), w2)" "os w2 = os v"
        "view (db w2) = (view (db v))(?key \<mapsto> RHash h)" "pod_at (view (db w2)) ?key (patch_pod (wire R ?fs) p)" by auto
      have "in_int64 (trunc (Seconds ?delay))" using backoff_range[OF assms(4), of "p_RestartCount p"] by (intro Seconds_range) simp_all
      then have "patch_pod (wire R ?fs) p = probed cfg False now p" using False by (simp add: patch_pod_def probed_def Let_def)
      moreover have "run_state (checkPod E s p cfg) w = (Inr (), w2)"
        using False unhealthy assms(5,6) w1(1) w2(1) v(1) by (simp add: checkPod_def Let_def nowUnix_def now_def)
      ultimately show ?thesis using w2 v unhealthy by auto
    qed
  qed
  then show ?thesis using w1(2-4) unfolding same_host_def by metis
qed

end

text \<open>C33. Probing a pod implements the counting of failures, with nothing else happening: the pod's record changes
  exactly as one step of the counting says, where a pod counts as healthy only if its recorded
  process is alive, and always if that is so and it has no port; no process is started or ended and no
  other key but the log changes.\<close>

theorem checkPod_probes:
  assumes "redis_server (server E) view" "unix_kernel (kernel E) procs" "calm E" "sane_delays cfg"
    and "p_Status p \<noteq> StatusFailed" "p_Status p \<noteq> StatusCrashLoopBackOff"
    and "pod_at (view (db w)) (PodKey (p_Deployment p) (p_PodID p)) p"
  shows "\<exists>healthy now w'. run_state (checkPod E s p cfg) w = (Inr (), w') \<and>
    pod_at (view (db w')) (PodKey (p_Deployment p) (p_PodID p)) (probed cfg healthy now p) \<and>
    (\<forall>k. k \<noteq> LogStreamKey \<and> k \<noteq> PodKey (p_Deployment p) (p_PodID p) \<longrightarrow> view (db w') k = view (db w) k) \<and>
    procs (os w') = procs (os w) \<and>
    (healthy \<longrightarrow> same_process (procs (os w)) (p_PID p) (p_PIDStartTime p)) \<and>
    (same_process (procs (os w)) (p_PID p) (p_PIDStartTime p) \<and> p_HostPort p = 0 \<longrightarrow> healthy)"
  by (rule agent.run_checkPod[OF agent.intro[OF assms(1,2)] assms(3) refl refl assms(4-7)])

definition demo_health :: HealthConfig where
  "demo_health = \<lparr>h_Interval = 5 * Second, h_FailureThreshold = 3, h_BackoffBase = Second, h_BackoffMax = 30 * Second\<rparr>"

theorem checkPod_probes_witness:
  "\<exists>w'. run_state (checkPod mem_host demo_supervisor demo_pod demo_health) (on_machine host_db) = (Inr (), w') \<and>
     pod_at (mem_view (db w')) (PodKey ''web'' ''7f'') (demo_pod\<lparr>p_ConsecutiveFailures := 1\<rparr>)"
proof -
  have f: "p_Status demo_pod = StatusRunning" "PodKey (p_Deployment demo_pod) (p_PodID demo_pod) = PodKey ''web'' ''7f''"
    "p_PID demo_pod = 42" "p_PIDStartTime demo_pod = 2 ^ 63" "p_ConsecutiveFailures demo_pod = 0"
    by (simp_all add: demo_pod_def)
  have dead: "\<not> same_process (ma_view demo_machine) 42 (2 ^ 63)"
    by (simp add: same_process_def ma_view_def ma_table_def demo_machine_def proc_ok_def)
  have sane: "sane_delays demo_health" by (simp add: sane_delays_def demo_health_def)
  have st: "p_Status demo_pod \<noteq> StatusFailed" "p_Status demo_pod \<noteq> StatusCrashLoopBackOff" by (simp_all add: f)
  have pod: "pod_at (mem_view (db (on_machine host_db))) (PodKey (p_Deployment demo_pod) (p_PodID demo_pod)) demo_pod"
    using host_db_ready(2) by (simp add: f)
  have srv: "redis_server (server mem_host) mem_view" "unix_kernel (kernel mem_host) ma_view"
    using mem.redis_server_axioms mach.unix_kernel_axioms by simp_all
  obtain healthy now w' where r: "run_state (checkPod mem_host demo_supervisor demo_pod demo_health) (on_machine host_db) = (Inr (), w')"
    "pod_at (mem_view (db w')) (PodKey ''web'' ''7f'') (probed demo_health healthy now demo_pod)"
    "healthy \<longrightarrow> same_process (ma_view demo_machine) 42 (2 ^ 63)"
    using checkPod_probes[OF srv _ sane st pod, of demo_supervisor] unfolding f by auto
  moreover have "\<not> healthy" using r(3) dead by blast
  moreover have "probed demo_health False now demo_pod = demo_pod\<lparr>p_ConsecutiveFailures := 1\<rparr>"
    by (simp add: probed_def demo_health_def f in_int64_def)
  ultimately show ?thesis by auto
qed


section \<open>Restarting a pod: functional behaviour\<close>

text \<open>Whether the delay of a failed pod is not over yet at a wall-clock time.\<close>

definition waiting :: "HealthConfig \<Rightarrow> PodSpec \<Rightarrow> int \<Rightarrow> bool" where
  "waiting cfg p wall \<longleftrightarrow>
     (case ParseInt (p_LastRestartAt p) of
        None \<Rightarrow> False
      | Some stamp \<Rightarrow> 0 < stamp \<and> since_unix wall stamp <
          (if i64 (p_BackoffNextSeconds p * Second) \<le> 0 then h_BackoffBase cfg else i64 (p_BackoffNextSeconds p * Second)))"

definition wall_at :: "('db, 'os, 'e) host_env_scheme \<Rightarrow> nat \<Rightarrow> int" where
  "wall_at E t = unix_at E t * 10 ^ 9 + int (frac_at E t mod 10 ^ 9)"

text \<open>The record of a restart attempt.\<close>

definition attempted :: "HealthConfig \<Rightarrow> string \<Rightarrow> PodSpec \<Rightarrow> PodSpec" where
  "attempted cfg now p =
     p\<lparr>p_RestartCount := i64 (p_RestartCount p + 1),
       p_BackoffNextSeconds := trunc (Seconds (backoffFor (i64 (p_RestartCount p + 1)) cfg)),
       p_LastRestartAt := now, p_ConsecutiveFailures := 0, p_Status := StatusCrashLoopBackOff\<rparr>"

lemma run_restart_early:
  assumes "waiting cfg p (wall_at E (tick w))"
  shows "run_state (restartIfBackoffElapsed E s p cfg) w = (Inr (), w\<lparr>tick := Suc (tick w)\<rparr>)"
  using assms
  by (auto simp: restartIfBackoffElapsed_def Let_def waiting_def now_wall_def wall_at_def split: option.splits)

definition attempt_fields :: "HealthConfig \<Rightarrow> string \<Rightarrow> PodSpec \<Rightarrow> (string \<times> rarg) list" where
  "attempt_fields cfg now p =
     [(FieldPodRestartCount, VInt (i64 (p_RestartCount p + 1))),
      (FieldPodBackoffNextSec, VInt (trunc (Seconds (backoffFor (i64 (p_RestartCount p + 1)) cfg)))),
      (FieldPodLastRestartAt, VStr now), (FieldPodConsecFailures, VInt 0), (FieldPodStatus, VStr StatusCrashLoopBackOff)]"

lemma run_restart_late:
  assumes "\<not> waiting cfg p (wall_at E (tick w))"
  shows "\<exists>t. run_state (restartIfBackoffElapsed E s p cfg) w =
    run_state (on_error (HashSet E (PodKey (p_Deployment p) (p_PodID p)) (attempt_fields cfg (Itoa (unix_at E t)) p))
         (\<lambda>e. throw (Errorf ''record restart attempt for %s: %w'' [ArgS (p_PodID p), ArgE e]))
         (\<lambda>_. do {
            Info E (sv_logger s) ''pod_restarting''
              (Sprintf ''attempt %d, next delay %s''
                 [ArgD (i64 (p_RestartCount p + 1)), ArgS (Duration_String (backoffFor (i64 (p_RestartCount p + 1)) cfg))])
              [DeploymentID (p_Deployment p), PodID (p_PodID p)];
            Spawn E s (p_Deployment p) (p_PodID p) })) (w\<lparr>tick := Suc t\<rparr>)"
  using assms
  by (cases "ParseInt (p_LastRestartAt p)"; cases "0 < the (ParseInt (p_LastRestartAt p))")
    (auto simp: restartIfBackoffElapsed_def Let_def waiting_def now_wall_def wall_at_def nowUnix_def attempt_fields_def split: option.splits intro!: exI)

lemma attempted_simps [simp]:
  "p_PID (attempted cfg now p) = p_PID p" "p_PIDStartTime (attempted cfg now p) = p_PIDStartTime p"
  "p_Status (attempted cfg now p) = StatusCrashLoopBackOff" "p_HostPort (attempted cfg now p) = p_HostPort p"
  by (simp_all add: attempted_def)

context agent
begin

lemma run_restart:
  fixes w :: "('db, 'os, 'm) host_world_scheme"
  assumes "calm E" "kernel E = K" "server E = R" "sane_delays cfg"
    and "deployment_at (view (db w)) (p_Deployment p) dep"
    and "pod_at (view (db w)) (PodKey (p_Deployment p) (p_PodID p)) p" "\<not> waiting cfg p (wall_at E (tick w))"
  shows "\<exists>r w' now q. run_state (restartIfBackoffElapsed E s p cfg) w = (r, w') \<and>
    pod_at (view (db w')) (PodKey (p_Deployment p) (p_PodID p)) q \<and>
    (if same_process (procs (os w)) (p_PID p) (p_PIDStartTime p)
     then r = Inr () \<and> q = attempted cfg now p \<and> procs (os w') = procs (os w)
     else if r = Inr ()
     then \<exists>pid t port begun. q = started_pod (attempted cfg now p) pid t port begun \<and> same_process (procs (os w')) pid t
     else procs (os w') = procs (os w) \<and> (q = attempted cfg now p \<or> q = (attempted cfg now p)\<lparr>p_Status := StatusFailed\<rparr>))"
proof -
  let ?d = "p_Deployment p" and ?i = "p_PodID p"
  let ?key = "PodKey ?d ?i"
  obtain t where run: "run_state (restartIfBackoffElapsed E s p cfg) w =
    run_state (on_error (HashSet E ?key (attempt_fields cfg (Itoa (unix_at E t)) p))
         (\<lambda>e. throw (Errorf ''record restart attempt for %s: %w'' [ArgS ?i, ArgE e]))
         (\<lambda>_. do {
            Info E (sv_logger s) ''pod_restarting''
              (Sprintf ''attempt %d, next delay %s''
                 [ArgD (i64 (p_RestartCount p + 1)), ArgS (Duration_String (backoffFor (i64 (p_RestartCount p + 1)) cfg))])
              [DeploymentID ?d, PodID ?i];
            Spawn E s ?d ?i })) (w\<lparr>tick := Suc t\<rparr>)" using run_restart_late[OF assms(7)] by blast
  define now where "now = Itoa (unix_at E t)"
  have "pod_at (view (db (w\<lparr>tick := Suc t\<rparr>))) ?key p" using assms(6) by simp
  from run_write_pod[OF assms(1,3) this, of "attempt_fields cfg now p"] obtain w1 h where
    w1: "run_state (HashSet E ?key (attempt_fields cfg now p)) (w\<lparr>tick := Suc t\<rparr>) = (Inr (), w1)" "os w1 = os w"
    "view (db w1) = (view (db w))(?key \<mapsto> RHash h)" "pod_at (view (db w1)) ?key (patch_pod (wire R (attempt_fields cfg now p)) p)"
    by (auto simp: attempt_fields_def)
  have "in_int64 (trunc (Seconds (backoffFor (i64 (p_RestartCount p + 1)) cfg)))"
    using backoff_range[OF assms(4), of "i64 (p_RestartCount p + 1)"] by (intro Seconds_range) simp_all
  then have "patch_pod (wire R (attempt_fields cfg now p)) p = attempted cfg now p"
    by (simp add: patch_pod_def attempt_fields_def attempted_def Let_def)
  with w1(4) have at1: "pod_at (view (db w1)) ?key (attempted cfg now p)" by simp
  obtain w2 x where w2: "run_state (Info E (sv_logger s) ''pod_restarting''
      (Sprintf ''attempt %d, next delay %s''
         [ArgD (i64 (p_RestartCount p + 1)), ArgS (Duration_String (backoffFor (i64 (p_RestartCount p + 1)) cfg))])
      [DeploymentID ?d, PodID ?i]) w1 = ((), w2)" "os w2 = os w1" "view (db w2) = (view (db w1))(LogStreamKey := x)"
    using run_note(1)[OF assms(1,3)] by blast
  have at2: "pod_at (view (db w2)) ?key (attempted cfg now p)" unfolding w2(3) by (rule pod_at_log[OF at1]) (simp add: key_simps)
  have dep2: "deployment_at (view (db w2)) ?d dep"
    using assms(5) by (simp add: w2(3) w1(3) deployment_at_def is_hash_def hash_at_def key_simps)
  obtain r w3 where w3: "run_state (Spawn E s ?d ?i) w2 = (r, w3)"
    "if same_process (procs (os w)) (p_PID p) (p_PIDStartTime p)
     then r = Inr () \<and> procs (os w3) = procs (os w) \<and> pod_at (view (db w3)) ?key (attempted cfg now p)
     else if r = Inr ()
     then \<exists>pid q port begun. procs (os w) pid = None \<and> procs (os w3) = (procs (os w))(pid \<mapsto> q) \<and>
       pr_environ q = workload_env E s dep (attempted cfg now p) port \<and> (p_HostPort p \<noteq> 0 \<longrightarrow> port = p_HostPort p) \<and>
       same_process (procs (os w3)) pid (pr_start q) \<and> pr_group q = pid \<and>
       pod_at (view (db w3)) ?key (started_pod (attempted cfg now p) pid (pr_start q) port begun) \<and>
       hash_at (view (db w3)) ?key FieldPodPID = Some (Itoa pid)
     else isl r \<and> procs (os w3) = procs (os w) \<and>
       (pod_at (view (db w3)) ?key (attempted cfg now p) \<or>
        pod_at (view (db w3)) ?key ((attempted cfg now p)\<lparr>p_Status := StatusFailed\<rparr>))"
    using run_Spawn[OF assms(1-3) dep2 at2, of s] unfolding w2(2) w1(2) attempted_simps by (elim exE conjE)
  have r: "run_state (restartIfBackoffElapsed E s p cfg) w = (r, w3)"
    unfolding run using w1(1) w2(1) w3(1) by (simp add: run_on_error now_def)
  show ?thesis
  proof (cases "\<not> same_process (procs (os w)) (p_PID p) (p_PIDStartTime p) \<and> r = Inr ()")
    case True
    with w3(2) obtain pid port begun and q :: proc where "same_process (procs (os w3)) pid (pr_start q)"
      "pod_at (view (db w3)) ?key (started_pod (attempted cfg now p) pid (pr_start q) port begun)" by auto
    with True r show ?thesis
      by (intro exI[of _ r] exI[of _ w3] exI[of _ now] exI[of _ "started_pod (attempted cfg now p) pid (pr_start q) port begun"]) auto
  next
    case False
    then show ?thesis
      using w3(2) r by (cases "same_process (procs (os w)) (p_PID p) (p_PIDStartTime p)") auto
  qed
qed

end

text \<open>C31. Restarting a failed pod, with nothing else happening: before its delay is over nothing happens; afterwards the
  attempt is on record whatever becomes of it (one more restart, the next delay, the time). If the
  recorded process is gone, a start either leaves the pod Running with the new process on record or the
  pod failed. But if the recorded process is still alive, nothing is started or ended and the pod
  stays in CrashLoopBackOff: a process that hangs is not replaced.\<close>

theorem restart_exact:
  assumes "redis_server (server E) view" "unix_kernel (kernel E) procs" "calm E" "sane_delays cfg"
    and "deployment_at (view (db w)) (p_Deployment p) dep"
    and "pod_at (view (db w)) (PodKey (p_Deployment p) (p_PodID p)) p"
  shows "if waiting cfg p (wall_at E (tick w))
    then run_state (restartIfBackoffElapsed E s p cfg) w = (Inr (), w\<lparr>tick := Suc (tick w)\<rparr>)
    else \<exists>r w' now q. run_state (restartIfBackoffElapsed E s p cfg) w = (r, w') \<and>
      pod_at (view (db w')) (PodKey (p_Deployment p) (p_PodID p)) q \<and>
      (if same_process (procs (os w)) (p_PID p) (p_PIDStartTime p)
       then r = Inr () \<and> q = attempted cfg now p \<and> procs (os w') = procs (os w)
       else if r = Inr ()
       then \<exists>pid t port begun. q = started_pod (attempted cfg now p) pid t port begun \<and> same_process (procs (os w')) pid t
       else procs (os w') = procs (os w) \<and> (q = attempted cfg now p \<or> q = (attempted cfg now p)\<lparr>p_Status := StatusFailed\<rparr>))"
proof (cases "waiting cfg p (wall_at E (tick w))")
  case True
  then show ?thesis using run_restart_early by simp
next
  case False
  from agent.run_restart[OF agent.intro[OF assms(1,2)] assms(3) refl refl assms(4-6) False, of s] False
  show ?thesis by (simp only: if_False)
qed

theorem restart_exact_witness:
  "\<exists>w' now. run_state (restartIfBackoffElapsed mem_host demo_supervisor demo_pod demo_health) ((on_machine pair_db)\<lparr>os := busy_machine\<rparr>) = (Inr (), w') \<and>
     pod_at (mem_view (db w')) (PodKey ''web'' ''7f'') (attempted demo_health now demo_pod) \<and> ma_view (os w') = ma_view busy_machine"
proof -
  let ?w = "(on_machine pair_db)\<lparr>os := busy_machine\<rparr>"
  have f: "p_Deployment demo_pod = ''web''" "p_PodID demo_pod = ''7f''" "p_PID demo_pod = 42" "p_PIDStartTime demo_pod = 2 ^ 63"
    "p_LastRestartAt demo_pod = []" by (simp_all add: demo_pod_def)
  have "\<not> waiting demo_health demo_pod t" for t by (simp add: waiting_def f ParseInt_def)
  moreover have "same_process (ma_view busy_machine) 42 (2 ^ 63)" by (simp add: same_process_def busy_process)
  moreover have "sane_delays demo_health" by (simp add: sane_delays_def demo_health_def)
  ultimately show ?thesis
    using restart_exact[of mem_host mem_view ma_view demo_health ?w demo_pod "demo_deployment\<lparr>d_DesiredReplicas := 1\<rparr>" demo_supervisor]
      mem.redis_server_axioms mach.unix_kernel_axioms pair_host
    by (auto simp: f)
qed


section \<open>Safety\<close>

context host_cluster
begin

lemma keeps_restart [keeps_intros]: "keeps J (restartIfBackoffElapsed E s p cfg)"
proof -
  have "keeps J (HashSet E (PodKey d i) [(FieldPodRestartCount, VInt a), (FieldPodBackoffNextSec, VInt b), (FieldPodLastRestartAt, VStr t),
      (FieldPodConsecFailures, VInt 0), (FieldPodStatus, VStr StatusCrashLoopBackOff)])" for d i a b t
    by (rule keeps_pod_fields) simp_all
  moreover have "keeps J (now_wall E)" by (simp add: keeps_def J_def now_wall_def)
  ultimately show ?thesis
    unfolding restartIfBackoffElapsed_def nowUnix_def Let_def by (intro keeps_intros) simp_all
qed

lemma keeps_checkPod [keeps_intros]: "keeps J (checkPod E s p cfg)"
proof -
  have "keeps J (HashSet E (PodKey d i) [(FieldPodConsecFailures, VInt a), (FieldPodLastHealthOKAt, VStr t)])"
    "keeps J (HashSet E (PodKey d i) [(FieldPodConsecFailures, VInt a)])"
    "keeps J (HashSet E (PodKey d i) [(FieldPodStatus, VStr u), (FieldPodConsecFailures, VInt a),
       (FieldPodBackoffNextSec, VInt b), (FieldPodLastRestartAt, VStr t)])" for d i a b t u
    by (rule keeps_pod_fields; simp)+
  then show ?thesis
    unfolding checkPod_def podHealthy_def portAnswers_def nowUnix_def Let_def by (intro keeps_intros) simp_all
qed

lemma keeps_health_tick: "keeps J (health_tick E s cfg)"
  unfolding health_tick_def CheckOnce_def CheckOnce_body_def by (intro keeps_intros) simp_all

end

end
