(* ===== verification/Reconcile.thy ===== *)
theory Reconcile
  imports PodHealth
begin

text \<open>
  \<open>internal/supervisor/reconcile.go\<close>: what an agent does before it accepts work. Every pod of the node whose recorded
  process is alive is adopted, every other one is started again, and processes that carry the node's marker
  without a pod that claims them are ended.
\<close>


section \<open>Pod markers\<close>

record ReconcileReport =
  rr_Adopted :: "string list"
  rr_Restarted :: "string list"
  rr_Orphaned :: "string list"

definition marker_entry :: "string \<times> string \<Rightarrow> string \<Rightarrow> string \<times> string" where
  "marker_entry ids entry =
     (if HasPrefix entry (PodIDEnv @ ''='') then (TrimPrefix entry (PodIDEnv @ ''=''), snd ids)
      else if HasPrefix entry (NodeIDEnv @ ''='') then (fst ids, TrimPrefix entry (NodeIDEnv @ ''=''))
      else ids)"

definition parse_marker :: "string \<Rightarrow> string \<times> string \<times> bool" where
  "parse_marker data = (let (podID, nodeID) = foldl marker_entry ([], []) (Split data (CHR 0x00)) in (podID, nodeID, podID \<noteq> []))"

definition readPodMarker ::
  "('db, 'os, 'e) host_env_scheme \<Rightarrow> int \<Rightarrow> (('db, 'os, 'm) host_world_scheme, string \<times> string \<times> bool) state"
where
  "readPodMarker E pid =
     on_error (sys E (k_ReadFile (kernel E) (environ_path pid)))
       (\<lambda>e. State_Monad.return ([], [], False))
       (\<lambda>data. State_Monad.return (parse_marker data))"


section \<open>Orphans\<close>

text \<open>Of the map of owned processes only the keys matter.\<close>

definition killOrphans_body ::
  "('db, 'os, 'e) host_env_scheme \<Rightarrow> Supervisor \<Rightarrow> int list \<Rightarrow> string \<Rightarrow> string list \<Rightarrow>
   (('db, 'os, 'm) host_world_scheme, (string list, error + string list) flow) state"
where
  "killOrphans_body E s owned entry killed =
     (case Atoi entry of
        None \<Rightarrow> State_Monad.return (Next killed)
      | Some pid \<Rightarrow>
          if pid = Getpid E then State_Monad.return (Next killed)
          else if pid \<in> set owned then State_Monad.return (Next killed)
          else do {
            (podID, nodeID, found) \<leftarrow> readPodMarker E pid;
            if \<not> found \<or> nodeID \<noteq> sv_nodeID s then State_Monad.return (Next killed) else do {
              Warn E (sv_logger s) ''orphan_process_killed''
                (Sprintf ''pid %d carries pod marker %s but no live pod claims it'' [ArgD pid, ArgS podID])
                [PodID podID, NodeID (sv_nodeID s)];
              on_error (terminate E pid)
                (\<lambda>e. State_Monad.return (Return (Inl e)))
                (\<lambda>_. State_Monad.return (Next (killed @ [podID]))) } })"

definition killOrphans ::
  "('db, 'os, 'e) host_env_scheme \<Rightarrow> Supervisor \<Rightarrow> int list \<Rightarrow> (('db, 'os, 'm) host_world_scheme, string list) fallible"
where
  "killOrphans E s owned =
     on_error (sys E (k_ReadDir (kernel E) ''/proc''))
       (\<lambda>e. throw (Errorf ''read /proc: %w'' [ArgE e]))
       (\<lambda>entries. loop (killOrphans_body E s owned) entries [] (\<lambda>killed. ok killed))"


section \<open>Startup\<close>

type_synonym startup = "int list \<times> string list \<times> string list"

text \<open>Adopting a pod whose process was verified.\<close>

definition adopt_pod ::
  "('db, 'e) env_scheme \<Rightarrow> Supervisor \<Rightarrow> string \<Rightarrow> PodSpec \<Rightarrow> (('db, 'm) world_scheme, unit) state"
where
  "adopt_pod E s key pod = do {
     (if p_Status pod \<noteq> StatusRunning then
        on_error (HashSet E key [(FieldPodStatus, VStr StatusRunning)])
          (\<lambda>e. Warn E (sv_logger s) ''pod_status_write_failed''
                 (Sprintf ''adopted pid %d but could not correct status: %v'' [ArgD (p_PID pod), ArgE e])
                 [DeploymentID (p_Deployment pod), PodID (p_PodID pod)])
          (\<lambda>_. State_Monad.return ())
      else State_Monad.return ());
     Info E (sv_logger s) ''pod_adopted''
       (Sprintf ''re-adopted running pid %d, not spawning a duplicate'' [ArgD (p_PID pod)])
       (pod_ids s (p_Deployment pod) (p_PodID pod)) }"

text \<open>Starting a pod again whose process is gone; the result is the process it then owns, if it was started.\<close>

definition restart_pod ::
  "('db, 'os, 'e) host_env_scheme \<Rightarrow> Supervisor \<Rightarrow> string \<Rightarrow> PodSpec \<Rightarrow> (('db, 'os, 'm) host_world_scheme, int option option) state"
where
  "restart_pod E s key pod = do {
     Warn E (sv_logger s) ''pod_process_missing''
       (Sprintf ''recorded pid %d is not this pod's process, restarting it'' [ArgD (p_PID pod)])
       (pod_ids s (p_Deployment pod) (p_PodID pod));
     on_error (Spawn E s (p_Deployment pod) (p_PodID pod))
       (\<lambda>e. do {
          Error E (sv_logger s) ''pod_restart_failed''
            (Sprintf ''could not restart pod during startup reconcile: %v'' [ArgE e])
            (pod_ids s (p_Deployment pod) (p_PodID pod));
          State_Monad.return None })
       (\<lambda>_. on_error (HashGet E key)
          (\<lambda>e. State_Monad.return (Some None))
          (\<lambda>refreshed. State_Monad.return (Some
             (case Atoi (mget refreshed FieldPodPID) of
                Some newPID \<Rightarrow> if newPID > 0 then Some newPID else None
              | None \<Rightarrow> None)))) }"

definition ReconcileOnStartup_body ::
  "('db, 'os, 'e) host_env_scheme \<Rightarrow> Supervisor \<Rightarrow> string \<Rightarrow> startup \<Rightarrow>
   (('db, 'os, 'm) host_world_scheme, (startup, error + ReconcileReport) flow) state"
where
  "ReconcileOnStartup_body E s key acc =
     (case acc of (owned, adopted, restarted) \<Rightarrow>
      on_error (HashGet E key)
        (\<lambda>e. State_Monad.return (Return (Inl (Errorf ''read pod %s: %w'' [ArgS key, ArgE e]))))
        (\<lambda>fs.
          if fs = [] then State_Monad.return (Next acc)
          else if mget fs FieldPodNodeID \<noteq> sv_nodeID s then State_Monad.return (Next acc)
          else case MapToPod fs of
            Inl e \<Rightarrow> do {
              Warn E (sv_logger s) ''pod_hash_malformed''
                (Sprintf ''skipping unreadable pod %s during startup reconcile: %v'' [ArgS key, ArgE e])
                [NodeID (sv_nodeID s)];
              State_Monad.return (Next acc) }
          | Inr pod \<Rightarrow>
              if p_Status pod = StatusEvicted then State_Monad.return (Next acc) else do {
                same \<leftarrow> IsSameProcess E (p_PID pod) (p_PIDStartTime pod);
                if same then do {
                  adopt_pod E s key pod;
                  State_Monad.return (Next (p_PID pod # owned, adopted @ [p_PodID pod], restarted)) }
                else do {
                  r \<leftarrow> restart_pod E s key pod;
                  State_Monad.return (Next
                    (case r of
                       None \<Rightarrow> acc
                     | Some None \<Rightarrow> (owned, adopted, restarted @ [p_PodID pod])
                     | Some (Some newPID) \<Rightarrow> (newPID # owned, adopted, restarted @ [p_PodID pod]))) } }))"

definition ReconcileOnStartup ::
  "('db, 'os, 'e) host_env_scheme \<Rightarrow> Supervisor \<Rightarrow> (('db, 'os, 'm) host_world_scheme, ReconcileReport) fallible"
where
  "ReconcileOnStartup E s =
     on_error (ScanKeys E PodKeyPattern)
       (\<lambda>e. throw (Errorf ''scan pods: %w'' [ArgE e]))
       (\<lambda>podKeys. loop (ReconcileOnStartup_body E s) podKeys ([], [], []) (\<lambda>(owned, adopted, restarted). do {
          orphans \<leftarrow> on_error (killOrphans E s owned)
            (\<lambda>e. do {
               Warn E (sv_logger s) ''orphan_scan_failed''
                 (Sprintf ''could not scan for stray processes: %v'' [ArgE e]) [NodeID (sv_nodeID s)];
               State_Monad.return [] })
            (\<lambda>killed. State_Monad.return killed);
          Info E (sv_logger s) ''startup_reconciled''
            (Sprintf ''adopted %d, restarted %d, killed %d orphaned processes''
               [ArgD (int (length adopted)), ArgD (int (length restarted)), ArgD (int (length orphans))])
            [NodeID (sv_nodeID s)];
          ok \<lparr>rr_Adopted = adopted, rr_Restarted = restarted, rr_Orphaned = orphans\<rparr> }))"


section \<open>Markers are read back\<close>

lemma Split_not_Nil [simp]: "Split s c \<noteq> []"
  by (induction s) (auto split: list.splits)

lemma Split_join: "c \<notin> set x \<Longrightarrow> Split (x @ c # s) c = x # Split s c"
  by (induction x) auto

lemma Split_environ: "list_all (\<lambda>e. CHR 0x00 \<notin> set e) es \<Longrightarrow> Split (environ_text es) (CHR 0x00) = es @ [[]]"
  by (induction es) (simp_all add: environ_text_def Split_join)

definition marker_of :: "proc \<Rightarrow> string \<times> string \<times> bool" where
  "marker_of q = parse_marker (environ_text (pr_environ q))"

text \<open>A started pod can be found again: the environment that \<open>launch\<close> gives to a process, as the kernel presents
  it, reads back as the id of the pod and of the node, whatever the other variables contain.\<close>

theorem marker_roundtrip:
  assumes "list_all (\<lambda>e. CHR 0x00 \<notin> set e) (workload_env E s dep p port)" "p_PodID p \<noteq> []"
  shows "parse_marker (environ_text (workload_env E s dep p port)) = (p_PodID p, sv_nodeID s, True)"
  using assms(2) unfolding parse_marker_def Split_environ[OF assms(1)]
  by (simp add: workload_env_def marker_entry_def HasPrefix_def TrimPrefix_def)

theorem marker_roundtrip_witness:
  "parse_marker (environ_text (workload_env mem_host demo_supervisor demo_deployment demo_pod 80)) = (''7f'', ''n1'', True)"
proof -
  have "Itoa 80 = ''80''" by code_simp
  then have "list_all (\<lambda>e. CHR 0x00 \<notin> set e) (workload_env mem_host demo_supervisor demo_deployment demo_pod 80)"
    by (simp add: workload_env_def envOrDefault_def mem_host_def demo_pod_def demo_deployment_def)
  then show ?thesis
    using marker_roundtrip[of mem_host demo_supervisor demo_deployment demo_pod 80]
    by (simp add: demo_pod_def)
qed


section \<open>Startup: functional behaviour\<close>

text \<open>Every pod is readable, stored under its own key, and has a readable deployment.\<close>

definition pods_in_order :: "keyspace \<Rightarrow> bool" where
  "pods_in_order v \<longleftrightarrow> (\<forall>k. v k \<noteq> None \<and> glob PodKeyPattern k \<longrightarrow>
     (\<exists>p dep. pod_at v k p \<and> k = PodKey (p_Deployment p) (p_PodID p) \<and> deployment_at v (p_Deployment p) dep))"

text \<open>A pod of the node that rightfully claims a live process.\<close>

definition claims :: "keyspace \<Rightarrow> (int \<Rightarrow> proc option) \<Rightarrow> string \<Rightarrow> string \<Rightarrow> PodSpec \<Rightarrow> bool" where
  "claims v P nodeID k p \<longleftrightarrow> glob PodKeyPattern k \<and> pod_at v k p \<and> p_NodeID p = nodeID \<and> p_Status p \<noteq> StatusEvicted \<and>
     same_process P (p_PID p) (p_PIDStartTime p)"

lemma pod_at_frame: "pod_at v k p \<Longrightarrow> v' k = v k \<Longrightarrow> pod_at v' k p"
  by (simp add: pod_at_def is_hash_def hash_at_def)

lemma deployment_at_frame: "deployment_at v d dep \<Longrightarrow> v' (DeploymentKey d) = v (DeploymentKey d) \<Longrightarrow> deployment_at v' d dep"
  by (simp add: deployment_at_def is_hash_def hash_at_def)

lemma deployment_no_pod [simp]: "\<not> glob PodKeyPattern (DeploymentKey x)"
  using glob_pods_prefix[of "DeploymentKey x"] by (auto simp: DeploymentKey_def HasPrefix_def)

definition same_pod :: "PodSpec \<Rightarrow> PodSpec \<Rightarrow> bool" where
  "same_pod p p' \<longleftrightarrow> p_Deployment p' = p_Deployment p \<and> p_PodID p' = p_PodID p \<and> p_NodeID p' = p_NodeID p"

lemma same_pod_simps [simp]:
  "same_pod p p" "same_pod p (p\<lparr>p_Status := x\<rparr>)" "same_pod p (started_pod p pid t port now)"
  by (simp_all add: same_pod_def started_pod_def)

lemma pods_in_order_step:
  assumes "pods_in_order v" "\<And>k'. k' \<noteq> LogStreamKey \<Longrightarrow> k' \<noteq> k \<Longrightarrow> v' k' = v k'" "glob PodKeyPattern k"
    and "pod_at v k p" "pod_at v' k p'" "same_pod p p'"
  shows "pods_in_order v'"
  unfolding pods_in_order_def
proof (intro allI impI)
  fix j
  assume j: "v' j \<noteq> None \<and> glob PodKeyPattern j"
  have log: "\<not> glob PodKeyPattern LogStreamKey" by simp
  have "DeploymentKey x \<noteq> k" for x using assms(3) deployment_no_pod by blast
  then have dep: "deployment_at v' x dep" if "deployment_at v x dep" for x dep
    using assms(2)[of "DeploymentKey x"] by (intro deployment_at_frame[OF that]) (simp add: key_simps)
  have "v j \<noteq> None"
  proof (cases "j = k")
    case True
    then show ?thesis using assms(4) by (simp add: pod_at_def)
  next
    case False
    moreover have "j \<noteq> LogStreamKey" using j log by blast
    ultimately show ?thesis using j assms(2)[of j] by simp
  qed
  then have old: "\<exists>p dep. pod_at v j p \<and> j = PodKey (p_Deployment p) (p_PodID p) \<and> deployment_at v (p_Deployment p) dep"
    using assms(1) j unfolding pods_in_order_def by blast
  show "\<exists>p dep. pod_at v' j p \<and> j = PodKey (p_Deployment p) (p_PodID p) \<and> deployment_at v' (p_Deployment p) dep"
  proof (cases "j = k")
    case True
    with old obtain dep where "j = PodKey (p_Deployment p) (p_PodID p)" "deployment_at v (p_Deployment p) dep"
      using assms(4) pod_at_unique by blast
    then show ?thesis using True dep assms(5,6) unfolding same_pod_def by metis
  next
    case False
    then show ?thesis using old dep assms(2)[of j] j log pod_at_frame[of v j _ v'] by metis
  qed
qed

text \<open>What one pod makes of the process table and of the lists of owned processes, adopted and restarted pods.\<close>

definition startup_effect ::
  "string \<Rightarrow> PodSpec \<Rightarrow> PodSpec \<Rightarrow> startup \<Rightarrow> startup \<Rightarrow> (int \<Rightarrow> proc option) \<Rightarrow> (int \<Rightarrow> proc option) \<Rightarrow> bool"
where
  "startup_effect n p p' acc acc' P P' \<longleftrightarrow>
     (case acc of (owned, ad, re) \<Rightarrow>
       if p_NodeID p = n \<and> p_Status p \<noteq> StatusEvicted \<and> same_process P (p_PID p) (p_PIDStartTime p)
       then acc' = (p_PID p # owned, ad @ [p_PodID p], re) \<and> P' = P \<and> p' = p\<lparr>p_Status := StatusRunning\<rparr>
       else acc' = acc \<and> P' = P \<and> (p' = p \<or> \<not> same_process P (p_PID p) (p_PIDStartTime p)) \<or>
         (\<exists>pid q. acc' = (pid # owned, ad, re @ [p_PodID p]) \<and> P pid = None \<and> P' = P(pid \<mapsto> q) \<and>
            p_PID p' = pid \<and> p_PIDStartTime p' = pr_start q \<and> pr_group q = pid \<and> same_process P' pid (pr_start q) \<and>
            \<not> same_process P (p_PID p) (p_PIDStartTime p)))"

context agent
begin

lemma run_adopt_pod:
  assumes "calm E" "server E = R" "pod_at (view (db w)) key p" "key = PodKey d i"
  shows "\<exists>w'. run_state (adopt_pod E s key p) w = ((), w') \<and> os w' = os w \<and>
    (\<forall>k. k \<noteq> LogStreamKey \<and> k \<noteq> key \<longrightarrow> view (db w') k = view (db w) k) \<and>
    pod_at (view (db w')) key (p\<lparr>p_Status := StatusRunning\<rparr>)"
proof -
  have key: "key \<noteq> LogStreamKey" by (simp add: assms(4) key_simps)
  let ?note = "Info E (sv_logger s) ''pod_adopted'' (Sprintf ''re-adopted running pid %d, not spawning a duplicate'' [ArgD (p_PID p)])
     (pod_ids s (p_Deployment p) (p_PodID p))"
  have noted: "\<exists>w'. run_state ?note w1 = ((), w') \<and> os w' = os w \<and>
      (\<forall>k. k \<noteq> LogStreamKey \<and> k \<noteq> key \<longrightarrow> view (db w') k = view (db w) k) \<and> pod_at (view (db w')) key (p\<lparr>p_Status := StatusRunning\<rparr>)"
    if w1: "os w1 = os w" "\<forall>k. k \<noteq> LogStreamKey \<and> k \<noteq> key \<longrightarrow> view (db w1) k = view (db w) k"
      "pod_at (view (db w1)) key (p\<lparr>p_Status := StatusRunning\<rparr>)" for w1
    using run_note(1)[OF assms(1,2), of "sv_logger s" "''pod_adopted''"
        "Sprintf ''re-adopted running pid %d, not spawning a duplicate'' [ArgD (p_PID p)]" "pod_ids s (p_Deployment p) (p_PodID p)" w1] w1
      pod_at_log[OF w1(3) key] by auto
  show ?thesis
  proof (cases "p_Status p = StatusRunning")
    case True
    then have "p\<lparr>p_Status := StatusRunning\<rparr> = p" by simp
    with assms(3) have "pod_at (view (db w)) key (p\<lparr>p_Status := StatusRunning\<rparr>)" by (simp only:)
    from noted[OF refl _ this] show ?thesis using True by (simp add: adopt_pod_def)
  next
    case False
    from run_write_pod[OF assms(1,2) assms(3)[unfolded assms(4)], folded assms(4), of "[(FieldPodStatus, VStr StatusRunning)]"] obtain w1 h where
      w1: "run_state (HashSet E key [(FieldPodStatus, VStr StatusRunning)]) w = (Inr (), w1)" "os w1 = os w"
      "view (db w1) = (view (db w))(key \<mapsto> RHash h)"
      "pod_at (view (db w1)) key (patch_pod (wire R [(FieldPodStatus, VStr StatusRunning)]) p)" by auto
    moreover have "patch_pod (wire R [(FieldPodStatus, VStr StatusRunning)]) p = p\<lparr>p_Status := StatusRunning\<rparr>"
      by (simp add: patch_pod_def Let_def)
    ultimately show ?thesis using noted[of w1] False by (simp add: adopt_pod_def run_on_error)
  qed
qed

lemma run_restart_pod:
  assumes "calm E" "kernel E = K" "server E = R" "key = PodKey (p_Deployment p) (p_PodID p)"
    and "deployment_at (view (db w)) (p_Deployment p) dep" "pod_at (view (db w)) key p"
    and "\<not> same_process (procs (os w)) (p_PID p) (p_PIDStartTime p)"
  shows "\<exists>r w' p'. run_state (restart_pod E s key p) w = (r, w') \<and>
    (\<forall>k. k \<noteq> LogStreamKey \<and> k \<noteq> key \<longrightarrow> view (db w') k = view (db w) k) \<and>
    pod_at (view (db w')) key p' \<and> same_pod p p' \<and>
    (if r = None then procs (os w') = procs (os w)
     else \<exists>pid q. r = Some (Some pid) \<and> procs (os w) pid = None \<and> procs (os w') = (procs (os w))(pid \<mapsto> q) \<and>
       p_PID p' = pid \<and> p_PIDStartTime p' = pr_start q \<and> pr_group q = pid \<and> same_process (procs (os w')) pid (pr_start q))"
proof -
  have key: "key \<noteq> LogStreamKey" by (simp add: assms(4) key_simps)
  obtain w1 x where w1: "run_state (Warn E (sv_logger s) ''pod_process_missing''
       (Sprintf ''recorded pid %d is not this pod's process, restarting it'' [ArgD (p_PID p)])
       (pod_ids s (p_Deployment p) (p_PodID p))) w = ((), w1)" "os w1 = os w" "view (db w1) = (view (db w))(LogStreamKey := x)"
    using run_note(2)[OF assms(1,3)] by blast
  have at1: "pod_at (view (db w1)) key p" unfolding w1(3) by (rule pod_at_log[OF assms(6) key])
  have dep1: "deployment_at (view (db w1)) (p_Deployment p) dep"
    by (rule deployment_at_frame[OF assms(5)]) (simp add: w1(3) key_simps)
  obtain r w2 where w2: "run_state (Spawn E s (p_Deployment p) (p_PodID p)) w1 = (r, w2)"
    "\<forall>k. k \<noteq> LogStreamKey \<and> k \<noteq> key \<longrightarrow> view (db w2) k = view (db w1) k"
    "if r = Inr ()
     then \<exists>pid q port now. procs (os w) pid = None \<and> procs (os w2) = (procs (os w))(pid \<mapsto> q) \<and>
       pr_environ q = workload_env E s dep p port \<and> (p_HostPort p \<noteq> 0 \<longrightarrow> port = p_HostPort p) \<and>
       same_process (procs (os w2)) pid (pr_start q) \<and> pr_group q = pid \<and>
       pod_at (view (db w2)) key (started_pod p pid (pr_start q) port now) \<and>
       hash_at (view (db w2)) key FieldPodPID = Some (Itoa pid)
     else isl r \<and> procs (os w2) = procs (os w) \<and>
       (pod_at (view (db w2)) key p \<or> pod_at (view (db w2)) key (p\<lparr>p_Status := StatusFailed\<rparr>))"
    using run_Spawn[OF assms(1-3) dep1 at1[unfolded assms(4)], of s] assms(7) unfolding w1(2) assms(4) by (simp only: if_False) (elim exE conjE)
  show ?thesis
  proof (cases "r = Inr ()")
    case True
    with w2(3) obtain pid port now and q :: proc where q: "procs (os w) pid = None" "procs (os w2) = (procs (os w))(pid \<mapsto> q)"
      "same_process (procs (os w2)) pid (pr_start q)" "pr_group q = pid"
      "pod_at (view (db w2)) key (started_pod p pid (pr_start q) port now)" "hash_at (view (db w2)) key FieldPodPID = Some (Itoa pid)"
      by (simp only: simp_thms if_True) (elim exE conjE, rule that)
    have "is_hash (view (db w2)) key" using q(5) by (simp add: pod_at_def)
    from run_HashGet[OF calm_quiet[OF assms(1)] assms(3) this] obtain fs w3 where
      fs: "run_state (HashGet E key) w2 = (Inr fs, w3)" "map_of fs = hash_at (view (db w2)) key" "db w3 = db w2" by auto
    have os3: "os w3 = os w2" using os_kept[OF keeps_more_calls(1) fs(1)] .
    have "procs (os w2) pid = Some q" by (simp add: q(2))
    from pid_positive[OF this] have pid: "0 < pid" "in_int64 pid" by simp_all
    have "mget fs FieldPodPID = Itoa pid" using fs(2) q(6) by (simp add: mget_def)
    with pid have "run_state (restart_pod E s key p) w = (Some (Some pid), w3)"
      using w1(1) w2(1) True fs(1) by (simp add: restart_pod_def run_on_error)
    then show ?thesis
      using q w2(2) w1(3) os3 fs(3)
      by (intro exI[of _ "Some (Some pid)"] exI[of _ w3] exI[of _ "started_pod p pid (pr_start q) port now"])
         (auto simp: started_pod_def same_pod_def)
  next
    case False
    with w2(3) obtain e where e: "r = Inl e" by (cases r) auto
    obtain w3 y where w3: "run_state (Error E (sv_logger s) ''pod_restart_failed''
            (Sprintf ''could not restart pod during startup reconcile: %v'' [ArgE e])
            (pod_ids s (p_Deployment p) (p_PodID p))) w2 = ((), w3)" "os w3 = os w2" "view (db w3) = (view (db w2))(LogStreamKey := y)"
      using run_note(3)[OF assms(1,3)] by blast
    have run: "run_state (restart_pod E s key p) w = (None, w3)"
      using w1(1) w2(1) e w3(1) by (simp add: restart_pod_def run_on_error)
    from False w2(3) obtain p' where "pod_at (view (db w2)) key p'" "same_pod p p'" by auto
    then have "pod_at (view (db w3)) key p'" "same_pod p p'" unfolding w3(3) using pod_at_log[OF _ key] by simp_all
    then show ?thesis using run w2(2,3) w3(2,3) w1(3) False by (intro exI[of _ None] exI[of _ w3] exI[of _ p']) auto
  qed
qed

lemma run_startup_pod:
  fixes w :: "('db, 'os, 'm) host_world_scheme"
  assumes "calm E" "kernel E = K" "server E = R" "pods_in_order (view (db w))" "view (db w) key \<noteq> None" "glob PodKeyPattern key"
  shows "\<exists>p acc' w' p'. run_state (ReconcileOnStartup_body E s key (owned, ad, re)) w = (Next acc', w') \<and>
    pod_at (view (db w)) key p \<and> pod_at (view (db w')) key p' \<and> same_pod p p' \<and>
    (\<forall>k. k \<noteq> LogStreamKey \<and> k \<noteq> key \<longrightarrow> view (db w') k = view (db w) k) \<and>
    startup_effect (sv_nodeID s) p p' (owned, ad, re) acc' (procs (os w)) (procs (os w'))"
proof -
  obtain p dep where p: "pod_at (view (db w)) key p" "key = PodKey (p_Deployment p) (p_PodID p)" "deployment_at (view (db w)) (p_Deployment p) dep"
    using assms(4-6) unfolding pods_in_order_def by blast
  obtain fs w1 where w1: "run_state (HashGet E key) w = (Inr fs, w1)" "fs \<noteq> []" "MapToPod fs = Inr p" "os w1 = os w" "db w1 = db w"
    using run_fetch_pod[OF assms(1,3) p(1)] by blast
  have node: "mget fs FieldPodNodeID = p_NodeID p" using w1(3) by (auto simp: MapToPod_def required_Inr)
  obtain w2 where w2: "run_state (IsSameProcess E (p_PID p) (p_PIDStartTime p)) w1 = (same_process (procs (os w)) (p_PID p) (p_PIDStartTime p), w2)"
    "same_host w1 w2" using run_IsSameProcess[OF assms(1,2), of _ _ w1] by (metis w1(4))
  have h2: "db w2 = db w" "procs (os w2) = procs (os w)" using w2(2) w1(4,5) by (simp_all add: same_host_def)
  have at2: "pod_at (view (db w2)) key p" using p(1) by (simp add: h2)
  consider (skip) "p_NodeID p \<noteq> sv_nodeID s \<or> p_Status p = StatusEvicted"
    | (alive) "p_NodeID p = sv_nodeID s" "p_Status p \<noteq> StatusEvicted" "same_process (procs (os w)) (p_PID p) (p_PIDStartTime p)"
    | (dead) "p_NodeID p = sv_nodeID s" "p_Status p \<noteq> StatusEvicted" "\<not> same_process (procs (os w)) (p_PID p) (p_PIDStartTime p)" by blast
  then show ?thesis
  proof cases
    case skip
    then have "run_state (ReconcileOnStartup_body E s key (owned, ad, re)) w = (Next (owned, ad, re), w1)"
      using w1(1-3) node by (auto simp: ReconcileOnStartup_body_def run_on_error)
    then show ?thesis using skip p(1) w1(4,5)
      by (intro exI[of _ p] exI[of _ "(owned, ad, re)"] exI[of _ w1] exI[of _ p]) (auto simp: startup_effect_def)
  next
    case alive
    obtain w3 where w3: "run_state (adopt_pod E s key p) w2 = ((), w3)" "os w3 = os w2"
      "\<forall>k. k \<noteq> LogStreamKey \<and> k \<noteq> key \<longrightarrow> view (db w3) k = view (db w2) k" "pod_at (view (db w3)) key (p\<lparr>p_Status := StatusRunning\<rparr>)"
      using run_adopt_pod[OF assms(1,3) at2 p(2)] by blast
    have "run_state (ReconcileOnStartup_body E s key (owned, ad, re)) w = (Next (p_PID p # owned, ad @ [p_PodID p], re), w3)"
      using w1(1-3) node alive w2(1) w3(1) by (simp add: ReconcileOnStartup_body_def run_on_error)
    then show ?thesis using alive p(1) w3(2-4) h2
      by (intro exI[of _ p] exI[of _ "(p_PID p # owned, ad @ [p_PodID p], re)"] exI[of _ w3] exI[of _ "p\<lparr>p_Status := StatusRunning\<rparr>"]) (simp add: startup_effect_def)
  next
    case dead
    have dep2: "deployment_at (view (db w2)) (p_Deployment p) dep" and nsp: "\<not> same_process (procs (os w2)) (p_PID p) (p_PIDStartTime p)"
      using p(3) dead(3) by (simp_all add: h2)
    from run_restart_pod[OF assms(1-3) p(2) dep2 at2 nsp, of s] obtain r w3 p' where
      w3: "run_state (restart_pod E s key p) w2 = (r, w3)"
      "\<forall>k. k \<noteq> LogStreamKey \<and> k \<noteq> key \<longrightarrow> view (db w3) k = view (db w) k" "pod_at (view (db w3)) key p'" "same_pod p p'"
      and c: "if r = None then procs (os w3) = procs (os w)
       else \<exists>pid q. r = Some (Some pid) \<and> procs (os w) pid = None \<and> procs (os w3) = (procs (os w))(pid \<mapsto> q) \<and>
         p_PID p' = pid \<and> p_PIDStartTime p' = pr_start q \<and> pr_group q = pid \<and> same_process (procs (os w3)) pid (pr_start q)"
      unfolding h2 by (elim exE conjE) (rule that)
    define acc' where "acc' = (case r of None \<Rightarrow> (owned, ad, re) | Some None \<Rightarrow> (owned, ad, re @ [p_PodID p])
                     | Some (Some newPID) \<Rightarrow> (newPID # owned, ad, re @ [p_PodID p]))"
    have run: "run_state (ReconcileOnStartup_body E s key (owned, ad, re)) w = (Next acc', w3)"
      using w1(1-3) node dead w2(1) w3(1) by (simp add: ReconcileOnStartup_body_def run_on_error acc'_def)
    have "acc' = (owned, ad, re) \<and> procs (os w3) = procs (os w) \<or>
       (\<exists>pid q. acc' = (pid # owned, ad, re @ [p_PodID p]) \<and> procs (os w) pid = None \<and> procs (os w3) = (procs (os w))(pid \<mapsto> q) \<and>
          p_PID p' = pid \<and> p_PIDStartTime p' = pr_start q \<and> pr_group q = pid \<and> same_process (procs (os w3)) pid (pr_start q))"
    proof (cases "r = None")
      case True
      then show ?thesis using c by (simp add: acc'_def)
    next
      case False
      with c obtain pid and q :: proc where "r = Some (Some pid)" "procs (os w) pid = None" "procs (os w3) = (procs (os w))(pid \<mapsto> q)"
         "p_PID p' = pid" "p_PIDStartTime p' = pr_start q" "pr_group q = pid" "same_process (procs (os w3)) pid (pr_start q)"
        by (simp only: if_False) (elim exE conjE, rule that)
      then show ?thesis by (intro disjI2 exI[of _ pid] exI[of _ q]) (simp add: acc'_def)
    qed
    then show ?thesis using run p(1) w3(2-4) dead(3)
      by (intro exI[of _ p] exI[of _ acc'] exI[of _ w3] exI[of _ p']) (simp add: startup_effect_def)
  qed
qed

end

text \<open>What the first pass has achieved when some of the keys have been visited.\<close>

definition startup_inv ::
  "string \<Rightarrow> keyspace \<Rightarrow> (int \<Rightarrow> proc option) \<Rightarrow> string list \<Rightarrow> startup \<Rightarrow> keyspace \<Rightarrow> (int \<Rightarrow> proc option) \<Rightarrow> bool"
where
  "startup_inv nodeID v0 P0 visited acc v P \<longleftrightarrow>
     (case acc of (owned, ad, re) \<Rightarrow>
       pods_in_order v \<and> (\<forall>k. glob PodKeyPattern k \<and> v0 k \<noteq> None \<longrightarrow> v k \<noteq> None) \<and> P0 \<subseteq>\<^sub>m P \<and>
       (\<forall>k p. claims v0 P0 nodeID k p \<longrightarrow>
          (pod_at v k p \<or> pod_at v k (p\<lparr>p_Status := StatusRunning\<rparr>)) \<and>
          (k \<in> set visited \<longrightarrow> p_PID p \<in> set owned \<and> p_PodID p \<in> set ad)) \<and>
       (\<forall>pid q. P0 pid = None \<and> P pid = Some q \<longrightarrow> pid \<in> set owned \<and> pr_group q = pid \<and> same_process P pid (pr_start q) \<and>
          (\<exists>k p. pod_at v k p \<and> glob PodKeyPattern k \<and> p_PID p = pid \<and> p_PIDStartTime p = pr_start q \<and> p_PodID p \<in> set re \<and>
             (\<forall>p0. \<not> claims v0 P0 nodeID k p0))))"

lemma same_process_mono: "same_process P pid t \<Longrightarrow> P \<subseteq>\<^sub>m P' \<Longrightarrow> same_process P' pid t"
  unfolding same_process_def map_le_def by (metis domI)

lemma map_le_fresh: "P pid = None \<Longrightarrow> P \<subseteq>\<^sub>m P(pid \<mapsto> q)"
  by (auto simp: map_le_def)

lemma startup_invD:
  assumes "startup_inv n v0 P0 visited (owned, ad, re) v P"
  shows "pods_in_order v" "\<lbrakk>glob PodKeyPattern k; v0 k \<noteq> None\<rbrakk> \<Longrightarrow> v k \<noteq> None" "P0 \<subseteq>\<^sub>m P"
    and "claims v0 P0 n k p \<Longrightarrow> pod_at v k p \<or> pod_at v k (p\<lparr>p_Status := StatusRunning\<rparr>)"
    and "\<lbrakk>claims v0 P0 n k p; k \<in> set visited\<rbrakk> \<Longrightarrow> p_PID p \<in> set owned \<and> p_PodID p \<in> set ad"
    and "\<lbrakk>P0 pid = None; P pid = Some q\<rbrakk> \<Longrightarrow> pid \<in> set owned \<and> pr_group q = pid \<and> same_process P pid (pr_start q) \<and>
          (\<exists>k p. pod_at v k p \<and> glob PodKeyPattern k \<and> p_PID p = pid \<and> p_PIDStartTime p = pr_start q \<and> p_PodID p \<in> set re \<and>
             (\<forall>p0. \<not> claims v0 P0 n k p0))"
  using assms unfolding startup_inv_def prod.case by blast+

lemma startup_inv_claimed:
  assumes "startup_inv n v0 P0 visited (owned, ad, re) v P" "claims v0 P0 n k p0" "pod_at v k p"
  shows "(p = p0 \<or> p = p0\<lparr>p_Status := StatusRunning\<rparr>) \<and> p_NodeID p = n \<and> p_Status p \<noteq> StatusEvicted \<and>
    same_process P (p_PID p) (p_PIDStartTime p)"
proof -
  have "p = p0 \<or> p = p0\<lparr>p_Status := StatusRunning\<rparr>"
    using startup_invD(4)[OF assms(1,2)] pod_at_unique[OF assms(3)] by blast
  moreover have "same_process P (p_PID p0) (p_PIDStartTime p0)"
    using assms(2) same_process_mono[OF _ startup_invD(3)[OF assms(1)]] by (simp add: claims_def)
  ultimately show ?thesis using assms(2) by (auto simp: claims_def)
qed

lemma startup_inv_step:
  assumes inv: "startup_inv n v0 P0 visited (owned, ad, re) v P"
    and at: "pod_at v key p" "pod_at v' key p'" "same_pod p p'" "glob PodKeyPattern key"
    and frame: "\<And>k. k \<noteq> LogStreamKey \<Longrightarrow> k \<noteq> key \<Longrightarrow> v' k = v k"
    and effect: "startup_effect n p p' (owned, ad, re) acc' P P'"
  shows "startup_inv n v0 P0 (visited @ [key]) acc' v' P'"
proof -
  note effect = effect[unfolded startup_effect_def prod.case]
  obtain owned' ad' re' where acc': "acc' = (owned', ad', re')" by (cases acc') auto
  have grow: "set owned \<subseteq> set owned'" "set ad \<subseteq> set ad'" "set re \<subseteq> set re'" "P \<subseteq>\<^sub>m P'"
    using effect by (auto simp: acc' map_le_fresh split: if_splits)
  have keep: "\<exists>p1'. pod_at v' k p1' \<and> p_PID p1' = p_PID p1 \<and> p_PIDStartTime p1' = p_PIDStartTime p1 \<and> p_PodID p1' = p_PodID p1"
    if "pod_at v k p1" "glob PodKeyPattern k" "same_process P (p_PID p1) (p_PIDStartTime p1)" for k p1
  proof (cases "k = key")
    case True
    then have "p1 = p" using that(1) at(1) pod_at_unique by blast
    with effect that(3) have "p' = p \<or> p' = p\<lparr>p_Status := StatusRunning\<rparr>" by (auto split: if_splits)
    with at(2) True \<open>p1 = p\<close> show ?thesis by auto
  next
    case False
    moreover have "k \<noteq> LogStreamKey" using that(2) not_pod_keys(3) by blast
    ultimately show ?thesis using that(1) pod_at_frame[of v k p1 v'] frame by blast
  qed
  have "pods_in_order v'"
    using startup_invD(1)[OF inv] by (rule pods_in_order_step[OF _ frame at(4,1,2,3)])
  moreover have "v' k \<noteq> None" if "glob PodKeyPattern k" "v0 k \<noteq> None" for k
  proof (cases "k = key")
    case True
    then show ?thesis using at(2) by (simp add: pod_at_def)
  next
    case False
    moreover have "k \<noteq> LogStreamKey" using that(1) not_pod_keys(3) by blast
    ultimately show ?thesis using startup_invD(2)[OF inv that] frame[of k] by simp
  qed
  moreover have "P0 \<subseteq>\<^sub>m P'" using startup_invD(3)[OF inv] grow(4) by (rule map_le_trans)
  moreover have "(pod_at v' k p0 \<or> pod_at v' k (p0\<lparr>p_Status := StatusRunning\<rparr>)) \<and>
      (k \<in> set (visited @ [key]) \<longrightarrow> p_PID p0 \<in> set owned' \<and> p_PodID p0 \<in> set ad')" if c: "claims v0 P0 n k p0" for k p0
  proof (cases "k = key")
    case True
    have pp: "p = p0 \<or> p = p0\<lparr>p_Status := StatusRunning\<rparr>" "p_NodeID p = n" "p_Status p \<noteq> StatusEvicted"
      "same_process P (p_PID p) (p_PIDStartTime p)" using startup_inv_claimed[OF inv c] at(1) True by blast+
    with effect have "acc' = (p_PID p # owned, ad @ [p_PodID p], re)" "p' = p\<lparr>p_Status := StatusRunning\<rparr>" by auto
    with pp(1) at(2) True show ?thesis by (auto simp: acc')
  next
    case False
    moreover have "k \<noteq> LogStreamKey" using c not_pod_keys(3) unfolding claims_def by blast
    ultimately have "v' k = v k" using frame by blast
    then show ?thesis
      using startup_invD(4,5)[OF inv c] grow(1,2) False pod_at_frame[of v k _ v'] by auto
  qed
  moreover have "pid \<in> set owned' \<and> pr_group q = pid \<and> same_process P' pid (pr_start q) \<and>
      (\<exists>k p. pod_at v' k p \<and> glob PodKeyPattern k \<and> p_PID p = pid \<and> p_PIDStartTime p = pr_start q \<and> p_PodID p \<in> set re' \<and>
         (\<forall>p0. \<not> claims v0 P0 n k p0))" if new: "P0 pid = None" "P' pid = Some q" for pid q
  proof (cases "P pid")
    case None
    with new effect have e: "owned' = pid # owned" "re' = re @ [p_PodID p]" "p_PID p' = pid" "p_PIDStartTime p' = pr_start q"
      "pr_group q = pid" "same_process P' pid (pr_start q)" "\<not> same_process P (p_PID p) (p_PIDStartTime p)"
      by (auto simp: acc' split: if_splits)
    have "\<not> claims v0 P0 n key p0" for p0 using startup_inv_claimed[OF inv _ at(1)] e(7) by blast
    then show ?thesis using e at(2-4) by (auto simp: same_pod_def)
  next
    case (Some q')
    with grow(4) new(2) have "P pid = Some q" by (auto simp: map_le_def dest!: bspec[of _ _ pid])
    from startup_invD(6)[OF inv new(1) this] obtain k p1 where o: "pid \<in> set owned" "pr_group q = pid" "same_process P pid (pr_start q)"
      "pod_at v k p1" "glob PodKeyPattern k" "p_PID p1 = pid" "p_PIDStartTime p1 = pr_start q" "p_PodID p1 \<in> set re"
      "\<forall>p0. \<not> claims v0 P0 n k p0" by (elim exE conjE) (rule that)
    from keep[OF o(4,5)] o(3,6,7) obtain p2 where "pod_at v' k p2" "p_PID p2 = pid" "p_PIDStartTime p2 = pr_start q" "p_PodID p2 = p_PodID p1" by auto
    moreover have "same_process P' pid (pr_start q)" by (rule same_process_mono[OF o(3) grow(4)])
    ultimately show ?thesis using o(1,2,5,8,9) grow(1,3) by (metis subsetD)
  qed
  ultimately show ?thesis unfolding startup_inv_def acc' prod.case by blast
qed

context agent
begin

lemma run_startup_pods:
  fixes w :: "('db, 'os, 'm) host_world_scheme"
  assumes "calm E" "kernel E = K" "server E = R" "pods_in_order (view (db w))"
    and "set ks = {k. view (db w) k \<noteq> None \<and> glob PodKeyPattern k}"
  shows "\<exists>acc w'. run_state (for_range (ReconcileOnStartup_body E s) ks ([], [], [])) (w\<lparr>tick := t\<rparr>) = (Inl acc, w') \<and>
    startup_inv (sv_nodeID s) (view (db w)) (procs (os w)) ks acc (view (db w')) (procs (os w'))"
proof (rule for_range_invariant[where
    I = "\<lambda>visited acc w'. startup_inv (sv_nodeID s) (view (db w)) (procs (os w)) visited acc (view (db w')) (procs (os w'))"])
  show "startup_inv (sv_nodeID s) (view (db w)) (procs (os w)) [] ([], [], []) (view (db (w\<lparr>tick := t\<rparr>))) (procs (os (w\<lparr>tick := t\<rparr>)))"
    using assms(4) by (auto simp: startup_inv_def claims_def)
next
  fix visited key and acc :: startup and w1
  assume inv: "startup_inv (sv_nodeID s) (view (db w)) (procs (os w)) visited acc (view (db w1)) (procs (os w1))"
    and key: "key \<in> set ks"
  obtain owned ad re where acc: "acc = (owned, ad, re)" by (cases acc) auto
  have "pods_in_order (view (db w1))" "view (db w1) key \<noteq> None" "glob PodKeyPattern key"
    using startup_invD(1,2)[OF inv[unfolded acc]] key assms(5) by auto
  from run_startup_pod[OF assms(1-3) this, of s owned ad re] obtain p acc' w2 p' where
    r: "run_state (ReconcileOnStartup_body E s key acc) w1 = (Next acc', w2)" "pod_at (view (db w1)) key p"
    "pod_at (view (db w2)) key p'" "same_pod p p'" "\<forall>k. k \<noteq> LogStreamKey \<and> k \<noteq> key \<longrightarrow> view (db w2) k = view (db w1) k"
    and e: "startup_effect (sv_nodeID s) p p' acc acc' (procs (os w1)) (procs (os w2))"
    unfolding acc by (elim exE conjE)
  have "startup_inv (sv_nodeID s) (view (db w)) (procs (os w)) (visited @ [key]) acc' (view (db w2)) (procs (os w2))"
    using r(5) by (intro startup_inv_step[OF inv[unfolded acc] r(2-4) \<open>glob PodKeyPattern key\<close> _ e[unfolded acc]]) simp
  with r(1) show "\<exists>acc' w'. run_state (ReconcileOnStartup_body E s key acc) w1 = (Next acc', w') \<and>
    startup_inv (sv_nodeID s) (view (db w)) (procs (os w)) (visited @ [key]) acc' (view (db w')) (procs (os w'))" by blast
qed

end

text \<open>Whether a process leads a group that the node may end: it carries the node's marker, no pod owns it, and it is not
  the agent; and what ending such groups makes of a process table.\<close>

definition stray :: "string \<Rightarrow> int \<Rightarrow> int set \<Rightarrow> (int \<Rightarrow> proc option) \<Rightarrow> int \<Rightarrow> bool" where
  "stray nodeID self owned P g \<longleftrightarrow> g \<notin> owned \<and> g \<noteq> self \<and> (\<exists>q i. P g = Some q \<and> marker_of q = (i, nodeID, True))"

definition strays_ended :: "(int \<Rightarrow> bool) \<Rightarrow> (int \<Rightarrow> proc option) \<Rightarrow> (int \<Rightarrow> proc option) \<Rightarrow> bool" where
  "strays_ended st P P' \<longleftrightarrow> (\<forall>pid. P' pid = P pid \<or> P' pid = None \<and> (\<exists>q. P pid = Some q \<and> st (pr_group q)))"

lemma strays_ended_group:
  assumes "strays_ended st P P1" "only_group P1 P2 g" "st g"
  shows "strays_ended st P P2"
  unfolding strays_ended_def
proof
  fix pid
  show "P2 pid = P pid \<or> P2 pid = None \<and> (\<exists>q. P pid = Some q \<and> st (pr_group q))"
    using assms(1)[unfolded strays_ended_def, rule_format, of pid] assms(2)[unfolded only_group_def, rule_format, of pid] assms(3)
    by (auto simp: eq_commute[of "P1 pid"])
qed

lemma parse_marker_Nil [simp]: "parse_marker [] = ([], [], False)"
  by (simp add: parse_marker_def marker_entry_def HasPrefix_def)

context agent
begin

lemma run_readPodMarker:
  assumes "calm E" "kernel E = K"
  shows "\<exists>i n f w'. run_state (readPodMarker E pid) w = ((i, n, f), w') \<and> same_host w w' \<and>
    (f \<longrightarrow> (\<exists>q. procs (os w) pid = Some q \<and> marker_of q = (i, n, True)))"
proof -
  obtain w1 where w1: "run_state (sys E (k_ReadFile K (environ_path pid))) w = (fst (run_state (k_ReadFile K (environ_path pid)) (os w)), w1)"
    "same_host w w1" using run_look[OF assms(1), of "k_ReadFile K (environ_path pid)"] looks(1) by blast
  show ?thesis
  proof (cases "fst (run_state (k_ReadFile K (environ_path pid)) (os w))")
    case (Inl e)
    then have "run_state (readPodMarker E pid) w = (([], [], False), w1)" using w1 assms(2) by (simp add: readPodMarker_def run_on_error)
    with w1(2) show ?thesis by blast
  next
    case (Inr data)
    from environ_file[OF Inr] obtain q where q: "procs (os w) pid = Some q" "data = environ_text (pr_environ q) \<or> data = []" by blast
    obtain i n f where m: "parse_marker data = (i, n, f)" by (cases "parse_marker data") auto
    have "f \<Longrightarrow> marker_of q = (i, n, True)" using q(2) m by (auto simp: marker_of_def)
    then show ?thesis using w1 assms(2) Inr m q(1) by (simp add: readPodMarker_def run_on_error)
  qed
qed

lemma run_killOrphans_body:
  fixes w :: "('db, 'os, 'm) host_world_scheme"
  assumes "calm E" "kernel E = K" "server E = R" "clock_advances E"
    and "strays_ended (stray (sv_nodeID s) (Getpid E) (set owned) P) P (procs (os w))"
  shows "\<exists>killed' w'. run_state (killOrphans_body E s owned entry killed) w = (Next killed', w') \<and>
    (\<forall>k. k \<noteq> LogStreamKey \<longrightarrow> view (db w') k = view (db w) k) \<and>
    strays_ended (stray (sv_nodeID s) (Getpid E) (set owned) P) P (procs (os w'))"
proof (cases "Atoi entry")
  case None
  then show ?thesis using assms(5) by (simp add: killOrphans_body_def)
next
  case (Some pid)
  obtain i n f w1 where w1: "run_state (readPodMarker E pid) w = ((i, n, f), w1)" "same_host w w1"
    "f \<longrightarrow> (\<exists>q. procs (os w) pid = Some q \<and> marker_of q = (i, n, True))" using run_readPodMarker[OF assms(1,2)] by blast
  show ?thesis
  proof (cases "pid = Getpid E \<or> pid \<in> set owned \<or> \<not> f \<or> n \<noteq> sv_nodeID s")
    case True
    then show ?thesis using assms(5) w1(1,2) Some by (auto simp: killOrphans_body_def same_host_def)
  next
    case False
    obtain w2 x where w2: "run_state (Warn E (sv_logger s) ''orphan_process_killed''
                (Sprintf ''pid %d carries pod marker %s but no live pod claims it'' [ArgD pid, ArgS i])
                [PodID i, NodeID (sv_nodeID s)]) w1 = ((), w2)" "os w2 = os w1" "view (db w2) = (view (db w1))(LogStreamKey := x)"
      using run_note(2)[OF assms(1,3)] by blast
    obtain w3 where w3: "run_state (terminate E pid) w2 = (Inr (), w3)" "db w3 = db w2" "only_group (procs (os w2)) (procs (os w3)) pid"
      using run_terminate[OF assms(1,2,4)] by blast
    have p2: "procs (os w2) = procs (os w)" "db w1 = db w" using w1(2) by (simp_all add: w2(2) same_host_def)
    obtain q where q: "procs (os w) pid = Some q" "marker_of q = (i, sv_nodeID s, True)" using w1(3) False by auto
    have "P pid = Some q" using assms(5)[unfolded strays_ended_def, rule_format, of pid] q(1) by auto
    then have "stray (sv_nodeID s) (Getpid E) (set owned) P pid" using False q(2) by (auto simp: stray_def)
    with strays_ended_group[OF assms(5) w3(3)[unfolded p2(1)]]
    have "strays_ended (stray (sv_nodeID s) (Getpid E) (set owned) P) P (procs (os w3))" by blast
    moreover have "run_state (killOrphans_body E s owned entry killed) w = (Next (killed @ [i]), w3)"
      using Some False w1(1) w2(1) w3(1) by (simp add: killOrphans_body_def run_on_error)
    ultimately show ?thesis using w2(3) w3(2) p2(2) by auto
  qed
qed

lemma run_killOrphans:
  fixes w :: "('db, 'os, 'm) host_world_scheme"
  assumes "calm E" "kernel E = K" "server E = R" "clock_advances E"
  shows "\<exists>r w'. run_state (killOrphans E s owned) w = (r, w') \<and>
    (\<forall>k. k \<noteq> LogStreamKey \<longrightarrow> view (db w') k = view (db w) k) \<and>
    strays_ended (stray (sv_nodeID s) (Getpid E) (set owned) (procs (os w))) (procs (os w)) (procs (os w'))"
proof -
  obtain r w1 where w1: "run_state (sys E (k_ReadDir K ''/proc'')) w = (r, w1)" "same_host w w1"
    using run_look[OF assms(1), of "k_ReadDir K ''/proc''"] looks(2) by blast
  let ?I = "\<lambda>names killed w'. (\<forall>k. k \<noteq> LogStreamKey \<longrightarrow> view (db w') k = view (db w) k) \<and>
    strays_ended (stray (sv_nodeID s) (Getpid E) (set owned) (procs (os w))) (procs (os w)) (procs (os w'))"
  have start: "?I [] [] w1" using w1(2) by (simp add: same_host_def strays_ended_def)
  show ?thesis
  proof (cases r)
    case (Inl e)
    then show ?thesis using w1(1) start assms(2) by (simp add: killOrphans_def run_on_error)
  next
    case (Inr names)
    have "\<exists>killed w'. run_state (for_range (killOrphans_body E s owned) names []) w1 = (Inl killed, w') \<and> ?I names killed w'"
    proof (rule for_range_invariant[where I = ?I, OF start])
      fix old name killed w2
      assume I: "?I old killed w2"
      with run_killOrphans_body[OF assms, of s owned "procs (os w)" w2 name killed]
      show "\<exists>killed' w'. run_state (killOrphans_body E s owned name killed) w2 = (Next killed', w') \<and> ?I (old @ [name]) killed' w'" by auto
    qed
    then show ?thesis using w1(1) Inr assms(2) by (auto simp: killOrphans_def run_on_error run_loop)
  qed
qed

lemma run_ReconcileOnStartup:
  fixes w :: "('db, 'os, 'm) host_world_scheme"
  assumes "calm E" "kernel E = K" "server E = R" "clock_advances E" "pods_in_order (view (db w))"
  shows "\<exists>rep w' ks owned P v. run_state (ReconcileOnStartup E s) w = (Inr rep, w') \<and>
    set ks = {k. view (db w) k \<noteq> None \<and> glob PodKeyPattern k} \<and>
    startup_inv (sv_nodeID s) (view (db w)) (procs (os w)) ks (owned, rr_Adopted rep, rr_Restarted rep) v P \<and>
    (\<forall>k. k \<noteq> LogStreamKey \<longrightarrow> view (db w') k = v k) \<and>
    strays_ended (stray (sv_nodeID s) (Getpid E) (set owned) P) P (procs (os w'))"
proof -
  have "plain_pattern PodKeyPattern" by (simp add: plain_pattern_def PodKeyPattern_def)
  from scan_all[OF this] obtain ks where ks: "scan_run R (db w) PodKeyPattern 0 ks"
    "set ks = {k. view (db w) k \<noteq> None \<and> glob PodKeyPattern k}" by blast
  obtain n where n: "run_state (ScanKeys E PodKeyPattern) w = (Inr ks, w\<lparr>tick := n\<rparr>)"
    using scan_loop_quiet[OF calm_quiet[OF assms(1)], of w PodKeyPattern 0 ks "[]"] ks(1) assms(3) by (auto simp: ScanKeys_def)
  obtain owned ad re w1 where w1: "run_state (for_range (ReconcileOnStartup_body E s) ks ([], [], [])) (w\<lparr>tick := n\<rparr>) = (Inl (owned, ad, re), w1)"
    "startup_inv (sv_nodeID s) (view (db w)) (procs (os w)) ks (owned, ad, re) (view (db w1)) (procs (os w1))"
    using run_startup_pods[OF assms(1-3,5) ks(2), of s n] by (auto simp: split_paired_Ex)
  obtain r w2 where w2: "run_state (killOrphans E s owned) w1 = (r, w2)" "\<forall>k. k \<noteq> LogStreamKey \<longrightarrow> view (db w2) k = view (db w1) k"
    "strays_ended (stray (sv_nodeID s) (Getpid E) (set owned) (procs (os w1))) (procs (os w1)) (procs (os w2))"
    using run_killOrphans[OF assms(1-4)] by blast
  define tell :: "error \<Rightarrow> (('db, 'os, 'm) host_world_scheme, unit) state" where "tell e = Warn E (sv_logger s) ''orphan_scan_failed''
      (Sprintf ''could not scan for stray processes: %v'' [ArgE e]) [NodeID (sv_nodeID s)]" for e
  obtain w3 where w3: "run_state (case r of Inl e \<Rightarrow> tell e | Inr _ \<Rightarrow> State_Monad.return ()) w2 = ((), w3)" "os w3 = os w2"
    "\<forall>k. k \<noteq> LogStreamKey \<longrightarrow> view (db w3) k = view (db w2) k"
  proof (cases r)
    case (Inl e)
    with that run_note(2)[OF assms(1,3), of "sv_logger s" "''orphan_scan_failed''"
        "Sprintf ''could not scan for stray processes: %v'' [ArgE e]" "[NodeID (sv_nodeID s)]" w2] show thesis by (fastforce simp: tell_def)
  qed (use that[of w2] in simp)
  define orphans where "orphans = (case r of Inl _ \<Rightarrow> [] | Inr killed \<Rightarrow> killed)"
  obtain w4 x where w4: "run_state (Info E (sv_logger s) ''startup_reconciled''
            (Sprintf ''adopted %d, restarted %d, killed %d orphaned processes''
               [ArgD (int (length ad)), ArgD (int (length re)), ArgD (int (length orphans))])
            [NodeID (sv_nodeID s)]) w3 = ((), w4)" "os w4 = os w3" "view (db w4) = (view (db w3))(LogStreamKey := x)"
    using run_note(1)[OF assms(1,3)] by blast
  have "run_state (ReconcileOnStartup E s) w = (Inr \<lparr>rr_Adopted = ad, rr_Restarted = re, rr_Orphaned = orphans\<rparr>, w4)"
    using n w1(1) w2(1) w3(1) w4(1)
    by (cases r) (simp_all add: ReconcileOnStartup_def run_on_error run_loop tell_def orphans_def)
  then show ?thesis
    using ks(2) w1(2) w2(2,3) w3(2,3) w4(2,3)
    by (intro exI[of _ "\<lparr>rr_Adopted = ad, rr_Restarted = re, rr_Orphaned = orphans\<rparr>"] exI[of _ w4] exI[of _ ks] exI[of _ owned]
        exI[of _ "procs (os w1)"] exI[of _ "view (db w1)"]) simp
qed

end




section \<open>Accounting\<close>

context host_cluster
begin

lemma keeps_adopt_pod:
  assumes "HasPrefix key ''pod:''"
  shows "keeps J (adopt_pod E s key p)"
proof -
  have "keeps J (HashSet E key [(FieldPodStatus, VStr StatusRunning)])"
    by (rule keeps_HashSet_requests) (use assms in \<open>simp_all add: request_ok_def\<close>)
  then show ?thesis unfolding adopt_pod_def by (intro keeps_intros) simp_all
qed

lemma keeps_restart_pod [keeps_intros]: "keeps J (restart_pod E s key p)"
  unfolding restart_pod_def by (intro keeps_intros) simp_all

lemma keeps_killOrphans [keeps_intros]: "keeps J (killOrphans E s owned)"
  unfolding killOrphans_def killOrphans_body_def readPodMarker_def by (intro keeps_intros) simp_all

lemma keeps_ReconcileOnStartup_body:
  "HasPrefix key ''pod:'' \<Longrightarrow> keeps J (ReconcileOnStartup_body E s key acc)"
  unfolding ReconcileOnStartup_body_def by (intro keeps_intros keeps_adopt_pod) simp_all

lemma keeps_ReconcileOnStartup: "keeps J (ReconcileOnStartup E s)"
  unfolding ReconcileOnStartup_def
proof (rule keeps_on_error_with[OF ensures_ScanKeys])
  fix keys
  assume keys: "\<forall>ks. Inr keys = Inr ks \<longrightarrow> (\<forall>k \<in> set ks. HasPrefix k (literal_prefix PodKeyPattern))"
  have body: "keeps J (ReconcileOnStartup_body E s k acc)" if "k \<in> set keys" for k acc
    using keys that literal_prefix_pods(2) by (intro keeps_ReconcileOnStartup_body) simp
  show "keeps J (loop (ReconcileOnStartup_body E s) keys ([], [], []) (\<lambda>(owned, adopted, restarted). do {
          orphans \<leftarrow> on_error (killOrphans E s owned)
            (\<lambda>e. do {
               Warn E (sv_logger s) ''orphan_scan_failed''
                 (Sprintf ''could not scan for stray processes: %v'' [ArgE e]) [NodeID (sv_nodeID s)];
               State_Monad.return [] })
            (\<lambda>killed. State_Monad.return killed);
          Info E (sv_logger s) ''startup_reconciled''
            (Sprintf ''adopted %d, restarted %d, killed %d orphaned processes''
               [ArgD (int (length adopted)), ArgD (int (length restarted)), ArgD (int (length orphans))])
            [NodeID (sv_nodeID s)];
          ok \<lparr>rr_Adopted = adopted, rr_Restarted = restarted, rr_Orphaned = orphans\<rparr> }))"
    by (rule keeps_loop_in) (erule body, (intro keeps_intros; simp)+)
qed (rule keeps_return)

end

end
