(* ===== verification/Agent.thy ===== *)
theory Agent
  imports Node Telemetry Reconcile
begin

text \<open>
  The node agent as a process: the loop of \<open>internal/supervisor/consumer.go\<close> that takes commands from the node's queue,
  and \<open>run\<close> of \<open>cmd/node-agent/main.go\<close>, which puts registration, reconciliation and the loops together.
\<close>


section \<open>Commands from the queue\<close>

text \<open>One round of \<open>RunCommandConsumer\<close>; the result says whether the loop goes on.\<close>

definition consumer_round ::
  "('db, 'os, 'e) host_env_scheme \<Rightarrow> (string \<Rightarrow> error) \<Rightarrow> Supervisor \<Rightarrow> (('db, 'os, 'm) host_world_scheme, bool) state"
where
  "consumer_round E refusal s = do {
     c \<leftarrow> ctx_Err E;
     case c of
       Some _ \<Rightarrow> State_Monad.return False
     | None \<Rightarrow>
         on_error (BlockingPop E (NodeCommandsKey (sv_nodeID s)))
           (\<lambda>err.
             if err = RedisNil then State_Monad.return True else do {
               c \<leftarrow> ctx_Err E;
               case c of
                 Some _ \<Rightarrow> State_Monad.return False
               | None \<Rightarrow> do {
                   Warn E (sv_logger s) ''command_pop_failed''
                     (Sprintf ''could not read command queue, retrying: %v'' [ArgE err]) [NodeID (sv_nodeID s)];
                   c \<leftarrow> ctx_Err E;
                   State_Monad.return (c = None) } })
           (\<lambda>payload.
             case DecodeCommand refusal payload of
               Inl e \<Rightarrow> do {
                 Error E (sv_logger s) ''command_malformed'' (Error_text e) [NodeID (sv_nodeID s)];
                 State_Monad.return True }
             | Inr cmd \<Rightarrow> do {
                 handleCommand E s cmd;
                 State_Monad.return True }) }"


text \<open>The loop waits inside Redis and not in a \<open>select\<close>, so its rounds follow one another; \<open>n\<close> is how many of them
  are described. \<open>Inl\<close> says that the loop would go on, \<open>Inr\<close> that it has returned.\<close>

definition RunCommandConsumer ::
  "('db, 'os, 'e) host_env_scheme \<Rightarrow> (string \<Rightarrow> error) \<Rightarrow> Supervisor \<Rightarrow> nat \<Rightarrow> (('db, 'os, 'm) host_world_scheme, unit + unit) state"
where
  "RunCommandConsumer E refusal s n =
     for_range (\<lambda>_ u. do {
       goes_on \<leftarrow> consumer_round E refusal s;
       State_Monad.return (if goes_on then Next () else Return ()) }) (replicate n ()) ()"

lemma for_range_snoc:
  assumes "run_state (for_range f xs s) w = (Inl s1, w1)" "run_state (f x s1) w1 = (Next s2, w2)"
    and "\<And>y s w r w'. y \<in> set xs \<Longrightarrow> run_state (f y s) w \<noteq> (Break r, w')"
  shows "run_state (for_range f (xs @ [x]) s) w = (Inl s2, w2)"
  using assms
proof (induction xs arbitrary: s w)
  case (Cons y ys)
  then show ?case by (auto split: prod.splits flow.splits)
qed simp

lemma RunCommandConsumer_Suc:
  assumes "run_state (RunCommandConsumer E refusal s k) w = (Inl u, w1)" "run_state (consumer_round E refusal s) w1 = (True, w2)"
  shows "run_state (RunCommandConsumer E refusal s (Suc k)) w = (Inl (), w2)"
proof -
  have "replicate (Suc k) () = replicate k () @ [()]" by (simp add: replicate_append_same)
  then show ?thesis
    unfolding RunCommandConsumer_def
    by (simp del: replicate.simps) (rule for_range_snoc, use assms in \<open>auto simp: RunCommandConsumer_def split: prod.splits if_splits\<close>)
qed


section \<open>The process\<close>

record AgentConfig = NodeConfig +
  cfg_RedisAddr :: string
  cfg_HealthCheckInterval :: int
  cfg_FailureThreshold :: int
  cfg_BackoffBase :: int
  cfg_BackoffMax :: int

definition health_config :: "AgentConfig \<Rightarrow> HealthConfig" where
  "health_config cfg = \<lparr>h_Interval = cfg_HealthCheckInterval cfg, h_FailureThreshold = cfg_FailureThreshold cfg,
     h_BackoffBase = cfg_BackoffBase cfg, h_BackoffMax = cfg_BackoffMax cfg\<rparr>"

text \<open>From the registrar to the message that the node is ready. The loops that are started on the way run as
  interference.\<close>

definition agent_start ::
  "('db, 'os, 'e) host_env_scheme \<Rightarrow> Logger \<Rightarrow> AgentConfig \<Rightarrow>
   (('db, 'os, 'm) host_world_scheme, Registrar \<times> Supervisor) fallible"
where
  "agent_start E l cfg =
     (case NewRegistrar (NodeConfig.truncate cfg) of
        Inl e \<Rightarrow> throw (Errorf ''configure node registrar: %w'' [ArgE e])
      | Inr registrar \<Rightarrow> do {
          Info E l ''component_started''
            (Sprintf ''node-agent starting, node_id=%s redis=%s'' [ArgS (cfg_NodeID cfg), ArgS (cfg_RedisAddr cfg)])
            [NodeID (cfg_NodeID cfg)];
          on_error (Register E l registrar)
            (\<lambda>e. throw (Errorf ''register node: %w'' [ArgE e]))
            (\<lambda>_. on_error (Heartbeat E registrar)
              (\<lambda>e. throw (Errorf ''publish initial lease: %w'' [ArgE e]))
              (\<lambda>_. let sup = NewSupervisor l (cfg_NodeID cfg) in
                on_error (ReconcileOnStartup E sup)
                  (\<lambda>e. throw (Errorf ''reconcile pods on startup: %w'' [ArgE e]))
                  (\<lambda>_. do {
                     Info E l ''node_ready''
                       (Sprintf ''lease active, refreshing every %s with a %s TTL''
                          [ArgS (Duration_String (cfg_HeartbeatInterval cfg)), ArgS (Duration_String (cfg_LeaseTTL cfg))])
                       [NodeID (cfg_NodeID cfg)];
                     ok (registrar, sup) }))) })"

definition agent_stop ::
  "('db, 'e) env_scheme \<Rightarrow> Logger \<Rightarrow> AgentConfig \<Rightarrow> Registrar \<Rightarrow> (('db, 'm) world_scheme, unit) state"
where
  "agent_stop E l cfg registrar = do {
     on_error (Deregister E l registrar)
       (\<lambda>e. Warn E l ''deregister_failed''
              (Sprintf ''could not drop lease, it will expire within %s: %v'' [ArgS (Duration_String (cfg_LeaseTTL cfg)), ArgE e])
              [NodeID (cfg_NodeID cfg)])
       (\<lambda>_. State_Monad.return ());
     Info E l ''component_stopped'' ''node-agent stopped, supervised processes left running for re-adoption''
       [NodeID (cfg_NodeID cfg)] }"


section \<open>The queue is a queue\<close>

text \<open>What the queue of a node holds, as commands.\<close>

definition holds_commands :: "keyspace \<Rightarrow> string \<Rightarrow> Command list \<Rightarrow> bool" where
  "holds_commands v n cs \<longleftrightarrow> is_list v (NodeCommandsKey n) \<and> list_at v (NodeCommandsKey n) = map EncodeCommand cs"

context agent
begin

lemma run_pop:
  assumes "calm E" "server E = R" "is_list (view (db w)) k"
  shows "\<exists>w1. os w1 = os w \<and> (case list_at (view (db w)) k of
      [] \<Rightarrow> run_state (BlockingPop E k) w = (Inl RedisNil, w1) \<and> view (db w1) = view (db w)
    | x # xs \<Rightarrow> run_state (BlockingPop E k) w = (Inr x, w1) \<and> view (db w1) = put_list (view (db w)) k xs)"
proof -
  let ?r = "run_state (r_blpop R k) (db w)"
  have p: "case list_at (view (db w)) k of
       [] \<Rightarrow> fst ?r = Inr None \<and> view (snd ?r) = view (db w)
     | x # xs \<Rightarrow> fst ?r = Inr (Some x) \<and> view (snd ?r) = put_list (view (db w)) k xs"
    using blpop[of k "db w", OF prod.collapse[symmetric]] assms(3) by simp
  then show ?thesis
    using calm_quiet[OF assms(1)] assms(2)
    by (intro exI[of _ "w\<lparr>tick := Suc (tick w), db := snd ?r\<rparr>"]) (auto simp: BlockingPop_def run_send_quiet split: list.splits)
qed

lemma run_consumer_round:
  assumes "calm E" "server E = R" "holds_commands (view (db w)) (sv_nodeID s) cs"
    and "list_all usable_command cs"
  shows "case cs of
      [] \<Rightarrow> \<exists>w'. run_state (consumer_round E refusal s) w = (True, w') \<and> os w' = os w \<and> view (db w') = view (db w)
    | d # ds \<Rightarrow> \<exists>w1. run_state (consumer_round E refusal s) w = (True, snd (run_state (handleCommand E s d) w1)) \<and>
        os w1 = os w \<and> holds_commands (view (db w1)) (sv_nodeID s) ds \<and>
        (\<forall>k. k \<noteq> NodeCommandsKey (sv_nodeID s) \<longrightarrow> view (db w1) k = view (db w) k)"
proof -
  let ?k = "NodeCommandsKey (sv_nodeID s)"
  have l: "is_list (view (db w)) ?k" "list_at (view (db w)) ?k = map EncodeCommand cs" using assms(3) by (simp_all add: holds_commands_def)
  obtain w1 where w1: "os w1 = os w" "case map EncodeCommand cs of
      [] \<Rightarrow> run_state (BlockingPop E ?k) w = (Inl RedisNil, w1) \<and> view (db w1) = view (db w)
    | x # xs \<Rightarrow> run_state (BlockingPop E ?k) w = (Inr x, w1) \<and> view (db w1) = put_list (view (db w)) ?k xs"
    using run_pop[OF assms(1,2) l(1)] unfolding l(2) by blast
  show ?thesis
  proof (cases cs)
    case Nil
    with w1 have "run_state (consumer_round E refusal s) w = (True, w1)"
      using assms(1) by (simp add: consumer_round_def run_on_error)
    with w1 Nil show ?thesis by auto
  next
    case (Cons d ds)
    with w1(2) have p: "run_state (BlockingPop E ?k) w = (Inr (EncodeCommand d), w1)"
      "view (db w1) = put_list (view (db w)) ?k (map EncodeCommand ds)" by simp_all
    have "DecodeCommand refusal (EncodeCommand d) = Inr d"
      using assms(4) Cons by (simp add: command_roundtrip)
    then have "run_state (consumer_round E refusal s) w = (True, snd (run_state (handleCommand E s d) w1))"
      using p(1) assms(1) by (simp add: consumer_round_def run_on_error split: prod.split)
    moreover have "holds_commands (view (db w1)) (sv_nodeID s) ds" by (simp add: holds_commands_def p(2))
    ultimately show ?thesis using w1(1) p(2) Cons by auto
  qed
qed

end

text \<open>The command queue of a node is a first-in first-out queue of commands, with nothing else happening: what the
  control plane sends goes to its end, a round of the agent's consumer takes the command at its front and
  carries it out, with no other change before, and an empty queue changes nothing and does not
  end the loop.\<close>

theorem command_queue_fifo:
  fixes E :: "('db, 'os, 'e) host_env_scheme" and w :: "('db, 'os, 'm) host_world_scheme"
  assumes "redis_server (server E) view" "unix_kernel (kernel E) procs" "calm E"
    and "holds_commands (view (db w)) (sv_nodeID s) cs" "list_all usable_command cs"
  shows "(\<exists>w'. run_state (SendCommand E (sv_nodeID s) c) w = (Inr (), w') \<and> holds_commands (view (db w')) (sv_nodeID s) (cs @ [c])) \<and>
    (case cs of
      [] \<Rightarrow> \<exists>w'. run_state (consumer_round E refusal s) w = (True, w') \<and> os w' = os w \<and> view (db w') = view (db w)
    | d # ds \<Rightarrow> \<exists>w1. run_state (consumer_round E refusal s) w = (True, snd (run_state (handleCommand E s d) w1)) \<and>
        os w1 = os w \<and> holds_commands (view (db w1)) (sv_nodeID s) ds \<and>
        (\<forall>k. k \<noteq> NodeCommandsKey (sv_nodeID s) \<longrightarrow> view (db w1) k = view (db w) k))"
proof
  have l: "is_list (view (db w)) (NodeCommandsKey (sv_nodeID s))" using assms(4) by (simp add: holds_commands_def)
  show "\<exists>w'. run_state (SendCommand E (sv_nodeID s) c) w = (Inr (), w') \<and> holds_commands (view (db w')) (sv_nodeID s) (cs @ [c])"
    using redis_server.run_SendCommand[OF assms(1) calm_quiet[OF assms(3)] refl l, of c] assms(4)
    by (auto simp: holds_commands_def is_list_def list_at_def)
qed (rule agent.run_consumer_round[OF agent.intro[OF assms(1,2)] assms(3) refl assms(4,5)])

definition demo_command :: Command where
  "demo_command = \<lparr>c_Type = CommandStopPod, c_Deployment = ''web'', c_PodID = ''7f''\<rparr>"

theorem command_queue_fifo_witness:
  "\<exists>w1. run_state (consumer_round mem_host demo_refusal demo_supervisor)
      (on_machine [(NodeCommandsKey ''n1'', Some (MList [EncodeCommand demo_command]))]) =
     (True, snd (run_state (handleCommand mem_host demo_supervisor demo_command) w1)) \<and>
     holds_commands (mem_view (db w1)) ''n1'' []"
proof -
  let ?w = "on_machine [(NodeCommandsKey ''n1'', Some (MList [EncodeCommand demo_command]))]"
  have q: "holds_commands (mem_view (db ?w)) (sv_nodeID demo_supervisor) [demo_command]"
    by (simp add: holds_commands_def is_list_def list_at_def mem_view_def mem_get_def)
  have srv: "redis_server (server mem_host) mem_view" "unix_kernel (kernel mem_host) ma_view"
    using mem.redis_server_axioms mach.unix_kernel_axioms by simp_all
  have us: "list_all usable_command [demo_command]" by (simp add: usable_command_def demo_command_def ValidString_ascii)
  from command_queue_fifo[OF srv _ q us, where refusal = demo_refusal] obtain w1 where
    w1: "run_state (consumer_round mem_host demo_refusal demo_supervisor) ?w = (True, snd (run_state (handleCommand mem_host demo_supervisor demo_command) w1))"
    "holds_commands (mem_view (db w1)) ''n1'' []" by auto
  then show ?thesis by blast
qed


section \<open>Every command is carried out\<close>

text \<open>Carrying out a command leaves the queue alone. The frame is an invariant like any other: the queue holds what it
  holds.\<close>

locale queue_frame = guarded R view E "\<lambda>v. v (NodeCommandsKey n) = q"
  for R :: "'db redis" and view and E :: "('db, 'os, 'e) host_env_scheme" and n :: string and q :: "rvalue option"
begin

lemma ignores_queue [simp]:
  "ignores (\<lambda>v. v (NodeCommandsKey n) = q) LogStreamKey" "ignores (\<lambda>v. v (NodeCommandsKey n) = q) (PodKey d i)"
  "ignores (\<lambda>v. v (NodeCommandsKey n) = q) (TelemetryCPUKey d i)" "ignores (\<lambda>v. v (NodeCommandsKey n) = q) (NodeCapacityKey m)"
  by (simp_all add: ignores_def key_simps)

lemma frame_db: "(\<And>d. keeps (\<lambda>w. db w = d) m) \<Longrightarrow> keeps J m"
  by (auto simp: keeps_def J_def)

lemma frame_host [keeps_intros]:
  "keeps J (sys E m)" "keeps J (now_nano E)" "keeps J (PIDAlive E pid)" "keeps J (terminate E pid)"
  by (intro frame_db keeps_intros)+

lemma frame_identity [keeps_intros]: "keeps J (ProcessStartTime E pid)" "keeps J (IsSameProcess E pid t)"
proof -
  show p: "keeps J (ProcessStartTime E pid)" for pid unfolding ProcessStartTime_def by (intro keeps_intros)
  show "keeps J (IsSameProcess E pid t)" unfolding IsSameProcess_def by (intro keeps_intros p)
qed

lemma frame_Spawn [keeps_intros]: "keeps J (Spawn E s d i)"
  unfolding Spawn_def spawn_with_def launch_def markFailedIfSpawnFails_def allocateHostPort_def try_port_def portFree_def
    claimedPorts_def claimedPorts_body_def
  by (intro keeps_intros keeps_HashSet; simp)

lemma frame_Stop [keeps_intros]: "keeps J (Stop E s d i)"
  unfolding Stop_def stop_with_def by (intro keeps_intros keeps_HashSet; simp)

lemma frame_release: "keeps (\<lambda>d. view d (NodeCommandsKey n) = q) (releaseScript R (NodeCapacityKey m) a b)"
proof -
  let ?P = "\<lambda>d. view d (NodeCommandsKey n) = q"
  have ops: "keeps ?P (r_exists R k)" "keeps ?P (r_hget R k f)" for k f
    using hget_same[OF prod.collapse[symmetric]] by (simp_all add: keeps_def exists)
  have hset: "keeps ?P (r_hset R (NodeCapacityKey m) [(FieldAllocatedCPU, x), (FieldAllocatedMem, y)])" for x y
    by (intro keepsI) (simp add: view_hset key_simps)
  show ?thesis unfolding releaseScript_def Let_def by (intro keeps_intros ops hset)
qed

lemma frame_Release [keeps_intros]: "keeps J (Release E m c k)"
  unfolding Release_def Let_def EvalScript_def server_R
  by (intro keeps_intros keeps_send) (rule keepsD[OF frame_release])

lemma frame_handleCommand: "keeps J (handleCommand E s cmd)"
  unfolding handleCommand_def StopAndRemove_def releaseCapacity_def by (intro keeps_intros; simp)

end

context agent
begin

lemma queue_kept:
  assumes "calm E" "server E = R" "holds_commands (view (db w)) n cs"
  shows "holds_commands (view (db (snd (run_state (handleCommand E s c) w)))) n cs"
proof -
  have "guarded R view E (\<lambda>v. v (NodeCommandsKey n) = view (db w) (NodeCommandsKey n))"
    using assms(1,2) by unfold_locales (simp_all add: calm_def quiet_def)
  then have f: "queue_frame R view E n (view (db w) (NodeCommandsKey n))" by (simp add: queue_frame_def)
  have "view (db (snd (run_state (handleCommand E s c) w))) (NodeCommandsKey n) = view (db w) (NodeCommandsKey n)"
    using keepsD[OF queue_frame.frame_handleCommand[OF f], of w s c] by (simp add: guarded.J_def[OF queue_frame.axioms[OF f]])
  then show ?thesis using assms(3) by (simp add: holds_commands_def is_list_def list_at_def)
qed

lemma consumer_queue:
  fixes w :: "('db, 'os, 'm) host_world_scheme"
  assumes "calm E" "server E = R" "holds_commands (view (db w)) (sv_nodeID s) cs"
    and "list_all usable_command cs" "k \<le> length cs"
  shows "\<exists>w'. run_state (RunCommandConsumer E refusal s k) w = (Inl (), w') \<and> holds_commands (view (db w')) (sv_nodeID s) (drop k cs) \<and>
    (\<forall>i < k. \<exists>u :: ('db, 'os, 'm) host_world_scheme. holds_commands (view (db u)) (sv_nodeID s) (drop (Suc i) cs) \<and>
       snd (run_state (RunCommandConsumer E refusal s (Suc i)) w) = snd (run_state (handleCommand E s (cs ! i)) u))"
  using assms(5)
proof (induction k)
  case 0
  then show ?case using assms(3) by (simp add: RunCommandConsumer_def)
next
  case (Suc k)
  then obtain w' :: "('db, 'os, 'm) host_world_scheme" where
    q: "run_state (RunCommandConsumer E refusal s k) w = (Inl (), w')" "holds_commands (view (db w')) (sv_nodeID s) (drop k cs)"
    and old: "\<forall>i < k. \<exists>u :: ('db, 'os, 'm) host_world_scheme. holds_commands (view (db u)) (sv_nodeID s) (drop (Suc i) cs) \<and>
       snd (run_state (RunCommandConsumer E refusal s (Suc i)) w) = snd (run_state (handleCommand E s (cs ! i)) u)"
    by auto
  have d: "drop k cs = cs ! k # drop (Suc k) cs" using Suc.prems by (simp add: Cons_nth_drop_Suc)
  have all: "list_all usable_command (drop k cs)"
    using assms(4) by (auto simp: list_all_iff dest: in_set_dropD)
  obtain u :: "('db, 'os, 'm) host_world_scheme" where u:
    "run_state (consumer_round E refusal s) w' = (True, snd (run_state (handleCommand E s (cs ! k)) u))"
    "holds_commands (view (db u)) (sv_nodeID s) (drop (Suc k) cs)"
    using run_consumer_round[OF assms(1,2) q(2) all] unfolding d by auto
  have r: "run_state (RunCommandConsumer E refusal s (Suc k)) w = (Inl (), snd (run_state (handleCommand E s (cs ! k)) u))"
    by (rule RunCommandConsumer_Suc[OF q(1) u(1)])
  moreover have "holds_commands (view (db (snd (run_state (handleCommand E s (cs ! k)) u)))) (sv_nodeID s) (drop (Suc k) cs)"
    by (rule queue_kept[OF assms(1,2) u(2)])
  moreover have "\<exists>u :: ('db, 'os, 'm) host_world_scheme. holds_commands (view (db u)) (sv_nodeID s) (drop (Suc i) cs) \<and>
       snd (run_state (RunCommandConsumer E refusal s (Suc i)) w) = snd (run_state (handleCommand E s (cs ! i)) u)" if "i < Suc k" for i
  proof (cases "i = k")
    case True
    then show ?thesis using u(2) r by (intro exI[of _ u]) simp
  next
    case False
    then show ?thesis using old that by simp
  qed
  ultimately show ?case by blast
qed

end

interpretation mem_queue: queue_frame mem_redis mem_view mem_host n q for n q
  by (simp add: queue_frame_def)




section \<open>Accounting\<close>

context cluster
begin

lemma keeps_lease [keeps_intros]: "keeps J (heartbeat_tick E l r)" "keeps J (Deregister E l r)"
  unfolding heartbeat_tick_def Heartbeat_def Deregister_def by (intro keeps_intros; simp)+

lemma keeps_agent_stop: "keeps J (agent_stop E l cfg r)"
  unfolding agent_stop_def by (intro keeps_intros; simp)

end

context host_cluster
begin

lemma keeps_pop [keeps_intros]: "keeps J (BlockingPop E (NodeCommandsKey n))"
proof -
  have "accounting_ok (view (snd (run_state (r_blpop R (NodeCommandsKey n)) d)))" if "accounting_ok (view d)" for d
    using blpop[of "NodeCommandsKey n" d, OF prod.collapse[symmetric]] that
    by (auto simp: ignores_put_list split: if_splits list.splits)
  then have "keeps J (send E (r_blpop R (NodeCommandsKey n)))" by (rule keeps_send)
  then show ?thesis unfolding BlockingPop_def server_R by (intro keeps_intros)
qed

lemma keeps_consumer_round: "keeps J (consumer_round E refusal s)"
  unfolding consumer_round_def by (intro keeps_intros) simp_all

lemma keeps_RunCommandConsumer: "keeps J (RunCommandConsumer E refusal s n)"
  unfolding RunCommandConsumer_def by (intro keeps_intros keeps_consumer_round)

end

end
