(* ===== verification/Ingress.thy ===== *)
theory Ingress
  imports Supervisor Health
begin

text \<open>
  \<open>internal/ingress/ingress.go\<close>: the upstream configuration for Nginx, derived from the running pods and written and
  reloaded when it changes. The file system and the reload command are a parameter, a record with one operation
  per call over an unknown state, with the contract \<open>file_system\<close>. The loop of \<open>Run\<close> is a state machine
  over its select cases; the subscription that feeds it is represented by its signals, and the watcher that
  turns messages into them is in the theory \<open>Loops\<close>.
\<close>


section \<open>Configuration\<close>

record IngressConfig =
  ic_ConfigPath :: string
  ic_ReloadCommand :: "string list"
  ic_Debounce :: int
  ic_ResyncInterval :: int

record Controller =
  ct_logger :: Logger
  ct_cfg :: IngressConfig
  ct_lastWritten :: string

definition NewController :: "Logger \<Rightarrow> IngressConfig \<Rightarrow> Controller" where
  "NewController l cfg =
     (let cfg = (if ic_Debounce cfg \<le> 0 then cfg\<lparr>ic_Debounce := 2 * 10 ^ 9\<rparr> else cfg);
          cfg = (if ic_ResyncInterval cfg \<le> 0 then cfg\<lparr>ic_ResyncInterval := 30 * 10 ^ 9\<rparr> else cfg);
          cfg = (if ic_ConfigPath cfg = [] then cfg\<lparr>ic_ConfigPath := ''/tmp/mini-k8s-upstreams.conf''\<rparr> else cfg);
          cfg = (if ic_ReloadCommand cfg = [] then cfg\<lparr>ic_ReloadCommand := [''nginx'', ''-s'', ''reload'']\<rparr> else cfg)
      in \<lparr>ct_logger = l, ct_cfg = cfg, ct_lastWritten = []\<rparr>)"


section \<open>Backends and their rendering\<close>

text \<open>The map from deployments to ports is an association list with distinct keys.\<close>

type_synonym backend_map = "(string \<times> int list) list"

definition add_port :: "string \<Rightarrow> int \<Rightarrow> backend_map \<Rightarrow> backend_map" where
  "add_port name port m = AList.update name ((case map_of m name of None \<Rightarrow> [] | Some ports \<Rightarrow> ports) @ [port]) m"

definition backends_body ::
  "('db, 'e) env_scheme \<Rightarrow> string \<Rightarrow> backend_map \<Rightarrow> (('db, 'm) world_scheme, (backend_map, error + backend_map) flow) state"
where
  "backends_body E key m =
     on_error (HashGet E key)
       (\<lambda>e. State_Monad.return (Next m))
       (\<lambda>fs.
         if fs = [] then State_Monad.return (Next m) else
         case MapToPod fs of
           Inl e \<Rightarrow> State_Monad.return (Next m)
         | Inr pod \<Rightarrow>
             if p_Deployment pod = [] then State_Monad.return (Next m)
             else if p_Status pod \<noteq> StatusRunning \<or> p_HostPort pod \<le> 0 then State_Monad.return (Next m)
             else State_Monad.return (Next (add_port (p_Deployment pod) (p_HostPort pod) m)))"

definition backends :: "('db, 'e) env_scheme \<Rightarrow> (('db, 'm) world_scheme, backend_map) fallible" where
  "backends E =
     on_error (ScanKeys E PodKeyPattern)
       (\<lambda>e. throw (Errorf ''scan pods: %w'' [ArgE e]))
       (\<lambda>keys. loop (backends_body E) keys []
          (\<lambda>m. ok (map (\<lambda>(name, ports). (name, sort_stable (<) ports)) m)))"

definition upstreamName :: "string \<Rightarrow> string" where
  "upstreamName deployment = ''minik8s_'' @ map (\<lambda>c. if c = CHR ''-'' then CHR ''_'' else c) deployment"

definition render_upstream :: "string \<Rightarrow> int list \<Rightarrow> string" where
  "render_upstream name ports =
     newline @ Sprintf ''upstream %s {'' [ArgS (upstreamName name)] @ newline
     @ concat (map (\<lambda>port. Sprintf ''    server 127.0.0.1:%d max_fails=2 fail_timeout=5s;'' [ArgD port] @ newline) ports)
     @ ''}'' @ newline"

definition render_location :: "string \<Rightarrow> string" where
  "render_location name =
     newline @ Sprintf ''location /%s/ {'' [ArgS name] @ newline
     @ Sprintf ''    proxy_pass http://%s/;'' [ArgS (upstreamName name)] @ newline
     @ ''    proxy_set_header Host $host;'' @ newline
     @ ''    proxy_next_upstream error timeout http_502 http_503;'' @ newline
     @ ''}'' @ newline"

definition Render :: "backend_map \<Rightarrow> string" where
  "Render m =
     (let names = sort_stable (<) (map fst m);
          ports = (\<lambda>name. case map_of m name of None \<Rightarrow> [] | Some ps \<Rightarrow> ps)
      in ''# Generated by mini-k8s. Do not edit: rewritten on every change.'' @ newline
         @ concat (map (\<lambda>name. if ports name = [] then [] else render_upstream name (ports name)) names)
         @ concat (map (\<lambda>name. if ports name = [] then [] else render_location name) names))"


section \<open>Writing and reloading\<close>

text \<open>\<open>os.CreateTemp\<close>, writing to and closing the temporary file, \<open>os.Chmod\<close>, \<open>os.Rename\<close>, \<open>os.Remove\<close>, \<open>exec.LookPath\<close>, and
  running a command: its output and, if it failed, the error and whether the deadline had passed.\<close>

record 'os shell =
  sh_CreateTemp :: "string \<Rightarrow> string \<Rightarrow> ('os, string) fallible"
  sh_WriteString :: "string \<Rightarrow> string \<Rightarrow> ('os, unit) fallible"
  sh_Close :: "string \<Rightarrow> ('os, unit) fallible"
  sh_Chmod :: "string \<Rightarrow> int \<Rightarrow> ('os, unit) fallible"
  sh_Rename :: "string \<Rightarrow> string \<Rightarrow> ('os, unit) fallible"
  sh_Remove :: "string \<Rightarrow> ('os, unit) fallible"
  sh_LookPath :: "string \<Rightarrow> ('os, unit) fallible"
  sh_Run :: "string list \<Rightarrow> ('os, string \<times> (error \<times> bool) option) state"

record ('db, 'os) ingress_env = "'db env" +
  shell :: "'os shell"
  shell_moves :: "nat \<Rightarrow> 'os \<Rightarrow> 'os"

definition call ::
  "('db, 'os, 'e) ingress_env_scheme \<Rightarrow> ('os, 'a) state \<Rightarrow> (('db, 'os, 'm) host_world_scheme, 'a) state"
where
  "call E m = State (\<lambda>w. case run_state m (shell_moves E (tick w) (os w)) of (r, s) \<Rightarrow> (r, w\<lparr>tick := Suc (tick w), os := s\<rparr>))"

text \<open>\<open>filepath.Dir\<close> of a path without repeated slashes or dots.\<close>

definition Dir :: "string \<Rightarrow> string" where
  "Dir path = (case LastIndexByte path (CHR ''/'') of
     None \<Rightarrow> ''.'' | Some 0 \<Rightarrow> ''/'' | Some i \<Rightarrow> take i path)"

definition install ::
  "('db, 'os, 'e) ingress_env_scheme \<Rightarrow> string \<Rightarrow> string \<Rightarrow> string \<Rightarrow> (('db, 'os, 'm) host_world_scheme, unit) fallible"
where
  "install E path tmpName content =
     on_error (call E (sh_WriteString (shell E) tmpName content))
       (\<lambda>e. do {
          call E (sh_Close (shell E) tmpName);
          throw (Errorf ''write temp config: %w'' [ArgE e]) })
       (\<lambda>_. on_error (call E (sh_Close (shell E) tmpName))
         (\<lambda>e. throw (Errorf ''close temp config: %w'' [ArgE e]))
         (\<lambda>_. on_error (call E (sh_Chmod (shell E) tmpName 420))
           (\<lambda>e. throw (Errorf ''chmod temp config: %w'' [ArgE e]))
           (\<lambda>_. on_error (call E (sh_Rename (shell E) tmpName path))
             (\<lambda>e. throw (Errorf ''install config at %s: %w'' [ArgS path, ArgE e]))
             (\<lambda>_. ok ()))))"

text \<open>The deferred removal of the temporary file comes after the result is determined, and its error is dropped.\<close>

definition write_config ::
  "('db, 'os, 'e) ingress_env_scheme \<Rightarrow> Controller \<Rightarrow> string \<Rightarrow> (('db, 'os, 'm) host_world_scheme, unit) fallible"
where
  "write_config E c content =
     (let path = ic_ConfigPath (ct_cfg c); dir = Dir path in
      on_error (call E (sh_CreateTemp (shell E) dir ''.upstreams-*.conf''))
        (\<lambda>e. throw (Errorf ''create temp config in %s: %w'' [ArgS dir, ArgE e]))
        (\<lambda>tmpName. do {
           r \<leftarrow> install E path tmpName content;
           call E (sh_Remove (shell E) tmpName);
           State_Monad.return r }))"

abbreviation (input) reloadTimeout :: int where "reloadTimeout \<equiv> 10 * 10 ^ 9"

text \<open>The output of a failed command appears trimmed in the error.\<close>

definition reload ::
  "('db, 'os, 'e) ingress_env_scheme \<Rightarrow> Controller \<Rightarrow> (('db, 'os, 'm) host_world_scheme, unit) fallible"
where
  "reload E c =
     (let argv = ic_ReloadCommand (ct_cfg c); bin = hd argv in
      on_error (call E (sh_LookPath (shell E) bin))
        (\<lambda>e. do {
           Warn E (ct_logger c) ''ingress_reload_unavailable''
             (Sprintf ''%s not found: config written but not reloaded'' [ArgS bin]) [];
           ok () })
        (\<lambda>_. do {
           (out, failed) \<leftarrow> call E (sh_Run (shell E) argv);
           case failed of
             Some (err, timed_out) \<Rightarrow>
               if timed_out then throw (Errorf ''reload timed out after %s'' [ArgS (Duration_String reloadTimeout)])
               else throw (Errorf ''reload failed: %w: %s'' [ArgE err, ArgS (TrimSpace out)])
           | None \<Rightarrow> do {
               Info E (ct_logger c) ''ingress_reloaded'' ''nginx picked up the new upstreams'' [];
               ok () } }))"

definition Sync ::
  "('db, 'os, 'e) ingress_env_scheme \<Rightarrow> Controller \<Rightarrow>
   (('db, 'os, 'm) host_world_scheme, Controller \<times> error option) state"
where
  "Sync E c =
     on_error (backends E)
       (\<lambda>e. State_Monad.return (c, Some e))
       (\<lambda>m. let rendered = Render m in
         if rendered = ct_lastWritten c then State_Monad.return (c, None) else
         on_error (write_config E c rendered)
           (\<lambda>e. State_Monad.return (c, Some e))
           (\<lambda>_. do {
              let c = c\<lparr>ct_lastWritten := rendered\<rparr>;
              Info E (ct_logger c) ''ingress_config_written''
                (Sprintf ''%d deployment(s), %d backend(s) at %s''
                   [ArgD (int (length m)), ArgD (int (sum_list (map (\<lambda>(_, ports). length ports) m))), ArgS (ic_ConfigPath (ct_cfg c))]) [];
              on_error (reload E c)
                (\<lambda>e. State_Monad.return (c, Some e))
                (\<lambda>_. State_Monad.return (c, None)) }))"

text \<open>A sync whose error is logged unless the program is stopping.\<close>

definition sync_round ::
  "('db, 'os, 'e) ingress_env_scheme \<Rightarrow> Controller \<Rightarrow> (('db, 'os, 'm) host_world_scheme, Controller) state"
where
  "sync_round E c = do {
     (c, err) \<leftarrow> Sync E c;
     (case err of
        None \<Rightarrow> State_Monad.return ()
      | Some e \<Rightarrow> do {
          x \<leftarrow> ctx_Err E;
          case x of
            Some _ \<Rightarrow> State_Monad.return ()
          | None \<Rightarrow> Error E (ct_logger c) ''ingress_sync_failed'' (Error_text e) [] });
     State_Monad.return c }"

text \<open>The select cases of \<open>Run\<close>: a signal of the watcher arms the timer anew, the timer and the ticker rebuild. Times are in
  nanoseconds; the timer may fire at any time from its deadline on.\<close>

datatype ingress_event = Changed int | Debounced int | Resynced int

definition run_event ::
  "('db, 'os, 'e) ingress_env_scheme \<Rightarrow> ingress_event \<Rightarrow> Controller \<times> int option \<Rightarrow>
   (('db, 'os, 'm) host_world_scheme, Controller \<times> int option) state"
where
  "run_event E ev st =
     (case st of (c, debounce) \<Rightarrow>
      case ev of
        Changed now \<Rightarrow> State_Monad.return (c, Some (now + ic_Debounce (ct_cfg c)))
      | Debounced now \<Rightarrow> do { c \<leftarrow> sync_round E c; State_Monad.return (c, None) }
      | Resynced now \<Rightarrow> do { c \<leftarrow> sync_round E c; State_Monad.return (c, debounce) })"

definition run_enabled :: "ingress_event \<Rightarrow> int option \<Rightarrow> bool" where
  "run_enabled ev debounce = (case ev of Debounced now \<Rightarrow> (case debounce of None \<Rightarrow> False | Some t \<Rightarrow> t \<le> now) | _ \<Rightarrow> True)"

text \<open>The watcher: a message that decodes puts a signal into a channel of size one.\<close>

definition watch_message :: "(string \<Rightarrow> error) \<Rightarrow> string \<Rightarrow> bool \<Rightarrow> bool" where
  "watch_message refusal payload pending = (case Decode refusal payload of Inl e \<Rightarrow> pending | Inr ev \<Rightarrow> True)"


section \<open>The backends are those of the running pods\<close>

lemma sort_stable_less: "sort_stable (<) xs = sort (xs :: 'a::linorder list)"
proof (rule properties_for_sort[symmetric])
  show "sorted (sort_stable (<) xs)"
    using less_callback.sort_stable_sorted[OF less_callback_key[of "\<lambda>x. x"], of xs] by (simp add: not_less)
qed simp

definition serves :: "keyspace \<Rightarrow> string \<Rightarrow> string \<Rightarrow> bool" where
  "serves v name k \<longleftrightarrow> v k \<noteq> None \<and> glob PodKeyPattern k \<and>
     (\<exists>p. pod_at v k p \<and> p_Deployment p = name \<and> name \<noteq> [] \<and> p_Status p = StatusRunning \<and> 0 < p_HostPort p)"

definition port_at :: "keyspace \<Rightarrow> string \<Rightarrow> int" where
  "port_at v k = (case hash_at v k FieldPodHostPort of None \<Rightarrow> 0 | Some x \<Rightarrow> atoiDefault x 0)"

definition serving_ports :: "keyspace \<Rightarrow> string \<Rightarrow> int list" where
  "serving_ports v name = sorted_list_of_multiset (image_mset (port_at v) (mset_set {k. serves v name k}))"

definition ports_of :: "backend_map \<Rightarrow> string \<Rightarrow> int list" where
  "ports_of m name = (case map_of m name of None \<Rightarrow> [] | Some ps \<Rightarrow> ps)"

lemma ports_of_add_port: "ports_of (add_port n p m) name = ports_of m name @ (if name = n then [p] else [])"
  by (auto simp: ports_of_def add_port_def update_conv' split: option.splits)

lemma add_port_keys: "distinct (map fst m) \<Longrightarrow> distinct (map fst (add_port n p m))"
  by (simp add: add_port_def distinct_update)

lemma add_port_set: "fst ` set (add_port n p m) = insert n (fst ` set m)"
  by (simp add: add_port_def dom_update)

definition proper :: "backend_map \<Rightarrow> bool" where
  "proper m \<longleftrightarrow> distinct (map fst m) \<and> (\<forall>x \<in> set m. snd x \<noteq> [])"

lemma proper_add_port: "proper m \<Longrightarrow> proper (add_port n p m)"
proof -
  assume m: "proper m"
  have "snd x \<noteq> []" if "x \<in> set (add_port n p m)" for x
  proof -
    have "map_of (add_port n p m) (fst x) = Some (snd x)"
      using that add_port_keys m by (intro map_of_is_SomeI) (auto simp: proper_def)
    then have "(if fst x = n then Some (ports_of m n @ [p]) else map_of m (fst x)) = Some (snd x)"
      by (auto simp: add_port_def update_conv' ports_of_def split: if_splits option.splits)
    then show ?thesis using m by (auto simp: proper_def split: if_splits dest: map_of_SomeD)
  qed
  then show ?thesis using m add_port_keys by (simp add: proper_def)
qed

context redis_server
begin

lemma run_backends_body:
  assumes "quiet E" "server E = R" "glob PodKeyPattern k" "proper m"
  shows "\<exists>m' w'. run_state (backends_body E k m) w = (Next m', w') \<and> db w' = db w \<and> world.more w' = world.more w \<and> proper m' \<and>
    (\<forall>name. ports_of m' name = ports_of m name @ (if serves (view (db w)) name k then [port_at (view (db w)) k] else []))"
proof (cases "is_hash (view (db w)) k")
  case False
  obtain e where "run_state (r_hgetall R k) (db w) = (Inl e, db w)" using hgetall_wrong[OF False] by blast
  moreover have "\<not> serves (view (db w)) name k" for name using False by (auto simp: serves_def pod_at_def)
  ultimately show ?thesis
    using assms by (auto simp: backends_body_def run_on_error HashGet_def run_send_quiet)
next
  case True
  obtain fs where fs: "run_state (r_hgetall R k) (db w) = (Inr fs, db w)" "map_of fs = hash_at (view (db w)) k" "fs = [] \<longleftrightarrow> view (db w) k = None"
    using hgetall[OF True] map_of_empty_hash[OF _ True] by metis
  have pod: "pod_at (view (db w)) k p \<longleftrightarrow> fs \<noteq> [] \<and> MapToPod fs = Inr p" for p
    using True fs pod_at_decode[of "view (db w)" k p fs] by (auto simp: pod_at_def)
  define m' where "m' = (case MapToPod fs of Inl e \<Rightarrow> m | Inr p \<Rightarrow>
     if fs = [] \<or> p_Deployment p = [] \<or> p_Status p \<noteq> StatusRunning \<or> p_HostPort p \<le> 0 then m
     else add_port (p_Deployment p) (p_HostPort p) m)"
  have "\<exists>w'. run_state (backends_body E k m) w = (Next m', w') \<and> db w' = db w \<and> world.more w' = world.more w"
    using fs(1) assms(1,2)
    by (cases "MapToPod fs") (simp_all add: backends_body_def run_on_error HashGet_def run_send_quiet m'_def)
  moreover have "proper m'" using assms(4) by (auto simp: m'_def proper_add_port split: sum.splits)
  moreover have "ports_of m' name = ports_of m name @ (if serves (view (db w)) name k then [port_at (view (db w)) k] else [])" for name
  proof -
    have "p_HostPort p = port_at (view (db w)) k" if "MapToPod fs = Inr p" for p
    proof -
      have "p_HostPort p = atoiDefault (mget fs FieldPodHostPort) 0" using that by (auto simp: MapToPod_def required_Inr)
      then show ?thesis using fs(2) by (simp add: port_at_def mget_def split: option.split)
    qed
    moreover have "serves (view (db w)) name k \<longleftrightarrow> (\<exists>p. fs \<noteq> [] \<and> MapToPod fs = Inr p \<and> p_Deployment p = name \<and> name \<noteq> [] \<and>
        p_Status p = StatusRunning \<and> 0 < p_HostPort p)"
      unfolding serves_def pod using assms(3) fs(3) by blast
    ultimately show ?thesis by (cases "MapToPod fs") (auto simp: m'_def ports_of_add_port)
  qed
  ultimately show ?thesis by blast
qed

lemma run_backends:
  assumes "quiet E" "server E = R" "\<forall>ks. scan_run R (db w) PodKeyPattern 0 ks \<longrightarrow> distinct ks"
  shows "\<exists>m w'. run_state (backends E) w = (Inr m, w') \<and> db w' = db w \<and> world.more w' = world.more w \<and> proper m \<and>
    (\<forall>name. ports_of m name = serving_ports (view (db w)) name)"
proof -
  have "plain_pattern PodKeyPattern" by (simp add: plain_pattern_def PodKeyPattern_def)
  from scan_all[OF this] obtain ks where ks: "scan_run R (db w) PodKeyPattern 0 ks"
    "set ks = {k. view (db w) k \<noteq> None \<and> glob PodKeyPattern k}" by blast
  obtain n where n: "run_state (ScanKeys E PodKeyPattern) w = (Inr ks, w\<lparr>tick := n\<rparr>)"
    using scan_loop_quiet[OF assms(1), of w PodKeyPattern 0 ks "[]"] ks(1) assms(2) by (auto simp: ScanKeys_def)
  let ?I = "\<lambda>visited m w'. db w' = db w \<and> world.more w' = world.more w \<and> proper m \<and>
    (\<forall>name. ports_of m name = map (port_at (view (db w))) (filter (serves (view (db w)) name) visited))"
  have "\<exists>m w'. run_state (for_range (backends_body E) ks []) (w\<lparr>tick := n\<rparr>) = (Inl m, w') \<and> ?I ks m w'"
  proof (rule for_range_invariant[where I = ?I])
    fix visited k m w1
    assume I: "?I visited m w1" and k: "k \<in> set ks"
    then have "glob PodKeyPattern k" "proper m" using ks(2) by auto
    from run_backends_body[OF assms(1,2) this, of w1] obtain m' w2 where
      "run_state (backends_body E k m) w1 = (Next m', w2)" "db w2 = db w1" "world.more w2 = world.more w1" "proper m'"
      "\<forall>name. ports_of m' name = ports_of m name @ (if serves (view (db w1)) name k then [port_at (view (db w1)) k] else [])" by blast
    then show "\<exists>m' w'. run_state (backends_body E k m) w1 = (Next m', w') \<and> ?I (visited @ [k]) m' w'"
      using I by (intro exI[of _ m'] exI[of _ w2]) simp
  qed (simp add: proper_def ports_of_def)
  then obtain m w1 where m: "run_state (for_range (backends_body E) ks []) (w\<lparr>tick := n\<rparr>) = (Inl m, w1)" "?I ks m w1" by blast
  define m' where "m' = map (\<lambda>(name, ports). (name, sort_stable (<) ports)) m"
  have mo: "map_of m' name = map_option (sort_stable (<)) (map_of m name)" for name
    by (simp add: m'_def map_of_map)
  have len: "snd x \<noteq> [] \<Longrightarrow> sort_stable (<) (snd x) \<noteq> []" for x :: "string \<times> int list"
    by (metis length_0_conv length_sort_stable)
  have "proper m'" using m(2) len by (auto simp: proper_def m'_def comp_def case_prod_beta)
  moreover have "ports_of m' name = serving_ports (view (db w)) name" for name
  proof -
    have "ports_of m' name = sort (ports_of m name)"
      by (simp add: ports_of_def mo sort_stable_less split: option.split)
    also have "\<dots> = serving_ports (view (db w)) name"
    proof -
      have "set (filter (serves (view (db w)) name) ks) = {k. serves (view (db w)) name k}" using ks(2) by (auto simp: serves_def)
      moreover have "distinct (filter (serves (view (db w)) name) ks)" using assms(3) ks(1) by simp
      ultimately have "mset (filter (serves (view (db w)) name) ks) = mset_set {k. serves (view (db w)) name k}"
        by (metis mset_set_set)
      moreover have "ports_of m name = map (port_at (view (db w))) (filter (serves (view (db w)) name) ks)" using m(2) by blast
      ultimately show ?thesis unfolding serving_ports_def by (metis mset_map sorted_list_of_multiset_mset)
    qed
    finally show ?thesis .
  qed
  moreover have "run_state (backends E) w = (Inr m', w1)"
    using n m(1) by (simp add: backends_def run_on_error run_loop m'_def)
  ultimately show ?thesis using m(2) by blast
qed

end

lemma proper_map_of: "proper m \<Longrightarrow> map_of m name = (if ports_of m name = [] then None else Some (ports_of m name))"
  by (auto simp: proper_def ports_of_def split: option.splits dest: map_of_SomeD)

text \<open>The text depends on the ports of each deployment alone.\<close>

lemma Render_cong:
  assumes "proper m" "proper m'" "\<And>name. ports_of m name = ports_of m' name"
  shows "Render m = Render m'"
proof -
  have mo: "map_of m = map_of m'" using assms by (intro ext) (simp add: proper_map_of)
  have "set (map fst m) = set (map fst m')" using mo by (simp flip: dom_map_of_conv_image_fst)
  then have "mset (map fst m) = mset (map fst m')" using assms(1,2) unfolding proper_def by (metis set_eq_iff_mset_eq_distinct)
  then have "sort_stable (<) (map fst m) = sort_stable (<) (map fst m')" unfolding sort_stable_less by (metis mset_sort properties_for_sort sorted_sort)
  then show ?thesis by (simp add: Render_def mo)
qed

lemma serves_log [simp]: "serves (v(LogStreamKey := x)) name k = serves v name k"
  by (cases "k = LogStreamKey") (simp_all add: serves_def pod_at_def is_hash_def hash_at_def)

lemma serving_ports_log [simp]: "serving_ports (v(LogStreamKey := x)) name = serving_ports v name"
proof -
  have "port_at (v(LogStreamKey := x)) k = port_at v k" if "serves v name k" for k
    using that by (auto simp: serves_def port_at_def hash_at_def)
  then have "image_mset (port_at (v(LogStreamKey := x))) (mset_set {k. serves v name k}) = image_mset (port_at v) (mset_set {k. serves v name k})"
    by (intro image_mset_cong) (metis elem_mset_set infinite_set_mset_mset_set mem_Collect_eq mset_set.infinite set_mset_empty empty_iff)
  then show ?thesis by (simp add: serving_ports_def)
qed

text \<open>The backends that belong to a state of the database.\<close>

definition routes :: "keyspace \<Rightarrow> backend_map \<Rightarrow> bool" where
  "routes v m \<longleftrightarrow> distinct (map fst m) \<and>
     (\<forall>name. map_of m name = (if serving_ports v name = [] then None else Some (serving_ports v name)))"

lemma routes_proper: "routes v m \<Longrightarrow> proper m \<and> ports_of m name = serving_ports v name"
  by (auto simp: routes_def proper_def ports_of_def split: if_splits) (metis map_of_is_SomeI option.distinct(1) option.inject)

lemma Render_routes: "routes v m \<Longrightarrow> routes v m' \<Longrightarrow> Render m = Render m'"
  by (rule Render_cong) (simp_all add: routes_proper)

text \<open>The ingress routes to exactly the serving pods, with nothing else happening: for every deployment the backends are
  the host ports of its running pods that have one, in ascending order, whatever the order of the key
  scan; a deployment without any is left out.\<close>

theorem backends_exact:
  assumes "redis_server (server E) view" "quiet E" "\<forall>ks. scan_run (server E) (db w) PodKeyPattern 0 ks \<longrightarrow> distinct ks"
  shows "\<exists>m w'. run_state (backends E) w = (Inr m, w') \<and> db w' = db w \<and> world.more w' = world.more w \<and> routes (view (db w)) m"
  using redis_server.run_backends[OF assms(1,2) refl assms(3)] proper_map_of unfolding proper_def routes_def by metis


section \<open>The file system as a contract\<close>

text \<open>The names that the pattern of the temporary file stands for.\<close>

definition temp_name :: "string \<Rightarrow> string \<Rightarrow> string" where
  "temp_name dir r = (if dir = ''/'' then [] else dir) @ ''/.upstreams-'' @ r @ ''.conf''"

text \<open>A temporary file gets an unused name made after its pattern; a failed write may leave anything in the file it writes to;
  a rename replaces its target in one step; no other call changes the content of a file. What other programs have read of a
  file so far is part of the state, and no call of this program changes it.\<close>

locale file_system =
  fixes S :: "'os shell" and files :: "'os \<Rightarrow> string \<Rightarrow> string option" and been_read :: "'os \<Rightarrow> string \<Rightarrow> string option set"
  assumes create: "run_state (sh_CreateTemp S dir ''.upstreams-*.conf'') s = (Inr name, s') \<Longrightarrow>
      (\<exists>r. name = temp_name dir r) \<and> files s name = None \<and> files s' = (files s)(name \<mapsto> [])"
    and create_fails: "run_state (sh_CreateTemp S dir pat) s = (Inl e, s') \<Longrightarrow> files s' = files s"
    and written: "run_state (sh_WriteString S name c) s = (Inr (), s') \<Longrightarrow> files s name = Some old \<Longrightarrow> files s' = (files s)(name \<mapsto> old @ c)"
    and write_fails: "run_state (sh_WriteString S name c) s = (Inl e, s') \<Longrightarrow> \<exists>x. files s' = (files s)(name := x)"
    and rename: "run_state (sh_Rename S a b) s = (Inr (), s') \<Longrightarrow> a \<noteq> b \<Longrightarrow> files s' = (files s)(b := files s a, a := None)"
    and rename_fails: "run_state (sh_Rename S a b) s = (Inl e, s') \<Longrightarrow> files s' = files s"
    and remove: "run_state (sh_Remove S a) s = (r, s') \<Longrightarrow> files s' = files s \<or> files s' = (files s)(a := None)"
    and close: "run_state (sh_Close S a) s = (r, s') \<Longrightarrow> files s' = files s"
    and chmod: "run_state (sh_Chmod S a mode) s = (r, s') \<Longrightarrow> files s' = files s"
    and look_path: "run_state (sh_LookPath S a) s = (r, s') \<Longrightarrow> files s' = files s"
    and run: "run_state (sh_Run S argv) s = (out, s') \<Longrightarrow> files s' = files s"
    and unread: "run_state (sh_CreateTemp S dir pat) s = (r1, s') \<Longrightarrow> been_read s' = been_read s"
      "run_state (sh_WriteString S name c) s = (r2, s') \<Longrightarrow> been_read s' = been_read s"
      "run_state (sh_Rename S a b) s = (r2, s') \<Longrightarrow> been_read s' = been_read s"
      "run_state (sh_Remove S a) s = (r2, s') \<Longrightarrow> been_read s' = been_read s"
      "run_state (sh_Close S a) s = (r2, s') \<Longrightarrow> been_read s' = been_read s"
      "run_state (sh_Chmod S a mode) s = (r2, s') \<Longrightarrow> been_read s' = been_read s"
      "run_state (sh_LookPath S a) s = (r2, s') \<Longrightarrow> been_read s' = been_read s"
      "run_state (sh_Run S argv) s = (out, s') \<Longrightarrow> been_read s' = been_read s"

text \<open>Between any two calls other programs may read the files and leave them alone otherwise.\<close>

definition only_readers ::
  "('os \<Rightarrow> string \<Rightarrow> string option) \<Rightarrow> ('os \<Rightarrow> string \<Rightarrow> string option set) \<Rightarrow> ('db, 'os, 'e) ingress_env_scheme \<Rightarrow> bool"
where
  "only_readers files been_read E \<longleftrightarrow>
     (\<forall>n s. files (shell_moves E n s) = files s \<and> (\<forall>f. been_read (shell_moves E n s) f \<subseteq> insert (files s f) (been_read s f)))"

lemma call_step:
  assumes "only_readers files been_read E"
  obtains s r s' where "run_state m s = (r, s')" "run_state (call E m) w = (r, w\<lparr>tick := Suc (tick w), os := s'\<rparr>)"
    "files s = files (os w)" "\<And>f. been_read s f \<subseteq> insert (files (os w) f) (been_read (os w) f)"
proof -
  obtain r s' where "run_state m (shell_moves E (tick w) (os w)) = (r, s')" by fastforce
  with assms show ?thesis by (intro that[of "shell_moves E (tick w) (os w)" r s']) (auto simp: only_readers_def call_def)
qed

text \<open>What a step may do that only touches the file \<open>tmp\<close>, seen from another one.\<close>

definition apart :: "string \<Rightarrow> ('os \<Rightarrow> string \<Rightarrow> string option) \<Rightarrow> ('os \<Rightarrow> string \<Rightarrow> string option set) \<Rightarrow> 'os \<Rightarrow> 'os \<Rightarrow> bool" where
  "apart tmp files been_read s s' \<longleftrightarrow>
     (\<forall>f. f \<noteq> tmp \<longrightarrow> files s' f = files s f \<and> been_read s' f \<subseteq> insert (files s f) (been_read s f))"

lemma apart_trans: "apart tmp files rd s s' \<Longrightarrow> apart tmp files rd s' s'' \<Longrightarrow> apart tmp files rd s s''"
  unfolding apart_def by (metis insert_absorb2 insert_mono subset_trans)


context file_system
begin

abbreviation (input) "parted tmp w w' \<equiv> apart tmp files been_read (os w) (os w') \<and> db w' = db w"

lemma parted_trans: "parted tmp w w1 \<Longrightarrow> parted tmp w1 w2 \<Longrightarrow> parted tmp w w2"
  using apart_trans by fastforce

lemma call_apart:
  fixes w :: "('db, 'os, 'm) host_world_scheme"
  assumes "only_readers files been_read E"
    and "\<And>s r s'. run_state m s = (r, s') \<Longrightarrow> files s = files (os w) \<Longrightarrow>
      (\<exists>x. files s' = (files s)(tmp := x)) \<and> been_read s' = been_read s"
  obtains s r w' where "run_state m s = (r, os w')" "run_state (call E m) w = (r, w')" "files s = files (os w)" "parted tmp w w'"
proof -
  obtain s r s' where s: "run_state m s = (r, s')" "run_state (call E m) w = (r, w\<lparr>tick := Suc (tick w), os := s'\<rparr>)"
    "files s = files (os w)" "\<And>f. been_read s f \<subseteq> insert (files (os w) f) (been_read (os w) f)"
    using call_step[OF assms(1), of m w] by metis
  have "apart tmp files been_read (os w) s'" using assms(2)[OF s(1,3)] s(3,4) by (auto simp: apart_def)
  then show ?thesis using s by (intro that[of s r "w\<lparr>tick := Suc (tick w), os := s'\<rparr>"]) auto
qed

lemma write_touches:
  assumes "run_state (sh_WriteString S tmp c) s = (r, s')" "files s tmp \<noteq> None"
  shows "(\<exists>x. files s' = (files s)(tmp := x)) \<and> been_read s' = been_read s"
  using assms written[of tmp c s s'] write_fails[of tmp c s _ s'] unread(2)[of tmp c s r s'] by (cases r; fastforce)

lemma touches:
  "run_state (sh_Close S a) s = (r, s') \<Longrightarrow> (\<exists>x. files s' = (files s)(tmp := x)) \<and> been_read s' = been_read s"
  "run_state (sh_Chmod S a mode) s = (r, s') \<Longrightarrow> (\<exists>x. files s' = (files s)(tmp := x)) \<and> been_read s' = been_read s"
  "run_state (sh_Remove S tmp) s = (r, s') \<Longrightarrow> (\<exists>x. files s' = (files s)(tmp := x)) \<and> been_read s' = been_read s"
  "run_state (sh_LookPath S a) s = (r', s') \<Longrightarrow> (\<exists>x. files s' = (files s)(tmp := x)) \<and> been_read s' = been_read s"
  "run_state (sh_Run S argv) s = (out, s') \<Longrightarrow> (\<exists>x. files s' = (files s)(tmp := x)) \<and> been_read s' = been_read s"
  using close chmod remove look_path run unread fun_upd_triv by (metis, metis, metis, metis, metis)

text \<open>All calls but the last touch the temporary file alone; the last one puts the whole content in place.\<close>

lemma run_install:
  fixes w :: "('db, 'os, 'm) host_world_scheme"
  assumes "only_readers files been_read E" "shell E = S" "files (os w) tmp = Some []" "tmp \<noteq> path"
  obtains (failed) e w' where "run_state (install E path tmp content) w = (Inl e, w')" "parted tmp w w'"
  | (installed) s w' where "run_state (install E path tmp content) w = (Inr (), w')" "apart tmp files been_read (os w) s"
      "files (os w') = (files s)(path \<mapsto> content, tmp := None)" "\<And>f. f \<noteq> tmp \<Longrightarrow> been_read (os w') f \<subseteq> insert (files (os w) f) (been_read (os w) f)" "db w' = db w"
proof -
  obtain s1 r1 w1 where 1: "run_state (sh_WriteString S tmp content) s1 = (r1, os w1)"
    "run_state (call E (sh_WriteString S tmp content)) w = (r1, w1)" "files s1 = files (os w)" "parted tmp w w1"
    by (rule call_apart[OF assms(1) write_touches]) (use assms(3) in auto)
  obtain s2 r2 w2 where 2: "run_state (sh_Close S tmp) s2 = (r2, os w2)" "run_state (call E (sh_Close S tmp)) w1 = (r2, w2)"
    "files s2 = files (os w1)" "parted tmp w1 w2"
    by (rule call_apart[OF assms(1) touches(1)])
  obtain s3 r3 w3 where 3: "run_state (sh_Chmod S tmp 420) s3 = (r3, os w3)" "run_state (call E (sh_Chmod S tmp 420)) w2 = (r3, w3)"
    "files s3 = files (os w2)" "parted tmp w2 w3"
    by (rule call_apart[OF assms(1) touches(2)])
  obtain s4 r4 s5 where 4: "run_state (sh_Rename S tmp path) s4 = (r4, s5)"
    "run_state (call E (sh_Rename S tmp path)) w3 = (r4, w3\<lparr>tick := Suc (tick w3), os := s5\<rparr>)"
    "files s4 = files (os w3)" "\<And>f. been_read s4 f \<subseteq> insert (files (os w3) f) (been_read (os w3) f)"
    using call_step[OF assms(1), of "sh_Rename S tmp path" w3] by metis
  let ?w5 = "w3\<lparr>tick := Suc (tick w3), os := s5\<rparr>"
  have t: "parted tmp w w2" "parted tmp w w3" using parted_trans 1(4) 2(4) 3(4) by metis+
  have s5: "been_read s5 = been_read s4" using unread(3) 4(1) by blast
  show thesis
  proof (cases "r1 = Inr () \<and> r2 = Inr () \<and> r3 = Inr ()")
    case False
    then show thesis
      using failed[of _ w2] failed[of _ w3] 1(2) 2(2) 3(2) t assms(2)
      by (cases r1; cases r2; cases r3) (auto simp: install_def run_on_error)
  next
    case True
    then have run: "run_state (install E path tmp content) w =
        (case r4 of Inl e \<Rightarrow> Inl (Errorf ''install config at %s: %w'' [ArgS path, ArgE e]) | Inr _ \<Rightarrow> Inr (), ?w5)"
      using 1(2) 2(2) 3(2) 4(2) assms(2) by (cases r4) (simp_all add: install_def run_on_error)
    have content: "files (os w3) tmp = Some content"
      using True written[of tmp content s1 "os w1" "[]"] 1(1,3) assms(3) 2(1,3) 3(1,3) close chmod by simp
    have rd: "been_read s5 f \<subseteq> insert (files (os w) f) (been_read (os w) f)" if "f \<noteq> tmp" for f
      using that t(2) 4(4)[of f] by (auto simp: apart_def s5)
    show thesis
    proof (cases r4)
      case (Inl e)
      then have "apart tmp files been_read (os w) s5" using rename_fails 4(1,3) t(2) rd by (simp add: apart_def)
      then show thesis using failed[of _ ?w5] run Inl t(2) by simp
    next
      case (Inr u)
      then have "files s5 = (files (os w3))(path \<mapsto> content, tmp := None)" using rename[of tmp path s4 s5] 4(1,3) assms(4) content by simp
      then show thesis using installed[of ?w5 "os w3"] run Inr t(2) rd by simp
    qed
  qed
qed

text \<open>Whatever becomes of the temporary file, an existing file other than the target is untouched.\<close>

lemma run_write_config:
  fixes w :: "('db, 'os, 'm) host_world_scheme"
  assumes "only_readers files been_read E" "shell E = S" "path = ic_ConfigPath (ct_cfg c)" "\<And>r. path \<noteq> temp_name (Dir path) r"
  obtains r w' where "run_state (write_config E c content) w = (r, w')" "db w' = db w"
    "files (os w') path = (if r = Inr () then Some content else files (os w) path)"
    "\<And>f. files (os w) f \<noteq> None \<Longrightarrow> f \<noteq> path \<Longrightarrow> files (os w') f = files (os w) f"
    "been_read (os w') path \<subseteq> been_read (os w) path \<union> {files (os w) path, files (os w') path}"
proof -
  let ?T = "sh_CreateTemp S (Dir path) ''.upstreams-*.conf''"
  obtain s0 r0 s1 where 0: "run_state ?T s0 = (r0, s1)" "run_state (call E ?T) w = (r0, w\<lparr>tick := Suc (tick w), os := s1\<rparr>)"
    "files s0 = files (os w)" "\<And>f. been_read s0 f \<subseteq> insert (files (os w) f) (been_read (os w) f)"
    using call_step[OF assms(1), of ?T w] by metis
  let ?w1 = "w\<lparr>tick := Suc (tick w), os := s1\<rparr>"
  have rd: "been_read s1 = been_read s0" using unread(1) 0(1) by blast
  show thesis
  proof (cases r0)
    case (Inl e)
    then have "run_state (write_config E c content) w = (Inl (Errorf ''create temp config in %s: %w'' [ArgS (Dir path), ArgE e]), ?w1)"
      using 0(2) assms(2,3) by (simp add: write_config_def Let_def run_on_error)
    then show thesis
      using that[of _ ?w1] 0(1,3,4) rd Inl create_fails[of "Dir path" "''.upstreams-*.conf''" s0 e s1] by auto
  next
    case (Inr tmp)
    from create[OF 0(1)[unfolded Inr]] have tmp: "files (os w) tmp = None" "files s1 = (files (os w))(tmp \<mapsto> [])" "tmp \<noteq> path"
      using assms(4) 0(3) by metis+
    have ap: "apart tmp files been_read (os w) s1" using tmp(2) rd 0(4) by (simp add: apart_def)
    obtain r w2 where 2: "run_state (install E path tmp content) ?w1 = (r, w2)" "db w2 = db w"
      "\<And>f. f \<noteq> tmp \<Longrightarrow> files (os w2) f = (if f = path \<and> r = Inr () then Some content else files (os w) f)"
      "\<And>f. f \<noteq> tmp \<Longrightarrow> been_read (os w2) f \<subseteq> insert (files (os w) f) (been_read (os w) f)"
    proof (cases rule: run_install[OF assms(1,2), of ?w1 tmp path content])
      case (3 e w')
      then show thesis using that[of "Inl e" w'] apart_trans[OF ap, of "os w'"] by (simp add: apart_def)
    next
      case (4 s w')
      then show thesis using that[of "Inr ()" w'] apart_trans[OF ap, of s] ap by (fastforce simp: apart_def)
    qed (use tmp in simp_all)
    obtain s2 r3 w3 where 3: "run_state (call E (sh_Remove S tmp)) w2 = (r3, w3)" "parted tmp w2 w3"
      by (rule call_apart[OF assms(1) touches(3)])
    have "run_state (write_config E c content) w = (r, w3)"
      using 0(2) Inr 2(1) 3(1) assms(2,3) by (simp add: write_config_def Let_def run_on_error)
    moreover have eq: "files (os w3) f = (if f = path \<and> r = Inr () then Some content else files (os w) f)" if "f \<noteq> tmp" for f
      using 2(3)[OF that] 3(2) that by (simp add: apart_def)
    moreover have "been_read (os w3) path \<subseteq> insert (files (os w3) path) (been_read (os w2) path)"
      using 3(2) tmp(3) by (auto simp: apart_def)
    then have "been_read (os w3) path \<subseteq> been_read (os w) path \<union> {files (os w) path, files (os w3) path}"
      using 2(4)[OF tmp(3)[symmetric]] by blast
    moreover have "f \<noteq> tmp" if "files (os w) f \<noteq> None" for f using that tmp(1) by auto
    ultimately show thesis using that[of r w3] 2(2) 3(2) tmp(3) by simp
  qed
qed

end

text \<open>C28. The configuration file is replaced atomically: however the calls on the way turn out, the file holds the whole new text
  if the write succeeded and its old content if not, no other existing file has changed, and every program that read
  the file in the meantime, even between any two calls, saw either the old or the new text in full.\<close>

theorem write_config_atomic:
  fixes w :: "('db, 'os, 'm) host_world_scheme"
  assumes "file_system (shell E) files been_read" "only_readers files been_read E"
    and "path = ic_ConfigPath (ct_cfg c)" "\<forall>r. path \<noteq> temp_name (Dir path) r"
  shows "\<exists>r w'. run_state (write_config E c content) w = (r, w') \<and> db w' = db w \<and>
    files (os w') path = (if r = Inr () then Some content else files (os w) path) \<and>
    (\<forall>f. files (os w) f \<noteq> None \<and> f \<noteq> path \<longrightarrow> files (os w') f = files (os w) f) \<and>
    been_read (os w') path \<subseteq> been_read (os w) path \<union> {files (os w) path, files (os w') path}"
  using file_system.run_write_config[OF assms(1,2) refl assms(3), of content w] assms(4) by metis


section \<open>The file follows the pods\<close>

lemma Render_nonempty [simp]: "Render m \<noteq> []"
  by (simp add: Render_def Let_def)

text \<open>What the controller remembers is what the file holds; it starts out remembering nothing.\<close>

definition in_step :: "('os \<Rightarrow> string \<Rightarrow> string option) \<Rightarrow> Controller \<Rightarrow> 'os \<Rightarrow> bool" where
  "in_step files c s \<longleftrightarrow> ct_lastWritten c = [] \<or> files s (ic_ConfigPath (ct_cfg c)) = Some (ct_lastWritten c)"

locale ingress = redis_server R view + disk: file_system S files been_read
  for R :: "'db redis" and view and S :: "'os shell" and files and been_read
begin

lemma run_remark:
  fixes w :: "('db, 'os, 'm) host_world_scheme"
  assumes "quiet E" "server E = R"
  shows "\<exists>w' x. run_state (Info E l et msg ids) w = ((), w') \<and> os w' = os w \<and> view (db w') = (view (db w))(LogStreamKey := x)"
    "\<exists>w' x. run_state (Warn E l et msg ids) w = ((), w') \<and> os w' = os w \<and> view (db w') = (view (db w))(LogStreamKey := x)"
  using run_Info[OF assms] os_kept[OF keeps_more_log(1)] os_kept[OF keeps_more_log(2)] by metis+

lemma run_probe:
  fixes w :: "('db, 'os, 'm) host_world_scheme"
  assumes "only_readers files been_read E" "\<And>s r s'. run_state m s = (r, s') \<Longrightarrow> files s' = files s"
  obtains r w' where "run_state (call E m) w = (r, w')" "files (os w') = files (os w)" "db w' = db w"
proof (rule call_step[OF assms(1), of m w])
  fix s r s'
  assume "run_state m s = (r, s')" "run_state (call E m) w = (r, w\<lparr>tick := Suc (tick w), os := s'\<rparr>)" "files s = files (os w)"
  then show thesis using assms(2) that[of r "w\<lparr>tick := Suc (tick w), os := s'\<rparr>"] by simp
qed

lemma run_reload:
  fixes w :: "('db, 'os, 'm) host_world_scheme"
  assumes "only_readers files been_read E" "server E = R" "shell E = S" "quiet E"
  obtains r w' x where "run_state (reload E c) w = (r, w')" "files (os w') = files (os w)"
    "view (db w') = (view (db w))(LogStreamKey := x)"
proof -
  let ?argv = "ic_ReloadCommand (ct_cfg c)"
  obtain r1 w1 where 1: "run_state (call E (sh_LookPath S (hd ?argv))) w = (r1, w1)" "files (os w1) = files (os w)" "db w1 = db w"
    by (rule run_probe[OF assms(1) disk.look_path])
  show thesis
  proof (cases r1)
    case (Inl e)
    obtain w2 x where "run_state (Warn E (ct_logger c) ''ingress_reload_unavailable''
        (Sprintf ''%s not found: config written but not reloaded'' [ArgS (hd ?argv)]) []) w1 = ((), w2)"
      "os w2 = os w1" "view (db w2) = (view (db w1))(LogStreamKey := x)" using run_remark(2)[OF assms(4,2)] by blast
    then show thesis using that[of "Inr ()" w2 x] 1 Inl assms(3) by (simp add: reload_def Let_def run_on_error)
  next
    case (Inr u)
    obtain r2 w2 where 2: "run_state (call E (sh_Run S ?argv)) w1 = (r2, w2)" "files (os w2) = files (os w1)" "db w2 = db w1"
      by (rule run_probe[OF assms(1) disk.run])
    obtain out fl where r2: "r2 = (out, fl)" by fastforce
    obtain w3 x where 3: "run_state (Info E (ct_logger c) ''ingress_reloaded'' ''nginx picked up the new upstreams'' []) w2 = ((), w3)"
      "os w3 = os w2" "view (db w3) = (view (db w2))(LogStreamKey := x)" using run_remark(1)[OF assms(4,2)] by blast
    have run: "run_state (reload E c) w = run_state (case fl of
         Some (err, timed_out) \<Rightarrow>
           if timed_out then throw (Errorf ''reload timed out after %s'' [ArgS (Duration_String reloadTimeout)])
           else throw (Errorf ''reload failed: %w: %s'' [ArgE err, ArgS (TrimSpace out)])
       | None \<Rightarrow> do { Info E (ct_logger c) ''ingress_reloaded'' ''nginx picked up the new upstreams'' []; ok () }) w2"
      using 1(1) 2(1) Inr assms(3) r2 by (simp add: reload_def Let_def run_on_error)
    show thesis
    proof (cases fl)
      case None
      then show thesis using that[of "Inr ()" w3 x] run 1 2 3 by simp
    next
      case (Some p)
      then show thesis
        using that[of _ w2 "view (db w) LogStreamKey"] run 1 2 by (cases p; cases "snd p") auto
    qed
  qed
qed

lemma run_Sync:
  fixes w :: "('db, 'os, 'm) host_world_scheme"
  assumes "only_readers files been_read E" "server E = R" "shell E = S" "quiet E" "\<forall>ks. scan_run R (db w) PodKeyPattern 0 ks \<longrightarrow> distinct ks"
    and "path = ic_ConfigPath (ct_cfg c)" "\<And>r. path \<noteq> temp_name (Dir path) r"
  obtains (current) m w' where "routes (view (db w)) m" "run_state (Sync E c) w = ((c, None), w')" "ct_lastWritten c = Render m"
      "os w' = os w" "db w' = db w"
  | (failed) m e w' where "routes (view (db w)) m" "run_state (Sync E c) w = ((c, Some e), w')" "ct_lastWritten c \<noteq> Render m"
      "files (os w') path = files (os w) path" "db w' = db w"
  | (installed) m err w' x where "routes (view (db w)) m" "run_state (Sync E c) w = ((c\<lparr>ct_lastWritten := Render m\<rparr>, err), w')"
      "ct_lastWritten c \<noteq> Render m" "files (os w') path = Some (Render m)" "view (db w') = (view (db w))(LogStreamKey := x)"
proof -
  obtain m w1 where 1: "run_state (backends E) w = (Inr m, w1)" "db w1 = db w" "os w1 = os w" "routes (view (db w)) m"
  proof -
    have "redis_server (server E) view" using redis_server_axioms assms(2) by simp
    from backends_exact[OF this assms(4), of w] obtain m w1 where "run_state (backends E) w = (Inr m, w1)" "db w1 = db w"
      "world.more w1 = world.more w" "routes (view (db w)) m" using assms(2,5) by auto
    then show thesis using that[of m w1] os_more[of w1 w] by simp
  qed
  show thesis
  proof (cases "ct_lastWritten c = Render m")
    case True
    then show thesis using current[of m w1] 1 by (simp add: Sync_def run_on_error)
  next
    case False
    obtain r w2 where 2: "run_state (write_config E c (Render m)) w1 = (r, w2)" "db w2 = db w1"
      "files (os w2) path = (if r = Inr () then Some (Render m) else files (os w1) path)"
      by (rule disk.run_write_config[OF assms(1,3,6,7)])
    show thesis
    proof (cases r)
      case (Inl e)
      then show thesis using failed[of m _ w2] 1 2 False by (simp add: Sync_def Let_def run_on_error eq_commute[of "Render m"])
    next
      case (Inr u)
      let ?c = "c\<lparr>ct_lastWritten := Render m\<rparr>"
      let ?msg = "Sprintf ''%d deployment(s), %d backend(s) at %s''
         [ArgD (int (length m)), ArgD (int (sum_list (map (\<lambda>(_, ports). length ports) m))), ArgS (ic_ConfigPath (ct_cfg c))]"
      obtain w3 x where 3: "run_state (Info E (ct_logger c) ''ingress_config_written'' ?msg []) w2 = ((), w3)"
        "os w3 = os w2" "view (db w3) = (view (db w2))(LogStreamKey := x)" using run_remark(1)[OF assms(4,2)] by blast
      obtain r4 w4 y where 4: "run_state (reload E ?c) w3 = (r4, w4)" "files (os w4) = files (os w3)"
        "view (db w4) = (view (db w3))(LogStreamKey := y)" by (rule run_reload[OF assms(1-4)])
      have "run_state (Sync E c) w = ((?c, case r4 of Inl e \<Rightarrow> Some e | Inr _ \<Rightarrow> None), w4)"
        using 1(1) 2(1) 3(1) 4(1) False Inr by (cases r4) (simp_all add: Sync_def Let_def run_on_error eq_commute[of "Render m"])
      then show thesis using installed[of m _ w4 y] 1 2 3 4 False Inr by simp
    qed
  qed
qed

end

text \<open>C27. A rebuild brings the file in step with the pods: if the controller remembers what the file holds, then after a
  rebuild the file holds the text for exactly the serving pods of the database, or the rebuild reports an error and
  the file is as it was; nothing but the log stream changes in the database. There is only one such text.\<close>

theorem Sync_follows_pods:
  fixes w :: "('db, 'os, 'm) host_world_scheme"
  assumes "redis_server (server E) view" "file_system (shell E) files been_read" "only_readers files been_read E" "quiet E"
    and "\<forall>ks. scan_run (server E) (db w) PodKeyPattern 0 ks \<longrightarrow> distinct ks"
    and "path = ic_ConfigPath (ct_cfg c)" "\<forall>r. path \<noteq> temp_name (Dir path) r" "in_step files c (os w)"
  shows "\<exists>c' err w' x. run_state (Sync E c) w = ((c', err), w') \<and> view (db w') = (view (db w))(LogStreamKey := x) \<and>
    (\<exists>m. routes (view (db w)) m) \<and>
    ((\<forall>m. routes (view (db w)) m \<longrightarrow> files (os w') path = Some (Render m)) \<or>
     err \<noteq> None \<and> c' = c \<and> files (os w') path = files (os w) path)"
proof -
  have i: "ingress (server E) view (shell E) files been_read" using assms(1,2) by (simp add: ingress_def)
  have only: "\<forall>m'. routes (view (db w)) m' \<longrightarrow> F = Some (Render m')" if "routes (view (db w)) m" "F = Some (Render m)" for F m
    using that Render_routes by metis
  show ?thesis
  proof (rule ingress.run_Sync[OF i assms(3) refl refl assms(4,5,6)])
    show "path \<noteq> temp_name (Dir path) r" for r using assms(7) by blast
  next
    fix m w'
    assume *: "routes (view (db w)) m" "run_state (Sync E c) w = ((c, None), w')" "ct_lastWritten c = Render m" "os w' = os w" "db w' = db w"
    have "files (os w) path = Some (Render m)" using assms(8)[unfolded in_step_def *(3), folded assms(6)] by simp
    from only[OF *(1) this] show ?thesis using *(1,2,4,5) fun_upd_triv by metis
  next
    fix m e w'
    assume "routes (view (db w)) m" "run_state (Sync E c) w = ((c, Some e), w')" "files (os w') path = files (os w) path" "db w' = db w"
    then show ?thesis using fun_upd_triv by (metis option.distinct(1))
  next
    fix m err w' x
    assume *: "routes (view (db w)) m" "run_state (Sync E c) w = ((c\<lparr>ct_lastWritten := Render m\<rparr>, err), w')"
      "files (os w') path = Some (Render m)" "view (db w') = (view (db w))(LogStreamKey := x)"
    from only[OF *(1,3)] show ?thesis using *(1,2,4) by metis
  qed
qed


section \<open>The loop\<close>

text \<open>A run of the controller: the initial rebuild, then any number of select cases, each possible when it is taken.\<close>

inductive ingress_run ::
  "('db, 'os, 'e) ingress_env_scheme \<Rightarrow> Controller \<Rightarrow> ('db, 'os, 'm) host_world_scheme \<Rightarrow> ingress_event list \<Rightarrow>
   Controller \<times> int option \<Rightarrow> ('db, 'os, 'm) host_world_scheme \<Rightarrow> bool"
  for E c0 w0
where
  started: "run_state (sync_round E c0) w0 = (c, w) \<Longrightarrow> ingress_run E c0 w0 [] (c, None) w"
| event: "ingress_run E c0 w0 evs st w \<Longrightarrow> run_enabled ev (snd st) \<Longrightarrow> run_state (run_event E ev st) w = (st', w') \<Longrightarrow>
    ingress_run E c0 w0 (evs @ [ev]) st' w'"

lemma Sync_cfg: "run_state (Sync E c) w = ((c', err), w') \<Longrightarrow> ct_cfg c' = ct_cfg c"
  by (auto simp: Sync_def Let_def run_on_error split: prod.splits sum.splits if_splits)

lemma sync_round_cfg: "run_state (sync_round E c) w = (c', w') \<Longrightarrow> ct_cfg c' = ct_cfg c"
  by (auto simp: sync_round_def split: prod.splits option.splits dest: Sync_cfg)

definition is_resync :: "ingress_event \<Rightarrow> bool" where
  "is_resync ev = (case ev of Resynced _ \<Rightarrow> True | _ \<Rightarrow> False)"

text \<open>The timer is armed exactly when a change has come in since the last rebuild that it triggered, for the last such
  change.\<close>

lemma ingress_timer:
  assumes "ingress_run E c0 w0 evs st w"
  shows "ct_cfg (fst st) = ct_cfg c0 \<and>
    (\<forall>t. snd st = Some t \<longrightarrow> (\<exists>a t0 b. evs = a @ Changed t0 # b \<and> list_all is_resync b \<and> t = t0 + ic_Debounce (ct_cfg c0)))"
  using assms
proof (induction rule: ingress_run.induct)
  case (started c w)
  then show ?case using sync_round_cfg by simp
next
  case (event evs st w ev st' w')
  show ?case
  proof (cases ev)
    case (Changed now)
    then have "st' = (fst st, Some (now + ic_Debounce (ct_cfg c0)))"
      using event.hyps(3) event.IH by (cases st) (simp add: run_event_def)
    moreover have "evs @ [ev] = evs @ Changed now # []" "list_all is_resync []" using Changed by simp_all
    ultimately show ?thesis using event.IH by (metis fst_conv snd_conv option.inject)
  next
    case (Debounced now)
    then show ?thesis using event by (cases st) (auto simp: run_event_def split: prod.splits dest: sync_round_cfg)
  next
    case (Resynced now)
    obtain c d where st: "st = (c, d)" by fastforce
    then obtain c' where st': "st' = (c', d)" "ct_cfg c' = ct_cfg c"
      using event.hyps(3) Resynced by (auto simp: run_event_def split: prod.splits dest: sync_round_cfg)
    have "\<exists>a t0 b. evs @ [ev] = a @ Changed t0 # b \<and> list_all is_resync b \<and> t = t0 + ic_Debounce (ct_cfg c0)" if "d = Some t" for t
    proof -
      have "snd st = Some t" using that st by simp
      then obtain a t0 b where "evs = a @ Changed t0 # b" "list_all is_resync b" "t = t0 + ic_Debounce (ct_cfg c0)"
        using event.IH by blast
      then show ?thesis using Resynced by (intro exI[of _ a] exI[of _ t0] exI[of _ "b @ [ev]"]) (simp add: is_resync_def)
    qed
    then show ?thesis using event.IH st st' by simp
  qed
qed

text \<open>C29. A burst of changes costs one rebuild: in every run of the controller, whatever the rebuilds meet with, a rebuild
  by the debounce timer comes no earlier than the debounce interval after the last change before it, and no other such
  rebuild lies between the two.\<close>

theorem ingress_debounced:
  assumes "ingress_run E c0 w0 (evs @ Debounced now # rest) st w"
  shows "\<exists>a t0 b. evs = a @ Changed t0 # b \<and> list_all is_resync b \<and> t0 + ic_Debounce (ct_cfg c0) \<le> now"
  using assms
proof (induction "evs @ Debounced now # rest" st w arbitrary: rest rule: ingress_run.induct)
  case (event evs' st w ev st' w')
  show ?case
  proof (cases rest rule: rev_cases)
    case Nil
    then have "ev = Debounced now" "evs' = evs" using event.hyps(5) by auto
    then obtain t where "snd st = Some t" "t \<le> now" using event.hyps(3) by (auto simp: run_enabled_def split: option.splits)
    then show ?thesis using ingress_timer[OF event.hyps(1)] \<open>evs' = evs\<close> by auto
  next
    case (snoc rest' ev')
    then show ?thesis using event.hyps(2)[of rest'] event.hyps(5) by simp
  qed
qed simp


text \<open>What leaves the file alone, whatever the database does.\<close>

lemma keeps_ScanKeys_send:
  assumes "\<And>m :: ('db, string list \<times> nat) fallible. keeps P (send E m)"
  shows "keeps P (ScanKeys E pat)"
proof (rule keepsI)
  fix w
  assume w: "P w"
  have "E' = E \<longrightarrow> P w \<longrightarrow> P (snd p)" if "scan_loop E' pat cur acc w = Some p" for E' cur acc w p
  proof (rule scan_loop.raw_induct[where P = "\<lambda>E' pat cur acc w p. E' = E \<longrightarrow> P w \<longrightarrow> P (snd p)", OF _ that], goal_cases)
    case (1 f E' pat cur acc w p)
    then show ?case
      using keepsE[OF assms, of w "r_scan (server E) cur pat"] by (cases p) (fastforce split: prod.splits sum.splits if_splits)
  qed
  then show "P (snd (run_state (ScanKeys E pat) w))" using w by (auto simp: ScanKeys_def split: option.split)
qed

lemma keeps_more_backends [keeps_intros]: "keeps (\<lambda>w. world.more w = x) (backends E)"
  unfolding backends_def backends_body_def by (intro keeps_intros keeps_ScanKeys_send)

lemma keeps_more_ctx [keeps_intros]: "keeps (\<lambda>w. world.more w = x) (ctx_Err E)"
  by (simp add: keeps_def ctx_Err_def)


lemma run_unit:
  obtains w' where "run_state (m :: ('w, unit) state) w = ((), w')"
  by (cases "run_state m w") auto

lemma keeps_os:
  assumes "\<And>x. keeps (\<lambda>w. world.more w = x) m"
  shows "keeps (\<lambda>w. Q (os w)) m"
  using os_kept[OF assms] by (intro keepsI) (metis prod.collapse)

context file_system
begin

lemma keeps_call:
  fixes E :: "('db, 'os, 'e) ingress_env_scheme"
  assumes "only_readers files been_read E" "\<And>s r s'. run_state m s = (r, s') \<Longrightarrow> files s' = files s"
  shows "keeps (\<lambda>w :: ('db, 'os, 'm) host_world_scheme. files (os w) = F) (call E m)"
proof (rule keepsI)
  fix w :: "('db, 'os, 'm) host_world_scheme"
  assume "files (os w) = F"
  moreover obtain s r s' where "run_state m s = (r, s')" "run_state (call E m) w = (r, w\<lparr>tick := Suc (tick w), os := s'\<rparr>)" "files s = files (os w)"
    using call_step[OF assms(1), of m w] by metis
  ultimately show "files (os (snd (run_state (call E m) w))) = F" using assms(2) by simp
qed

lemma keeps_reload: "only_readers files been_read E \<Longrightarrow> shell E = S \<Longrightarrow> keeps (\<lambda>w. files (os w) = F) (reload E c)"
  unfolding reload_def Let_def
  by (intro keeps_intros keeps_os keeps_call look_path run; simp)

lemma Sync_in_step:
  fixes w :: "('db, 'os, 'm) host_world_scheme"
  assumes "only_readers files been_read E" "shell E = S" "path = ic_ConfigPath (ct_cfg c)" "\<And>r. path \<noteq> temp_name (Dir path) r"
    and "in_step files c (os w)" "run_state (Sync E c) w = ((c', err), w')"
  shows "in_step files c' (os w')"
proof -
  obtain r1 w1 where 1: "run_state (backends E) w = (r1, w1)" by fastforce
  then have os1: "os w1 = os w" using os_kept[OF keeps_more_backends] by blast
  show ?thesis
  proof (cases "\<exists>m. r1 = Inr m \<and> ct_lastWritten c \<noteq> Render m")
    case False
    then show ?thesis
      using assms(5,6) 1 os1 by (cases r1) (auto simp: Sync_def Let_def run_on_error split: if_splits)
  next
    case True
    then obtain m where m: "r1 = Inr m" "ct_lastWritten c \<noteq> Render m" by blast
    obtain r w2 where 2: "run_state (write_config E c (Render m)) w1 = (r, w2)" "db w2 = db w1"
      "files (os w2) path = (if r = Inr () then Some (Render m) else files (os w1) path)"
      by (rule run_write_config[OF assms(1-4)])
    show ?thesis
    proof (cases r)
      case (Inl e)
      then show ?thesis
        using assms(3,5,6) 1 2 m os1 by (auto simp: Sync_def Let_def run_on_error in_step_def split: if_splits)
    next
      case (Inr u)
      let ?c = "c\<lparr>ct_lastWritten := Render m\<rparr>"
      obtain w3 where 3: "run_state (Info E (ct_logger c) ''ingress_config_written'' (Sprintf ''%d deployment(s), %d backend(s) at %s''
         [ArgD (int (length m)), ArgD (int (sum_list (map (\<lambda>(_, ports). length ports) m))), ArgS (ic_ConfigPath (ct_cfg c))]) []) w2 = ((), w3)"
        by (rule run_unit)
      obtain r4 w4 where 4: "run_state (reload E ?c) w3 = (r4, w4)" by fastforce
      have "os w3 = os w2" using os_kept[OF keeps_more_log(1) 3] .
      moreover have "files (os w4) = files (os w3)" using keepsE[OF keeps_reload[OF assms(1,2)] refl 4] .
      moreover have "c' = ?c \<and> w' = w4"
        using assms(6) 1 2(1) 3 4 m Inr by (cases r4) (simp_all add: Sync_def Let_def run_on_error eq_commute[of "Render m"])
      ultimately show ?thesis using 2(3) Inr assms(3) by (simp add: in_step_def)
    qed
  qed
qed

lemma sync_round_in_step:
  assumes "only_readers files been_read E" "shell E = S" "path = ic_ConfigPath (ct_cfg c)" "\<And>r. path \<noteq> temp_name (Dir path) r"
    and "in_step files c (os w)" "run_state (sync_round E c) w = (c', w')"
  shows "in_step files c' (os w')"
proof -
  obtain c1 err w1 where 1: "run_state (Sync E c) w = ((c1, err), w1)" by (metis surj_pair)
  let ?tail = "case err of None \<Rightarrow> State_Monad.return ()
      | Some e \<Rightarrow> do {
          x \<leftarrow> ctx_Err E;
          case x of
            Some _ \<Rightarrow> State_Monad.return ()
          | None \<Rightarrow> Error E (ct_logger c1) ''ingress_sync_failed'' (Error_text e) [] }"
  obtain w2 where 2: "run_state ?tail w1 = ((), w2)" by (rule run_unit)
  have "os w2 = os w1" by (rule os_kept[OF _ 2]) (intro keeps_intros)
  moreover have "c' = c1" "w' = w2" using assms(6) 1 2 by (simp_all add: sync_round_def)
  ultimately show ?thesis using Sync_in_step[OF assms(1-5) 1] by simp
qed

lemma ingress_run_in_step:
  assumes "only_readers files been_read E" "shell E = S" "path = ic_ConfigPath (ct_cfg c0)" "\<And>r. path \<noteq> temp_name (Dir path) r"
    and "in_step files c0 (os w0)" "ingress_run E c0 w0 evs st w"
  shows "in_step files (fst st) (os w)"
  using assms(6)
proof (induction rule: ingress_run.induct)
  case (started c w)
  then show ?case using sync_round_in_step[OF assms(1-5)] by simp
next
  case (event evs st w ev st' w')
  have path: "path = ic_ConfigPath (ct_cfg (fst st))" using ingress_timer[OF event.hyps(1)] assms(3) by simp
  show ?case
    using event.hyps(3) event.IH sync_round_in_step[OF assms(1,2) path assms(4) event.IH]
    by (cases ev; cases st) (auto simp: run_event_def split: prod.splits)
qed

end

text \<open>The controller knows what the file holds: in every state that it reaches by any sequence of changes, timers and
  resyncs, with any faults of the database and of the file system on the way, the text it would
  compare with is the content of the configuration file, unless it has not written any yet.\<close>

theorem ingress_run_remembers:
  assumes "file_system (shell E) files been_read" "only_readers files been_read E"
    and "path = ic_ConfigPath cfg" "cfg = ct_cfg (NewController l given)" "\<forall>r. path \<noteq> temp_name (Dir path) r"
    and "ingress_run E (NewController l given) w0 evs (c, timer) w"
  shows "ct_lastWritten c = [] \<or> files (os w) path = Some (ct_lastWritten c)"
proof -
  have "in_step files (NewController l given) (os w0)" by (simp add: in_step_def NewController_def Let_def)
  from file_system.ingress_run_in_step[OF assms(1,2) refl _ _ this assms(6), of path] assms(3,4,5)
  have "in_step files c (os w)" by simp
  moreover have "ct_cfg c = cfg" using ingress_timer[OF assms(6)] assms(4) by simp
  ultimately show ?thesis using assms(3) by (simp add: in_step_def)
qed




section \<open>A disk that meets the contract\<close>

record disk =
  dk_files :: "string \<rightharpoonup> string"
  dk_read :: "string \<Rightarrow> string option set"
  dk_serial :: nat

text \<open>Every call succeeds where it can; the reload command answers as given.\<close>

definition disk_shell :: "string \<times> (error \<times> bool) option \<Rightarrow> disk shell" where
  "disk_shell answer = \<lparr>
     sh_CreateTemp = (\<lambda>dir pat. State (\<lambda>s. let name = temp_name dir (Itoa (int (dk_serial s))) in
       if dk_files s name = None then (Inr name, s\<lparr>dk_files := (dk_files s)(name \<mapsto> []), dk_serial := Suc (dk_serial s)\<rparr>)
       else (Inl (Errorf ''file exists'' []), s))),
     sh_WriteString = (\<lambda>name c. State (\<lambda>s. case dk_files s name of
       None \<Rightarrow> (Inl (Errorf ''bad file descriptor'' []), s)
     | Some old \<Rightarrow> (Inr (), s\<lparr>dk_files := (dk_files s)(name \<mapsto> old @ c)\<rparr>))),
     sh_Close = (\<lambda>name. ok ()),
     sh_Chmod = (\<lambda>name mode. ok ()),
     sh_Rename = (\<lambda>a b. State (\<lambda>s. (Inr (), s\<lparr>dk_files := (if a = b then dk_files s else (dk_files s)(b := dk_files s a, a := None))\<rparr>))),
     sh_Remove = (\<lambda>name. State (\<lambda>s. (Inr (), s\<lparr>dk_files := (dk_files s)(name := None)\<rparr>))),
     sh_LookPath = (\<lambda>name. ok ()),
     sh_Run = (\<lambda>argv. State_Monad.return answer)\<rparr>"

interpretation disk: file_system "disk_shell answer" dk_files dk_read for answer
  by unfold_locales (auto simp: disk_shell_def Let_def split: if_splits option.splits, metis fun_upd_triv)

text \<open>Between any two calls somebody reads every file.\<close>

definition disk_env :: "string \<times> (error \<times> bool) option \<Rightarrow> (mem, disk) ingress_env" where
  "disk_env answer = \<lparr>server = mem_redis, fault_at = fault_at mem_env, interfere = interfere mem_env, ctx_done = ctx_done mem_env,
     unix_at = unix_at mem_env, text_time_at = text_time_at mem_env, rand_at = rand_at mem_env, map_order = map_order mem_env,
     shell = disk_shell answer, shell_moves = (\<lambda>_ s. s\<lparr>dk_read := \<lambda>f. insert (dk_files s f) (dk_read s f)\<rparr>)\<rparr>"

lemma disk_env_simps [simp]:
  "server (disk_env answer) = mem_redis" "quiet (disk_env answer)" "shell (disk_env answer) = disk_shell answer"
  "only_readers dk_files dk_read (disk_env answer)"
  by (simp_all add: disk_env_def mem_env_def quiet_def only_readers_def)

interpretation mem_ingress: ingress mem_redis mem_view "disk_shell answer" dk_files dk_read for answer ..

definition disk_world :: "mem \<Rightarrow> (mem, disk) host_world" where
  "disk_world d = \<lparr>db = d, tick = 0, os = \<lparr>dk_files = [''/tmp/mini-k8s-upstreams.conf'' \<mapsto> ''old''], dk_read = (\<lambda>_. {}), dk_serial = 0\<rparr>\<rparr>"

lemma disk_world_simps [simp]:
  "db (disk_world d) = d" "dk_files (os (disk_world d)) = [''/tmp/mini-k8s-upstreams.conf'' \<mapsto> ''old'']" "dk_read (os (disk_world d)) = (\<lambda>_. {})"
  by (simp_all add: disk_world_def)

abbreviation demo_controller :: Controller where
  "demo_controller \<equiv> NewController demo_logger \<lparr>ic_ConfigPath = [], ic_ReloadCommand = [], ic_Debounce = 0, ic_ResyncInterval = 0\<rparr>"

lemma demo_path:
  "ic_ConfigPath (ct_cfg demo_controller) = ''/tmp/mini-k8s-upstreams.conf''" "ct_lastWritten demo_controller = []"
  "''/tmp/mini-k8s-upstreams.conf'' \<noteq> temp_name (Dir ''/tmp/mini-k8s-upstreams.conf'') r"
proof -
  have "Dir ''/tmp/mini-k8s-upstreams.conf'' = ''/tmp''" by code_simp
  then show "''/tmp/mini-k8s-upstreams.conf'' \<noteq> temp_name (Dir ''/tmp/mini-k8s-upstreams.conf'') r" by (simp add: temp_name_def)
qed (simp_all add: NewController_def)

theorem backends_exact_witness:
  "\<exists>m w'. run_state (backends mem_env) dead_world = (Inr m, w') \<and> db w' = db dead_world \<and> routes (mem_view (db dead_world)) m"
  using backends_exact[of mem_env mem_view dead_world] mem.redis_server_axioms scan_run_mem_distinct by auto

theorem write_config_atomic_witness:
  "\<exists>r w'. run_state (write_config (disk_env ([], None)) demo_controller ''new'') (disk_world []) = (r, w') \<and>
    dk_files (os w') ''/tmp/mini-k8s-upstreams.conf'' = (if r = Inr () then Some ''new'' else Some ''old'') \<and>
    dk_read (os w') ''/tmp/mini-k8s-upstreams.conf'' \<subseteq> {Some ''old'', Some ''new''}"
proof -
  from write_config_atomic[of "disk_env ([], None)" dk_files dk_read _ demo_controller "''new''" "disk_world []", OF _ _ demo_path(1)[symmetric]]
  obtain r w' where "run_state (write_config (disk_env ([], None)) demo_controller ''new'') (disk_world []) = (r, w')"
    "dk_files (os w') ''/tmp/mini-k8s-upstreams.conf'' = (if r = Inr () then Some ''new'' else Some ''old'')"
    "dk_read (os w') ''/tmp/mini-k8s-upstreams.conf'' \<subseteq> {Some ''old'', dk_files (os w') ''/tmp/mini-k8s-upstreams.conf''}"
    using disk.file_system_axioms demo_path(3) by (auto cong: if_cong)
  then show ?thesis by (intro exI[of _ r] exI[of _ w']) (auto split: if_splits)
qed


theorem Sync_follows_pods_witness:
  "\<exists>c' err w'. run_state (Sync (disk_env ([], None)) demo_controller) (disk_world (db dead_world)) = ((c', err), w') \<and>
    ((\<forall>m. routes (mem_view (db dead_world)) m \<longrightarrow> dk_files (os w') ''/tmp/mini-k8s-upstreams.conf'' = Some (Render m)) \<or>
     err \<noteq> None \<and> c' = demo_controller \<and> dk_files (os w') ''/tmp/mini-k8s-upstreams.conf'' = Some ''old'')"
proof -
  have "in_step dk_files demo_controller (os (disk_world (db dead_world)))" by (simp add: in_step_def demo_path)
  from Sync_follows_pods[of "disk_env ([], None)" mem_view dk_files dk_read "disk_world (db dead_world)" _ demo_controller,
      OF _ _ _ _ _ demo_path(1)[symmetric] _ this]
  show ?thesis using mem.redis_server_axioms disk.file_system_axioms demo_path(3) scan_run_mem_distinct by fastforce
qed

lemma demo_run:
  "\<exists>st w. ingress_run (disk_env answer) demo_controller (disk_world []) ([Changed 1] @ Debounced (2 * 10 ^ 9 + 1) # []) st w"
proof -
  let ?E = "disk_env answer"
  obtain c w where 1: "run_state (sync_round ?E demo_controller) (disk_world []) = (c, w)" by fastforce
  have cfg: "ic_Debounce (ct_cfg c) = 2 * 10 ^ 9" using sync_round_cfg[OF 1] by (simp add: NewController_def)
  obtain c' w' where 2: "run_state (sync_round ?E c) w = (c', w')" by fastforce
  have "ingress_run ?E demo_controller (disk_world []) ([] @ [Changed 1]) (c, Some (2 * 10 ^ 9 + 1)) w"
    by (rule event[OF started[OF 1]]) (simp_all add: run_enabled_def run_event_def cfg)
  then have "ingress_run ?E demo_controller (disk_world []) (([] @ [Changed 1]) @ [Debounced (2 * 10 ^ 9 + 1)]) (c', None) w'"
    by (rule event) (simp_all add: run_enabled_def run_event_def 2)
  then show ?thesis by auto
qed

theorem ingress_debounced_witness:
  "\<exists>st w a t0 b. ingress_run (disk_env ([], None)) demo_controller (disk_world []) ([Changed 1] @ Debounced (2 * 10 ^ 9 + 1) # []) st w \<and>
    [Changed 1] = a @ Changed t0 # b \<and> list_all is_resync b \<and> t0 + 2 * 10 ^ 9 \<le> 2 * 10 ^ 9 + 1"
proof -
  obtain st w where r: "ingress_run (disk_env ([], None)) demo_controller (disk_world []) ([Changed 1] @ Debounced (2 * 10 ^ 9 + 1) # []) st w"
    using demo_run by blast
  have "ic_Debounce (ct_cfg demo_controller) = 2 * 10 ^ 9" by (simp add: NewController_def)
  with ingress_debounced[OF r] r show ?thesis by fastforce
qed

theorem ingress_run_remembers_witness:
  "\<exists>evs c timer w. ingress_run (disk_env ([], None)) demo_controller (disk_world []) evs (c, timer) w \<and> evs \<noteq> [] \<and>
    (ct_lastWritten c = [] \<or> dk_files (os w) ''/tmp/mini-k8s-upstreams.conf'' = Some (ct_lastWritten c))"
proof -
  obtain c t w where r: "ingress_run (disk_env ([], None)) demo_controller (disk_world []) ([Changed 1] @ Debounced (2 * 10 ^ 9 + 1) # []) (c, t) w"
    using demo_run by (metis surj_pair)
  from ingress_run_remembers[of "disk_env ([], None)" dk_files dk_read, OF _ _ demo_path(1)[symmetric] refl _ r]
  show ?thesis using r disk.file_system_axioms demo_path(3) by fastforce
qed


lemma demo_failed_reload:
  "\<exists>c' e w'. run_state (Sync (disk_env ([], Some (RedisNil, False))) demo_controller) (disk_world []) = ((c', Some e), w') \<and> c' \<noteq> demo_controller"
proof -
  let ?E = "disk_env ([], Some (RedisNil, False))" and ?w = "disk_world []"
  have "redis_server (server ?E) mem_view" using mem.redis_server_axioms by simp
  from backends_exact[OF this, of ?w] obtain m w1 where m: "run_state (backends ?E) ?w = (Inr m, w1)" "os w1 = os ?w"
    using scan_run_mem_distinct os_more by (metis disk_env_simps(1,2))
  have "fst (run_state (write_config ?E demo_controller (Render m)) w1) = Inr ()"
    using m(2) demo_path(1) demo_path(3)[symmetric]
    by (auto simp: write_config_def Let_def install_def run_on_error call_def disk_env_def disk_shell_def disk_world_def)
  then obtain w2 where w2: "run_state (write_config ?E demo_controller (Render m)) w1 = (Inr (), w2)" by (metis prod.collapse)
  obtain w3 where w3: "run_state (Info ?E demo_logger ''ingress_config_written'' (Sprintf ''%d deployment(s), %d backend(s) at %s''
         [ArgD (int (length m)), ArgD (int (sum_list (map (\<lambda>(_, ports). length ports) m))), ArgS ''/tmp/mini-k8s-upstreams.conf'']) []) w2 = ((), w3)"
    by (rule run_unit)
  have "\<exists>e w4. run_state (reload ?E (demo_controller\<lparr>ct_lastWritten := Render m\<rparr>)) w3 = (Inl e, w4)"
    by (simp add: reload_def Let_def run_on_error call_def disk_env_def disk_shell_def)
  then obtain e w4 where w4: "run_state (reload ?E (demo_controller\<lparr>ct_lastWritten := Render m\<rparr>)) w3 = (Inl e, w4)" by blast
  have l: "ct_logger demo_controller = demo_logger" by (simp add: NewController_def)
  have "run_state (Sync ?E demo_controller) ?w = ((demo_controller\<lparr>ct_lastWritten := Render m\<rparr>, Some e), w4)"
    using m(1) w2 w3 w4 demo_path(1,2) l by (simp add: Sync_def Let_def run_on_error)
  moreover have "demo_controller\<lparr>ct_lastWritten := Render m\<rparr> \<noteq> demo_controller"
    using demo_path(2) Render_nonempty[of m] by (metis Controller.select_convs(3) Controller.surjective Controller.update_convs(3))
  ultimately show ?thesis by blast
qed


end
