(* ===== verification/Autoscale.thy ===== *)
theory Autoscale
  imports Health
begin

text \<open>
  \<open>internal/controller/autoscale.go\<close>: the autoscaling script, which reads telemetry, bounds and
  cooldowns and writes the new replica count in one step, and the controller around it. Lua's numbers
  are 64-bit floats: every arithmetic operation of the script is followed by the rounding \<open>fl\<close>, and
  part of what is proved here is that the rounding does not change the decision.
\<close>


section \<open>The script\<close>

text \<open>What EVAL delivers, as far as scripts of this program produce it.\<close>

datatype script_reply = ReplyInt int | ReplyStr string | ReplyArr "script_reply list"

text \<open>A number in a script's reply loses its fraction.\<close>

definition reply_number :: "rat \<Rightarrow> script_reply" where
  "reply_number x = ReplyInt (trunc x)"

text \<open>A number as an index of LRANGE.\<close>

definition lua_index :: "rat \<Rightarrow> ('db, int) fallible" where
  "lua_index x = (if of_int \<lfloor>x\<rfloor> = x then ok \<lfloor>x\<rfloor>
     else throw (Errorf ''ERR value is not an integer or out of range'' []))"

text \<open>The sum and the number of the samples that are numbers.\<close>

definition add_samples :: "'db redis \<Rightarrow> string list \<Rightarrow> rat \<times> rat" where
  "add_samples R samples = fold (\<lambda>v (podSum, podCount).
     case r_tonumber R v of None \<Rightarrow> (podSum, podCount) | Some n \<Rightarrow> (fl (podSum + n), fl (podCount + 1))) samples (0, 0)"

fun scale_keys :: "'db redis \<Rightarrow> rat option \<Rightarrow> string list \<Rightarrow> rat \<times> rat \<Rightarrow> ('db, rat \<times> rat) fallible" where
  "scale_keys R window [] acc = ok acc"
| "scale_keys R window (key # ks) acc =
     (case window of None \<Rightarrow> throw lua_nil_error | Some wn \<Rightarrow>
      attempt (lua_index (- wn)) (\<lambda>i.
      attempt (r_lrange R key i (- 1)) (\<lambda>samples.
      let (podSum, podCount) = add_samples R samples; (total_sum, cnt) = acc in
      scale_keys R window ks
        (if podCount > 0 then (fl (total_sum + fl (podSum / podCount)), fl (cnt + 1)) else (total_sum, cnt)))))"

partial_function (option) scale_scan ::
  "'db redis \<Rightarrow> string \<Rightarrow> rat option \<Rightarrow> nat \<Rightarrow> rat \<times> rat \<Rightarrow> 'db \<Rightarrow> ((error + (rat \<times> rat)) \<times> 'db) option"
where
  "scale_scan R pat window cursor acc d =
     (case run_state (r_scan R cursor pat) d of
        (Inl e, d1) \<Rightarrow> Some (Inl e, d1)
      | (Inr (ks, c), d1) \<Rightarrow>
          (case run_state (scale_keys R window ks acc) d1 of
             (Inl e, d2) \<Rightarrow> Some (Inl e, d2)
           | (Inr acc', d2) \<Rightarrow> if c = 0 then Some (Inr acc', d2) else scale_scan R pat window c acc' d2))"

definition clamp_wanted :: "rat \<Rightarrow> rat \<Rightarrow> rat \<Rightarrow> rat" where
  "clamp_wanted minR maxR wanted =
     (let wanted' = (if wanted < minR then minR else wanted) in if wanted' > maxR then maxR else wanted')"

text \<open>\<open>return {outcome, old, new, observed}\<close>\<close>

definition scale_result :: "string \<Rightarrow> rat \<Rightarrow> rat \<Rightarrow> rat \<Rightarrow> ('db, script_reply) fallible" where
  "scale_result outcome old new obs =
     ok (ReplyArr [ReplyStr outcome, reply_number old, reply_number new, reply_number obs])"

text \<open>The end of the script, from the comparison of the wanted with the desired count.\<close>

definition scale_to ::
  "'db redis \<Rightarrow> string \<Rightarrow> rat option \<Rightarrow> rat option \<Rightarrow> rat option \<Rightarrow> rat \<Rightarrow> rat \<Rightarrow> rat \<Rightarrow> rat \<Rightarrow> rat \<Rightarrow> ('db, script_reply) fallible"
where
  "scale_to R depKey now upCooldown downCooldown lastUp lastDown desired wanted observed =
     (if wanted = desired then scale_result ''steady'' desired desired observed
      else if wanted > desired then
        (case (now, upCooldown) of
           (Some t, Some up) \<Rightarrow>
             if fl (t - lastUp) < up then scale_result ''up_cooldown'' desired desired observed
             else attempt (r_hset R depKey [(''desired_replicas'', r_tostring R wanted), (''last_scale_up_at'', r_tostring R t)])
                    (\<lambda>_. scale_result ''scaled_up'' desired wanted observed)
         | _ \<Rightarrow> throw lua_nil_error)
      else
        (let lastChange = (if lastDown > lastUp then lastDown else lastUp) in
         case (now, downCooldown) of
           (Some t, Some down) \<Rightarrow>
             if fl (t - lastChange) < down then scale_result ''down_cooldown'' desired desired observed
             else attempt (r_hset R depKey [(''desired_replicas'', r_tostring R wanted), (''last_scale_down_at'', r_tostring R t)])
                    (\<lambda>_. scale_result ''scaled_down'' desired wanted observed)
         | _ \<Rightarrow> throw lua_nil_error))"

definition autoscaleScript ::
  "'db redis \<Rightarrow> string \<Rightarrow> string \<Rightarrow> string \<Rightarrow> string \<Rightarrow> string \<Rightarrow> string \<Rightarrow> ('db, script_reply) fallible"
where
  "autoscaleScript R depKey pat arg2 arg3 arg4 arg5 =
     (let now = r_tonumber R arg2; upCooldown = r_tonumber R arg3; downCooldown = r_tonumber R arg4;
          window = r_tonumber R arg5 in
      attempt (r_exists R depKey) (\<lambda>ex.
      if \<not> ex then scale_result ''missing'' 0 0 0 else
      attempt (r_hget R depKey ''desired_replicas'') (\<lambda>v1.
      attempt (r_hget R depKey ''min_replicas'') (\<lambda>v2.
      attempt (r_hget R depKey ''max_replicas'') (\<lambda>v3.
      attempt (r_hget R depKey ''target_cpu_percentage'') (\<lambda>v4.
      attempt (r_hget R depKey ''last_scale_up_at'') (\<lambda>v5.
      attempt (r_hget R depKey ''last_scale_down_at'') (\<lambda>v6.
      let desired = number_or 0 (lua_number R v1);
          minR = number_or 1 (lua_number R v2);
          maxR = number_or 1 (lua_number R v3);
          target = number_or 0 (lua_number R v4);
          lastUp = number_or 0 (lua_number R v5);
          lastDown = number_or 0 (lua_number R v6)
      in if target \<le> 0 then scale_result ''no_target'' desired desired 0 else
      attempt (State (\<lambda>d. case scale_scan R pat window 0 (0, 0) d of None \<Rightarrow> (Inl NeverReturns, d) | Some r \<Rightarrow> r)) (\<lambda>(total_sum, cnt).
      if cnt = 0 then scale_result ''no_telemetry'' desired desired 0 else
      let observed = of_int \<lfloor>fl (total_sum / cnt)\<rfloor>;
          wanted = clamp_wanted minR maxR (of_int \<lceil>fl (fl (desired * observed) / target)\<rceil>)
      in scale_to R depKey now upCooldown downCooldown lastUp lastDown desired wanted observed)))))))))"


section \<open>The controller\<close>

record AutoscaleConfig =
  as_Interval :: int
  as_ScaleUpCooldown :: int
  as_ScaleDownCooldown :: int

definition NewAutoscaler :: "AutoscaleConfig \<Rightarrow> AutoscaleConfig" where
  "NewAutoscaler cfg =
     (let cfg1 = (if as_Interval cfg \<le> 0 then cfg\<lparr>as_Interval := 15 * 10 ^ 9\<rparr> else cfg);
          cfg2 = (if as_ScaleUpCooldown cfg1 \<le> 0 then cfg1\<lparr>as_ScaleUpCooldown := 30 * 10 ^ 9\<rparr> else cfg1)
      in if as_ScaleDownCooldown cfg2 \<le> 0 then cfg2\<lparr>as_ScaleDownCooldown := 180 * 10 ^ 9\<rparr> else cfg2)"

record Decision =
  dc_Deployment :: string
  dc_Outcome :: string
  dc_From :: int
  dc_To :: int
  dc_ObservedCPU :: int

definition Changed :: "Decision \<Rightarrow> bool" where
  "Changed d \<longleftrightarrow> dc_From d \<noteq> dc_To d"

abbreviation (input) telemetryWindow :: int where "telemetryWindow \<equiv> 3"

definition telemetryPattern :: "string \<Rightarrow> string" where
  "telemetryPattern deployment = ''telemetry:'' @ deployment @ '':*:cpu''"

text \<open>The text of a reply under \<open>%#v\<close>, which the messages below are given already rendered.\<close>

fun go_syntax :: "script_reply \<Rightarrow> string" and go_syntaxes :: "script_reply list \<Rightarrow> string" where
  "go_syntax (ReplyInt n) = Itoa n"
| "go_syntax (ReplyStr s) = Quote s"
| "go_syntax (ReplyArr xs) = ''[]interface {}{'' @ go_syntaxes xs @ ''}''"
| "go_syntaxes [] = []"
| "go_syntaxes [x] = go_syntax x"
| "go_syntaxes (x # y # xs) = go_syntax x @ '', '' @ go_syntaxes (y # xs)"

text \<open>\<open>v, _ := x.(int64)\<close>\<close>

definition int64_or_0 :: "script_reply \<Rightarrow> int" where
  "int64_or_0 r = (case r of ReplyInt n \<Rightarrow> n | _ \<Rightarrow> 0)"

definition parseDecision :: "string \<Rightarrow> script_reply \<Rightarrow> error + Decision" where
  "parseDecision name res =
     (case res of
        ReplyArr [p0, p1, p2, p3] \<Rightarrow>
          (case p0 of
             ReplyStr outcome \<Rightarrow> Inr \<lparr>dc_Deployment = name, dc_Outcome = outcome, dc_From = int64_or_0 p1,
                                     dc_To = int64_or_0 p2, dc_ObservedCPU = int64_or_0 p3\<rparr>
           | _ \<Rightarrow> Inl (Errorf ''autoscale %s: unexpected outcome %v'' [ArgS name, ArgS (go_syntax p0)]))
      | _ \<Rightarrow> Inl (Errorf ''autoscale %s: unexpected script reply %v'' [ArgS name, ArgS (go_syntax res)]))"

definition Evaluate ::
  "('db, 'e) env_scheme \<Rightarrow> Logger \<Rightarrow> AutoscaleConfig \<Rightarrow> string \<Rightarrow> (('db, 'm) world_scheme, Decision) fallible"
where
  "Evaluate E l cfg name = do {
     now \<leftarrow> now_unix E;
     let R = server E;
     on_error
       (EvalScript E (autoscaleScript R (DeploymentKey name) (r_arg R (VStr (telemetryPattern name))) (r_arg R (VInt now))
          (r_arg R (VInt (trunc (Seconds (as_ScaleUpCooldown cfg))))) (r_arg R (VInt (trunc (Seconds (as_ScaleDownCooldown cfg)))))
          (r_arg R (VInt telemetryWindow))))
       (\<lambda>e. throw (Errorf ''autoscale %s: %w'' [ArgS name, ArgE e]))
       (\<lambda>res. case parseDecision name res of
          Inl e \<Rightarrow> throw e
        | Inr decision \<Rightarrow>
            if Changed decision then do {
              Info E l ''deployment_autoscaled''
                (Sprintf ''observed %d%% CPU: %d -> %d replicas''
                   [ArgD (dc_ObservedCPU decision), ArgD (dc_From decision), ArgD (dc_To decision)])
                [DeploymentID name];
              on_error (PublishEvent E \<lparr>ev_Event = EventUpdate, ev_Deployment = name, ev_Desired = dc_To decision\<rparr>)
                (\<lambda>e. do {
                   Warn E l ''autoscale_event_publish_failed'' (Error_text e) [DeploymentID name];
                   ok decision })
                (\<lambda>_. ok decision) }
            else ok decision) }"

definition EvaluateAll_body where
  "EvaluateAll_body E l cfg key decisions =
     (let name = TrimPrefix key ''deployment:'' in
      if name = [] \<or> name = key then State_Monad.return (Next decisions) else
      on_error (Evaluate E l cfg name)
        (\<lambda>e. do {
           c \<leftarrow> ctx_Err E;
           case c of
             Some ce \<Rightarrow> State_Monad.return (Return (Inl ce))
           | None \<Rightarrow> do {
               Error E l ''autoscale_failed'' (Error_text e) [DeploymentID name];
               State_Monad.return (Next decisions) } })
        (\<lambda>decision. State_Monad.return (Next (decisions @ [decision]))))"

definition EvaluateAll ::
  "('db, 'e) env_scheme \<Rightarrow> Logger \<Rightarrow> AutoscaleConfig \<Rightarrow> (('db, 'm) world_scheme, Decision list) fallible"
where
  "EvaluateAll E l cfg =
     on_error (ScanKeys E DeploymentKeyPattern)
       (\<lambda>e. throw (Errorf ''scan deployments: %w'' [ArgE e]))
       (\<lambda>keys. loop (EvaluateAll_body E l cfg) keys [] (\<lambda>decisions. ok decisions))"

text \<open>One tick of \<open>Autoscaler.Run\<close>.\<close>

definition autoscale_round ::
  "('db, 'e) env_scheme \<Rightarrow> Logger \<Rightarrow> AutoscaleConfig \<Rightarrow> (('db, 'm) world_scheme, unit) state"
where
  "autoscale_round E l cfg =
     on_error (EvaluateAll E l cfg)
       (\<lambda>e. do {
          c \<leftarrow> ctx_Err E;
          case c of
            Some _ \<Rightarrow> State_Monad.return ()
          | None \<Rightarrow> Error E l ''autoscale_sweep_failed'' (Error_text e) [] })
       (\<lambda>_. State_Monad.return ())"


section \<open>The averages\<close>


text \<open>Both averages of the script add numbers and count them.\<close>

definition tally :: "('x \<Rightarrow> rat option) \<Rightarrow> 'x list \<Rightarrow> rat \<times> rat \<Rightarrow> rat \<times> rat" where
  "tally f xs acc = fold (\<lambda>x (s, c). case f x of None \<Rightarrow> (s, c) | Some a \<Rightarrow> (fl (s + a), fl (c + 1))) xs acc"

lemma tally_simps [simp]:
  "tally f [] acc = acc"
  "tally f (x # xs) (s, c) = tally f xs (case f x of None \<Rightarrow> (s, c) | Some a \<Rightarrow> (fl (s + a), fl (c + 1)))"
  "tally f (xs @ ys) acc = tally f ys (tally f xs acc)"
  by (simp_all add: tally_def)

lemma add_samples_tally: "add_samples R samples = tally (r_tonumber R) samples (0, 0)"
  by (simp add: add_samples_def tally_def)

definition pod_average :: "'db redis \<Rightarrow> string list \<Rightarrow> rat option" where
  "pod_average R samples = (let (s, c) = add_samples R samples in if c > 0 then Some (fl (s / c)) else None)"

text \<open>The observed utilisation over the telemetry lists with the keys \<open>ks\<close>, if there is any sample.\<close>

definition observed_cpu :: "'db redis \<Rightarrow> keyspace \<Rightarrow> string list \<Rightarrow> int option" where
  "observed_cpu R v ks =
     (let (s, c) = tally (\<lambda>k. pod_average R (index_range (list_at v k) (- telemetryWindow) (- 1))) ks (0, 0)
      in if c = 0 then None else Some \<lfloor>fl (s / c)\<rfloor>)"

lemma add_bounds:
  assumes "of_int lo \<le> a" "a \<le> of_int hi" "0 \<le> lo" "lo \<le> hi" "0 \<le> m" "(m + 1) * max 1 hi \<le> 2 ^ 53"
    and "of_int (lo * m) \<le> s" "s \<le> of_int (hi * m)"
  shows "of_int (lo * (m + 1)) \<le> fl (s + a) \<and> fl (s + a) \<le> of_int (hi * (m + 1)) \<and> fl (of_int m + 1) = of_int (m + 1)"
proof -
  have "(m + 1) * 1 \<le> (m + 1) * max 1 hi" "(m + 1) * hi \<le> (m + 1) * max 1 hi" "(m + 1) * lo \<le> (m + 1) * hi"
    using assms(4,5) by (intro mult_left_mono; simp)+
  then have h: "m + 1 \<le> 2 ^ 53" "hi * (m + 1) \<le> 2 ^ 53" "lo * (m + 1) \<le> 2 ^ 53"
    using assms(6) by (simp_all add: mult.commute)
  have pos: "0 \<le> lo * (m + 1)" "0 \<le> hi * (m + 1)" using assms(3-5) by simp_all
  have sa: "of_int (lo * (m + 1)) \<le> s + a" "s + a \<le> of_int (hi * (m + 1))"
    using assms(1,2,7,8) by (simp_all add: algebra_simps)
  have "0 \<le> s + a" using sa(1) pos(1) by (metis of_int_0_le_iff order_trans)
  then have "of_int (lo * (m + 1)) \<le> fl (s + a)" "fl (s + a) \<le> of_int (hi * (m + 1))"
    using fl_ge[OF sa(1) pos(1) h(3)] fl_le[OF sa(2) _ pos(2) h(2)] by blast+
  moreover have "fl (of_int m + 1) = of_int (m + 1)" using fl_of_int[of "m + 1"] h(1) assms(5) by simp
  ultimately show ?thesis by blast
qed

lemma tally_bounds:
  assumes "\<forall>x \<in> set xs. \<forall>a. f x = Some a \<longrightarrow> of_int lo \<le> a \<and> a \<le> of_int hi"
    and "0 \<le> lo" "lo \<le> hi" "0 \<le> m" "(m + int (length xs)) * max 1 hi \<le> 2 ^ 53"
    and "of_int (lo * m) \<le> s" "s \<le> of_int (hi * m)"
  shows "\<exists>s' m'. tally f xs (s, of_int m) = (s', of_int m') \<and> m \<le> m' \<and>
    of_int (lo * m') \<le> s' \<and> s' \<le> of_int (hi * m')"
  using assms
proof (induction xs arbitrary: s m)
  case (Cons x xs)
  have small: "(m + j) * max 1 hi \<le> 2 ^ 53" if "j \<le> int (length (x # xs))" for j
  proof -
    have "(m + j) * max 1 hi \<le> (m + int (length (x # xs))) * max 1 hi" using that by (intro mult_right_mono) auto
    then show ?thesis using Cons.prems(5) by (rule order_trans)
  qed
  show ?case
  proof (cases "f x")
    case None
    from Cons.IH[OF _ Cons.prems(2-4) small[of "int (length xs)"] Cons.prems(6,7)] Cons.prems(1) None show ?thesis by simp
  next
    case (Some a)
    have "of_int lo \<le> a" "a \<le> of_int hi" using Cons.prems(1) Some by auto
    note b = add_bounds[OF this Cons.prems(2-4) small[of 1] Cons.prems(6,7), simplified]
    have "(m + 1 + int (length xs)) * max 1 hi \<le> 2 ^ 53" using small[of "1 + int (length xs)"] by (simp add: add.assoc)
    from Cons.IH[OF _ Cons.prems(2,3) _ this, of "fl (s + a)"] Cons.prems(1,4) b
    obtain s' m' where "tally f xs (fl (s + a), of_int (m + 1)) = (s', of_int m')" "m + 1 \<le> m'"
      "of_int (lo * m') \<le> s'" "s' \<le> of_int (hi * m')" by auto
    then show ?thesis using Some b by auto
  qed
qed auto

lemma quotient_bounds:
  assumes "of_int (lo * m) \<le> s" "s \<le> of_int (hi * m)" "0 < m" "0 \<le> lo" "lo \<le> hi" "hi \<le> 2 ^ 53"
  shows "of_int lo \<le> fl (s / of_int m) \<and> fl (s / of_int m) \<le> of_int hi"
proof -
  have q: "of_int lo \<le> s / of_int m" "s / of_int m \<le> of_int hi" using assms(1-3) by (simp_all add: field_simps)
  moreover have "0 \<le> s / of_int m" using q(1) assms(4) by (metis of_int_0_le_iff order_trans)
  ultimately show ?thesis using fl_ge[OF q(1) assms(4)] fl_le[OF q(2)] assms(4-6) by simp
qed

lemma last_three: "length (index_range xs (- 3) (- 1)) \<le> 3" "set (index_range xs i j) \<subseteq> set xs"
  by (auto simp: index_range_def Let_def dest!: in_set_takeD in_set_dropD)

lemma pod_average_bounds:
  assumes "\<forall>x \<in> set xs. \<forall>n. r_tonumber R x = Some n \<longrightarrow> of_int lo \<le> n \<and> n \<le> of_int hi"
    and "0 \<le> lo" "lo \<le> hi" "int (length xs) * max 1 hi \<le> 2 ^ 53" "hi \<le> 2 ^ 53" "pod_average R xs = Some a"
  shows "of_int lo \<le> a \<and> a \<le> of_int hi"
proof -
  from tally_bounds[where f = "r_tonumber R", OF assms(1-3), where m = 0 and s = 0] assms(4) obtain s m where
    "tally (r_tonumber R) xs (0, 0) = (s, of_int m)" "of_int (lo * m) \<le> s" "s \<le> of_int (hi * m)" by auto
  with assms(6) quotient_bounds[of lo m s hi, OF _ _ _ assms(2,3,5)] show ?thesis
    by (auto simp: pod_average_def add_samples_tally split: if_splits)
qed

text \<open>No drift: whatever the rounding of the two averages and in whatever order SCAN lists the pods, the
  observed utilisation lies between the smallest and the largest sample, provided the samples are
  numbers between zero and a bound that leaves the sums exact.\<close>

theorem observed_cpu_bounds:
  assumes "\<forall>k \<in> set ks. \<forall>x \<in> set (list_at v k). \<forall>n. r_tonumber R x = Some n \<longrightarrow> of_int lo \<le> n \<and> n \<le> of_int hi"
    and "0 \<le> lo" "lo \<le> hi" "(3 + int (length ks)) * max 1 hi \<le> 2 ^ 53" "observed_cpu R v ks = Some obs"
  shows "lo \<le> obs \<and> obs \<le> hi"
proof -
  let ?f = "\<lambda>k. pod_average R (index_range (list_at v k) (- 3) (- 1))"
  have small: "j * max 1 hi \<le> 2 ^ 53" if "j \<le> 3 + int (length ks)" for j
  proof -
    have "j * max 1 hi \<le> (3 + int (length ks)) * max 1 hi" using that by (intro mult_right_mono) auto
    then show ?thesis using assms(4) by (rule order_trans)
  qed
  have hi: "hi \<le> 2 ^ 53" using small[of 1] by simp
  have "of_int lo \<le> a \<and> a \<le> of_int hi" if k: "k \<in> set ks" and a: "?f k = Some a" for k a
  proof (rule pod_average_bounds[OF _ assms(2,3) _ hi a])
    show "\<forall>x \<in> set (index_range (list_at v k) (- 3) (- 1)). \<forall>n. r_tonumber R x = Some n \<longrightarrow> of_int lo \<le> n \<and> n \<le> of_int hi"
      using bspec[OF assms(1) k] last_three(2)[of "list_at v k" "- 3" "- 1"] by (meson subsetD)
    show "int (length (index_range (list_at v k) (- 3) (- 1))) * max 1 hi \<le> 2 ^ 53"
      using last_three(1)[of "list_at v k"] by (intro small) linarith
  qed
  then have "\<forall>k \<in> set ks. \<forall>a. ?f k = Some a \<longrightarrow> of_int lo \<le> a \<and> a \<le> of_int hi" by blast
  from tally_bounds[where f = ?f, OF this assms(2,3), where m = 0 and s = 0] small[of "int (length ks)"] obtain s m where
    m: "tally ?f ks (0, 0) = (s, of_int m)" "0 \<le> m" "of_int (lo * m) \<le> s" "s \<le> of_int (hi * m)" by auto
  with assms(5) have "m \<noteq> 0" "obs = \<lfloor>fl (s / of_int m)\<rfloor>" by (auto simp: observed_cpu_def split: if_splits)
  with m quotient_bounds[of lo m s hi, OF _ _ _ assms(2,3) hi] show ?thesis
    by (simp add: le_floor_iff floor_le_iff)
qed


section \<open>The decision\<close>

text \<open>What the deployment hash says about scaling; an absent field counts as its default.\<close>

record scale_state =
  ss_desired :: int
  ss_min :: int
  ss_max :: int
  ss_target :: int
  ss_lastUp :: int
  ss_lastDown :: int

definition number_field :: "(string \<rightharpoonup> string) \<Rightarrow> string \<Rightarrow> int \<Rightarrow> int \<Rightarrow> bool" where
  "number_field m f dflt n \<longleftrightarrow> \<bar>n\<bar> \<le> 2 ^ 52 \<and> (case m f of None \<Rightarrow> n = dflt | Some t \<Rightarrow> t = Itoa n)"

definition holds_scale :: "keyspace \<Rightarrow> string \<Rightarrow> scale_state \<Rightarrow> bool" where
  "holds_scale v name s \<longleftrightarrow> (let m = hash_at v (DeploymentKey name) in
     v (DeploymentKey name) \<noteq> None \<and> is_hash v (DeploymentKey name) \<and>
     number_field m FieldDesiredReplicas 0 (ss_desired s) \<and> number_field m FieldMinReplicas 1 (ss_min s) \<and>
     number_field m FieldMaxReplicas 1 (ss_max s) \<and> number_field m FieldTargetCPUPercent 0 (ss_target s) \<and>
     number_field m FieldLastScaleUpAt 0 (ss_lastUp s) \<and> number_field m FieldLastScaleDownAt 0 (ss_lastDown s))"

text \<open>The rule as a function of integers: outcome, new count, observed utilisation. The wanted count is the
  rounded-up ratio, raised to the minimum and then cut at the maximum.\<close>

definition wanted_replicas :: "scale_state \<Rightarrow> int \<Rightarrow> int" where
  "wanted_replicas s obs = min (ss_max s) (max (ss_min s) (- ((- (ss_desired s * obs)) div ss_target s)))"

definition scale_rule :: "scale_state \<Rightarrow> int \<Rightarrow> int \<Rightarrow> int \<Rightarrow> int \<Rightarrow> int \<Rightarrow> string \<times> int \<times> int" where
  "scale_rule s now up down w ob =
     (if w = ss_desired s then (''steady'', ss_desired s, ob)
      else if w > ss_desired s then
        (if now - ss_lastUp s < up then (''up_cooldown'', ss_desired s, ob) else (''scaled_up'', w, ob))
      else if now - max (ss_lastUp s) (ss_lastDown s) < down then (''down_cooldown'', ss_desired s, ob)
      else (''scaled_down'', w, ob))"

definition decide :: "scale_state \<Rightarrow> int \<Rightarrow> int \<Rightarrow> int \<Rightarrow> int option \<Rightarrow> string \<times> int \<times> int" where
  "decide s now up down obs =
     (if ss_target s \<le> 0 then (''no_target'', ss_desired s, 0) else
      case obs of
        None \<Rightarrow> (''no_telemetry'', ss_desired s, 0)
      | Some ob \<Rightarrow> scale_rule s now up down (wanted_replicas s ob) ob)"

text \<open>The keyspace after the decision.\<close>

definition put_scale :: "keyspace \<Rightarrow> string \<Rightarrow> int \<Rightarrow> string \<times> int \<times> int \<Rightarrow> keyspace" where
  "put_scale v name now dec = (case dec of (outcome, new, _) \<Rightarrow>
     if outcome = ''scaled_up'' then
       v(DeploymentKey name \<mapsto> RHash ((hash_at v (DeploymentKey name))(FieldDesiredReplicas \<mapsto> Itoa new, FieldLastScaleUpAt \<mapsto> Itoa now)))
     else if outcome = ''scaled_down'' then
       v(DeploymentKey name \<mapsto> RHash ((hash_at v (DeploymentKey name))(FieldDesiredReplicas \<mapsto> Itoa new, FieldLastScaleDownAt \<mapsto> Itoa now)))
     else v)"

definition telemetry_lists :: "keyspace \<Rightarrow> bool" where
  "telemetry_lists v \<longleftrightarrow> (\<forall>k. HasPrefix k ''telemetry:'' \<longrightarrow> is_list v k)"

lemma telemetry_prefix: "HasPrefix k (literal_prefix (telemetryPattern name)) \<Longrightarrow> HasPrefix k ''telemetry:''"
  by (auto simp: HasPrefix_iff literal_prefix_def telemetryPattern_def)

context redis_server
begin

lemma run_scale_keys:
  assumes "\<forall>k \<in> set ks. is_list (view d) k"
  shows "run_state (scale_keys R (Some 3) ks acc) d =
    (Inr (tally (\<lambda>k. pod_average R (index_range (list_at (view d) k) (- 3) (- 1))) ks acc), d)"
  using assms
proof (induction ks arbitrary: acc)
  case (Cons k ks)
  obtain s c where acc: "acc = (s, c)" by fastforce
  have "\<lfloor>- 3 :: rat\<rfloor> = - 3" by simp
  then show ?case using Cons
    by (auto simp: acc run_on_error lua_index_def lrange pod_average_def Let_def split: prod.splits)
qed simp

lemma run_scale_scan:
  assumes "scan_ends R view (dom (view d)) pat cur" "\<And>k. HasPrefix k (literal_prefix pat) \<Longrightarrow> is_list (view d) k"
  shows "\<exists>ks. scan_run R d pat cur ks \<and> scale_scan R pat (Some 3) cur acc d =
    Some (Inr (tally (\<lambda>k. pod_average R (index_range (list_at (view d) k) (- 3) (- 1))) ks acc), d)"
proof -
  have "\<exists>ks. scan_run R d pat cur ks \<and> scale_scan R pat (Some 3) cur acc d =
    Some (Inr (tally (\<lambda>k. pod_average R (index_range (list_at (view d) k) (- 3) (- 1))) ks acc), d)"
    if "scan_ends R view K pat cur" "K = dom (view d)" for K
    using that
  proof (induction arbitrary: acc rule: scan_ends.induct)
    case (scan_endsI cur)
    obtain ks c where page: "run_state (r_scan R cur pat) d = (Inr (ks, c), d)" using scan_page by blast
    have "\<forall>k \<in> set ks. is_list (view d) k" using scan_prefix[OF page] assms(2) by blast
    note keys = run_scale_keys[OF this, of acc]
    show ?case
    proof (cases "c = 0")
      case True
      then show ?thesis using page by (subst scale_scan.simps) (auto simp: keys intro: scan_run.last_page)
    next
      case False
      let ?acc = "tally (\<lambda>k. pod_average R (index_range (list_at (view d) k) (- 3) (- 1))) ks acc"
      from scan_endsI.IH[OF _ page False, of ?acc] scan_endsI.prems obtain ks' where
        "scan_run R d pat c ks'" "scale_scan R pat (Some 3) c ?acc d =
          Some (Inr (tally (\<lambda>k. pod_average R (index_range (list_at (view d) k) (- 3) (- 1))) ks' ?acc), d)" by auto
      then show ?thesis
        using page False
        by (subst scale_scan.simps) (auto simp: keys intro!: exI[of _ "ks @ ks'"] scan_run.next_page)
    qed
  qed
  then show ?thesis using assms(1) by blast
qed

lemma tonumber_small: "\<bar>n\<bar> \<le> 2 ^ 53 \<Longrightarrow> r_tonumber R (Itoa n) = Some (of_int n)"
  using tonumber_int[of n] fl_of_int[of n] by (simp add: in_int64_def abs_le_iff)

lemma number_field_read:
  assumes "number_field m f dflt n"
  shows "number_or (of_int dflt) (lua_number R (m f)) = of_int n"
  using assms tonumber_small[of n]
  by (auto simp: number_field_def number_or_def lua_number_def split: option.splits)

lemma run_hset_two:
  assumes "is_hash (view d) k" "f \<noteq> g"
  shows "\<exists>d'. run_state (r_hset R k [(f, a), (g, b)]) d = (Inr (), d') \<and>
    view d' = (view d)(k \<mapsto> RHash ((hash_at (view d) k)(f \<mapsto> a, g \<mapsto> b)))"
  using assms reply_hset[of "[(f, a), (g, b)]" d k] view_hset[of "[(f, a), (g, b)]" k d]
  by (cases "run_state (r_hset R k [(f, a), (g, b)]) d") (simp add: fun_upd_twist)

lemma run_scale_to:
  assumes "is_hash (view d) (DeploymentKey name)" "\<bar>w\<bar> \<le> 2 ^ 53" "\<bar>now\<bar> \<le> 2 ^ 52"
    and "\<bar>ss_lastUp s\<bar> \<le> 2 ^ 52" "\<bar>ss_lastDown s\<bar> \<le> 2 ^ 52" "scale_rule s now up down w ob = (outcome, new, ob')"
  shows "\<exists>d'. run_state (scale_to R (DeploymentKey name) (Some (of_int now)) (Some (of_int up)) (Some (of_int down))
      (of_int (ss_lastUp s)) (of_int (ss_lastDown s)) (of_int (ss_desired s)) (of_int w) (of_int ob)) d =
      (Inr (ReplyArr [ReplyStr outcome, ReplyInt (ss_desired s), ReplyInt new, ReplyInt ob']), d') \<and>
    view d' = put_scale (view d) name now (outcome, new, ob')"
proof -
  have gap: "fl (of_int now - of_int x) < of_int c \<longleftrightarrow> now - x < c" if "\<bar>x\<bar> \<le> 2 ^ 52" for x c
  proof -
    have "fl (of_int (now - x)) = (of_int (now - x) :: rat)" by (intro fl_of_int) (use that assms(3) in \<open>simp add: abs_le_iff\<close>)
    then show ?thesis by (metis of_int_diff of_int_less_iff)
  qed
  note gaps = gap[OF assms(4)] gap[OF assms(5)]
  have texts: "r_tostring R (of_int w) = Itoa w" "r_tostring R (of_int now) = Itoa now"
    using assms(2,3) by (auto intro!: tostring_int)
  consider "w = ss_desired s" | "w > ss_desired s" "now - ss_lastUp s < up" | "w > ss_desired s" "\<not> now - ss_lastUp s < up"
    | "w < ss_desired s" "now - max (ss_lastUp s) (ss_lastDown s) < down" | "w < ss_desired s" "\<not> now - max (ss_lastUp s) (ss_lastDown s) < down" by linarith
  then show ?thesis
  proof cases
    case 1
    with assms(6) show ?thesis by (auto simp: scale_to_def scale_result_def reply_number_def scale_rule_def put_scale_def)
  next
    case 2
    with assms(6) show ?thesis by (auto simp: scale_to_def scale_result_def reply_number_def scale_rule_def put_scale_def gaps)
  next
    case 3
    obtain d' where "run_state (r_hset R (DeploymentKey name) [(''desired_replicas'', Itoa w), (''last_scale_up_at'', Itoa now)]) d = (Inr (), d')"
      "view d' = (view d)(DeploymentKey name \<mapsto> RHash ((hash_at (view d) (DeploymentKey name))(''desired_replicas'' \<mapsto> Itoa w, ''last_scale_up_at'' \<mapsto> Itoa now)))"
      using run_hset_two[OF assms(1), of "''desired_replicas''" "''last_scale_up_at''"] by auto
    moreover have "outcome = ''scaled_up''" "new = w" "ob' = ob" using 3 assms(6) by (auto simp: scale_rule_def)
    ultimately show ?thesis
      using 3 by (simp add: scale_to_def scale_result_def reply_number_def put_scale_def gaps texts run_on_error)
  next
    case 4
    with assms(6) show ?thesis
      by (auto simp: scale_to_def scale_result_def reply_number_def scale_rule_def put_scale_def gaps max_def split: if_splits)
  next
    case 5
    obtain d' where "run_state (r_hset R (DeploymentKey name) [(''desired_replicas'', Itoa w), (''last_scale_down_at'', Itoa now)]) d = (Inr (), d')"
      "view d' = (view d)(DeploymentKey name \<mapsto> RHash ((hash_at (view d) (DeploymentKey name))(''desired_replicas'' \<mapsto> Itoa w, ''last_scale_down_at'' \<mapsto> Itoa now)))"
      using run_hset_two[OF assms(1), of "''desired_replicas''" "''last_scale_down_at''"] by auto
    moreover have "outcome = ''scaled_down''" "new = w" "ob' = ob" using 5 assms(6) by (auto simp: scale_rule_def)
    ultimately show ?thesis
      using 5 by (simp add: scale_to_def scale_result_def reply_number_def put_scale_def gaps max_def texts run_on_error split: if_splits)
  qed
qed

lemma wanted_exact:
  assumes "0 \<le> desired * ob" "desired * ob < 2 ^ 53" "0 < t"
  shows "clamp_wanted (of_int lo) (of_int hi) (of_int \<lceil>fl (fl (of_int desired * of_int ob) / of_int t)\<rceil>) =
    of_int (min hi (max lo (- ((- (desired * ob)) div t))))"
proof -
  have "fl (of_int desired * of_int ob) = (of_int (desired * ob) :: rat)"
    using fl_of_int[of "desired * ob"] assms(1,2) by simp
  then show ?thesis using ceiling_fl_div[OF assms] by (auto simp: clamp_wanted_def Let_def min_def max_def)
qed

lemma run_autoscaleScript:
  assumes "holds_scale (view d) name s" "telemetry_lists (view d)" "plain_pattern (telemetryPattern name)"
    and "\<bar>now\<bar> \<le> 2 ^ 52" "\<bar>up\<bar> \<le> 2 ^ 53" "\<bar>down\<bar> \<le> 2 ^ 53" "0 \<le> ss_desired s"
    and "\<forall>ks ob. scan_run R d (telemetryPattern name) 0 ks \<longrightarrow> observed_cpu R (view d) ks = Some ob \<longrightarrow>
           0 \<le> ob \<and> ss_desired s * ob < 2 ^ 53"
  shows "\<exists>ks d' outcome new ob. scan_run R d (telemetryPattern name) 0 ks \<and>
    decide s now up down (observed_cpu R (view d) ks) = (outcome, new, ob) \<and>
    run_state (autoscaleScript R (DeploymentKey name) (telemetryPattern name) (Itoa now) (Itoa up) (Itoa down) (Itoa 3)) d =
      (Inr (ReplyArr [ReplyStr outcome, ReplyInt (ss_desired s), ReplyInt new, ReplyInt ob]), d') \<and>
    view d' = put_scale (view d) name now (outcome, new, ob)"
proof -
  let ?k = "DeploymentKey name" and ?m = "hash_at (view d) (DeploymentKey name)"
  have h: "view d ?k \<noteq> None" "is_hash (view d) ?k" using assms(1) by (simp_all add: holds_scale_def Let_def)
  have nf: "number_field ?m FieldDesiredReplicas 0 (ss_desired s)" "number_field ?m FieldMinReplicas 1 (ss_min s)"
     "number_field ?m FieldMaxReplicas 1 (ss_max s)" "number_field ?m FieldTargetCPUPercent 0 (ss_target s)"
     "number_field ?m FieldLastScaleUpAt 0 (ss_lastUp s)" "number_field ?m FieldLastScaleDownAt 0 (ss_lastDown s)"
    using assms(1) by (simp_all add: holds_scale_def Let_def)
  have args: "r_tonumber R (Itoa now) = Some (of_int now)" "r_tonumber R (Itoa up) = Some (of_int up)"
     "r_tonumber R (Itoa down) = Some (of_int down)" "r_tonumber R (Itoa 3) = Some 3"
    using assms(4-6) tonumber_small[of 3] by (auto intro!: tonumber_small)
  obtain ks where ks: "scan_run R d (telemetryPattern name) 0 ks"
    "scale_scan R (telemetryPattern name) (Some 3) 0 (0, 0) d =
      Some (Inr (tally (\<lambda>k. pod_average R (index_range (list_at (view d) k) (- 3) (- 1))) ks (0, 0)), d)"
    using run_scale_scan[OF scan_terminates[OF assms(3)], of d "(0, 0)"] assms(2) telemetry_prefix[of _ name]
    unfolding telemetry_lists_def by blast
  obtain sm c where sc: "tally (\<lambda>k. pod_average R (index_range (list_at (view d) k) (- 3) (- 1))) ks (0, 0) = (sm, c)" by fastforce
  note run = autoscaleScript_def Let_def run_on_error exists h hget args ks(2) sc nf[THEN number_field_read, simplified]
  obtain outcome new ob where dec: "decide s now up down (observed_cpu R (view d) ks) = (outcome, new, ob)" by (metis prod_cases3)
  consider "ss_target s \<le> 0" | "0 < ss_target s" "c = 0" | "0 < ss_target s" "c \<noteq> 0" by linarith
  then have "\<exists>d'. run_state (autoscaleScript R ?k (telemetryPattern name) (Itoa now) (Itoa up) (Itoa down) (Itoa 3)) d =
      (Inr (ReplyArr [ReplyStr outcome, ReplyInt (ss_desired s), ReplyInt new, ReplyInt ob]), d') \<and>
    view d' = put_scale (view d) name now (outcome, new, ob)"
  proof cases
    case 1
    with dec show ?thesis
      by (auto simp: run decide_def scale_result_def reply_number_def put_scale_def trunc_def)
  next
    case 2
    with dec sc show ?thesis
      by (auto simp: run decide_def observed_cpu_def scale_result_def reply_number_def put_scale_def trunc_def)
  next
    case 3
    define o' where "o' = \<lfloor>fl (sm / c)\<rfloor>"
    have obs: "observed_cpu R (view d) ks = Some o'" using 3 sc by (simp add: observed_cpu_def o'_def)
    then have ob: "0 \<le> o'" "ss_desired s * o' < 2 ^ 53" using assms(8) ks(1) by blast+
    have rule: "scale_rule s now up down (wanted_replicas s o') o' = (outcome, new, ob)"
      using dec 3 obs by (simp add: decide_def)
    have "\<bar>wanted_replicas s o'\<bar> \<le> 2 ^ 53" using nf(2,3) by (auto simp: wanted_replicas_def number_field_def min_def max_def)
    from run_scale_to[OF h(2) this assms(4) _ _ rule, simplified] nf(5,6)
    show ?thesis
      using 3 wanted_exact[of "ss_desired s" o' "ss_target s" "ss_min s" "ss_max s"] ob assms(7)
      by (simp add: run number_field_def wanted_replicas_def o'_def)
  qed
  with ks(1) dec show ?thesis by blast
qed

lemma run_PublishEvent:
  assumes "quiet E" "server E = R"
  shows "\<exists>w'. run_state (PublishEvent E ev) w = (Inr (), w') \<and> view (db w') = view (db w)"
  using reply_publish view_publish by (simp add: PublishEvent_def Publish_def run_on_error run_send_quiet[OF assms(1)] assms(2))

lemma run_Evaluate:
  assumes "quiet E" "server E = R" "holds_scale (view (db w)) name s" "telemetry_lists (view (db w))" "plain_pattern (telemetryPattern name)"
    and "\<bar>unix_at E (tick w)\<bar> \<le> 2 ^ 52" "0 \<le> ss_desired s"
    and "\<bar>trunc (Seconds (as_ScaleUpCooldown cfg))\<bar> \<le> 2 ^ 53" "\<bar>trunc (Seconds (as_ScaleDownCooldown cfg))\<bar> \<le> 2 ^ 53"
    and "\<forall>ks ob. scan_run R (db w) (telemetryPattern name) 0 ks \<longrightarrow> observed_cpu R (view (db w)) ks = Some ob \<longrightarrow>
           0 \<le> ob \<and> ss_desired s * ob < 2 ^ 53"
  shows "\<exists>ks w' outcome new ob. scan_run R (db w) (telemetryPattern name) 0 ks \<and>
    decide s (unix_at E (tick w)) (trunc (Seconds (as_ScaleUpCooldown cfg))) (trunc (Seconds (as_ScaleDownCooldown cfg)))
      (observed_cpu R (view (db w)) ks) = (outcome, new, ob) \<and>
    run_state (Evaluate E l cfg name) w = (Inr \<lparr>dc_Deployment = name, dc_Outcome = outcome, dc_From = ss_desired s, dc_To = new, dc_ObservedCPU = ob\<rparr>, w') \<and>
    (\<forall>k. k \<noteq> LogStreamKey \<longrightarrow> view (db w') k = put_scale (view (db w)) name (unix_at E (tick w)) (outcome, new, ob) k)"
proof -
  from run_autoscaleScript[OF assms(3-6,8,9,7,10)] obtain ks d' outcome new ob where
    r: "scan_run R (db w) (telemetryPattern name) 0 ks"
    "decide s (unix_at E (tick w)) (trunc (Seconds (as_ScaleUpCooldown cfg))) (trunc (Seconds (as_ScaleDownCooldown cfg)))
      (observed_cpu R (view (db w)) ks) = (outcome, new, ob)"
    and script: "run_state (autoscaleScript R (DeploymentKey name) (telemetryPattern name) (Itoa (unix_at E (tick w)))
       (Itoa (trunc (Seconds (as_ScaleUpCooldown cfg)))) (Itoa (trunc (Seconds (as_ScaleDownCooldown cfg)))) (Itoa 3)) (db w) =
      (Inr (ReplyArr [ReplyStr outcome, ReplyInt (ss_desired s), ReplyInt new, ReplyInt ob]), d')"
    and v: "view d' = put_scale (view (db w)) name (unix_at E (tick w)) (outcome, new, ob)" by blast
  let ?dec = "\<lparr>dc_Deployment = name, dc_Outcome = outcome, dc_From = ss_desired s, dc_To = new, dc_ObservedCPU = ob\<rparr>"
  define w1 where "w1 = w\<lparr>tick := Suc (Suc (tick w)), db := d'\<rparr>"
  note run = Evaluate_def run_on_error run_EvalScript_quiet[OF assms(1)] assms(2) script arg_int arg_str Let_def
    parseDecision_def int64_or_0_def Changed_def w1_def[symmetric]
  have "\<exists>w'. run_state (Evaluate E l cfg name) w = (Inr ?dec, w') \<and> (\<forall>k. k \<noteq> LogStreamKey \<longrightarrow> view (db w') k = view d' k)"
  proof (cases "new = ss_desired s")
    case True
    then show ?thesis by (simp add: run) (simp add: w1_def)
  next
    case False
    define msg where "msg = Sprintf ''observed %d%% CPU: %d -> %d replicas'' [ArgD ob, ArgD (ss_desired s), ArgD new]"
    obtain w2 x where w2: "run_state (Info E l ''deployment_autoscaled'' msg [DeploymentID name]) w1 = ((), w2)"
      "view (db w2) = (view (db w1))(LogStreamKey := x)" using run_Info(1)[OF assms(1,2)] by blast
    obtain w3 where w3: "run_state (PublishEvent E \<lparr>ev_Event = EventUpdate, ev_Deployment = name, ev_Desired = new\<rparr>) w2 = (Inr (), w3)"
      "view (db w3) = view (db w2)" using run_PublishEvent[OF assms(1,2)] by blast
    have "run_state (Evaluate E l cfg name) w = (Inr ?dec, w3)"
      using False by (simp add: run msg_def[symmetric] w2(1) w3(1))
    then show ?thesis using w2(2) w3(2) by (auto simp: w1_def)
  qed
  with r show ?thesis unfolding v by blast
qed

end
text \<open>C5. The autoscaler's decision in an undisturbed run, against the rule on integers \<open>decide\<close>: the outcome, the
  new count and the reported utilisation are those of the rule, although the script computes in
  rounded floats; the deployment hash changes exactly in the count and the matching timestamp when the rule
  scales and not at all otherwise; nothing else changes but the log.\<close>

theorem Evaluate_exact:
  assumes "redis_server (server E) view" "quiet E" "holds_scale (view (db w)) name s"
    and "telemetry_lists (view (db w))" "plain_pattern (telemetryPattern name)"
    and "\<bar>unix_at E (tick w)\<bar> \<le> 2 ^ 52" "0 \<le> ss_desired s"
    and "\<bar>trunc (Seconds (as_ScaleUpCooldown cfg))\<bar> \<le> 2 ^ 53" "\<bar>trunc (Seconds (as_ScaleDownCooldown cfg))\<bar> \<le> 2 ^ 53"
    and "\<forall>ks ob. scan_run (server E) (db w) (telemetryPattern name) 0 ks \<longrightarrow> observed_cpu (server E) (view (db w)) ks = Some ob \<longrightarrow>
           0 \<le> ob \<and> ss_desired s * ob < 2 ^ 53"
  shows "\<exists>ks w' outcome new ob. scan_run (server E) (db w) (telemetryPattern name) 0 ks \<and>
    set ks = {k. view (db w) k \<noteq> None \<and> glob (telemetryPattern name) k} \<and>
    decide s (unix_at E (tick w)) (trunc (Seconds (as_ScaleUpCooldown cfg))) (trunc (Seconds (as_ScaleDownCooldown cfg)))
      (observed_cpu (server E) (view (db w)) ks) = (outcome, new, ob) \<and>
    run_state (Evaluate E l cfg name) w = (Inr \<lparr>dc_Deployment = name, dc_Outcome = outcome, dc_From = ss_desired s, dc_To = new, dc_ObservedCPU = ob\<rparr>, w') \<and>
    (\<forall>k. k \<noteq> LogStreamKey \<longrightarrow> view (db w') k = put_scale (view (db w)) name (unix_at E (tick w)) (outcome, new, ob) k)"
proof -
  have complete: "scan_run (server E) (db w) (telemetryPattern name) 0 ks \<Longrightarrow> set ks = {k. view (db w) k \<noteq> None \<and> glob (telemetryPattern name) k}" for ks
    using redis_server.scan_complete[OF assms(1,5) redis_server.scan_run_path[OF assms(1)]] by auto
  from redis_server.run_Evaluate[OF assms(1,2) refl assms(3-10), of l] obtain ks w' outcome new ob where
    r: "scan_run (server E) (db w) (telemetryPattern name) 0 ks"
    "decide s (unix_at E (tick w)) (trunc (Seconds (as_ScaleUpCooldown cfg))) (trunc (Seconds (as_ScaleDownCooldown cfg)))
      (observed_cpu (server E) (view (db w)) ks) = (outcome, new, ob)"
    "run_state (Evaluate E l cfg name) w = (Inr \<lparr>dc_Deployment = name, dc_Outcome = outcome, dc_From = ss_desired s, dc_To = new, dc_ObservedCPU = ob\<rparr>, w')"
    "\<forall>k. k \<noteq> LogStreamKey \<longrightarrow> view (db w') k = put_scale (view (db w)) name (unix_at E (tick w)) (outcome, new, ob) k" by blast
  with complete[OF r(1)] show ?thesis by blast
qed

text \<open>A deployment whose only pod reports 90 percent.\<close>

definition busy_db :: mem where
  "busy_db = [(DeploymentKey ''web'', Some (MHash (wire mem_redis (DeploymentToMap demo_deployment)))),
     (TelemetryCPUKey ''web'' ''7f'', Some (MList [Itoa 90, Itoa 90, Itoa 90]))]"

definition busy_world :: "mem world" where
  "busy_world = \<lparr>db = busy_db, tick = 0\<rparr>"

definition busy_state :: scale_state where
  "busy_state = \<lparr>ss_desired = 2, ss_min = 1, ss_max = 5, ss_target = 70, ss_lastUp = 0, ss_lastDown = 0\<rparr>"

definition demo_autoscale :: AutoscaleConfig where
  "demo_autoscale = \<lparr>as_Interval = 15 * 10 ^ 9, as_ScaleUpCooldown = 30 * 10 ^ 9, as_ScaleDownCooldown = 180 * 10 ^ 9\<rparr>"

lemma busy_view: "mem_view (db busy_world) =
   [DeploymentKey ''web'' \<mapsto> RHash (map_of (wire mem_redis (DeploymentToMap demo_deployment))),
    TelemetryCPUKey ''web'' ''7f'' \<mapsto> RList [Itoa 90, Itoa 90, Itoa 90]]"
  by (rule ext) (simp add: mem_view_def mem_get_def busy_world_def busy_db_def key_simps fun_upd_twist)

lemma busy_ready:
  "holds_scale (mem_view (db busy_world)) ''web'' busy_state" "telemetry_lists (mem_view (db busy_world))"
  "plain_pattern (telemetryPattern ''web'')"
proof -
  show "plain_pattern (telemetryPattern ''web'')" by (simp add: plain_pattern_def telemetryPattern_def)
  show "telemetry_lists (mem_view (db busy_world))"
    by (auto simp: telemetry_lists_def busy_view is_list_def DeploymentKey_def HasPrefix_def split: if_splits)
  show "holds_scale (mem_view (db busy_world)) ''web'' busy_state"
    by (simp add: holds_scale_def busy_view key_simps number_field_def busy_state_def is_hash_def
       DeploymentToMap_def demo_deployment_def mem_redis_def mem_arg_def Let_def field_if_def)
qed

lemma busy_observed:
  assumes "scan_run mem_redis (db busy_world) (telemetryPattern ''web'') 0 ks"
  shows "observed_cpu mem_redis (mem_view (db busy_world)) ks = Some 90"
proof -
  have "glob (telemetryPattern ''web'') (TelemetryCPUKey ''web'' ''7f'')" "\<not> glob (telemetryPattern ''web'') (DeploymentKey ''web'')"
    by (simp_all add: telemetryPattern_def TelemetryCPUKey_def DeploymentKey_def)
  then have "set ks = {TelemetryCPUKey ''web'' ''7f''}" "distinct ks"
    using mem.scan_complete[OF busy_ready(3) mem.scan_run_path[OF assms]] scan_run_mem_distinct[OF assms]
    by (auto simp: busy_view split: if_splits)
  then have "ks = [TelemetryCPUKey ''web'' ''7f'']" by (cases ks; cases "tl ks") auto
  moreover have "index_range [Itoa 90, Itoa 90, Itoa 90] (- 3) (- 1) = [Itoa 90, Itoa 90, Itoa 90]" by (simp add: index_range_def)
  moreover have "r_tonumber mem_redis (Itoa 90) = Some 90" using mem.tonumber_small[of 90] by simp
  ultimately show ?thesis
    by (simp add: observed_cpu_def busy_view list_at_def key_simps pod_average_def add_samples_tally)
qed

theorem Evaluate_exact_witness:
  "\<exists>w'. run_state (Evaluate mem_env demo_logger demo_autoscale ''web'') busy_world =
      (Inr \<lparr>dc_Deployment = ''web'', dc_Outcome = ''scaled_up'', dc_From = 2, dc_To = 3, dc_ObservedCPU = 90\<rparr>, w') \<and>
    hash_at (mem_view (db w')) (DeploymentKey ''web'') FieldDesiredReplicas = Some (Itoa 3)"
proof -
  have cool: "trunc (Seconds (as_ScaleUpCooldown demo_autoscale)) = 30" "trunc (Seconds (as_ScaleDownCooldown demo_autoscale)) = 180"
    using Seconds_whole[of 30] Seconds_whole[of 180] by (simp_all add: demo_autoscale_def)
  have now: "unix_at mem_env n = 1000" for n by (simp add: mem_env_def)
  have dec: "decide busy_state 1000 30 180 (Some 90) = (''scaled_up'', 3, 90)"
    by (simp add: decide_def busy_state_def scale_rule_def wanted_replicas_def)
  have s: "ss_desired busy_state = 2" by (simp add: busy_state_def)
  from Evaluate_exact[of mem_env mem_view busy_world "''web''" busy_state demo_autoscale demo_logger, OF _ _ busy_ready]
  obtain w' where "run_state (Evaluate mem_env demo_logger demo_autoscale ''web'') busy_world =
      (Inr \<lparr>dc_Deployment = ''web'', dc_Outcome = ''scaled_up'', dc_From = 2, dc_To = 3, dc_ObservedCPU = 90\<rparr>, w')"
    "\<And>k. k \<noteq> LogStreamKey \<Longrightarrow> mem_view (db w') k = put_scale (mem_view (db busy_world)) ''web'' 1000 (''scaled_up'', 3, 90) k"
    using mem.redis_server_axioms by (auto simp: cool now dec s busy_observed)
  then show ?thesis by (auto simp: put_scale_def key_simps hash_at_def)
qed

lemma decide_limits:
  assumes "ss_min s \<le> ss_max s" "decide s now up down obs = (outcome, new, ob)"
  shows "(new \<noteq> ss_desired s \<longrightarrow> ss_min s \<le> new \<and> new \<le> ss_max s) \<and> (ss_desired s < new \<longrightarrow> up \<le> now - ss_lastUp s) \<and>
    (new < ss_desired s \<longrightarrow> down \<le> now - max (ss_lastUp s) (ss_lastDown s))"
proof (cases obs)
  case None
  with assms(2) show ?thesis by (auto simp: decide_def split: if_splits)
next
  case (Some x)
  have "ss_min s \<le> wanted_replicas s x" "wanted_replicas s x \<le> ss_max s" using assms(1) by (auto simp: wanted_replicas_def)
  with assms(2) Some show ?thesis by (auto simp: decide_def scale_rule_def split: if_splits)
qed

text \<open>C16. The limits of autoscaling: a count that changes stays within the deployment's minimum and maximum; it
  grows only when the scale-up cooldown has passed since the last growth, and it shrinks only when the
  scale-down cooldown has passed since the last change in either direction.\<close>

theorem Evaluate_limits:
  assumes "redis_server (server E) view" "quiet E" "holds_scale (view (db w)) name s"
    and "telemetry_lists (view (db w))" "plain_pattern (telemetryPattern name)"
    and "\<bar>unix_at E (tick w)\<bar> \<le> 2 ^ 52" "0 \<le> ss_desired s"
    and "\<bar>trunc (Seconds (as_ScaleUpCooldown cfg))\<bar> \<le> 2 ^ 53" "\<bar>trunc (Seconds (as_ScaleDownCooldown cfg))\<bar> \<le> 2 ^ 53"
    and "\<forall>ks ob. scan_run (server E) (db w) (telemetryPattern name) 0 ks \<longrightarrow> observed_cpu (server E) (view (db w)) ks = Some ob \<longrightarrow>
           0 \<le> ob \<and> ss_desired s * ob < 2 ^ 53"
    and "ss_min s \<le> ss_max s" "run_state (Evaluate E l cfg name) w = (Inr dec, w')"
  shows "(Changed dec \<longrightarrow> ss_min s \<le> dc_To dec \<and> dc_To dec \<le> ss_max s) \<and>
    (dc_From dec < dc_To dec \<longrightarrow> trunc (Seconds (as_ScaleUpCooldown cfg)) \<le> unix_at E (tick w) - ss_lastUp s) \<and>
    (dc_To dec < dc_From dec \<longrightarrow> trunc (Seconds (as_ScaleDownCooldown cfg)) \<le> unix_at E (tick w) - max (ss_lastUp s) (ss_lastDown s))"
proof -
  from redis_server.run_Evaluate[OF assms(1,2) refl assms(3-10), of l] assms(12) obtain ks where
    "decide s (unix_at E (tick w)) (trunc (Seconds (as_ScaleUpCooldown cfg))) (trunc (Seconds (as_ScaleDownCooldown cfg)))
      (observed_cpu (server E) (view (db w)) ks) = (dc_Outcome dec, dc_To dec, dc_ObservedCPU dec)" "dc_From dec = ss_desired s" by auto
  with decide_limits[OF assms(11)] show ?thesis unfolding Changed_def by fastforce
qed

theorem Evaluate_limits_witness:
  "\<exists>dec w'. run_state (Evaluate mem_env demo_logger demo_autoscale ''web'') busy_world = (Inr dec, w') \<and>
     (Changed dec \<longrightarrow> 1 \<le> dc_To dec \<and> dc_To dec \<le> 5)"
proof -
  have cool: "trunc (Seconds (as_ScaleUpCooldown demo_autoscale)) = 30" "trunc (Seconds (as_ScaleDownCooldown demo_autoscale)) = 180"
    using Seconds_whole[of 30] Seconds_whole[of 180] by (simp_all add: demo_autoscale_def)
  have now: "unix_at mem_env n = 1000" for n by (simp add: mem_env_def)
  have s: "ss_desired busy_state = 2" "ss_min busy_state = 1" "ss_max busy_state = 5" by (simp_all add: busy_state_def)
  from mem.run_Evaluate[of mem_env busy_world "''web''" busy_state demo_autoscale demo_logger, OF _ _ busy_ready]
  obtain dec w' where 1: "run_state (Evaluate mem_env demo_logger demo_autoscale ''web'') busy_world = (Inr dec, w')"
    by (auto simp: cool now s busy_observed)
  from Evaluate_limits[of mem_env mem_view busy_world "''web''" busy_state demo_autoscale demo_logger dec w', OF _ _ busy_ready _ _ _ _ _ _ 1]
  have "Changed dec \<longrightarrow> 1 \<le> dc_To dec \<and> dc_To dec \<le> 5"
    using mem.redis_server_axioms by (simp add: cool now s busy_observed)
  with 1 show ?thesis by blast
qed

theorem observed_cpu_bounds_witness:
  "\<exists>obs. observed_cpu mem_redis (mem_view (db busy_world)) [TelemetryCPUKey ''web'' ''7f''] = Some obs \<and> 90 \<le> obs \<and> obs \<le> 90"
proof -
  let ?k = "TelemetryCPUKey ''web'' ''7f''"
  have "observed_cpu mem_redis (mem_view (db busy_world)) [?k] = Some 90"
    using mem.tonumber_small[of 90]
    by (simp add: observed_cpu_def busy_view list_at_def key_simps pod_average_def add_samples_tally index_range_def)
  moreover have "\<forall>k \<in> set [?k]. \<forall>x \<in> set (list_at (mem_view (db busy_world)) k). \<forall>n. r_tonumber mem_redis x = Some n \<longrightarrow> of_int 90 \<le> n \<and> n \<le> of_int 90"
    using mem.tonumber_small[of 90] by (simp add: busy_view list_at_def key_simps)
  ultimately show ?thesis using observed_cpu_bounds[of "[?k]" "mem_view (db busy_world)" mem_redis 90 90] by auto
qed


section \<open>Safety\<close>

context cluster
begin

lemma scale_keys_same: "run_state (scale_keys R window ks acc) d = (r, d') \<Longrightarrow> d' = d"
proof (induction ks arbitrary: acc)
  case (Cons k ks)
  show ?case
  proof (cases window)
    case None
    with Cons.prems show ?thesis by simp
  next
    case (Some wn)
    obtain q where q: "run_state (r_lrange R k \<lfloor>- wn\<rfloor> (- 1)) d = (q, d)"
      using lrange_same by (metis prod.collapse)
    show ?thesis
    proof (cases "of_int \<lfloor>- wn\<rfloor> = - wn")
      case True
      show ?thesis
      proof (cases q)
        case (Inl e)
        with Cons.prems Some True q show ?thesis by (simp add: run_on_error lua_index_def)
      next
        case (Inr samples)
        with Cons.prems Some True q obtain acc' where "run_state (scale_keys R window ks acc') d = (r, d')"
          by (simp add: run_on_error lua_index_def Let_def case_prod_beta split del: if_split)
        then show ?thesis by (rule Cons.IH)
      qed
    qed (use Cons.prems Some in \<open>simp add: run_on_error lua_index_def\<close>)
  qed
qed simp

lemma scale_scan_same:
  assumes "scale_scan R pat window cur acc d = Some (r, d')"
  shows "d' = d"
proof -
  have "R = R \<longrightarrow> snd (r, d') = d"
  proof (rule scale_scan.raw_induct[where P = "\<lambda>R' pat window cur acc d p. R' = R \<longrightarrow> snd p = d"])
    show "scale_scan R pat window cur acc d = Some (r, d')" by (rule assms)
  next
    fix f R' pat window cur acc d p
    assume IH: "\<And>R' pat window cur acc d p. f R' pat window cur acc d = Some p \<Longrightarrow> R' = R \<longrightarrow> snd p = d"
      and eq: "(case run_state (r_scan R' cur pat) d of
        (Inl e, d1) \<Rightarrow> Some (Inl e, d1)
      | (Inr (ks, c), d1) \<Rightarrow>
          (case run_state (scale_keys R' window ks acc) d1 of
             (Inl e, d2) \<Rightarrow> Some (Inl e, d2)
           | (Inr acc', d2) \<Rightarrow> if c = 0 then Some (Inr acc', d2) else f R' pat window c acc' d2)) = Some p"
    show "R' = R \<longrightarrow> snd p = d"
    proof
      assume R': "R' = R"
      obtain ks c where page: "run_state (r_scan R cur pat) d = (Inr (ks, c), d)" using scan_page by blast
      obtain q where q: "run_state (scale_keys R window ks acc) d = (q, d)"
        using scale_keys_same[OF prod.collapse[symmetric]] by (metis prod.collapse)
      show "snd p = d" using eq IH[of R pat window c _ d p] by (cases q) (auto simp: R' page q split: if_splits)
    qed
  qed
  then show ?thesis by simp
qed

lemma keeps_script_scale:
  assumes "f \<noteq> ''desired_replicas''" "f \<noteq> FieldCPURequest" "f \<noteq> FieldMemRequest"
  shows "keeps K (r_hset R (DeploymentKey name) [(''desired_replicas'', x), (f, y)])"
proof (rule keepsI)
  fix d
  assume d: "K d"
  define fs where "fs = [(''desired_replicas'', x), (f, y)]"
  have fs: "fs \<noteq> []" "distinct (map fst fs)" using assms(1) by (auto simp: fs_def)
  have "map_of fs FieldCPURequest = None" "map_of fs FieldMemRequest = None" using assms(2,3) by (simp_all add: fs_def)
  then have "request_ok (map_of fs)" by (simp add: request_ok_def)
  then show "K (snd (run_state (r_hset R (DeploymentKey name) [(''desired_replicas'', x), (f, y)]) d))"
    unfolding fs_def[symmetric] view_hset[OF fs] using d accounting_hash[OF d] by simp
qed

lemma keeps_autoscaleScript: "keeps K (autoscaleScript R (DeploymentKey name) pat a b c e)"
proof -
  have "keeps K (State (\<lambda>d. case scale_scan R pat window 0 (0, 0) d of None \<Rightarrow> (Inl NeverReturns, d) | Some r \<Rightarrow> r))" for window
    by (auto simp: keeps_def split: option.split dest: scale_scan_same)
  then show ?thesis
    unfolding autoscaleScript_def Let_def scale_to_def scale_result_def
    by (intro keeps_on_error keeps_return keeps_script_reads keeps_script_scale keeps_if keeps_case_prod keeps_case_option) auto
qed

lemma keeps_Evaluate [keeps_intros]: "keeps J (Evaluate E l cfg name)"
  unfolding Evaluate_def EvalScript_def server_R
  by (intro keeps_intros keeps_send keepsD[OF keeps_autoscaleScript]) simp_all

lemma keeps_autoscale_round: "keeps J (autoscale_round E l cfg)"
  unfolding autoscale_round_def EvaluateAll_def EvaluateAll_body_def by (intro keeps_intros) simp_all

end

end
