(* ===== verification/Duration.thy ===== *)
theory Duration
  imports GoText Float64
begin

text \<open>
  \<open>time.ParseDuration\<close> of the standard library, which the configuration is read with, and that it inverts
  \<open>time.Duration.String\<close>.
\<close>


section \<open>The parser\<close>

text \<open>\<open>leadingInt\<close>: the digits at the start as a number of at most \<open>2\<^sup>6\<^sup>3\<close>.\<close>

fun leadingInt :: "nat \<Rightarrow> string \<Rightarrow> (nat \<times> string) option" where
  "leadingInt x [] = Some (x, [])"
| "leadingInt x (c # cs) =
     (case digit_val c of
        None \<Rightarrow> Some (x, c # cs)
      | Some d \<Rightarrow> if x > 2 ^ 63 div 10 then None else
          let y = x * 10 + d in if y > 2 ^ 63 then None else leadingInt y cs)"

text \<open>\<open>leadingFraction\<close>: digits that do not fit any more are skipped. The scale, a power of ten that a float holds exactly, is
  its exponent.\<close>

fun leadingFraction :: "nat \<Rightarrow> nat \<Rightarrow> bool \<Rightarrow> string \<Rightarrow> nat \<times> nat \<times> string" where
  "leadingFraction x k overflow [] = (x, k, [])"
| "leadingFraction x k overflow (c # cs) =
     (case digit_val c of
        None \<Rightarrow> (x, k, c # cs)
      | Some d \<Rightarrow>
          if overflow then leadingFraction x k overflow cs
          else if x > (2 ^ 63 - 1) div 10 then leadingFraction x k True cs
          else let y = x * 10 + d in
            if y > 2 ^ 63 then leadingFraction x k True cs else leadingFraction y (k + 1) False cs)"

definition unitMap :: "(string \<times> nat) list" where
  "unitMap =
     [(''ns'', 1), (''us'', 10 ^ 3), ([CHR 0xC2, CHR 0xB5] @ ''s'', 10 ^ 3), ([CHR 0xCE, CHR 0xBC] @ ''s'', 10 ^ 3),
      (''ms'', 10 ^ 6), (''s'', 10 ^ 9), (''m'', 60 * 10 ^ 9), (''h'', 3600 * 10 ^ 9)]"

text \<open>The part after the integer: the fraction with its exponent, the rest, and whether there were digits.\<close>

definition fraction_part :: "string \<Rightarrow> nat \<times> nat \<times> string \<times> bool" where
  "fraction_part s =
     (case s of
        c # cs \<Rightarrow> if c = CHR ''.'' then (case leadingFraction 0 0 False cs of (f, k, r) \<Rightarrow> (f, k, r, length r \<noteq> length cs)) else (0, 0, s, False)
      | [] \<Rightarrow> (0, 0, s, False))"

definition unit_char :: "char \<Rightarrow> bool" where
  "unit_char c \<longleftrightarrow> c \<noteq> CHR ''.'' \<and> digit_val c = None"

text \<open>One round of the loop over the terms: the nanoseconds of a term and the rest.\<close>

definition duration_term :: "string \<Rightarrow> (nat \<times> string) option" where
  "duration_term s =
     (if unit_char (hd s) then None else
      case leadingInt 0 s of
        None \<Rightarrow> None
      | Some (v, s1) \<Rightarrow>
          (case fraction_part s1 of
             (f, k, s2, post) \<Rightarrow>
               if length s1 = length s \<and> \<not> post then None else
               let u = takeWhile unit_char s2; s3 = dropWhile unit_char s2 in
               if u = [] then None else
               case map_of unitMap u of
                 None \<Rightarrow> None
               | Some unit \<Rightarrow>
                   if v > 2 ^ 63 div unit then None else
                   let v = v * unit;
                       v = (if f > 0 then v + nat (trunc (fl (fl (of_nat f) * fl (fl (of_nat unit) / 10 ^ k)))) else v)
                   in if f > 0 \<and> v > 2 ^ 63 then None else Some (v, s3)))"

lemma leadingInt_length: "leadingInt x s = Some (y, r) \<Longrightarrow> length r \<le> length s"
  by (induction x s arbitrary: y r rule: leadingInt.induct) (fastforce simp: Let_def split: option.splits if_splits)+

lemma leadingFraction_length: "length (snd (snd (leadingFraction x k b s))) \<le> length s"
  by (induction s arbitrary: x k b) (auto simp: Let_def le_SucI split: option.splits)

lemma fraction_part_length: "fraction_part s = (f, k, r, post) \<Longrightarrow> length r \<le> length s"
  using leadingFraction_length[of 0 0 False "tl s"] by (auto simp: fraction_part_def split: list.splits if_splits prod.splits)

lemma duration_term_length:
  assumes "duration_term s = Some (v, r)"
  shows "length r < length s"
proof -
  obtain v0 s1 f k s2 post where p: "leadingInt 0 s = Some (v0, s1)" "fraction_part s1 = (f, k, s2, post)"
    "takeWhile unit_char s2 \<noteq> []" "r = dropWhile unit_char s2"
    using assms by (auto simp: duration_term_def Let_def split: option.splits prod.splits if_splits)
  have "length (takeWhile unit_char s2) + length r = length s2" unfolding p(4) by (metis length_append takeWhile_dropWhile_id)
  then have "length r < length s2" using p(3) by (metis add.commute add_less_cancel_left less_add_same_cancel1 length_greater_0_conv)
  then show ?thesis using leadingInt_length[OF p(1)] fraction_part_length[OF p(2)] by simp
qed

function duration_terms :: "nat \<Rightarrow> string \<Rightarrow> nat option" where
  "duration_terms d s =
     (if s = [] then Some d else
      case duration_term s of
        None \<Rightarrow> None
      | Some (v, r) \<Rightarrow> let d = (d + v) mod 2 ^ 64 in if d > 2 ^ 63 then None else duration_terms d r)"
  by pat_completeness auto
termination
  by (relation "measure (\<lambda>(d, s). length s)") (auto dest: duration_term_length)

declare duration_terms.simps [simp del]

definition ParseDuration :: "string \<Rightarrow> int option" where
  "ParseDuration s =
     (let neg = (s \<noteq> [] \<and> hd s = CHR ''-'');
          s = (if s \<noteq> [] \<and> (hd s = CHR ''-'' \<or> hd s = CHR ''+'') then tl s else s)
      in if s = ''0'' then Some 0
         else if s = [] then None
         else case duration_terms 0 s of
           None \<Rightarrow> None
         | Some d \<Rightarrow> if neg then Some (- int d) else if d > 2 ^ 63 - 1 then None else Some (int d))"


section \<open>Reading what was printed\<close>

lemma parse_digits_mono: "parse_digits a s = Some n \<Longrightarrow> a \<le> n"
  by (induction a s rule: parse_digits.induct) (force split: option.splits)+

definition no_digit :: "string \<Rightarrow> bool" where
  "no_digit t \<longleftrightarrow> t = [] \<or> digit_val (hd t) = None"

lemma leadingInt_digits:
  assumes "parse_digits x ds = Some n" "n \<le> 2 ^ 63" "no_digit t"
  shows "leadingInt x (ds @ t) = Some (n, t)"
  using assms(1)
proof (induction ds arbitrary: x)
  case Nil
  then show ?case using assms(3) by (cases t) (auto simp: no_digit_def)
next
  case (Cons c ds)
  then obtain d where d: "digit_val c = Some d" "parse_digits (10 * x + d) ds = Some n" by (auto split: option.splits)
  then have "10 * x + d \<le> 2 ^ 63" using parse_digits_mono assms(2) by fastforce
  then show ?case using Cons.IH[of "10 * x + d"] d by (simp add: Let_def mult.commute)
qed

lemma leadingFraction_digits:
  assumes "parse_digits x ds = Some n" "n < 2 ^ 63" "no_digit t"
  shows "leadingFraction x k False (ds @ t) = (n, k + length ds, t)"
  using assms(1)
proof (induction ds arbitrary: x k)
  case Nil
  then show ?case using assms(3) by (cases t) (auto simp: no_digit_def)
next
  case (Cons c ds)
  then obtain d where d: "digit_val c = Some d" "parse_digits (10 * x + d) ds = Some n" by (auto split: option.splits)
  then have "10 * x + d < 2 ^ 63" using parse_digits_mono assms(2) by fastforce
  then show ?case using Cons.IH[of "10 * x + d" "k + 1"] d by (simp add: Let_def mult.commute)
qed

lemma parse_zeros: "parse_digits a (replicate j CHR ''0'') = Some (a * 10 ^ j)"
  by (induction j arbitrary: a) (simp_all add: digit_val_def)

lemma length_dec_nat: "n < 10 ^ Suc k \<Longrightarrow> length (dec_nat n) \<le> Suc k"
proof (induction k arbitrary: n)
  case 0
  then show ?case by (simp add: dec_nat.simps)
next
  case (Suc k)
  then show ?case by (subst dec_nat.simps) (auto simp: less_mult_imp_div_less mult.commute)
qed

text \<open>The digits of a fraction, the trailing zeros removed.\<close>

lemma frac_text_digits:
  assumes "0 < prec"
  obtains (none) "frac_text u prec = []" "u mod 10 ^ prec = 0"
  | (some) ds n j where "frac_text u prec = CHR ''.'' # ds" "parse_digits 0 ds = Some n" "ds \<noteq> []"
      "length ds + j = prec" "u mod 10 ^ prec = int n * 10 ^ j"
proof -
  let ?m = "nat (u mod 10 ^ prec)"
  let ?p = "replicate (prec - length (dec_nat ?m)) CHR ''0'' @ dec_nat ?m"
  define ds where "ds = rev (dropWhile (\<lambda>c. c = CHR ''0'') (rev ?p))"
  define j where "j = length (takeWhile (\<lambda>c. c = CHR ''0'') (rev ?p))"
  have m: "int ?m = u mod 10 ^ prec" "?m < 10 ^ prec" by (simp_all add: nat_less_iff)
  have len: "length ?p = prec" using length_dec_nat[of ?m "prec - 1"] m(2) assms by simp
  have "takeWhile (\<lambda>c. c = CHR ''0'') (rev ?p) = replicate j CHR ''0''"
    unfolding j_def by (metis (full_types) replicate_length_same set_takeWhileD)
  then have "rev ?p = replicate j CHR ''0'' @ rev ds" unfolding ds_def by (metis rev_rev_ident takeWhile_dropWhile_id)
  then have p: "?p = ds @ replicate j CHR ''0''" by (metis rev_append rev_replicate rev_rev_ident)
  have "parse_digits 0 ?p = Some ?m" by (simp add: parse_digits_append parse_zeros)
  then obtain n where n: "parse_digits 0 ds = Some n" "?m = n * 10 ^ j"
    unfolding p by (auto simp: parse_digits_append parse_zeros split: option.splits)
  have "\<not> u mod 10 ^ prec < 0" by (simp add: not_less)
  then have "Itoa (u mod 10 ^ prec) = dec_nat ?m" by (simp only: Itoa_def if_False)
  then have ft: "frac_text u prec = (if ds = [] then [] else CHR ''.'' # ds)"
    unfolding frac_text_def Let_def ds_def by (simp only: )
  have val: "u mod 10 ^ prec = int n * 10 ^ j" using n(2) m(1) by (metis of_nat_mult of_nat_numeral of_nat_power)
  show thesis
  proof (cases "ds = []")
    case True
    then show thesis using none ft val n(1) by simp
  next
    case False
    have "length ds + j = prec" using len unfolding p by simp
    then show thesis using some[of ds n j] ft False n(1) val by simp
  qed
qed


definition unit_name :: "string \<Rightarrow> bool" where
  "unit_name u \<longleftrightarrow> u \<noteq> [] \<and> list_all unit_char u"

definition no_unit :: "string \<Rightarrow> bool" where
  "no_unit r \<longleftrightarrow> r = [] \<or> \<not> unit_char (hd r)"

lemma unit_split:
  assumes "unit_name u" "no_unit r"
  shows "takeWhile unit_char (u @ r) = u" "dropWhile unit_char (u @ r) = r"
proof -
  have "takeWhile unit_char r = []" "dropWhile unit_char r = r" using assms(2) by (cases r; simp add: no_unit_def)+
  then show "takeWhile unit_char (u @ r) = u" "dropWhile unit_char (u @ r) = r"
    using assms(1) by (auto simp: unit_name_def list_all_iff takeWhile_append dropWhile_append)
qed

lemma unit_no_digit: "unit_name u \<Longrightarrow> no_digit (u @ r)"
  by (cases u) (auto simp: unit_name_def no_digit_def unit_char_def)

lemma dec_nat_hd: "\<not> unit_char (hd (dec_nat n @ s))"
  using dec_nat_Cons[of n] by (auto simp: unit_char_def)

lemma term_whole:
  assumes "unit_name u" "map_of unitMap u = Some m" "no_unit r" "n * m \<le> 2 ^ 63" "0 < m"
  shows "duration_term (dec_nat n @ u @ r) = Some (n * m, r)"
proof -
  have "n \<le> 2 ^ 63" using assms(4,5) by (metis le_trans mult.commute nat_mult_le_cancel_disj mult_le_mono1 One_nat_def Suc_leI mult_1 )
  then have "leadingInt 0 (dec_nat n @ u @ r) = Some (n, u @ r)" by (intro leadingInt_digits unit_no_digit assms(1)) simp_all
  moreover have "fraction_part (u @ r) = (0, 0, u @ r, False)"
    using assms(1) by (cases u) (auto simp: fraction_part_def unit_name_def unit_char_def)
  moreover have "n \<le> 2 ^ 63 div m" using assms(4,5) by (simp add: less_eq_div_iff_mult_less_eq)
  moreover have "u \<noteq> []" using assms(1) by (simp add: unit_name_def)
  ultimately show ?thesis
    using dec_nat_hd[of n "u @ r"] assms(2) unit_split[OF assms(1,3)] by (simp add: duration_term_def Let_def)
qed


lemma fl_of_nat: "n \<le> 2 ^ 53 \<Longrightarrow> fl (of_nat n) = of_nat n"
  using fl_of_int[of "int n"] by simp

lemma scaled_exact:
  assumes "n * 10 ^ j < (10 :: nat) ^ 9" "k + j \<le> 9"
  shows "trunc (fl (fl (of_nat n) * fl (fl (of_nat (10 ^ (k + j))) / 10 ^ k))) = int (n * 10 ^ j)"
proof -
  have ten: "(10 :: nat) ^ i \<le> 10 ^ 9" if "i \<le> 9" for i using that by (intro power_increasing) simp_all
  have small: "(10 :: nat) ^ 9 \<le> 2 ^ 53" by simp
  have "n \<le> n * 10 ^ j" by simp
  then have n: "fl (of_nat n) = of_nat n" using assms(1) small by (intro fl_of_nat) linarith
  have "fl (of_nat (10 ^ (k + j))) = of_nat (10 ^ (k + j))" using ten[OF assms(2)] small by (intro fl_of_nat) linarith
  then have "fl (of_nat (10 ^ (k + j))) / 10 ^ k = of_nat (10 ^ j)" by (simp add: power_add)
  moreover have "fl (of_nat (10 ^ j)) = of_nat (10 ^ j)" using ten[of j] assms(2) small by (intro fl_of_nat) linarith
  ultimately have "fl (fl (of_nat n) * fl (fl (of_nat (10 ^ (k + j))) / 10 ^ k)) = fl (of_nat (n * 10 ^ j))" using n by simp
  also have "\<dots> = of_int (int (n * 10 ^ j))" using fl_of_nat[of "n * 10 ^ j"] assms(1) small by simp
  finally show ?thesis by (simp only: trunc_of_int)
qed

lemma term_fraction:
  assumes "unit_name u" "map_of unitMap u = Some (10 ^ prec)" "0 < prec" "prec \<le> 9" "no_unit r"
    and "n * 10 ^ prec + nat (x mod 10 ^ prec) \<le> 2 ^ 63"
  shows "duration_term (dec_nat n @ frac_text x prec @ u @ r) = Some (n * 10 ^ prec + nat (x mod 10 ^ prec), r)"
proof (cases rule: frac_text_digits[OF assms(3), of x])
  case 1
  then show ?thesis using term_whole[OF assms(1,2,5)] assms(6) by simp
next
  case (2 ds f j)
  have prec: "prec = length ds + j" using 2(4) by simp
  have f: "nat (x mod 10 ^ prec) = f * 10 ^ j" using 2(5) by (metis nat_int of_nat_mult of_nat_numeral of_nat_power)
  have "x mod 10 ^ prec < 10 ^ prec" by simp
  also have "\<dots> \<le> 10 ^ 9" using assms(4) by (intro power_increasing) simp_all
  finally have f9: "f * 10 ^ j < 10 ^ 9" using f by (metis nat_less_numeral_power_cancel_iff)
  have "f \<le> f * 10 ^ j" by simp
  then have "f < 10 ^ 9" using f9 by linarith
  then have f63: "f < 2 ^ 63" by simp
  have "n \<le> n * 10 ^ prec" by simp
  then have "n \<le> 2 ^ 63" using assms(6) by linarith
  then have "leadingInt 0 (dec_nat n @ CHR ''.'' # ds @ u @ r) = Some (n, CHR ''.'' # ds @ u @ r)"
    by (intro leadingInt_digits) (simp_all add: no_digit_def digit_val_def)
  moreover have "fraction_part (CHR ''.'' # ds @ u @ r) = (f, length ds, u @ r, True)"
    using leadingFraction_digits[OF 2(2) f63 unit_no_digit[OF assms(1)], of 0 r] 2(3) by (simp add: fraction_part_def)
  moreover have "n \<le> 2 ^ 63 div 10 ^ prec" using assms(6) by (simp add: less_eq_div_iff_mult_less_eq)
  moreover have "u \<noteq> []" using assms(1) by (simp add: unit_name_def)
  moreover have "nat (trunc (fl (fl (of_nat f) * fl (fl (of_nat (10 ^ prec)) / 10 ^ length ds)))) = f * 10 ^ j"
    using scaled_exact[OF f9, of "length ds"] assms(4) unfolding prec by (simp only: nat_int)
  ultimately show ?thesis
    using dec_nat_hd[of n] assms(2,6) unit_split[OF assms(1,5)] 2(1) f by (simp add: duration_term_def Let_def)
qed


lemma units:
  "unit_name ''ns''" "unit_name ([CHR 0xC2, CHR 0xB5] @ ''s'')" "unit_name ''ms''" "unit_name ''s''" "unit_name ''m''" "unit_name ''h''"
  "map_of unitMap ''ns'' = Some 1" "map_of unitMap ([CHR 0xC2, CHR 0xB5] @ ''s'') = Some (10 ^ 3)" "map_of unitMap ''ms'' = Some (10 ^ 6)"
  "map_of unitMap ''s'' = Some (10 ^ 9)" "map_of unitMap ''m'' = Some (60 * 10 ^ 9)" "map_of unitMap ''h'' = Some (3600 * 10 ^ 9)"
  by (simp_all add: unit_name_def unit_char_def digit_val_def unitMap_def)

lemma no_unit_digits: "no_unit (dec_nat n @ s)"
  using dec_nat_hd by (simp add: no_unit_def)

lemma terms_step:
  assumes "s \<noteq> []" "duration_term s = Some (v, r)" "d + v \<le> 2 ^ 63"
  shows "duration_terms d s = duration_terms (d + v) r"
proof -
  have "(d + v) mod 2 ^ 64 = d + v" using assms(3) by simp
  then show ?thesis using assms by (subst duration_terms.simps) (simp add: Let_def)
qed

lemma terms_Nil: "duration_terms d [] = Some d"
  by (simp add: duration_terms.simps)

text \<open>The text of a positive number of nanoseconds is read back.\<close>

lemma terms_single:
  assumes "duration_term s = Some (v, [])" "s \<noteq> []" "v \<le> 2 ^ 63"
  shows "duration_terms 0 s = Some v"
  using terms_step[OF assms(2,1), of 0] assms(3) by (simp add: terms_Nil)

lemma split_seconds:
  fixes u :: nat
  shows "(u div 10 ^ 9 div 3600) * (3600 * 10 ^ 9) + ((u div 10 ^ 9) div 60 mod 60) * (60 * 10 ^ 9)
    + ((u div 10 ^ 9 mod 60) * 10 ^ 9 + u mod 10 ^ 9) = u"
proof -
  have sum: "h * (3600 * g) + m * (60 * g) + (t * g + r) = u" if "h * 60 + m = k" "k * 60 + t = s" "s * g + r = u" for h m t g r s k :: nat
    using that by (auto simp: algebra_simps)
  show ?thesis
  proof (rule sum)
    show "u div 10 ^ 9 div 3600 * 60 + u div 10 ^ 9 div 60 mod 60 = u div 10 ^ 9 div 60"
      using div_mult_mod_eq[of "u div 10 ^ 9 div 60" 60] by (simp add: div_mult2_eq[symmetric])
    show "u div 10 ^ 9 div 60 * 60 + u div 10 ^ 9 mod 60 = u div 10 ^ 9" "u div 10 ^ 9 * 10 ^ 9 + u mod 10 ^ 9 = u"
      by (rule div_mult_mod_eq)+
  qed
qed

text \<open>An optional leading term, for hours and minutes.\<close>

lemma terms_optional:
  assumes "\<And>e. e + x \<le> 2 ^ 63 \<Longrightarrow> duration_terms e rest = Some (e + x)" "no_unit rest"
    and "unit_name u" "map_of unitMap u = Some m" "0 < m" "c \<or> n = 0" "d + (n * m + x) \<le> 2 ^ 63"
  shows "duration_terms d ((if c then dec_nat n @ u else []) @ rest) = Some (d + (n * m + x))"
proof (cases c)
  case True
  have b: "n * m \<le> 2 ^ 63" "d + n * m \<le> 2 ^ 63" "(d + n * m) + x \<le> 2 ^ 63" using assms(7) by linarith+
  have "dec_nat n @ u @ rest \<noteq> []" by simp
  from terms_step[OF this term_whole[OF assms(3,4,2) b(1) assms(5)] b(2)]
  have "duration_terms d (dec_nat n @ u @ rest) = Some ((d + n * m) + x)" using assms(1)[OF b(3)] by simp
  then show ?thesis using True by (simp add: add.assoc)
next
  case False
  then show ?thesis using assms(1)[of d] assms(6,7) by simp
qed

lemma terms_seconds:
  assumes "u \<le> (2 :: nat) ^ 63"
  shows "duration_terms 0 ((if 3600 \<le> u div 10 ^ 9 then dec_nat (u div 10 ^ 9 div 3600) @ ''h'' else []) @
      (if 60 \<le> u div 10 ^ 9 then dec_nat (u div 10 ^ 9 div 60 mod 60) @ ''m'' else []) @
      dec_nat (u div 10 ^ 9 mod 60) @ frac_text (int u) 9 @ ''s'') = Some u"
proof -
  define s where "s = u div 10 ^ 9"
  define x where "x = (s mod 60) * 10 ^ 9 + u mod 10 ^ 9"
  let ?ts = "dec_nat (s mod 60) @ frac_text (int u) 9 @ ''s''"
  let ?tm = "(if 60 \<le> s then dec_nat (s div 60 mod 60) @ ''m'' else []) @ ?ts"
  have sum: "s div 3600 * (3600 * 10 ^ 9) + ((s div 60 mod 60) * (60 * 10 ^ 9) + x) = u"
    unfolding s_def x_def using split_seconds[of u] by (simp only: add.assoc)
  have mod9: "nat (int u mod 10 ^ 9) = u mod 10 ^ 9" by (metis nat_int of_nat_mod of_nat_numeral of_nat_power)
  have "x \<le> 2 ^ 63" using sum assms by linarith
  then have x: "duration_term ?ts = Some (x, [])"
    using term_fraction[OF units(4,10), of "[]" "s mod 60" "int u", unfolded mod9] by (simp add: no_unit_def x_def)
  have 3: "duration_terms e ?ts = Some (e + x)" if "e + x \<le> 2 ^ 63" for e
    using terms_step[OF _ x that] by (simp add: terms_Nil)
  have 2: "duration_terms e ?tm = Some (e + ((s div 60 mod 60) * (60 * 10 ^ 9) + x))"
    if "e + ((s div 60 mod 60) * (60 * 10 ^ 9) + x) \<le> 2 ^ 63" for e
    by (rule terms_optional[OF 3 no_unit_digits units(5,11) _ _ that]) auto
  have nu: "no_unit ?tm" using no_unit_digits by simp
  have "duration_terms 0 ((if 3600 \<le> s then dec_nat (s div 3600) @ ''h'' else []) @ ?tm) =
      Some (0 + (s div 3600 * (3600 * 10 ^ 9) + ((s div 60 mod 60) * (60 * 10 ^ 9) + x)))"
    by (rule terms_optional[OF 2 nu units(6,12)]) (use sum assms in auto)
  then show ?thesis unfolding sum unfolding s_def by (simp only: add_0)
qed


text \<open>Everything after the sign.\<close>

definition duration_text :: "nat \<Rightarrow> string" where
  "duration_text u = Duration_String (int u)"

lemma terms_duration_text:
  assumes "u \<le> 2 ^ 63"
  shows "duration_terms 0 (duration_text u) = Some u"
proof -
  have mod: "nat (int u mod 10 ^ k) = u mod 10 ^ k" for k by (metis nat_int of_nat_mod of_nat_numeral of_nat_power)
  have Ito: "Itoa (int n) = dec_nat n" for n by (simp add: Itoa_def)
  have div: "int u div 10 ^ k = int (u div 10 ^ k)" for k by (simp add: zdiv_int)
  consider "u = 0" | "0 < u" "u < 10 ^ 3" | "10 ^ 3 \<le> u" "u < 10 ^ 6" | "10 ^ 6 \<le> u" "u < 10 ^ 9" | "10 ^ 9 \<le> u" by linarith
  then show ?thesis
  proof cases
    case 1
    have "duration_term (dec_nat 0 @ ''s'' @ []) = Some (0 * 10 ^ 9, [])" by (rule term_whole[OF units(4,10)]) (simp_all add: no_unit_def)
    moreover have "dec_nat 0 = ''0''" by code_simp
    ultimately have "duration_term ''0s'' = Some (0, [])" by simp
    from terms_single[OF this] 1 show ?thesis by (simp add: duration_text_def Duration_String_def)
  next
    case 2
    then have "duration_term (dec_nat u @ ''ns'' @ []) = Some (u * 1, [])"
      using assms by (intro term_whole units) (simp_all add: no_unit_def)
    from terms_single[OF this] 2 show ?thesis by (simp add: duration_text_def Duration_String_def Let_def Ito)
  next
    case 3
    then have "duration_term (dec_nat (u div 10 ^ 3) @ frac_text (int u) 3 @ ([CHR 0xC2, CHR 0xB5] @ ''s'') @ []) =
        Some (u div 10 ^ 3 * 10 ^ 3 + nat (int u mod 10 ^ 3), [])"
      using assms by (intro term_fraction units) (simp_all add: no_unit_def mod[of 3, simplified])
    then have "duration_term (dec_nat (u div 10 ^ 3) @ frac_text (int u) 3 @ ([CHR 0xC2, CHR 0xB5] @ ''s'') @ []) = Some (u, [])"
      unfolding mod by (simp only: div_mult_mod_eq)
    from terms_single[OF this] 3 show ?thesis
      using div[of 3] assms by (simp add: duration_text_def Duration_String_def Let_def Ito)
  next
    case 4
    then have "duration_term (dec_nat (u div 10 ^ 6) @ frac_text (int u) 6 @ ''ms'' @ []) =
        Some (u div 10 ^ 6 * 10 ^ 6 + nat (int u mod 10 ^ 6), [])"
      using assms by (intro term_fraction units) (simp_all add: no_unit_def mod[of 6, simplified])
    then have "duration_term (dec_nat (u div 10 ^ 6) @ frac_text (int u) 6 @ ''ms'' @ []) = Some (u, [])"
      unfolding mod by (simp only: div_mult_mod_eq)
    from terms_single[OF this] 4 show ?thesis
      using div[of 6] assms by (simp add: duration_text_def Duration_String_def Let_def Ito)
  next
    case 5
    have cmp: "(3600 \<le> int u div 10 ^ 9) = (3600 \<le> u div 10 ^ 9)" "(60 \<le> int u div 10 ^ 9) = (60 \<le> u div 10 ^ 9)"
      unfolding div by linarith+
    have ds: "int u div 10 ^ 9 div 3600 = int (u div 10 ^ 9 div 3600)" "int u div 10 ^ 9 div 60 mod 60 = int (u div 10 ^ 9 div 60 mod 60)"
      "int u div 10 ^ 9 mod 60 = int (u div 10 ^ 9 mod 60)"
      unfolding div by (simp_all add: zdiv_int zmod_int)
    have "duration_text u = (if 3600 \<le> u div 10 ^ 9 then dec_nat (u div 10 ^ 9 div 3600) @ ''h'' else []) @
      (if 60 \<le> u div 10 ^ 9 then dec_nat (u div 10 ^ 9 div 60 mod 60) @ ''m'' else []) @
      dec_nat (u div 10 ^ 9 mod 60) @ frac_text (int u) 9 @ ''s''"
    proof -
      have c: "\<not> int u < 0" "int u \<noteq> 0" "\<not> int u < 1000" "\<not> int u < 10 ^ 6" "\<not> int u < 10 ^ 9" using 5 by simp_all
      show ?thesis
        unfolding duration_text_def Duration_String_def Let_def abs_of_nat
        by (simp only: c if_False if_True append_Nil cmp ds Ito)
    qed
    then show ?thesis using terms_seconds[OF assms] by simp
  qed
qed


lemma duration_text_start: "duration_text u \<noteq> []" "duration_text u \<noteq> ''0''"
proof -
  have "\<exists>p. duration_text u = p @ ''s''"
    unfolding duration_text_def Duration_String_def Let_def by (auto intro: exI[of _ "_ @ _"])
  then show "duration_text u \<noteq> []" "duration_text u \<noteq> ''0''" by auto
qed

theorem ParseDuration_String: "in_int64 d \<Longrightarrow> ParseDuration (Duration_String d) = Some d"
proof -
  assume d: "in_int64 d"
  define u where "u = nat \<bar>d\<bar>"
  let ?t = "duration_text u"
  have u: "u \<le> 2 ^ 63" "int u = \<bar>d\<bar>" using d by (auto simp: in_int64_def u_def)
  have str: "Duration_String d = (if d < 0 then ''-'' else []) @ ?t"
    by (simp add: duration_text_def u(2) Duration_String_def Let_def)
  note terms = terms_duration_text[OF u(1)]
  have "\<not> unit_char (hd ?t)"
  proof
    assume "unit_char (hd ?t)"
    then have "duration_term ?t = None" by (simp add: duration_term_def)
    then show False using terms duration_text_start(1) by (subst (asm) duration_terms.simps) simp
  qed
  then have hd: "hd ?t \<noteq> CHR ''-''" "hd ?t \<noteq> CHR ''+''" by (auto simp: unit_char_def digit_val_def)
  show ?thesis
  proof (cases "d < 0")
    case True
    then have "int u = - d" using u(2) by simp
    then show ?thesis using True str terms duration_text_start by (simp add: ParseDuration_def)
  next
    case False
    then have "int u = d" "\<not> u > 2 ^ 63 - 1" using u(2) d by (auto simp: in_int64_def)
    then show ?thesis using False str terms duration_text_start hd by (simp add: ParseDuration_def)
  qed
qed

end
