(* ===== verification/ConfigLoad.thy ===== *)
theory ConfigLoad
  imports Agent Autoscale Ingress Duration
begin

text \<open>
  \<open>internal/config/config.go\<close>: the configuration that every process reads from its environment, and \<open>run\<close> of
  \<open>cmd/api-server/main.go\<close>, which hands it to the controllers.
\<close>


section \<open>Reading the environment\<close>

record Config = AgentConfig +
  cfg_Port :: string
  cfg_ReconcileInterval :: int
  cfg_AutoscaleInterval :: int
  cfg_ScaleUpCooldown :: int
  cfg_ScaleDownCooldown :: int
  cfg_IngressDebounce :: int
  cfg_IngressConfigPath :: string

definition env_text :: "(string \<Rightarrow> string) \<Rightarrow> string \<Rightarrow> string \<Rightarrow> string" where
  "env_text getenv key fallback = (let v = getenv key in if v \<noteq> [] then v else fallback)"

definition envDuration :: "(string \<Rightarrow> string) \<Rightarrow> string \<Rightarrow> int \<Rightarrow> int" where
  "envDuration getenv key fallback =
     (let v = getenv key in
      if v = [] then fallback else case ParseDuration v of None \<Rightarrow> fallback | Some d \<Rightarrow> d)"

definition envInt :: "(string \<Rightarrow> string) \<Rightarrow> string \<Rightarrow> int \<Rightarrow> int" where
  "envInt getenv key fallback =
     (let v = getenv key in
      if v = [] then fallback else case Atoi v of None \<Rightarrow> fallback | Some n \<Rightarrow> n)"

definition hostname :: "error + string \<Rightarrow> string" where
  "hostname h = (case h of Inl e \<Rightarrow> ''unknown'' | Inr name \<Rightarrow> name)"

definition Load :: "(string \<Rightarrow> string) \<Rightarrow> error + string \<Rightarrow> Config" where
  "Load getenv h =
     \<lparr>cfg_NodeID = env_text getenv ''NODE_ID'' (hostname h),
      cfg_TotalCPU = envInt getenv ''TOTAL_CPU'' 1000,
      cfg_TotalMem = envInt getenv ''TOTAL_MEM'' 1024,
      cfg_HeartbeatInterval = envDuration getenv ''HEARTBEAT_INTERVAL'' (3 * 10 ^ 9),
      cfg_LeaseTTL = envDuration getenv ''LEASE_TTL'' (10 * 10 ^ 9),
      cfg_RedisAddr = env_text getenv ''REDIS_ADDR'' ''localhost:6379'',
      cfg_HealthCheckInterval = envDuration getenv ''HEALTH_CHECK_INTERVAL'' (5 * 10 ^ 9),
      cfg_FailureThreshold = envInt getenv ''FAILURE_THRESHOLD'' 3,
      cfg_BackoffBase = envDuration getenv ''BACKOFF_BASE'' (10 ^ 9),
      cfg_BackoffMax = envDuration getenv ''BACKOFF_MAX'' (30 * 10 ^ 9),
      cfg_Port = env_text getenv ''PORT'' ''8080'',
      cfg_ReconcileInterval = envDuration getenv ''RECONCILE_INTERVAL'' (10 * 10 ^ 9),
      cfg_AutoscaleInterval = envDuration getenv ''AUTOSCALE_INTERVAL'' (15 * 10 ^ 9),
      cfg_ScaleUpCooldown = envDuration getenv ''SCALE_UP_COOLDOWN'' (30 * 10 ^ 9),
      cfg_ScaleDownCooldown = envDuration getenv ''SCALE_DOWN_COOLDOWN'' (180 * 10 ^ 9),
      cfg_IngressDebounce = envDuration getenv ''INGRESS_DEBOUNCE'' (2 * 10 ^ 9),
      cfg_IngressConfigPath = env_text getenv ''INGRESS_CONFIG_PATH'' ''/tmp/mini-k8s-upstreams.conf''\<rparr>"


section \<open>The control plane process\<close>

abbreviation (input) DefaultSweepInterval :: int where "DefaultSweepInterval \<equiv> 10 * 10 ^ 9"

definition NewReplicaController :: "int \<Rightarrow> int" where
  "NewReplicaController sweepInterval = (if sweepInterval \<le> 0 then DefaultSweepInterval else sweepInterval)"

definition NewHealthController :: "int \<Rightarrow> int" where
  "NewHealthController sweepInterval = (if sweepInterval \<le> 0 then DefaultSweepInterval else sweepInterval)"

definition autoscale_config :: "Config \<Rightarrow> AutoscaleConfig" where
  "autoscale_config cfg = \<lparr>as_Interval = cfg_AutoscaleInterval cfg, as_ScaleUpCooldown = cfg_ScaleUpCooldown cfg,
     as_ScaleDownCooldown = cfg_ScaleDownCooldown cfg\<rparr>"

definition ingress_config :: "Config \<Rightarrow> IngressConfig" where
  "ingress_config cfg = \<lparr>ic_ConfigPath = cfg_IngressConfigPath cfg, ic_ReloadCommand = [], ic_Debounce = cfg_IngressDebounce cfg,
     ic_ResyncInterval = cfg_ReconcileInterval cfg\<rparr>"

definition bind_address :: "(string \<Rightarrow> string) \<Rightarrow> string" where
  "bind_address getenv = (let bindAddr = getenv ''BIND_ADDR'' in if bindAddr = [] then ''127.0.0.1'' else bindAddr)"

text \<open>\<open>net.JoinHostPort\<close>.\<close>

definition JoinHostPort :: "string \<Rightarrow> string \<Rightarrow> string" where
  "JoinHostPort host port = (if CHR '':'' \<in> set host then ''['' @ host @ '']:'' @ port else host @ '':'' @ port)"

text \<open>How serving ends: the server returns, with an error unless it was closed, or the process is told to stop and the
  server shuts down.\<close>

datatype ending = Returned "error option" | Told "error option"

text \<open>From the first message on; the controllers and the handlers that run in between are steps of their own.\<close>

definition api_run ::
  "('db, 'e) env_scheme \<Rightarrow> Logger \<Rightarrow> (string \<Rightarrow> string) \<Rightarrow> Config \<Rightarrow> ending \<Rightarrow> (('db, 'm) world_scheme, unit) fallible"
where
  "api_run E l getenv cfg finish = do {
     let bindAddr = bind_address getenv;
     let addr = JoinHostPort bindAddr (cfg_Port cfg);
     Info E l ''component_started''
       (Sprintf ''api-server listening on %s, redis=%s, reconcile every %s''
          [ArgS addr, ArgS (cfg_RedisAddr cfg), ArgS (Duration_String (cfg_ReconcileInterval cfg))]) [];
     (if bindAddr \<noteq> ''127.0.0.1'' \<and> bindAddr \<noteq> ''localhost'' then
        Warn E l ''api_exposed_beyond_loopback''
          (Sprintf ''bound to %s: this API is unauthenticated and runs exec_path on workers'' [ArgS bindAddr]) []
      else State_Monad.return ());
     case finish of
       Returned (Some err) \<Rightarrow> throw (Errorf ''serve http: %w'' [ArgE err])
     | Returned None \<Rightarrow> ok ()
     | Told (Some err) \<Rightarrow> throw (Errorf ''shutdown http server: %w'' [ArgE err])
     | Told None \<Rightarrow> do { Info E l ''component_stopped'' ''api-server stopped'' []; ok () } }"


section \<open>What is written is what is read\<close>

text \<open>The environment that spells out a configuration, durations in Go's notation.\<close>

definition environment_of :: "Config \<Rightarrow> string \<Rightarrow> string" where
  "environment_of cfg key =
     (case map_of
        [(''NODE_ID'', cfg_NodeID cfg), (''PORT'', cfg_Port cfg), (''REDIS_ADDR'', cfg_RedisAddr cfg),
         (''HEARTBEAT_INTERVAL'', Duration_String (cfg_HeartbeatInterval cfg)), (''LEASE_TTL'', Duration_String (cfg_LeaseTTL cfg)),
         (''RECONCILE_INTERVAL'', Duration_String (cfg_ReconcileInterval cfg)),
         (''HEALTH_CHECK_INTERVAL'', Duration_String (cfg_HealthCheckInterval cfg)),
         (''FAILURE_THRESHOLD'', Itoa (cfg_FailureThreshold cfg)),
         (''BACKOFF_BASE'', Duration_String (cfg_BackoffBase cfg)), (''BACKOFF_MAX'', Duration_String (cfg_BackoffMax cfg)),
         (''AUTOSCALE_INTERVAL'', Duration_String (cfg_AutoscaleInterval cfg)),
         (''SCALE_UP_COOLDOWN'', Duration_String (cfg_ScaleUpCooldown cfg)), (''SCALE_DOWN_COOLDOWN'', Duration_String (cfg_ScaleDownCooldown cfg)),
         (''INGRESS_DEBOUNCE'', Duration_String (cfg_IngressDebounce cfg)), (''INGRESS_CONFIG_PATH'', cfg_IngressConfigPath cfg),
         (''TOTAL_CPU'', Itoa (cfg_TotalCPU cfg)), (''TOTAL_MEM'', Itoa (cfg_TotalMem cfg))] key of
        None \<Rightarrow> [] | Some v \<Rightarrow> v)"

definition config_typed :: "Config \<Rightarrow> bool" where
  "config_typed cfg \<longleftrightarrow>
     list_all (\<lambda>s. s \<noteq> []) [cfg_NodeID cfg, cfg_Port cfg, cfg_RedisAddr cfg, cfg_IngressConfigPath cfg] \<and>
     list_all in_int64 [cfg_HeartbeatInterval cfg, cfg_LeaseTTL cfg, cfg_ReconcileInterval cfg, cfg_HealthCheckInterval cfg,
       cfg_FailureThreshold cfg, cfg_BackoffBase cfg, cfg_BackoffMax cfg, cfg_AutoscaleInterval cfg, cfg_ScaleUpCooldown cfg,
       cfg_ScaleDownCooldown cfg, cfg_IngressDebounce cfg, cfg_TotalCPU cfg, cfg_TotalMem cfg]"

lemma Duration_String_nonempty: "Duration_String d \<noteq> []"
  by (simp add: Duration_String_def Let_def)

lemma envDuration_printed: "getenv key = Duration_String d \<Longrightarrow> in_int64 d \<Longrightarrow> envDuration getenv key fallback = d"
  by (simp add: envDuration_def Duration_String_nonempty ParseDuration_String)

lemma envInt_printed: "getenv key = Itoa n \<Longrightarrow> in_int64 n \<Longrightarrow> envInt getenv key fallback = n"
  by (simp add: envInt_def Itoa_not_Nil)

text \<open>C19. The configuration can be written down and read back: an environment that spells out a configuration, with numbers in
  decimal and durations as Go prints them, down to the nanosecond, is loaded as exactly that configuration,
  whatever the host name is.\<close>

theorem Load_roundtrip:
  assumes "config_typed cfg"
  shows "Load (environment_of cfg) h = cfg"
proof -
  have "env_text (environment_of cfg) key fallback = v" if "environment_of cfg key = v" "v \<noteq> []" for key v fallback
    using that by (simp add: env_text_def)
  then show ?thesis
    using assms envDuration_printed envInt_printed
    by (simp add: Load_def config_typed_def environment_of_def)
qed

theorem Load_roundtrip_witness:
  "\<exists>cfg. cfg_LeaseTTL cfg = 5400 * 10 ^ 9 + 1500 \<and> cfg_HeartbeatInterval cfg = - 1 \<and> Load (environment_of cfg) (Inl RedisNil) = cfg"
proof -
  define cfg where "cfg = (Load (\<lambda>_. []) (Inl RedisNil))\<lparr>cfg_LeaseTTL := 5400 * 10 ^ 9 + 1500, cfg_HeartbeatInterval := - 1\<rparr>"
  have "config_typed cfg"
    by (simp add: cfg_def config_typed_def Load_def env_text_def envDuration_def envInt_def hostname_def in_int64_def)
  from Load_roundtrip[OF this, of "Inl RedisNil"] show ?thesis by (intro exI[of _ cfg]) (simp add: cfg_def)
qed

text \<open>With nothing set every guard accepts the configuration, and the fallbacks that the components have of their own are the same
  values, except that the ingress resyncs at the interval of the sweep and not at its own fallback.\<close>

theorem Load_defaults:
  fixes h :: "error + string"
  defines "cfg \<equiv> Load (\<lambda>_. []) h"
  shows "(\<exists>r. NewRegistrar (NodeConfig.truncate cfg) = Inr r) \<and>
    NewAutoscaler \<lparr>as_Interval = 0, as_ScaleUpCooldown = 0, as_ScaleDownCooldown = 0\<rparr> = autoscale_config cfg \<and>
    NewReplicaController 0 = cfg_ReconcileInterval cfg \<and> NewHealthController 0 = cfg_ReconcileInterval cfg \<and>
    health_defaults \<lparr>h_Interval = 0, h_FailureThreshold = 0, h_BackoffBase = 0, h_BackoffMax = 0\<rparr> = health_config (AgentConfig.truncate cfg) \<and>
    (ct_cfg (NewController l \<lparr>ic_ConfigPath = [], ic_ReloadCommand = [], ic_Debounce = 0, ic_ResyncInterval = 0\<rparr>))\<lparr>ic_ResyncInterval := 10 * 10 ^ 9\<rparr> =
      ct_cfg (NewController l (ingress_config cfg))"
  by (simp add: cfg_def Load_def env_text_def envDuration_def envInt_def NodeConfig.truncate_def AgentConfig.truncate_def NewRegistrar_def
      NewAutoscaler_def autoscale_config_def NewReplicaController_def NewHealthController_def health_defaults_def health_config_def
      NewController_def ingress_config_def in_int64_def i64_def)


section \<open>Accounting\<close>

context cluster
begin

lemma keeps_api_run: "keeps J (api_run E l getenv cfg finish)"
proof -
  have "keeps J (case finish of
       Returned (Some err) \<Rightarrow> throw (Errorf ''serve http: %w'' [ArgE err])
     | Returned None \<Rightarrow> ok ()
     | Told (Some err) \<Rightarrow> throw (Errorf ''shutdown http server: %w'' [ArgE err])
     | Told None \<Rightarrow> do { Info E l ''component_stopped'' ''api-server stopped'' []; ok () })"
    by (cases finish; simp split: option.split) (intro conjI impI allI keeps_intros; simp)+
  then show ?thesis unfolding api_run_def Let_def by (intro keeps_intros) simp_all
qed

end

end
