(* ===== verification/Api.thy ===== *)
theory Api
  imports Replica
begin

text \<open>
  \<open>internal/api/validate.go\<close> and \<open>internal/api/store.go\<close>: the checks on a deployment request and the store of
  deployment specs. The request handlers are in the theory \<open>ApiServer\<close>.
\<close>


section \<open>Validation\<close>

abbreviation (input) maxNameLength :: int where "maxNameLength \<equiv> 63"
abbreviation (input) maxReplicaCount :: int where "maxReplicaCount \<equiv> 100"
abbreviation (input) maxCPURequest :: int where "maxCPURequest \<equiv> 8000"
abbreviation (input) maxMemRequest :: int where "maxMemRequest \<equiv> 65536"
abbreviation (input) minPort :: int where "minPort \<equiv> 1"
abbreviation (input) maxPort :: int where "maxPort \<equiv> 65535"

text \<open>The regular expression \<open>^[a-z0-9]([-a-z0-9]*[a-z0-9])?$\<close>.\<close>

definition label_char :: "char \<Rightarrow> bool" where
  "label_char c \<longleftrightarrow> (let n = (of_char c :: nat) in 97 \<le> n \<and> n \<le> 122 \<or> 48 \<le> n \<and> n \<le> 57)"

definition deploymentNamePattern :: "string \<Rightarrow> bool" where
  "deploymentNamePattern s \<longleftrightarrow>
     (case s of
        [] \<Rightarrow> False
      | c # cs \<Rightarrow> label_char c \<and>
          (cs = [] \<or> list_all (\<lambda>c. c = CHR ''-'' \<or> label_char c) (butlast cs) \<and> label_char (last cs)))"

text \<open>A pointer field that is absent from the request is \<open>None\<close>.\<close>

record DeploymentRequest =
  rq_Name :: string
  rq_MinReplicas :: "int option"
  rq_MaxReplicas :: "int option"
  rq_TargetCPUPercent :: "int option"
  rq_CPURequest :: "int option"
  rq_MemRequest :: "int option"
  rq_ExecPath :: string
  rq_Port :: "int option"

record ValidationError =
  ve_Problems :: "string list"

text \<open>The problems so far are threaded through, as the source does with its pointer to the slice.\<close>

definition requireInt :: "string list \<Rightarrow> string \<Rightarrow> int option \<Rightarrow> int \<Rightarrow> int \<Rightarrow> string list \<times> int \<times> bool" where
  "requireInt problems field value lo hi =
     (case value of
        None \<Rightarrow> (problems @ [Sprintf ''%s is required'' [ArgS field]], 0, False)
      | Some v \<Rightarrow>
          if v < lo \<or> v > hi then
            (problems @ [Sprintf ''%s must be between %d and %d (got %d)'' [ArgS field, ArgD lo, ArgD hi, ArgD v]], v, False)
          else (problems, v, True))"

definition Validate :: "DeploymentRequest \<Rightarrow> ValidationError option" where
  "Validate r =
     (let name = TrimSpace (rq_Name r);
          problems =
            (if name = [] then [''name is required'']
             else if int (length name) > maxNameLength then [Sprintf ''name must be at most %d characters'' [ArgD maxNameLength]]
             else if \<not> deploymentNamePattern name then
               [''name must be lowercase alphanumeric with internal hyphens (e.g. payment-api)'']
             else []);
          execPath = TrimSpace (rq_ExecPath r);
          problems =
            (if execPath = [] then problems @ [''exec_path is required'']
             else if \<not> HasPrefix execPath ''/'' then problems @ [''exec_path must be an absolute path'']
             else problems);
          (problems, minReplicas, ok1) = requireInt problems ''min_replicas'' (rq_MinReplicas r) 1 maxReplicaCount;
          (problems, maxReplicas, ok2) = requireInt problems ''max_replicas'' (rq_MaxReplicas r) 1 maxReplicaCount;
          problems =
            (if ok1 \<and> ok2 \<and> minReplicas > maxReplicas then
               problems @ [Sprintf ''min_replicas (%d) must not exceed max_replicas (%d)'' [ArgD minReplicas, ArgD maxReplicas]]
             else problems);
          problems = fst (requireInt problems ''target_cpu_percentage'' (rq_TargetCPUPercent r) 1 100);
          problems = fst (requireInt problems ''cpu_request'' (rq_CPURequest r) 1 maxCPURequest);
          problems = fst (requireInt problems ''mem_request'' (rq_MemRequest r) 1 maxMemRequest);
          problems = fst (requireInt problems ''port'' (rq_Port r) minPort maxPort)
      in if problems \<noteq> [] then Some \<lparr>ve_Problems = problems\<rparr> else None)"


section \<open>The store\<close>

text \<open>\<open>Get\<close> returns the deployment, whether it exists, and an error.\<close>

definition Get ::
  "('db, 'e) env_scheme \<Rightarrow> string \<Rightarrow> (('db, 'm) world_scheme, DeploymentSpec option \<times> bool \<times> error option) state"
where
  "Get E name =
     on_error (HashGet E (DeploymentKey name))
       (\<lambda>e. State_Monad.return (None, False, Some (Errorf ''read deployment %s: %w'' [ArgS name, ArgE e])))
       (\<lambda>fs.
         if fs = [] then State_Monad.return (None, False, None) else
         case MapToDeployment fs of
           Inl e \<Rightarrow> State_Monad.return (None, True, Some (Errorf ''deployment %s is malformed: %w'' [ArgS name, ArgE e]))
         | Inr dep \<Rightarrow> State_Monad.return (Some dep, True, None))"

definition List_body where
  "List_body E key deployments = do {
     r \<leftarrow> Get E (TrimPrefix key ''deployment:'');
     case r of
       (dep, found, Some e) \<Rightarrow> State_Monad.return (Next deployments)
     | (Some dep, True, None) \<Rightarrow> State_Monad.return (Next (deployments @ [dep]))
     | _ \<Rightarrow> State_Monad.return (Next deployments) }"

text \<open>\<open>sort.Slice\<close> leaves the order of deployments with equal names open; here they keep the order in
  which they were read.\<close>

definition List ::
  "('db, 'e) env_scheme \<Rightarrow> (('db, 'm) world_scheme, DeploymentSpec list) fallible"
where
  "List E =
     on_error (ScanKeys E DeploymentKeyPattern)
       (\<lambda>e. throw (Errorf ''scan deployments: %w'' [ArgE e]))
       (\<lambda>keys. loop (List_body E) keys []
          (\<lambda>deployments. ok (sort_stable (\<lambda>a b. d_Name a < d_Name b) deployments)))"

definition clamp :: "int \<Rightarrow> int \<Rightarrow> int \<Rightarrow> int" where
  "clamp v lo hi = (if v < lo then lo else if v > hi then hi else v)"

text \<open>The run-time panic of a dereferenced nil pointer ends the call.\<close>

definition nil_dereference :: error where
  "nil_dereference = Errorf ''runtime error: invalid memory address or nil pointer dereference'' []"

text \<open>The deployment that \<open>Apply\<close> writes, given the one it found, if any.\<close>

definition apply_request :: "DeploymentRequest \<Rightarrow> DeploymentSpec option \<Rightarrow> int \<Rightarrow> DeploymentSpec option" where
  "apply_request req existing now =
     (case (rq_MinReplicas req, rq_MaxReplicas req, rq_TargetCPUPercent req, rq_CPURequest req, rq_MemRequest req, rq_Port req) of
        (Some minR, Some maxR, Some target, Some cpu, Some mem, Some port) \<Rightarrow>
          Some \<lparr>d_Name = TrimSpace (rq_Name req), d_MinReplicas = minR, d_MaxReplicas = maxR, d_CPURequest = cpu, d_MemRequest = mem,
            d_DesiredReplicas = (case existing of Some old \<Rightarrow> clamp (d_DesiredReplicas old) minR maxR | None \<Rightarrow> minR),
            d_TargetCPUPercent = target, d_ExecPath = TrimSpace (rq_ExecPath req), d_Port = port,
            d_CreatedAt = (case existing of Some old \<Rightarrow> d_CreatedAt old | None \<Rightarrow> Itoa now),
            d_LastScaleUpAt = (case existing of Some old \<Rightarrow> d_LastScaleUpAt old | None \<Rightarrow> []),
            d_LastScaleDownAt = (case existing of Some old \<Rightarrow> d_LastScaleDownAt old | None \<Rightarrow> [])\<rparr>
      | _ \<Rightarrow> None)"

text \<open>The clock is read only for a deployment that did not exist. The result is the deployment, whether it
  existed, and an error.\<close>

definition Apply ::
  "('db, 'e) env_scheme \<Rightarrow> DeploymentRequest \<Rightarrow>
   (('db, 'm) world_scheme, DeploymentSpec option \<times> bool \<times> error option) state"
where
  "Apply E req = do {
     let name = TrimSpace (rq_Name req);
     (found, existed0, err) \<leftarrow> Get E name;
     if err \<noteq> None \<and> \<not> existed0 then State_Monad.return (None, False, err)
     else do {
       let existing = (if err \<noteq> None then None else found);
       let existed = (err = None \<and> existed0);
       now \<leftarrow> (if existing = None then now_unix E else State_Monad.return 0);
       case apply_request req existing now of
         None \<Rightarrow> State_Monad.return (None, existed, Some nil_dereference)
       | Some dep \<Rightarrow>
           on_error (HashSet E (DeploymentKey name) (DeploymentToMap dep))
             (\<lambda>e. State_Monad.return (None, existed, Some (Errorf ''write deployment %s: %w'' [ArgS name, ArgE e])))
             (\<lambda>_. State_Monad.return (Some dep, existed, None)) } }"

definition SetDesiredReplicas ::
  "('db, 'e) env_scheme \<Rightarrow> string \<Rightarrow> int \<Rightarrow> (('db, 'm) world_scheme, DeploymentSpec) fallible"
where
  "SetDesiredReplicas E name desired = do {
     r \<leftarrow> Get E name;
     case r of
       (_, _, Some e) \<Rightarrow> throw e
     | (Some dep, True, None) \<Rightarrow>
         let dep' = dep\<lparr>d_DesiredReplicas := clamp desired (d_MinReplicas dep) (d_MaxReplicas dep)\<rparr> in
         on_error (HashSet E (DeploymentKey name) [(FieldDesiredReplicas, VInt (d_DesiredReplicas dep'))])
           (\<lambda>e. throw (Errorf ''update desired replicas for %s: %w'' [ArgS name, ArgE e]))
           (\<lambda>_. ok dep')
     | _ \<Rightarrow> throw (Errorf ''deployment %s not found'' [ArgS name]) }"


section \<open>What validation accepts\<close>

definition in_bounds :: "int option \<Rightarrow> int \<Rightarrow> int \<Rightarrow> bool" where
  "in_bounds v lo hi \<longleftrightarrow> (\<exists>n. v = Some n \<and> lo \<le> n \<and> n \<le> hi)"

definition valid_request :: "DeploymentRequest \<Rightarrow> bool" where
  "valid_request r \<longleftrightarrow>
     length (TrimSpace (rq_Name r)) \<le> 63 \<and> deploymentNamePattern (TrimSpace (rq_Name r)) \<and>
     HasPrefix (TrimSpace (rq_ExecPath r)) ''/'' \<and>
     in_bounds (rq_MinReplicas r) 1 100 \<and> in_bounds (rq_MaxReplicas r) 1 100 \<and> the (rq_MinReplicas r) \<le> the (rq_MaxReplicas r) \<and>
     in_bounds (rq_TargetCPUPercent r) 1 100 \<and> in_bounds (rq_CPURequest r) 1 8000 \<and> in_bounds (rq_MemRequest r) 1 65536 \<and>
     in_bounds (rq_Port r) 1 65535"

definition complaint :: "string \<Rightarrow> int option \<Rightarrow> int \<Rightarrow> int \<Rightarrow> string list" where
  "complaint field v lo hi = fst (requireInt [] field v lo hi)"

lemma requireInt_eq:
  "requireInt ps field v lo hi = (ps @ complaint field v lo hi, case v of None \<Rightarrow> 0 | Some n \<Rightarrow> n, in_bounds v lo hi)"
  by (auto simp: requireInt_def complaint_def in_bounds_def split: option.splits)

lemma complaint_Nil [simp]: "complaint field v lo hi = [] \<longleftrightarrow> in_bounds v lo hi"
  by (auto simp: requireInt_def complaint_def in_bounds_def split: option.splits)

lemma HasPrefix_Nil [simp]: "HasPrefix [] p \<longleftrightarrow> p = []"
  by (auto simp: HasPrefix_def)

lemma Validate_iff: "Validate r = None \<longleftrightarrow> valid_request r"
proof -
  have e: "(if c then (a :: string list) else b) = [] \<longleftrightarrow> (if c then a = [] else b = [])" for c a b by simp
  have x: "(if ps = [] then None else Some y) = None \<longleftrightarrow> ps = []" for ps :: "string list" and y :: ValidationError by simp
  have n: "\<not> deploymentNamePattern []" by (simp add: deploymentNamePattern_def)
  have m: "in_bounds v lo hi \<Longrightarrow> (case v of None \<Rightarrow> 0 | Some n \<Rightarrow> n) = the v" for v lo hi by (auto simp: in_bounds_def)
  show ?thesis
    unfolding Validate_def valid_request_def requireInt_eq Let_def
    by (simp add: n m x e split del: if_split cong: conj_cong) (use n in \<open>auto simp: m\<close>)
qed


lemma pattern_chars: "deploymentNamePattern s \<Longrightarrow> c \<in> set s \<Longrightarrow> c = CHR ''-'' \<or> label_char c"
  by (cases s; cases "tl s" rule: rev_cases) (auto simp: deploymentNamePattern_def list_all_iff split: if_splits)

lemma not_label [simp]:
  "\<not> label_char CHR '':''" "\<not> label_char CHR ''*''" "\<not> label_char CHR ''?''" "\<not> label_char CHR ''[''" "\<not> label_char CHR 0x5C"
  by (simp_all add: label_char_def)

lemma valid_name_chars:
  assumes "valid_request r" "c \<in> {CHR '':'', CHR ''*'', CHR ''?'', CHR ''['', CHR 0x5C}"
  shows "c \<notin> set (TrimSpace (rq_Name r))"
  using pattern_chars[of "TrimSpace (rq_Name r)" c] assms by (auto simp: valid_request_def)

lemma valid_plain: "valid_request r \<Longrightarrow> plain_pattern (DeploymentPodsPattern (TrimSpace (rq_Name r)))"
  using valid_name_chars[of r] by (simp add: plain_pattern_def DeploymentPodsPattern_def list_all_iff) blast


text \<open>C24. The names that validation lets through keep deployments apart in the key space: the pod pattern of an
  accepted name contains no special character but its own asterisk, it selects a pod of another accepted deployment
  only if the names are equal, and no two accepted names share a pod key.\<close>

theorem accepted_names_separate:
  assumes "Validate r = None" "Validate r' = None"
  defines "n \<equiv> TrimSpace (rq_Name r)" and "n' \<equiv> TrimSpace (rq_Name r')"
  shows "plain_pattern (DeploymentPodsPattern n) \<and> (glob (DeploymentPodsPattern n) (PodKey n' p) \<longleftrightarrow> n = n') \<and>
    (PodKey n p = PodKey n' q \<longleftrightarrow> n = n' \<and> p = q)"
proof -
  have v: "valid_request r" "valid_request r'" using assms(1,2) by (simp_all add: Validate_iff)
  have "CHR '':'' \<notin> set n" "CHR ''*'' \<notin> set n" "CHR '':'' \<notin> set n'"
    unfolding n_def n'_def using valid_name_chars v by blast+
  then show ?thesis
    using valid_plain[OF v(1)] pods_pattern_own[of n n' p] PodKey_inject[of n n' p q] unfolding n_def by blast
qed


section \<open>The store, in an undisturbed run\<close>

lemma clamp_eq: "lo \<le> hi \<Longrightarrow> clamp v lo hi = max lo (min hi v)"
  by (auto simp: clamp_def)

text \<open>What \<open>Apply\<close> makes of an accepted request.\<close>

definition applied :: "DeploymentRequest \<Rightarrow> DeploymentSpec option \<Rightarrow> DeploymentSpec \<Rightarrow> bool" where
  "applied req existing dep \<longleftrightarrow>
     d_Name dep = TrimSpace (rq_Name req) \<and> d_ExecPath dep = TrimSpace (rq_ExecPath req) \<and>
     rq_MinReplicas req = Some (d_MinReplicas dep) \<and> rq_MaxReplicas req = Some (d_MaxReplicas dep) \<and>
     rq_TargetCPUPercent req = Some (d_TargetCPUPercent dep) \<and> rq_CPURequest req = Some (d_CPURequest dep) \<and>
     rq_MemRequest req = Some (d_MemRequest dep) \<and> rq_Port req = Some (d_Port dep) \<and>
     d_MinReplicas dep \<le> d_DesiredReplicas dep \<and> d_DesiredReplicas dep \<le> d_MaxReplicas dep \<and>
     (case existing of
        None \<Rightarrow> d_DesiredReplicas dep = d_MinReplicas dep \<and> d_LastScaleUpAt dep = [] \<and> d_LastScaleDownAt dep = []
      | Some old \<Rightarrow> d_DesiredReplicas dep = max (d_MinReplicas dep) (min (d_MaxReplicas dep) (d_DesiredReplicas old)) \<and>
          d_CreatedAt dep = d_CreatedAt old \<and> d_LastScaleUpAt dep = d_LastScaleUpAt old \<and> d_LastScaleDownAt dep = d_LastScaleDownAt old)"

lemma apply_request_valid:
  assumes "valid_request req"
  shows "\<exists>dep. apply_request req existing now = Some dep \<and> applied req existing dep \<and> deployment_typed dep \<and>
    0 \<le> d_CPURequest dep \<and> 0 \<le> d_MemRequest dep"
proof -
  from assms obtain a b t c m p where
    f: "rq_MinReplicas req = Some a" "rq_MaxReplicas req = Some b" "rq_TargetCPUPercent req = Some t"
      "rq_CPURequest req = Some c" "rq_MemRequest req = Some m" "rq_Port req = Some p"
    and n: "1 \<le> a" "a \<le> b" "b \<le> 100" "1 \<le> t" "t \<le> 100" "1 \<le> c" "c \<le> 8000" "1 \<le> m" "m \<le> 65536" "1 \<le> p" "p \<le> 65535"
    by (auto simp: valid_request_def in_bounds_def)
  define x where "x = (case existing of Some old \<Rightarrow> clamp (d_DesiredReplicas old) a b | None \<Rightarrow> a)"
  have x: "a \<le> x" "x \<le> b" using n(2) by (auto simp: x_def clamp_def split: option.split)
  show ?thesis
    using n x by (cases existing) (auto simp: apply_request_def applied_def f deployment_typed_def in_int64_def x_def clamp_eq)
qed

context redis_server
begin

lemma run_Get:
  assumes "quiet E" "server E = R"
  shows "view (db w) (DeploymentKey name) = None \<Longrightarrow>
      \<exists>w'. run_state (Get E name) w = ((None, False, None), w') \<and> db w' = db w \<and> tick w' = Suc (tick w)"
    and "deployment_at (view (db w)) name dep \<Longrightarrow>
      \<exists>w'. run_state (Get E name) w = ((Some dep, True, None), w') \<and> db w' = db w \<and> tick w' = Suc (tick w)"
proof -
  have g: "\<exists>fs w1. run_state (HashGet E (DeploymentKey name)) w = (Inr fs, w1) \<and> map_of fs = hash_at (view (db w)) (DeploymentKey name) \<and>
      (fs = [] \<longleftrightarrow> view (db w) (DeploymentKey name) = None) \<and> db w1 = db w \<and> tick w1 = Suc (tick w)"
    if "is_hash (view (db w)) (DeploymentKey name)"
    using hgetall[OF that] map_of_empty_hash that by (auto simp: HashGet_def run_send_quiet[OF assms(1)] assms(2))
  show "view (db w) (DeploymentKey name) = None \<Longrightarrow>
      \<exists>w'. run_state (Get E name) w = ((None, False, None), w') \<and> db w' = db w \<and> tick w' = Suc (tick w)"
    using g by (auto simp: Get_def run_on_error is_hash_def)
  assume d: "deployment_at (view (db w)) name dep"
  then have "is_hash (view (db w)) (DeploymentKey name)" "view (db w) (DeploymentKey name) \<noteq> None" by (auto simp: deployment_at_def)
  with g obtain fs w1 where "run_state (HashGet E (DeploymentKey name)) w = (Inr fs, w1)" "db w1 = db w" "tick w1 = Suc (tick w)"
    "fs \<noteq> []" "map_of fs = hash_at (view (db w)) (DeploymentKey name)" by blast
  with deployment_at_decode[OF d] show "\<exists>w'. run_state (Get E name) w = ((Some dep, True, None), w') \<and> db w' = db w \<and> tick w' = Suc (tick w)"
    by (auto simp: Get_def run_on_error)
qed

end

definition stored :: "keyspace \<Rightarrow> string \<Rightarrow> DeploymentSpec option \<Rightarrow> bool" where
  "stored v name existing \<longleftrightarrow> (case existing of None \<Rightarrow> v (DeploymentKey name) = None | Some old \<Rightarrow> deployment_at v name old)"

context redis_server
begin

lemma stored_hash: "stored v name existing \<Longrightarrow> is_hash v (DeploymentKey name)"
  by (auto simp: stored_def deployment_at_def is_hash_def split: option.splits)

lemma deployment_written:
  assumes "stored v name existing" "applied req existing dep" "deployment_typed dep"
  shows "deployment_at (v(DeploymentKey name \<mapsto> RHash (hash_at v (DeploymentKey name) ++ map_of (wire R (DeploymentToMap dep))))) name dep"
proof -
  obtain old_fs where old: "map_of old_fs = hash_at v (DeploymentKey name)"
    "d_LastScaleUpAt dep = mget old_fs FieldLastScaleUpAt" "d_LastScaleDownAt dep = mget old_fs FieldLastScaleDownAt"
  proof (cases existing)
    case None
    with assms(1,2) have "map_of [] = hash_at v (DeploymentKey name)" "d_LastScaleUpAt dep = []" "d_LastScaleDownAt dep = []"
      by (auto simp: stored_def applied_def hash_at_def)
    moreover have "mget [] f = []" for f by (simp add: mget_def)
    ultimately show thesis using that[of "[]"] by metis
  next
    case (Some d0)
    then obtain fs where "map_of fs = hash_at v (DeploymentKey name)" "MapToDeployment fs = Inr d0"
      using assms(1) by (auto simp: stored_def deployment_at_def)
    with Some assms(2) show thesis using that[of fs] by (auto simp: applied_def MapToDeployment_def required_Inr)
  qed
  have "MapToDeployment (wire R (DeploymentToMap dep) @ old_fs) = Inr dep"
    using deployment_merge[OF assms(3), of old_fs] old(2,3) by (cases dep) auto
  moreover have "map_of (wire R (DeploymentToMap dep) @ old_fs) = hash_at v (DeploymentKey name) ++ map_of (wire R (DeploymentToMap dep))"
    using old(1) by simp
  ultimately show ?thesis unfolding deployment_at_def by (intro conjI exI[of _ "wire R (DeploymentToMap dep) @ old_fs"]) simp_all
qed

lemma run_Apply:
  assumes "quiet E" "server E = R" "valid_request req" "stored (view (db w)) (TrimSpace (rq_Name req)) existing"
  shows "\<exists>dep w'. run_state (Apply E req) w = ((Some dep, existing \<noteq> None, None), w') \<and> applied req existing dep \<and>
    (existing = None \<longrightarrow> d_CreatedAt dep = Itoa (unix_at E (Suc (tick w)))) \<and>
    0 \<le> d_CPURequest dep \<and> 0 \<le> d_MemRequest dep \<and> deployment_typed dep \<and>
    view (db w') = (view (db w))(DeploymentKey (TrimSpace (rq_Name req)) \<mapsto>
       RHash (hash_at (view (db w)) (DeploymentKey (TrimSpace (rq_Name req))) ++ map_of (wire R (DeploymentToMap dep))))"
proof -
  let ?name = "TrimSpace (rq_Name req)"
  obtain w1 where w1: "run_state (Get E ?name) w = ((existing, existing \<noteq> None, None), w1)" "db w1 = db w" "tick w1 = Suc (tick w)"
    using run_Get[OF assms(1,2), of w ?name] assms(4) by (cases existing) (auto simp: stored_def)
  define now where "now = (if existing = None then unix_at E (Suc (tick w)) else 0)"
  define w2 where "w2 = (if existing = None then w1\<lparr>tick := Suc (tick w1)\<rparr> else w1)"
  obtain dep where dep: "apply_request req existing now = Some dep" "applied req existing dep" "deployment_typed dep"
    "0 \<le> d_CPURequest dep" "0 \<le> d_MemRequest dep" using apply_request_valid[OF assms(3)] by blast
  have v2: "view (db w2) = view (db w)" by (simp add: w2_def w1(2))
  obtain w3 where w3: "run_state (HashSet E (DeploymentKey ?name) (DeploymentToMap dep)) w2 = (Inr (), w3)"
    "view (db w3) = (view (db w))(DeploymentKey ?name \<mapsto> RHash (hash_at (view (db w)) (DeploymentKey ?name) ++ map_of (wire R (DeploymentToMap dep))))"
    using run_HashSet[OF assms(1,2), of w2 "DeploymentKey ?name" "DeploymentToMap dep"] stored_hash[OF assms(4)] by (auto simp: v2)
  have "run_state (Apply E req) w = ((Some dep, existing \<noteq> None, None), w3)"
    using w1 dep(1) w3(1) by (cases existing) (simp_all add: Apply_def Let_def run_on_error now_def w2_def)
  moreover have "existing = None \<Longrightarrow> d_CreatedAt dep = Itoa now"
    using dep(1) by (auto simp: apply_request_def split: option.splits)
  ultimately show ?thesis using dep w3(2) unfolding now_def by auto
qed

lemma run_SetDesiredReplicas:
  fixes n
  assumes "quiet E" "server E = R" "deployment_at (view (db w)) name dep"
  defines "dep' \<equiv> dep\<lparr>d_DesiredReplicas := clamp n (d_MinReplicas dep) (d_MaxReplicas dep)\<rparr>"
  shows "\<exists>w'. run_state (SetDesiredReplicas E name n) w = (Inr dep', w') \<and>
    view (db w') = (view (db w))(DeploymentKey name \<mapsto>
      RHash ((hash_at (view (db w)) (DeploymentKey name))(FieldDesiredReplicas \<mapsto> Itoa (d_DesiredReplicas dep'))))"
proof -
  obtain w1 where w1: "run_state (Get E name) w = ((Some dep, True, None), w1)" "db w1 = db w"
    using run_Get(2)[OF assms(1-3)] by blast
  have "is_hash (view (db w)) (DeploymentKey name)" using assms(3) by (simp add: deployment_at_def)
  then obtain w2 where "run_state (HashSet E (DeploymentKey name) [(FieldDesiredReplicas, VInt (d_DesiredReplicas dep'))]) w1 = (Inr (), w2)"
    "view (db w2) = (view (db w))(DeploymentKey name \<mapsto> RHash ((hash_at (view (db w)) (DeploymentKey name))(FieldDesiredReplicas \<mapsto> Itoa (d_DesiredReplicas dep'))))"
    using run_HashSet[OF assms(1,2), of w1 "DeploymentKey name" "[(FieldDesiredReplicas, VInt (d_DesiredReplicas dep'))]"] w1(2)
    by (auto simp: arg_int)
  then show ?thesis using w1(1) by (simp add: SetDesiredReplicas_def run_on_error Let_def dep'_def)
qed

lemma desired_written:
  assumes "deployment_at v name dep" "in_int64 n"
  shows "deployment_at (v(DeploymentKey name \<mapsto> RHash ((hash_at v (DeploymentKey name))(FieldDesiredReplicas \<mapsto> Itoa n)))) name (dep\<lparr>d_DesiredReplicas := n\<rparr>)"
proof -
  obtain fs where fs: "map_of fs = hash_at v (DeploymentKey name)" "MapToDeployment fs = Inr dep"
    using assms(1) by (auto simp: deployment_at_def)
  have m: "mget ((FieldDesiredReplicas, Itoa n) # fs) f = (if f = FieldDesiredReplicas then Itoa n else mget fs f)" for f
    by (simp add: mget_def)
  have "MapToDeployment ((FieldDesiredReplicas, Itoa n) # fs) = Inr (dep\<lparr>d_DesiredReplicas := n\<rparr>)"
    using fs(2) assms(2) unfolding MapToDeployment_def required_Inr m by (elim exE conjE) (auto simp: required_def)
  moreover have "map_of ((FieldDesiredReplicas, Itoa n) # fs) = (hash_at v (DeploymentKey name))(FieldDesiredReplicas \<mapsto> Itoa n)"
    using fs(1) by simp
  ultimately show ?thesis unfolding deployment_at_def by (intro conjI exI[of _ "(FieldDesiredReplicas, Itoa n) # fs"]) simp_all
qed

end

text \<open>Declaring a deployment, in an undisturbed run: an accepted request is stored under its trimmed name
  and reads back as exactly the spec that the call returns. A new deployment starts at its minimum; an
  existing one keeps its creation time, its scaling time stamps and its replica count, the latter moved into the new
  bounds. No other key changes.\<close>

theorem Apply_exact:
  assumes "redis_server (server E) view" "quiet E" "Validate req = None"
    and "stored (view (db w)) (TrimSpace (rq_Name req)) existing"
  shows "\<exists>dep w'. run_state (Apply E req) w = ((Some dep, existing \<noteq> None, None), w') \<and> applied req existing dep \<and>
    deployment_at (view (db w')) (TrimSpace (rq_Name req)) dep \<and>
    (\<forall>k. k \<noteq> DeploymentKey (TrimSpace (rq_Name req)) \<longrightarrow> view (db w') k = view (db w) k)"
proof -
  have v: "valid_request req" using assms(3) Validate_iff by simp
  from redis_server.run_Apply[OF assms(1,2) refl v assms(4)] obtain dep w' where
    r: "run_state (Apply E req) w = ((Some dep, existing \<noteq> None, None), w')" "applied req existing dep" "deployment_typed dep"
    "view (db w') = (view (db w))(DeploymentKey (TrimSpace (rq_Name req)) \<mapsto>
       RHash (hash_at (view (db w)) (DeploymentKey (TrimSpace (rq_Name req))) ++ map_of (wire (server E) (DeploymentToMap dep))))" by blast
  with redis_server.deployment_written[OF assms(1,4) r(2,3)] show ?thesis by auto
qed

definition demo_request :: DeploymentRequest where
  "demo_request = \<lparr>rq_Name = '' web '', rq_MinReplicas = Some 3, rq_MaxReplicas = Some 8, rq_TargetCPUPercent = Some 70,
     rq_CPURequest = Some 250, rq_MemRequest = Some 128, rq_ExecPath = ''/bin/web'', rq_Port = Some 8080\<rparr>"

lemma demo_request_valid: "Validate demo_request = None"
  by code_simp

lemma demo_request_name: "TrimSpace (rq_Name demo_request) = ''web''"
  by code_simp

lemma web2_valid: "Validate (demo_request\<lparr>rq_Name := ''web-2''\<rparr>) = None" "TrimSpace ''web-2'' = ''web-2''"
  by code_simp+

theorem accepted_names_separate_witness:
  "\<not> glob (DeploymentPodsPattern ''web'') (PodKey ''web-2'' ''7f'')"
  using web2_valid accepted_names_separate[OF demo_request_valid, of "demo_request\<lparr>rq_Name := ''web-2''\<rparr>"] by (simp add: demo_request_name)

lemma demo_request_bounds: "rq_MinReplicas demo_request = Some 3" "rq_MaxReplicas demo_request = Some 8"
  by (simp_all add: demo_request_def)

theorem Apply_exact_witness:
  "\<exists>dep w'. run_state (Apply mem_env demo_request) pair_world = ((Some dep, True, None), w') \<and>
     d_DesiredReplicas dep = 3 \<and> deployment_at (mem_view (db w')) ''web'' dep"
proof -
  have "stored (mem_view (db pair_world)) (TrimSpace (rq_Name demo_request)) (Some (demo_deployment\<lparr>d_DesiredReplicas := 1\<rparr>))"
    using pair_ready(1) by (simp add: stored_def demo_request_name)
  from Apply_exact[of mem_env mem_view demo_request, OF _ _ demo_request_valid this] mem.redis_server_axioms
  show ?thesis by (auto simp: demo_request_name demo_request_bounds applied_def)
qed

text \<open>Scaling by hand, in an undisturbed run: the stored count becomes the requested one moved into the
  deployment's own bounds, the deployment reads back with that count and otherwise unchanged, and no other
  key changes.\<close>

theorem SetDesiredReplicas_exact:
  assumes "redis_server (server E) view" "quiet E" "deployment_at (view (db w)) name dep" "d_MinReplicas dep \<le> d_MaxReplicas dep"
  shows "\<exists>w' m. m = max (d_MinReplicas dep) (min (d_MaxReplicas dep) n) \<and>
    run_state (SetDesiredReplicas E name n) w = (Inr (dep\<lparr>d_DesiredReplicas := m\<rparr>), w') \<and>
    deployment_at (view (db w')) name (dep\<lparr>d_DesiredReplicas := m\<rparr>) \<and>
    (\<forall>k. k \<noteq> DeploymentKey name \<longrightarrow> view (db w') k = view (db w) k)"
proof -
  define m where "m = max (d_MinReplicas dep) (min (d_MaxReplicas dep) n)"
  have m: "clamp n (d_MinReplicas dep) (d_MaxReplicas dep) = m" using assms(4) by (simp add: clamp_eq m_def)
  have "deployment_typed dep" using assms(3) MapToDeployment_typed by (auto simp: deployment_at_def)
  then have "in_int64 m" using assms(4) by (auto simp: m_def deployment_typed_def in_int64_def)
  from redis_server.desired_written[OF assms(1,3) this] redis_server.run_SetDesiredReplicas[OF assms(1,2) refl assms(3), of n, unfolded m]
  show ?thesis unfolding m_def[symmetric] by auto
qed

theorem SetDesiredReplicas_exact_witness:
  "\<exists>w'. run_state (SetDesiredReplicas mem_env ''web'' 50) pair_world = (Inr (demo_deployment\<lparr>d_DesiredReplicas := 5\<rparr>), w') \<and>
     deployment_at (mem_view (db w')) ''web'' (demo_deployment\<lparr>d_DesiredReplicas := 5\<rparr>)"
  using SetDesiredReplicas_exact[of mem_env mem_view, OF _ _ pair_ready(1), of 50] mem.redis_server_axioms
  by (auto simp: demo_deployment_def)

end
