(* ===== verification/ApiServer.thy ===== *)
theory ApiServer
  imports Api
begin

text \<open>
  \<open>internal/api/server.go\<close>: the request handlers. What reaches them is the outcome of \<open>decodeJSON\<close> and the
  path value, which the theory \<open>Routes\<close> computes from the bytes of the request; what they return is the status and the JSON value of the response. The two-second
  deadline of the health probe is part of the fault that \<open>Ping\<close> may report.
\<close>


section \<open>Responses\<close>

record response =
  rs_status :: int
  rs_body :: json

abbreviation (input) StatusOK :: int where "StatusOK \<equiv> 200"
abbreviation (input) StatusCreated :: int where "StatusCreated \<equiv> 201"
abbreviation (input) StatusBadRequest :: int where "StatusBadRequest \<equiv> 400"
abbreviation (input) StatusNotFound :: int where "StatusNotFound \<equiv> 404"
abbreviation (input) StatusInternalServerError :: int where "StatusInternalServerError \<equiv> 500"
abbreviation (input) StatusServiceUnavailable :: int where "StatusServiceUnavailable \<equiv> 503"

definition writeJSON :: "int \<Rightarrow> json \<Rightarrow> ('w, response) state" where
  "writeJSON status payload = State_Monad.return \<lparr>rs_status = status, rs_body = payload\<rparr>"

definition writeError :: "int \<Rightarrow> string \<Rightarrow> ('w, response) state" where
  "writeError status message = writeJSON status (JObj [(''error'', JStr message)])"

text \<open>A deployment as \<open>encoding/json\<close> writes it, empty optional fields left out.\<close>

definition deployment_json :: "DeploymentSpec \<Rightarrow> json" where
  "deployment_json d = JObj (
     [(''name'', JStr (d_Name d)), (''min_replicas'', JInt (d_MinReplicas d)), (''max_replicas'', JInt (d_MaxReplicas d)),
      (''cpu_request'', JInt (d_CPURequest d)), (''mem_request'', JInt (d_MemRequest d)),
      (''desired_replicas'', JInt (d_DesiredReplicas d)), (''target_cpu_percentage'', JInt (d_TargetCPUPercent d)),
      (''exec_path'', JStr (d_ExecPath d)), (''port'', JInt (d_Port d)), (''created_at'', JStr (d_CreatedAt d))]
     @ field_if (d_LastScaleUpAt d \<noteq> []) ''last_scale_up_at'' (JStr (d_LastScaleUpAt d))
     @ field_if (d_LastScaleDownAt d \<noteq> []) ''last_scale_down_at'' (JStr (d_LastScaleDownAt d)))"


section \<open>Handlers\<close>

definition handleHealthz :: "('db, 'e) env_scheme \<Rightarrow> (('db, 'm) world_scheme, response) state" where
  "handleHealthz E =
     on_error (Ping E)
       (\<lambda>_. writeJSON StatusServiceUnavailable
              (JObj [(''reason'', JStr ''redis unreachable''), (''status'', JStr ''unavailable'')]))
       (\<lambda>_. writeJSON StatusOK (JObj [(''status'', JStr ''ok'')]))"

text \<open>The event that both writing handlers publish; a failure is only logged.\<close>

definition publish_update :: "('db, 'e) env_scheme \<Rightarrow> Logger \<Rightarrow> DeploymentSpec \<Rightarrow> (('db, 'm) world_scheme, unit) state" where
  "publish_update E l dep =
     on_error (PublishEvent E \<lparr>ev_Event = EventUpdate, ev_Deployment = d_Name dep, ev_Desired = d_DesiredReplicas dep\<rparr>)
       (\<lambda>e. Warn E l ''event_publish_failed''
              (Sprintf ''reconciliation will pick this up on the next sweep: %v'' [ArgE e]) [DeploymentID (d_Name dep)])
       (\<lambda>_. State_Monad.return ())"

definition handleCreateDeployment ::
  "('db, 'e) env_scheme \<Rightarrow> Logger \<Rightarrow> error + DeploymentRequest \<Rightarrow> (('db, 'm) world_scheme, response) state"
where
  "handleCreateDeployment E l body =
     (case body of
        Inl e \<Rightarrow> writeError StatusBadRequest (Error_text e)
      | Inr req \<Rightarrow>
          (case Validate req of
             Some verr \<Rightarrow> writeJSON StatusBadRequest
               (JObj [(''error'', JStr ''validation failed''), (''problems'', JArr (map JStr (ve_Problems verr)))])
           | None \<Rightarrow> do {
               (dep, existed, err) \<leftarrow> Apply E req;
               case (err, dep) of
                 (None, Some dep) \<Rightarrow> do {
                   let action = (if existed then ''updated'' else ''created'');
                   let status = (if existed then StatusOK else StatusCreated);
                   Info E l (''deployment_'' @ action)
                     (Sprintf ''%s with desired=%d bounds=[%d,%d] request=%dm/%dMB''
                        [ArgS action, ArgD (d_DesiredReplicas dep), ArgD (d_MinReplicas dep), ArgD (d_MaxReplicas dep),
                         ArgD (d_CPURequest dep), ArgD (d_MemRequest dep)])
                     [DeploymentID (d_Name dep)];
                   publish_update E l dep;
                   writeJSON status (deployment_json dep) }
               | (Some e, _) \<Rightarrow> do {
                   Error E l ''deployment_write_failed'' (Error_text e) [DeploymentID (rq_Name req)];
                   writeError StatusInternalServerError ''could not store deployment'' }
               | (None, None) \<Rightarrow> writeError StatusInternalServerError [] }))"

definition handleGetDeployment ::
  "('db, 'e) env_scheme \<Rightarrow> string \<Rightarrow> (('db, 'm) world_scheme, response) state"
where
  "handleGetDeployment E name = do {
     r \<leftarrow> Get E name;
     case r of
       (_, _, Some e) \<Rightarrow> writeError StatusInternalServerError (Error_text e)
     | (Some dep, True, None) \<Rightarrow> writeJSON StatusOK (deployment_json dep)
     | _ \<Rightarrow> writeError StatusNotFound (Sprintf ''deployment %q not found'' [ArgS name]) }"

definition handleListDeployments ::
  "('db, 'e) env_scheme \<Rightarrow> (('db, 'm) world_scheme, response) state"
where
  "handleListDeployments E =
     on_error (List E)
       (\<lambda>e. writeError StatusInternalServerError (Error_text e))
       (\<lambda>deployments. writeJSON StatusOK
          (JObj [(''count'', JInt (int (length deployments))), (''deployments'', JArr (map deployment_json deployments))]))"

text \<open>\<open>scaleRequest\<close> has the one field \<open>DesiredReplicas\<close>, a pointer.\<close>

definition handleScaleDeployment ::
  "('db, 'e) env_scheme \<Rightarrow> Logger \<Rightarrow> string \<Rightarrow> error + int option \<Rightarrow> (('db, 'm) world_scheme, response) state"
where
  "handleScaleDeployment E l name body =
     (case body of
        Inl e \<Rightarrow> writeError StatusBadRequest (Error_text e)
      | Inr None \<Rightarrow> writeError StatusBadRequest ''desired_replicas is required''
      | Inr (Some n) \<Rightarrow>
          if n < 0 then writeError StatusBadRequest ''desired_replicas must not be negative'' else
          on_error (SetDesiredReplicas E name n)
            (\<lambda>e. do {
               (_, found, getErr) \<leftarrow> Get E name;
               if getErr = None \<and> \<not> found
               then writeError StatusNotFound (Sprintf ''deployment %q not found'' [ArgS name])
               else writeError StatusInternalServerError (Error_text e) })
            (\<lambda>dep. do {
               Info E l ''deployment_scaled_manually''
                 (Sprintf ''desired_replicas set to %d (requested %d, clamped to [%d,%d])''
                    [ArgD (d_DesiredReplicas dep), ArgD n, ArgD (d_MinReplicas dep), ArgD (d_MaxReplicas dep)])
                 [DeploymentID name];
               publish_update E l dep;
               writeJSON StatusOK (deployment_json dep) }))"

definition node_json :: "string \<Rightarrow> bool \<Rightarrow> NodeCapacity \<Rightarrow> json" where
  "node_json nodeID ready c = JObj
     [(''node_id'', JStr nodeID), (''ready'', JBool ready), (''total_cpu'', JInt (n_TotalCPU c)), (''total_mem'', JInt (n_TotalMem c)),
      (''allocated_cpu'', JInt (n_AllocatedCPU c)), (''allocated_mem'', JInt (n_AllocatedMem c))]"

text \<open>A capacity hash that cannot be read leaves the zeros of a fresh view.\<close>

definition handleListNodes_body where
  "handleListNodes_body E nodeID nodes =
     on_error (Exists E (NodeStatusKey nodeID))
       (\<lambda>e. do {
          r \<leftarrow> writeError StatusInternalServerError (Error_text e);
          State_Monad.return (Return r) })
       (\<lambda>ready. do {
          let zero = \<lparr>n_TotalCPU = 0, n_TotalMem = 0, n_AllocatedCPU = 0, n_AllocatedMem = 0\<rparr>;
          r \<leftarrow> HashGet E (NodeCapacityKey nodeID);
          let c = (case r of Inl _ \<Rightarrow> zero
                   | Inr fs \<Rightarrow> if fs = [] then zero else (case MapToNodeCapacity fs of Inl _ \<Rightarrow> zero | Inr c \<Rightarrow> c));
          State_Monad.return (Next (nodes @ [node_json nodeID ready c])) })"

definition handleListNodes ::
  "('db, 'e) env_scheme \<Rightarrow> (('db, 'm) world_scheme, response) state"
where
  "handleListNodes E =
     on_error (SetMembers E NodeRegistryKey)
       (\<lambda>e. writeError StatusInternalServerError (Error_text e))
       (\<lambda>nodeIDs. loop (handleListNodes_body E) (sort nodeIDs) []
          (\<lambda>nodes. writeJSON StatusOK (JObj [(''count'', JInt (int (length nodes))), (''nodes'', JArr nodes)])))"

text \<open>\<open>api.PodsForDeployment\<close>: unlike the replica controller's reader it passes over an unreadable pod in
  silence.\<close>

definition PodsForDeployment_body where
  "PodsForDeployment_body E key pods =
     on_error (HashGet E key)
       (\<lambda>e. State_Monad.return (Return (Inl (Errorf ''read pod %s: %w'' [ArgS key, ArgE e]))))
       (\<lambda>fs.
         if fs = [] then State_Monad.return (Next pods) else
         case MapToPod fs of
           Inl e \<Rightarrow> State_Monad.return (Next pods)
         | Inr pod \<Rightarrow> State_Monad.return (Next (pods @ [pod])))"

definition PodsForDeployment ::
  "('db, 'e) env_scheme \<Rightarrow> string \<Rightarrow> (('db, 'm) world_scheme, PodSpec list) fallible"
where
  "PodsForDeployment E deployment =
     on_error (ScanKeys E (DeploymentPodsPattern deployment))
       (\<lambda>e. throw (Errorf ''scan pods for %s: %w'' [ArgS deployment, ArgE e]))
       (\<lambda>keys. loop (PodsForDeployment_body E) keys [] (\<lambda>pods. ok pods))"

text \<open>\<open>ScheduleReplicas\<close> returns a nil slice for a shortfall that is not positive, which is \<open>null\<close> in JSON.\<close>

definition handleTriggerSchedule ::
  "('db, 'e) env_scheme \<Rightarrow> Logger \<Rightarrow> string \<Rightarrow> (('db, 'm) world_scheme, response) state"
where
  "handleTriggerSchedule E l name = do {
     r \<leftarrow> Get E name;
     case r of
       (_, _, Some e) \<Rightarrow> writeError StatusInternalServerError (Error_text e)
     | (Some dep, True, None) \<Rightarrow>
         on_error (PodsForDeployment E name)
           (\<lambda>e. writeError StatusInternalServerError (Error_text e))
           (\<lambda>pods. do {
              let existing = int (length (filter (\<lambda>p. ConsumesCapacity (p_Status p)) pods));
              let shortfall = i64 (d_DesiredReplicas dep - existing);
              (created, err) \<leftarrow> ScheduleReplicas E l dep shortfall;
              case err of
                Some e \<Rightarrow> writeError StatusInternalServerError (Error_text e)
              | None \<Rightarrow> writeJSON StatusOK (JObj
                  [(''created'', JInt (int (length created))),
                   (''created_pods'', if shortfall \<le> 0 then JNull else JArr (map JStr created)),
                   (''deployment'', JStr name),
                   (''desired_replicas'', JInt (d_DesiredReplicas dep)),
                   (''existing_pods'', JInt existing)]) })
     | _ \<Rightarrow> writeError StatusNotFound (Sprintf ''deployment %q not found'' [ArgS name]) }"


section \<open>Safety of the handlers\<close>

context cluster
begin

lemma ensures_Get:
  "ensures J (Get E name) (\<lambda>r. \<forall>dep. fst r = Some dep \<longrightarrow> deployment_typed dep \<and> 0 \<le> d_CPURequest dep \<and> 0 \<le> d_MemRequest dep)"
proof -
  have "HasPrefix (DeploymentKey name) ''pod:'' \<or> HasPrefix (DeploymentKey name) ''deployment:''" by simp
  then show ?thesis
    unfolding Get_def
    by (intro ensures_on_error[OF ensures_HashGet_requests])
      (auto intro!: ensures_return split: sum.split dest: request_ok_read(2) MapToDeployment_typed)
qed

lemma keeps_Get [keeps_intros]: "keeps J (Get E name)"
  by (rule ensures_keeps[OF ensures_Get])

lemma keeps_write_deployment:
  assumes "deployment_typed dep" "0 \<le> d_CPURequest dep" "0 \<le> d_MemRequest dep"
  shows "keeps J (HashSet E (DeploymentKey name) (DeploymentToMap dep))"
proof (rule keeps_HashSet_requests)
  have "map_of (wire R (DeploymentToMap dep)) FieldCPURequest = Some (Itoa (d_CPURequest dep))"
    "map_of (wire R (DeploymentToMap dep)) FieldMemRequest = Some (Itoa (d_MemRequest dep))"
    by (simp_all add: DeploymentToMap_def arg_int)
  then show "request_ok (map_of (wire R (DeploymentToMap dep)))"
    using assms by (simp add: request_ok_def deployment_typed_def)
qed simp_all

lemma keeps_Apply:
  assumes "valid_request req"
  shows "keeps J (Apply E req)"
proof -
  have "keeps J (HashSet E (DeploymentKey name) (DeploymentToMap dep))" if "apply_request req existing now = Some dep" for existing now dep name
    using apply_request_valid[OF assms, of existing now] that by (auto intro: keeps_write_deployment)
  then show ?thesis unfolding Apply_def Let_def by (intro keeps_intros)
qed

lemma keeps_SetDesiredReplicas [keeps_intros]: "keeps J (SetDesiredReplicas E name n)"
proof -
  have "keeps J (HashSet E (DeploymentKey name) [(FieldDesiredReplicas, VInt m)])" for m
    by (rule keeps_HashSet_requests) (simp_all add: request_ok_def)
  then show ?thesis unfolding SetDesiredReplicas_def Let_def by (intro keeps_intros)
qed

lemma keeps_PodsForDeployment [keeps_intros]: "keeps J (PodsForDeployment E name)"
  unfolding PodsForDeployment_def PodsForDeployment_body_def by (intro keeps_intros)

lemma keeps_handlers:
  "keeps J (handleCreateDeployment E l body)" "keeps J (handleScaleDeployment E l name n)"
  "keeps J (handleTriggerSchedule E l name)"
proof -
  show "keeps J (handleCreateDeployment E l body)"
    unfolding handleCreateDeployment_def publish_update_def writeJSON_def writeError_def Let_def
    by (intro keeps_intros keeps_Apply) (simp_all add: Validate_iff)
  show "keeps J (handleScaleDeployment E l name n)"
    unfolding handleScaleDeployment_def publish_update_def writeJSON_def writeError_def
    by (intro keeps_intros) simp_all
  show "keeps J (handleTriggerSchedule E l name)"
    unfolding handleTriggerSchedule_def writeJSON_def writeError_def Let_def
    by (rule keeps_bind_with[OF ensures_Get], intro keeps_intros) auto
qed

end


section \<open>The create handler\<close>

context redis_server
begin

lemma run_publish_update:
  assumes "quiet E" "server E = R"
  shows "\<exists>w'. run_state (publish_update E l dep) w = ((), w') \<and> view (db w') = view (db w)"
  using reply_publish view_publish
  by (simp add: publish_update_def PublishEvent_def Publish_def run_on_error run_send_quiet[OF assms(1)] assms(2))

lemma run_handleCreateDeployment:
  assumes "quiet E" "server E = R" "valid_request req" "stored (view (db w)) (TrimSpace (rq_Name req)) existing"
  shows "\<exists>dep w' x. run_state (handleCreateDeployment E l (Inr req)) w =
      (\<lparr>rs_status = if existing = None then StatusCreated else StatusOK, rs_body = deployment_json dep\<rparr>, w') \<and>
    applied req existing dep \<and> deployment_typed dep \<and>
    view (db w') = (view (db w))(DeploymentKey (TrimSpace (rq_Name req)) \<mapsto>
       RHash (hash_at (view (db w)) (DeploymentKey (TrimSpace (rq_Name req))) ++ map_of (wire R (DeploymentToMap dep))), LogStreamKey := x)"
proof -
  from run_Apply[OF assms] obtain dep w1 where a: "run_state (Apply E req) w = ((Some dep, existing \<noteq> None, None), w1)"
    "applied req existing dep" "deployment_typed dep"
    "view (db w1) = (view (db w))(DeploymentKey (TrimSpace (rq_Name req)) \<mapsto>
       RHash (hash_at (view (db w)) (DeploymentKey (TrimSpace (rq_Name req))) ++ map_of (wire R (DeploymentToMap dep))))" by blast
  define action where "action = (if existing \<noteq> None then ''updated'' else ''created'')"
  define msg where "msg = Sprintf ''%s with desired=%d bounds=[%d,%d] request=%dm/%dMB''
    [ArgS action, ArgD (d_DesiredReplicas dep), ArgD (d_MinReplicas dep), ArgD (d_MaxReplicas dep), ArgD (d_CPURequest dep), ArgD (d_MemRequest dep)]"
  obtain w2 x where w2: "run_state (Info E l (''deployment_'' @ action) msg [DeploymentID (d_Name dep)]) w1 = ((), w2)"
    "view (db w2) = (view (db w1))(LogStreamKey := x)" using run_Info(1)[OF assms(1,2)] by blast
  obtain w3 where w3: "run_state (publish_update E l dep) w2 = ((), w3)" "view (db w3) = view (db w2)"
    using run_publish_update[OF assms(1,2)] by blast
  have "run_state (handleCreateDeployment E l (Inr req)) w =
      (\<lparr>rs_status = if existing = None then StatusCreated else StatusOK, rs_body = deployment_json dep\<rparr>, w3)"
    using assms(3) a(1) w2(1) w3(1)
    by (cases existing) (simp_all add: handleCreateDeployment_def Validate_iff[symmetric] Let_def action_def msg_def writeJSON_def del: append.simps)
  then show ?thesis using a(2-4) w2(2) w3(2) by auto
qed

end

text \<open>The create handler, in an undisturbed run: a body that does not decode or does not validate is answered
  with 400, lists every problem found and touches nothing; an accepted one is stored and answered with
  201 or 200 for a new or an existing deployment and with the stored spec as the body.\<close>

theorem handleCreateDeployment_exact:
  assumes "redis_server (server E) view" "quiet E"
  shows "(\<forall>e. run_state (handleCreateDeployment E l (Inl e)) w =
      (\<lparr>rs_status = 400, rs_body = JObj [(''error'', JStr (Error_text e))]\<rparr>, w)) \<and>
    (\<forall>req verr. Validate req = Some verr \<longrightarrow> run_state (handleCreateDeployment E l (Inr req)) w =
      (\<lparr>rs_status = 400, rs_body = JObj [(''error'', JStr ''validation failed''), (''problems'', JArr (map JStr (ve_Problems verr)))]\<rparr>, w)) \<and>
    (\<forall>req existing. Validate req = None \<and> stored (view (db w)) (TrimSpace (rq_Name req)) existing \<longrightarrow>
      (\<exists>dep w'. run_state (handleCreateDeployment E l (Inr req)) w =
          (\<lparr>rs_status = if existing = None then 201 else 200, rs_body = deployment_json dep\<rparr>, w') \<and>
        applied req existing dep \<and> deployment_at (view (db w')) (TrimSpace (rq_Name req)) dep \<and>
        (\<forall>k. k \<noteq> LogStreamKey \<and> k \<noteq> DeploymentKey (TrimSpace (rq_Name req)) \<longrightarrow> view (db w') k = view (db w) k)))"
proof (intro conjI allI impI)
  fix req existing
  assume a: "Validate req = None \<and> stored (view (db w)) (TrimSpace (rq_Name req)) existing"
  then have v: "valid_request req" and s: "stored (view (db w)) (TrimSpace (rq_Name req)) existing" by (simp_all add: Validate_iff)
  from redis_server.run_handleCreateDeployment[OF assms(1,2) refl v s, of l] obtain dep w' x where
    r: "run_state (handleCreateDeployment E l (Inr req)) w =
      (\<lparr>rs_status = if existing = None then 201 else 200, rs_body = deployment_json dep\<rparr>, w')" "applied req existing dep" "deployment_typed dep"
    "view (db w') = (view (db w))(DeploymentKey (TrimSpace (rq_Name req)) \<mapsto>
       RHash (hash_at (view (db w)) (DeploymentKey (TrimSpace (rq_Name req))) ++ map_of (wire (server E) (DeploymentToMap dep))), LogStreamKey := x)" by blast
  have "deployment_at (view (db w')) (TrimSpace (rq_Name req)) dep"
    using redis_server.deployment_written[OF assms(1) s r(2,3)] by (simp add: r(4) deployment_at_def key_simps)
  with r show "\<exists>dep w'. run_state (handleCreateDeployment E l (Inr req)) w =
          (\<lparr>rs_status = if existing = None then 201 else 200, rs_body = deployment_json dep\<rparr>, w') \<and>
        applied req existing dep \<and> deployment_at (view (db w')) (TrimSpace (rq_Name req)) dep \<and>
        (\<forall>k. k \<noteq> LogStreamKey \<and> k \<noteq> DeploymentKey (TrimSpace (rq_Name req)) \<longrightarrow> view (db w') k = view (db w) k)" by auto
qed (simp_all add: handleCreateDeployment_def writeError_def writeJSON_def)

theorem handleCreateDeployment_exact_witness:
  "rs_status (fst (run_state (handleCreateDeployment mem_env demo_logger (Inr demo_request)) pair_world)) = 200 \<and>
   snd (run_state (handleCreateDeployment mem_env demo_logger (Inr (demo_request\<lparr>rq_Name := ''a:b''\<rparr>))) pair_world) = pair_world"
proof -
  have "stored (mem_view (db pair_world)) (TrimSpace (rq_Name demo_request)) (Some (demo_deployment\<lparr>d_DesiredReplicas := 1\<rparr>))"
    using pair_ready(1) by (simp add: stored_def demo_request_name)
  moreover obtain verr where "Validate (demo_request\<lparr>rq_Name := ''a:b''\<rparr>) = Some verr"
  proof -
    have "Validate (demo_request\<lparr>rq_Name := ''a:b''\<rparr>) \<noteq> None" by code_simp
    then show thesis using that by blast
  qed
  moreover note t = handleCreateDeployment_exact[of mem_env mem_view demo_logger pair_world, simplified, OF mem.redis_server_axioms]
  ultimately have "\<exists>dep w'. run_state (handleCreateDeployment mem_env demo_logger (Inr demo_request)) pair_world =
      (\<lparr>rs_status = 200, rs_body = deployment_json dep\<rparr>, w')"
    "snd (run_state (handleCreateDeployment mem_env demo_logger (Inr (demo_request\<lparr>rq_Name := ''a:b''\<rparr>))) pair_world) = pair_world"
    using t[THEN conjunct2, THEN conjunct2, rule_format, of demo_request "Some (demo_deployment\<lparr>d_DesiredReplicas := 1\<rparr>)"]
      t[THEN conjunct2, THEN conjunct1, rule_format] demo_request_valid by (auto simp del: demo_deployment_fields)
  then show ?thesis by auto
qed

end
