(* ===== verification/Dashboard.thy ===== *)
theory Dashboard
  imports ApiServer
begin

text \<open>
  \<open>internal/api/dashboard.go\<close>: the cluster view that the dashboard draws, and the window onto the log stream. What is
  written to the client goes through a parameter, the \<open>http.ResponseWriter\<close>; the first frame and one tick of
  \<open>handleEvents\<close> are here, its loop is in the theory \<open>Loops\<close>. \<open>sort.Slice\<close> is not stable, but its callbacks only tie on views of the same pod or
  deployment, so the stable sort stands for it.
\<close>


section \<open>Views\<close>

abbreviation (input) logBackfill :: int where "logBackfill \<equiv> 60"
abbreviation (input) logBatch :: int where "logBatch \<equiv> 100"

record NodeView =
  nv_NodeID :: string
  nv_Ready :: bool
  nv_TotalCPU :: int
  nv_AllocatedCPU :: int
  nv_TotalMem :: int
  nv_AllocatedMem :: int
  nv_PodCount :: int

record DeploymentView =
  dv_Name :: string
  dv_DesiredReplicas :: int
  dv_ReadyReplicas :: int
  dv_MinReplicas :: int
  dv_MaxReplicas :: int
  dv_TargetCPUPercent :: int
  dv_ObservedCPU :: int

record PodView =
  pv_PodID :: string
  pv_Deployment :: string
  pv_NodeID :: string
  pv_Status :: string
  pv_HostPort :: int
  pv_RestartCount :: int

text \<open>\<open>api.LogEntry\<close>, one line of the log stream.\<close>

record LogLine =
  ll_ID :: string
  ll_Timestamp :: string
  ll_Level :: string
  ll_Component :: string
  ll_EventType :: string
  ll_Message :: string
  ll_Deployment :: string
  ll_PodID :: string
  ll_NodeID :: string

record StateSnapshot =
  sn_Nodes :: "NodeView list"
  sn_Deployments :: "DeploymentView list"
  sn_Pods :: "PodView list"
  sn_Logs :: "LogLine list"


section \<open>Stream ids\<close>

text \<open>The value that \<open>strconv.ParseUint(s, 10, 64)\<close> returns beside its error: zero for a malformed number, the largest
  number as soon as the digits run over it.\<close>

fun uint_value :: "int \<Rightarrow> string \<Rightarrow> int" where
  "uint_value n [] = n"
| "uint_value n (c # cs) =
     (case digit_val c of
        None \<Rightarrow> 0
      | Some d \<Rightarrow> let n1 = n * 10 + int d in if n1 > 2 ^ 64 - 1 then 2 ^ 64 - 1 else uint_value n1 cs)"

definition splitStreamID :: "string \<Rightarrow> int \<times> int" where
  "splitStreamID ident =
     (let (ms, seq, found) = Cut ident (CHR ''-'');
          msVal = uint_value 0 ms
      in if \<not> found then (msVal, 0) else (msVal, uint_value 0 seq))"

definition streamIDNewer :: "string \<Rightarrow> string \<Rightarrow> bool" where
  "streamIDNewer a b =
     (let (aMS, aSeq) = splitStreamID a; (bMS, bSeq) = splitStreamID b
      in if aMS \<noteq> bMS then aMS > bMS else aSeq > bSeq)"

definition log_line :: "string \<times> (string \<times> string) list \<Rightarrow> LogLine" where
  "log_line e = (let f = mget (snd e) in
     \<lparr>ll_ID = fst e, ll_Timestamp = f ''timestamp'', ll_Level = f ''level'', ll_Component = f ''component'',
      ll_EventType = f ''event_type'', ll_Message = f ''message'', ll_Deployment = f ''deployment_id'',
      ll_PodID = f ''pod_id'', ll_NodeID = f ''node_id''\<rparr>)"

text \<open>The loop runs over the entries from the last to the first.\<close>

definition recentLogs ::
  "('db, 'e) env_scheme \<Rightarrow> string \<Rightarrow> int \<Rightarrow> (('db, 'm) world_scheme, LogLine list \<times> string) fallible"
where
  "recentLogs E sinceLogID cnt =
     attempt (StreamReadReverse E LogStreamKey cnt) (\<lambda>entries.
       if entries = [] then ok ([], []) else
       let newest = fst (hd entries);
           logs = foldl (\<lambda>logs e.
             if sinceLogID \<noteq> [] \<and> \<not> streamIDNewer (fst e) sinceLogID then logs else logs @ [log_line e]) [] (rev entries)
       in ok (logs, newest))"


section \<open>Reading the cluster\<close>

definition podViews_body ::
  "('db, 'e) env_scheme \<Rightarrow> string \<Rightarrow> PodView list \<Rightarrow> (('db, 'm) world_scheme, (PodView list, error + PodView list) flow) state"
where
  "podViews_body E key views =
     on_error (HashGet E key)
       (\<lambda>e. State_Monad.return (Next views))
       (\<lambda>fs.
         if fs = [] then State_Monad.return (Next views) else
         case MapToPod fs of
           Inl e \<Rightarrow> State_Monad.return (Next views)
         | Inr pod \<Rightarrow> State_Monad.return (Next (views @
             [\<lparr>pv_PodID = p_PodID pod, pv_Deployment = p_Deployment pod, pv_NodeID = p_NodeID pod,
               pv_Status = p_Status pod, pv_HostPort = p_HostPort pod, pv_RestartCount = p_RestartCount pod\<rparr>])))"

definition pod_view_less :: "PodView \<Rightarrow> PodView \<Rightarrow> bool" where
  "pod_view_less a b = (if pv_Deployment a \<noteq> pv_Deployment b then pv_Deployment a < pv_Deployment b else pv_PodID a < pv_PodID b)"

definition podViews :: "('db, 'e) env_scheme \<Rightarrow> (('db, 'm) world_scheme, PodView list) fallible" where
  "podViews E =
     on_error (ScanKeys E PodKeyPattern)
       (\<lambda>e. throw (Errorf ''scan pods: %w'' [ArgE e]))
       (\<lambda>keys. loop (podViews_body E) keys [] (\<lambda>views. ok (sort_stable pod_view_less views)))"

definition nodeViews_body ::
  "('db, 'e) env_scheme \<Rightarrow> (string \<Rightarrow> int) \<Rightarrow> string \<Rightarrow> NodeView list \<Rightarrow>
   (('db, 'm) world_scheme, (NodeView list, error + NodeView list) flow) state"
where
  "nodeViews_body E podsByNode nodeID views =
     on_error (HashGet E (NodeCapacityKey nodeID))
       (\<lambda>e. State_Monad.return (Next views))
       (\<lambda>fs.
         if fs = [] then State_Monad.return (Next views) else
         case MapToNodeCapacity fs of
           Inl e \<Rightarrow> State_Monad.return (Next views)
         | Inr capacity \<Rightarrow> do {
             ready \<leftarrow> on_error (Exists E (NodeStatusKey nodeID)) (\<lambda>e. State_Monad.return False) (\<lambda>b. State_Monad.return b);
             State_Monad.return (Next (views @
               [\<lparr>nv_NodeID = nodeID, nv_Ready = ready,
                 nv_TotalCPU = n_TotalCPU capacity, nv_AllocatedCPU = n_AllocatedCPU capacity,
                 nv_TotalMem = n_TotalMem capacity, nv_AllocatedMem = n_AllocatedMem capacity,
                 nv_PodCount = podsByNode nodeID\<rparr>])) })"

definition nodeViews ::
  "('db, 'e) env_scheme \<Rightarrow> (string \<Rightarrow> int) \<Rightarrow> (('db, 'm) world_scheme, NodeView list) fallible"
where
  "nodeViews E podsByNode =
     on_error (SetMembers E NodeRegistryKey)
       (\<lambda>e. throw (Errorf ''read node registry: %w'' [ArgE e]))
       (\<lambda>registered. loop (nodeViews_body E podsByNode) (sort_stable (<) registered) [] (\<lambda>views. ok views))"

text \<open>Go's integer division drops the fraction.\<close>

definition quot :: "int \<Rightarrow> int \<Rightarrow> int" where
  "quot a b = sgn a * sgn b * (\<bar>a\<bar> div \<bar>b\<bar>)"

definition sum_samples :: "string list \<Rightarrow> int \<times> int" where
  "sum_samples samples = foldl (\<lambda>(sum, cnt) raw.
     case Atoi raw of None \<Rightarrow> (sum, cnt) | Some v \<Rightarrow> (i64 (sum + v), cnt + 1)) (0, 0) samples"

definition observedCPU_body ::
  "('db, 'e) env_scheme \<Rightarrow> string \<Rightarrow> int \<times> int \<Rightarrow> (('db, 'm) world_scheme, (int \<times> int, int) flow) state"
where
  "observedCPU_body E key acc =
     (case acc of (tot, pods) \<Rightarrow>
      on_error (ListRange E key (- 3) (- 1))
        (\<lambda>e. State_Monad.return (Next (tot, pods)))
        (\<lambda>samples.
          if samples = [] then State_Monad.return (Next (tot, pods)) else
          let (sum, cnt) = sum_samples samples in
          if cnt = 0 then State_Monad.return (Next (tot, pods))
          else State_Monad.return (Next (i64 (tot + quot sum cnt), pods + 1))))"

definition observedCPU :: "('db, 'e) env_scheme \<Rightarrow> string \<Rightarrow> (('db, 'm) world_scheme, int) state" where
  "observedCPU E deployment =
     on_error (ScanKeys E (Sprintf ''telemetry:%s:*:cpu'' [ArgS deployment]))
       (\<lambda>e. State_Monad.return 0)
       (\<lambda>keys. loop (observedCPU_body E) keys (0, 0)
          (\<lambda>(tot, pods). State_Monad.return (if pods = 0 then 0 else quot tot pods)))"

definition deploymentViews_body ::
  "('db, 'e) env_scheme \<Rightarrow> (string \<Rightarrow> int) \<Rightarrow> DeploymentSpec \<Rightarrow> DeploymentView list \<Rightarrow>
   (('db, 'm) world_scheme, (DeploymentView list, error + DeploymentView list) flow) state"
where
  "deploymentViews_body E ready dep views = do {
     cpu \<leftarrow> observedCPU E (d_Name dep);
     State_Monad.return (Next (views @
       [\<lparr>dv_Name = d_Name dep, dv_DesiredReplicas = d_DesiredReplicas dep, dv_ReadyReplicas = ready (d_Name dep),
         dv_MinReplicas = d_MinReplicas dep, dv_MaxReplicas = d_MaxReplicas dep,
         dv_TargetCPUPercent = d_TargetCPUPercent dep, dv_ObservedCPU = cpu\<rparr>])) }"

definition deploymentViews ::
  "('db, 'e) env_scheme \<Rightarrow> (string \<Rightarrow> int) \<Rightarrow> (('db, 'm) world_scheme, DeploymentView list) fallible"
where
  "deploymentViews E ready =
     on_error (List E)
       (\<lambda>e. throw (Errorf ''list deployments: %w'' [ArgE e]))
       (\<lambda>deps. loop (deploymentViews_body E ready) deps []
          (\<lambda>views. ok (sort_stable (\<lambda>a b. dv_Name a < dv_Name b) views)))"

text \<open>The two maps of counters, with zero for a missing key.\<close>

definition count_pods :: "PodView list \<Rightarrow> (string \<Rightarrow> int) \<times> (string \<Rightarrow> int)" where
  "count_pods pods = foldl (\<lambda>(podsByNode, readyByDeployment) pod.
     (podsByNode(pv_NodeID pod := podsByNode (pv_NodeID pod) + 1),
      if pv_Status pod = StatusRunning
      then readyByDeployment(pv_Deployment pod := readyByDeployment (pv_Deployment pod) + 1)
      else readyByDeployment)) (\<lambda>_. 0, \<lambda>_. 0) pods"

definition Snapshot :: "('db, 'e) env_scheme \<Rightarrow> (('db, 'm) world_scheme, StateSnapshot) fallible" where
  "Snapshot E =
     attempt (podViews E) (\<lambda>pods.
       let (podsByNode, readyByDeployment) = count_pods pods in
       attempt (nodeViews E podsByNode) (\<lambda>nodes.
       attempt (deploymentViews E readyByDeployment) (\<lambda>deployments.
       ok \<lparr>sn_Nodes = nodes, sn_Deployments = deployments, sn_Pods = pods, sn_Logs = []\<rparr>)))"


section \<open>Frames and handlers\<close>

definition node_view_json :: "NodeView \<Rightarrow> json" where
  "node_view_json n = JObj [(''node_id'', JStr (nv_NodeID n)), (''ready'', JBool (nv_Ready n)),
     (''total_cpu'', JInt (nv_TotalCPU n)), (''allocated_cpu'', JInt (nv_AllocatedCPU n)),
     (''total_mem'', JInt (nv_TotalMem n)), (''allocated_mem'', JInt (nv_AllocatedMem n)), (''pod_count'', JInt (nv_PodCount n))]"

definition deployment_view_json :: "DeploymentView \<Rightarrow> json" where
  "deployment_view_json d = JObj [(''name'', JStr (dv_Name d)), (''desired_replicas'', JInt (dv_DesiredReplicas d)),
     (''ready_replicas'', JInt (dv_ReadyReplicas d)), (''min_replicas'', JInt (dv_MinReplicas d)),
     (''max_replicas'', JInt (dv_MaxReplicas d)), (''target_cpu_percentage'', JInt (dv_TargetCPUPercent d)),
     (''observed_cpu_percent'', JInt (dv_ObservedCPU d))]"

definition pod_view_json :: "PodView \<Rightarrow> json" where
  "pod_view_json p = JObj ([(''pod_id'', JStr (pv_PodID p)), (''deployment'', JStr (pv_Deployment p)),
     (''node_id'', JStr (pv_NodeID p)), (''status'', JStr (pv_Status p))]
     @ field_if (pv_HostPort p \<noteq> 0) ''host_port'' (JInt (pv_HostPort p))
     @ [(''restart_count'', JInt (pv_RestartCount p))])"

definition log_line_json :: "LogLine \<Rightarrow> json" where
  "log_line_json e = (let text = (\<lambda>k v. field_if (v \<noteq> []) k (JStr v)) in
     JObj ([(''id'', JStr (ll_ID e))] @ text ''timestamp'' (ll_Timestamp e) @ text ''level'' (ll_Level e)
     @ text ''component'' (ll_Component e) @ text ''event_type'' (ll_EventType e) @ text ''message'' (ll_Message e)
     @ text ''deployment_id'' (ll_Deployment e) @ text ''pod_id'' (ll_PodID e) @ text ''node_id'' (ll_NodeID e)))"

definition snapshot_json :: "StateSnapshot \<Rightarrow> json" where
  "snapshot_json s = JObj ([(''nodes'', JArr (map node_view_json (sn_Nodes s))),
      (''deployments'', JArr (map deployment_view_json (sn_Deployments s))), (''pods'', JArr (map pod_view_json (sn_Pods s)))]
     @ field_if (sn_Logs s \<noteq> []) ''logs'' (JArr (map log_line_json (sn_Logs s))))"

definition handleState :: "('db, 'e) env_scheme \<Rightarrow> (('db, 'm) world_scheme, response) state" where
  "handleState E =
     on_error (Snapshot E)
       (\<lambda>e. writeError StatusInternalServerError (Error_text e))
       (\<lambda>snapshot. writeJSON StatusOK (snapshot_json snapshot))"

text \<open>\<open>write\<close> stands for \<open>fmt.Fprintf\<close> on the response writer with the flush after it.\<close>

definition sendSnapshot ::
  "('db, 'e) env_scheme \<Rightarrow> (string \<Rightarrow> (('db, 'm) world_scheme, unit) fallible) \<Rightarrow> string \<Rightarrow> int \<Rightarrow>
   (('db, 'm) world_scheme, string \<times> error option) state"
where
  "sendSnapshot E write sinceLogID logCount =
     on_error (Snapshot E)
       (\<lambda>e. State_Monad.return (sinceLogID, None))
       (\<lambda>snapshot. do {
          (snapshot, newest) \<leftarrow> on_error (recentLogs E sinceLogID logCount)
            (\<lambda>e. State_Monad.return (snapshot, []))
            (\<lambda>(logs, newest). State_Monad.return (snapshot\<lparr>sn_Logs := logs\<rparr>, newest));
          on_error (write (''data: '' @ Marshal (snapshot_json snapshot) @ newline @ newline))
            (\<lambda>e. State_Monad.return (sinceLogID, Some e))
            (\<lambda>_. State_Monad.return (if newest = [] then sinceLogID else newest, None)) })"

definition events_open ::
  "('db, 'e) env_scheme \<Rightarrow> (string \<Rightarrow> (('db, 'm) world_scheme, unit) fallible) \<Rightarrow> (('db, 'm) world_scheme, string \<times> error option) state"
where
  "events_open E write = sendSnapshot E write [] logBackfill"

definition events_tick ::
  "('db, 'e) env_scheme \<Rightarrow> (string \<Rightarrow> (('db, 'm) world_scheme, unit) fallible) \<Rightarrow> string \<Rightarrow> (('db, 'm) world_scheme, string \<times> error option) state"
where
  "events_tick E write lastLogID = sendSnapshot E write lastLogID logBatch"

text \<open>The page itself is an asset that is built into the program.\<close>

definition handleDashboard :: "(error + string) \<Rightarrow> string \<Rightarrow> ('w, response + string) state" where
  "handleDashboard asset path =
     (if path \<noteq> ''/'' then do { r \<leftarrow> writeError StatusNotFound ''not found''; State_Monad.return (Inl r) }
      else case asset of
        Inl e \<Rightarrow> do { r \<leftarrow> writeError StatusInternalServerError ''dashboard asset missing''; State_Monad.return (Inl r) }
      | Inr page \<Rightarrow> State_Monad.return (Inr page))"


section \<open>The order of stream ids\<close>

definition stream_id :: "int \<times> int \<Rightarrow> string" where
  "stream_id i = Itoa (fst i) @ ''-'' @ Itoa (snd i)"

lemma parse_digits_ge: "parse_digits a s = Some n \<Longrightarrow> a \<le> n"
  by (induction a s rule: parse_digits.induct) (force split: option.splits)+

lemma uint_value_digits: "parse_digits a s = Some n \<Longrightarrow> int n < 2 ^ 64 \<Longrightarrow> uint_value (int a) s = int n"
proof (induction a s rule: parse_digits.induct)
  case (2 a c cs)
  then obtain d where d: "digit_val c = Some d" "parse_digits (10 * a + d) cs = Some n" by (auto split: option.splits)
  have "10 * a + d \<le> n" using parse_digits_ge[OF d(2)] .
  then have "int a * 10 + int d < 2 ^ 64" using "2.prems"(2) by linarith
  moreover have "uint_value (int (10 * a + d)) cs = int n" using "2.IH"[OF d] "2.prems"(2) .
  ultimately show ?case using d(1) by (simp add: mult.commute)
qed simp

lemma uint_value_Itoa:
  assumes "in_uint64 n"
  shows "uint_value 0 (Itoa n) = n"
proof -
  have "ParseUint (Itoa n) = Some n" using ParseUint_Itoa[OF assms] .
  then obtain m where "parse_digits 0 (Itoa n) = Some m" "n = int m" "int m < 2 ^ 64"
    by (auto simp: ParseUint_def split: option.splits if_splits)
  then show ?thesis using uint_value_digits[of 0 "Itoa n" m] by simp
qed

lemma Itoa_no_dash: "0 \<le> n \<Longrightarrow> CHR ''-'' \<notin> set (Itoa n)"
  using dec_nat_digits[of "CHR ''-''" "nat n"] digit_no_sign(1) by (auto simp: Itoa_def; metis)

lemma splitStreamID_id: "in_uint64 (fst i) \<Longrightarrow> in_uint64 (snd i) \<Longrightarrow> splitStreamID (stream_id i) = i"
  using Itoa_no_dash[of "fst i"]
  by (simp add: splitStreamID_def stream_id_def Cut_def uint_value_Itoa in_uint64_def takeWhile_append dropWhile_append)

text \<open>Stream ids are compared as numbers: for two ids \<open>ms-seq\<close> with 64-bit parts, the first is newer exactly if its time
  is larger, or equal with a larger sequence number.\<close>

theorem streamIDNewer_numeric:
  assumes "in_uint64 (fst a)" "in_uint64 (snd a)" "in_uint64 (fst b)" "in_uint64 (snd b)"
  shows "streamIDNewer (stream_id a) (stream_id b) \<longleftrightarrow> fst b < fst a \<or> fst b = fst a \<and> snd b < snd a"
  using splitStreamID_id[OF assms(1,2)] splitStreamID_id[OF assms(3,4)]
  by (auto simp: streamIDNewer_def split: prod.splits)

theorem streamIDNewer_numeric_witness: "streamIDNewer ''10-0'' ''9-7'' \<and> \<not> streamIDNewer ''9-7'' ''10-0''"
proof -
  have "stream_id (10, 0) = ''10-0''" "stream_id (9, 7) = ''9-7''" by code_simp+
  then show ?thesis
    using streamIDNewer_numeric[of "(10, 0)" "(9, 7)"] streamIDNewer_numeric[of "(9, 7)" "(10, 0)"] by (simp add: in_uint64_def)
qed

lemma newer_asym: "streamIDNewer a b \<Longrightarrow> \<not> streamIDNewer b a"
  by (auto simp: streamIDNewer_def split: prod.splits if_splits)

lemma newer_trans: "streamIDNewer a b \<Longrightarrow> streamIDNewer b c \<Longrightarrow> streamIDNewer a c"
  by (auto simp: streamIDNewer_def split: prod.splits if_splits)


section \<open>The log window\<close>

lemma foldl_filter: "foldl (\<lambda>xs e. if P e then xs else xs @ [f e]) ys es = ys @ map f (filter (\<lambda>e. \<not> P e) es)"
  by (induction es arbitrary: ys) auto

text \<open>A later entry has a newer id: what XADD guarantees.\<close>

definition in_stream_order :: "(string \<times> (string \<times> string) list) list \<Rightarrow> bool" where
  "in_stream_order es \<longleftrightarrow> sorted_wrt (\<lambda>a b. streamIDNewer (fst b) (fst a)) es"

lemma newer_than_last:
  assumes "in_stream_order (old @ new)" "old \<noteq> []"
  shows "e \<in> set new \<Longrightarrow> streamIDNewer (fst e) (fst (last old))"
    and "e \<in> set old \<Longrightarrow> \<not> streamIDNewer (fst e) (fst (last old))"
proof -
  from assms(1) have o: "in_stream_order old" and on: "\<forall>a \<in> set old. \<forall>b \<in> set new. streamIDNewer (fst b) (fst a)"
    by (simp_all add: in_stream_order_def sorted_wrt_append)
  show "e \<in> set new \<Longrightarrow> streamIDNewer (fst e) (fst (last old))" using on assms(2) by simp
  assume "e \<in> set old"
  moreover have "old = butlast old @ [last old]" using assms(2) by simp
  ultimately have "e \<in> set (butlast old) \<or> e = last old" by (metis Un_iff empty_iff insert_iff list.set(1,2) set_append)
  moreover have "a \<in> set (butlast old) \<Longrightarrow> streamIDNewer (fst (last old)) (fst a)" for a
    using o \<open>old = butlast old @ [last old]\<close> unfolding in_stream_order_def by (metis list.set_intros(1) sorted_wrt_append)
  ultimately show "\<not> streamIDNewer (fst e) (fst (last old))" using newer_asym by blast
qed

context redis_server
begin

lemma run_recentLogs:
  assumes "quiet E" "server E = R" "is_stream (view (db w)) LogStreamKey" "0 < n"
  defines "es \<equiv> stream_at (view (db w)) LogStreamKey"
  defines "sent \<equiv> drop (length es - nat n) es"
  shows "\<exists>w'. run_state (recentLogs E since n) w =
      (Inr (map log_line (filter (\<lambda>e. since = [] \<or> streamIDNewer (fst e) since) sent), if es = [] then [] else fst (last es)), w') \<and>
    db w' = db w"
proof -
  have r: "rev (take (nat n) (rev es)) = sent" by (simp add: sent_def take_rev)
  have h: "es \<noteq> [] \<Longrightarrow> fst (hd (take (nat n) (rev es))) = fst (last es)" using assms(4) by (simp add: hd_rev)
  show ?thesis
    using xrevrange[OF assms(3,4)] assms(1,2,4) h
    by (auto simp: recentLogs_def StreamReadReverse_def run_on_error run_send_quiet es_def[symmetric] foldl_filter r Let_def sent_def)
qed

end

text \<open>C35. The log panel gets every line once and in order, with nothing else happening: when entries are appended after the one a
  client saw last, the next frame carries exactly these, oldest first, and reports the newest id; only
  if more than a frame's worth arrived at once are the oldest of them left out.\<close>

theorem recentLogs_exact:
  assumes "redis_server (server E) view" "quiet E" "0 < n"
    and "view (db w) LogStreamKey = Some (RStream (old @ new))" "old \<noteq> []" "in_stream_order (old @ new)"
    and "since = fst (last old)" "since \<noteq> []"
  shows "\<exists>w'. run_state (recentLogs E since n) w =
      (Inr (map log_line (drop (length new - nat n) new), fst (last (old @ new))), w') \<and> db w' = db w"
proof -
  let ?es = "old @ new"
  have st: "is_stream (view (db w)) LogStreamKey" "stream_at (view (db w)) LogStreamKey = ?es"
    using assms(4) by (simp_all add: is_stream_def stream_at_def)
  have "filter (\<lambda>e. streamIDNewer (fst e) since) (drop m old) = []" for m
    using newer_than_last(2)[OF assms(6,5)] assms(7) by (auto simp: filter_empty_conv dest: in_set_dropD)
  moreover have *: "filter (\<lambda>e. streamIDNewer (fst e) since) (drop m new) = drop m new" for m
    using newer_than_last(1)[OF assms(6,5)] assms(7) by (auto simp: filter_id_conv dest: in_set_dropD)
  ultimately have "filter (\<lambda>e. since = [] \<or> streamIDNewer (fst e) since) (drop (length ?es - nat n) ?es) = drop (length new - nat n) new"
    using assms(8) *[of 0] by (cases "nat n \<le> length new") simp_all
  then show ?thesis
    using redis_server.run_recentLogs[OF assms(1,2) refl st(1) assms(3), of since] assms(5) unfolding st(2) by simp
qed

theorem recentLogs_exact_witness:
  "\<exists>w'. run_state (recentLogs mem_env ''9-7'' logBatch)
      \<lparr>db = [(LogStreamKey, Some (MStream [(''9-7'', []), (''10-0'', [(''level'', ''warn'')])]))], tick = 0\<rparr> =
     (Inr ([log_line (''10-0'', [(''level'', ''warn'')])], ''10-0''), w')"
proof -
  let ?w = "\<lparr>db = [(LogStreamKey, Some (MStream [(''9-7'', []), (''10-0'', [(''level'', ''warn'')])]))], tick = 0\<rparr>"
  have "in_stream_order ([(''9-7'', [])] @ [(''10-0'', [(''level'', ''warn'')])])" by code_simp
  moreover have "mem_view (db ?w) LogStreamKey = Some (RStream ([(''9-7'', [])] @ [(''10-0'', [(''level'', ''warn'')])]))"
    by (simp add: mem_view_def mem_get_def)
  ultimately show ?thesis
    using recentLogs_exact[of mem_env mem_view logBatch ?w "[(''9-7'', [])]" "[(''10-0'', [(''level'', ''warn'')])]" "''9-7''"]
      mem.redis_server_axioms by auto
qed


section \<open>The snapshot is consistent\<close>

lemma count_pods_exact:
  "fst (count_pods pods) n = int (length (filter (\<lambda>p. pv_NodeID p = n) pods))"
  "snd (count_pods pods) d = int (length (filter (\<lambda>p. pv_Deployment p = d \<and> pv_Status p = StatusRunning) pods))"
  by (induction pods rule: rev_induct) (auto simp: count_pods_def split: prod.splits)

lemma less_callback_views: "less_callback pod_view_less" "less_callback (\<lambda>a b. dv_Name a < dv_Name b)"
proof -
  have "pod_view_less = less_then pv_Deployment (\<lambda>a b. pv_PodID a < pv_PodID b)"
    by (intro ext) (simp add: pod_view_less_def less_then_def)
  then show "less_callback pod_view_less" using less_callback_less_then[OF less_callback_key] by metis
qed (rule less_callback_key)

definition anything :: "'w \<Rightarrow> bool" where "anything w \<longleftrightarrow> True"

lemma ensures_anything: "(\<And>x. Q x) \<Longrightarrow> ensures anything m Q"
  by (simp add: ensures_def anything_def)

lemma bodies_go_on:
  "ensures anything (podViews_body E key pods) (\<lambda>r. \<exists>pods'. r = Next pods')"
  "ensures anything (nodeViews_body E f nodeID nodes) (\<lambda>r. r = Next nodes \<or> (\<exists>v. r = Next (nodes @ [v]) \<and> nv_PodCount v = f (nv_NodeID v)))"
  "ensures anything (deploymentViews_body E g dep deps) (\<lambda>r. \<exists>v. r = Next (deps @ [v]) \<and> dv_ReadyReplicas v = g (dv_Name v))"
  by (auto simp: ensures_def anything_def podViews_body_def nodeViews_body_def deploymentViews_body_def run_on_error
      split: prod.splits sum.splits)

lemma podViews_sorted:
  "ensures anything (podViews E) (\<lambda>r. \<forall>pods. r = Inr pods \<longrightarrow> sorted_wrt (\<lambda>a b. \<not> pod_view_less b a) pods)"
  unfolding podViews_def
proof (rule ensures_on_error[where Q' = "\<lambda>_. True", OF ensures_anything])
  fix keys
  show "ensures anything (loop (podViews_body E) keys [] (\<lambda>views. ok (sort_stable pod_view_less views)))
    (\<lambda>r. \<forall>pods. r = Inr pods \<longrightarrow> sorted_wrt (\<lambda>a b. \<not> pod_view_less b a) pods)"
    by (rule ensures_loop[where A = "\<lambda>_. True"])
      (auto intro!: ensures_return ensures_mono[OF bodies_go_on(1)] less_callback.sort_stable_sorted[OF less_callback_views(1)])
qed (simp_all add: ensures_return)

lemma nodeViews_counts:
  "ensures anything (nodeViews E f) (\<lambda>r. \<forall>nodes. r = Inr nodes \<longrightarrow> (\<forall>v \<in> set nodes. nv_PodCount v = f (nv_NodeID v)))"
  unfolding nodeViews_def
proof (rule ensures_on_error[where Q' = "\<lambda>_. True", OF ensures_anything])
  fix registered
  show "ensures anything (loop (nodeViews_body E f) (sort_stable (<) registered) [] (\<lambda>views. ok views))
    (\<lambda>r. \<forall>nodes. r = Inr nodes \<longrightarrow> (\<forall>v \<in> set nodes. nv_PodCount v = f (nv_NodeID v)))"
    by (rule ensures_loop[where A = "\<lambda>nodes. \<forall>v \<in> set nodes. nv_PodCount v = f (nv_NodeID v)"])
      (auto intro!: ensures_return ensures_mono[OF bodies_go_on(2)])
qed (simp_all add: ensures_return)

lemma deploymentViews_counts:
  "ensures anything (deploymentViews E g) (\<lambda>r. \<forall>deps. r = Inr deps \<longrightarrow>
     (\<forall>v \<in> set deps. dv_ReadyReplicas v = g (dv_Name v)) \<and> sorted_wrt (\<lambda>a b. dv_Name a \<le> dv_Name b) deps)"
  unfolding deploymentViews_def
proof (rule ensures_on_error[where Q' = "\<lambda>_. True", OF ensures_anything])
  fix specs
  have "sorted_wrt (\<lambda>a b. dv_Name a \<le> dv_Name b) (sort_stable (\<lambda>a b. dv_Name a < dv_Name b) views)" for views
    using less_callback.sort_stable_sorted[OF less_callback_views(2), of views] by (simp add: not_less)
  then show "ensures anything (loop (deploymentViews_body E g) specs [] (\<lambda>views. ok (sort_stable (\<lambda>a b. dv_Name a < dv_Name b) views)))
    (\<lambda>r. \<forall>deps. r = Inr deps \<longrightarrow>
       (\<forall>v \<in> set deps. dv_ReadyReplicas v = g (dv_Name v)) \<and> sorted_wrt (\<lambda>a b. dv_Name a \<le> dv_Name b) deps)"
    by (intro ensures_loop[where A = "\<lambda>deps. \<forall>v \<in> set deps. dv_ReadyReplicas v = g (dv_Name v)"])
      (auto intro!: ensures_return ensures_mono[OF bodies_go_on(3)])
qed (simp_all add: ensures_return)

text \<open>C34. A snapshot is consistent in itself whatever happens while it is taken: the pod count of every node and the number of
  ready replicas of every deployment are those of the pods it shows, and the pods are in the order
  of deployment and id and the deployments in the order of their names.\<close>

theorem Snapshot_consistent:
  assumes "run_state (Snapshot E) w = (Inr snap, w')"
  shows "(\<forall>v \<in> set (sn_Nodes snap). nv_PodCount v = int (length (filter (\<lambda>p. pv_NodeID p = nv_NodeID v) (sn_Pods snap)))) \<and>
    (\<forall>v \<in> set (sn_Deployments snap). dv_ReadyReplicas v =
       int (length (filter (\<lambda>p. pv_Deployment p = dv_Name v \<and> pv_Status p = StatusRunning) (sn_Pods snap)))) \<and>
    sorted_wrt (\<lambda>a b. \<not> pod_view_less b a) (sn_Pods snap) \<and>
    sorted_wrt (\<lambda>a b. dv_Name a \<le> dv_Name b) (sn_Deployments snap)"
proof -
  obtain pods w1 where p: "run_state (podViews E) w = (Inr pods, w1)"
    using assms by (auto simp: Snapshot_def run_on_error split: prod.splits sum.splits)
  obtain nodes w2 where n: "run_state (nodeViews E (fst (count_pods pods))) w1 = (Inr nodes, w2)"
    using assms p by (auto simp: Snapshot_def run_on_error Let_def split: prod.splits sum.splits)
  obtain deps w3 where d: "run_state (deploymentViews E (snd (count_pods pods))) w2 = (Inr deps, w3)"
    using assms p n by (auto simp: Snapshot_def run_on_error Let_def split: prod.splits sum.splits)
  have "snap = \<lparr>sn_Nodes = nodes, sn_Deployments = deps, sn_Pods = pods, sn_Logs = []\<rparr>"
    using assms p n d by (auto simp: Snapshot_def run_on_error Let_def split: prod.splits)
  then show ?thesis
    using ensuresE[OF podViews_sorted _ p] ensuresE[OF nodeViews_counts _ n] ensuresE[OF deploymentViews_counts _ d]
    by (simp add: anything_def count_pods_exact)
qed

text \<open>Reading only: no invariant of the keyspace is disturbed.\<close>

context guarded
begin

lemma keeps_Snapshot_parts:
  "keeps J (podViews E)" "keeps J (nodeViews E f)" "keeps J (observedCPU E name)" "keeps J (deploymentViews E g)"
proof -
  show "keeps J (podViews E)" unfolding podViews_def podViews_body_def by (intro keeps_intros)
  show "keeps J (nodeViews E f)" unfolding nodeViews_def nodeViews_body_def by (intro keeps_intros)
  show o: "keeps J (observedCPU E name)" for name unfolding observedCPU_def observedCPU_body_def Let_def by (intro keeps_intros)
  show "keeps J (deploymentViews E g)"
    unfolding deploymentViews_def deploymentViews_body_def List_def List_body_def Get_def by (intro keeps_intros o)
qed

lemma keeps_Snapshot [keeps_intros]: "keeps J (Snapshot E)"
  unfolding Snapshot_def Let_def by (intro keeps_intros keeps_Snapshot_parts)

end

lemma for_range_all_next:
  assumes "\<And>x s w. \<exists>s' w'. run_state (f x s) w = (Next s', w')"
  shows "\<exists>s' w'. run_state (for_range f xs s) w = (Inl s', w')"
proof (induction xs arbitrary: s w)
  case (Cons x xs)
  obtain s1 w1 where "run_state (f x s) w = (Next s1, w1)" using assms by blast
  then show ?case using Cons.IH[of s1 w1] by simp
qed simp

lemma ensures_run:
  assumes "ensures anything m Q"
  shows "\<exists>r w'. run_state m w = (r, w') \<and> Q r"
  using assms unfolding ensures_def anything_def by (metis prod.collapse)

lemma bodies_next:
  "\<exists>s' w'. run_state (podViews_body E key pods) w = (Next s', w')"
  "\<exists>s' w'. run_state (nodeViews_body E f nodeID nodes) w = (Next s', w')"
  "\<exists>s' w'. run_state (deploymentViews_body E g dep deps) w = (Next s', w')"
  "\<exists>s' w'. run_state (List_body E key specs) w = (Next s', w')"
  using ensures_run[OF bodies_go_on(1), of E key pods w] ensures_run[OF bodies_go_on(2), of E f nodeID nodes w]
    ensures_run[OF bodies_go_on(3), of E g dep deps w]
  by (fastforce, fastforce, fastforce) (auto simp: List_body_def split: prod.split option.split bool.split)

context redis_server
begin

lemma run_scan:
  assumes "quiet E" "server E = R" "plain_pattern pat"
  shows "\<exists>ks n. run_state (ScanKeys E pat) w = (Inr ks, w\<lparr>tick := n\<rparr>) \<and> set ks = {k. view (db w) k \<noteq> None \<and> glob pat k}"
proof -
  from scan_all[OF assms(3)] obtain ks where ks: "scan_run R (db w) pat 0 ks"
    "set ks = {k. view (db w) k \<noteq> None \<and> glob pat k}" by blast
  then show ?thesis using scan_loop_quiet[OF assms(1), of w pat 0 ks "[]"] assms(2) by (auto simp: ScanKeys_def)
qed

lemma Snapshot_returns:
  assumes "quiet E" "server E = R" "is_set (view (db w)) NodeRegistryKey"
  shows "\<exists>snap w'. run_state (Snapshot E) w = (Inr snap, w') \<and> view (db w') = view (db w)"
proof -
  let ?I = "\<lambda>v. v = view (db w)"
  have g: "guarded R view E ?I" using assms(1,2) by unfold_locales (simp_all add: quiet_def)
  have pat: "plain_pattern PodKeyPattern" "plain_pattern DeploymentKeyPattern"
    by (simp_all add: plain_pattern_def PodKeyPattern_def DeploymentKeyPattern_def)
  obtain pods w1 where p: "run_state (podViews E) w = (Inr pods, w1)"
  proof -
    obtain ks n where ks: "run_state (ScanKeys E PodKeyPattern) w = (Inr ks, w\<lparr>tick := n\<rparr>)" using run_scan[OF assms(1,2) pat(1)] by blast
    obtain pods w1 where "run_state (for_range (podViews_body E) ks []) (w\<lparr>tick := n\<rparr>) = (Inl pods, w1)"
      using for_range_all_next[of "podViews_body E", OF bodies_next(1)] by blast
    with ks that show thesis by (simp add: podViews_def run_on_error run_loop)
  qed
  have v1: "view (db w1) = view (db w)"
    using keepsE[OF guarded.keeps_Snapshot_parts(1)[OF g] _ p] by (simp add: guarded.J_def[OF g])
  obtain f h where c: "count_pods pods = (f, h)" by fastforce
  obtain nodes w2 where n: "run_state (nodeViews E f) w1 = (Inr nodes, w2)"
  proof -
    have "is_set (view (db w1)) NodeRegistryKey" using assms(3) v1 by simp
    then obtain ms wm where ms: "run_state (SetMembers E NodeRegistryKey) w1 = (Inr ms, wm)"
      using smembers[of "db w1" NodeRegistryKey] assms(1,2) by (auto simp: SetMembers_def run_send_quiet)
    obtain nodes w2 where "run_state (for_range (nodeViews_body E f) (sort_stable (<) ms) []) wm = (Inl nodes, w2)"
      using for_range_all_next[of "nodeViews_body E f", OF bodies_next(2)] by blast
    with ms that show thesis by (simp add: nodeViews_def run_on_error run_loop)
  qed
  obtain deps w3 where d: "run_state (deploymentViews E h) w2 = (Inr deps, w3)"
  proof -
    obtain ks n where ks: "run_state (ScanKeys E DeploymentKeyPattern) w2 = (Inr ks, w2\<lparr>tick := n\<rparr>)" using run_scan[OF assms(1,2) pat(2)] by blast
    obtain specs wl where l: "run_state (for_range (List_body E :: _ \<Rightarrow> _ \<Rightarrow> (_, (_, error + DeploymentSpec list) flow) state) ks []) (w2\<lparr>tick := n\<rparr>) = (Inl specs, wl)"
      using for_range_all_next[of "List_body E", OF bodies_next(4)] by blast
    obtain deps w3 where "run_state (for_range (deploymentViews_body E h) (sort_stable (\<lambda>a b. d_Name a < d_Name b) specs) []) wl = (Inl deps, w3)"
      using for_range_all_next[of "deploymentViews_body E h", OF bodies_next(3)] by blast
    with ks l that show thesis by (simp add: deploymentViews_def List_def run_on_error run_loop)
  qed
  have s: "run_state (Snapshot E) w = (Inr \<lparr>sn_Nodes = nodes, sn_Deployments = deps, sn_Pods = pods, sn_Logs = []\<rparr>, w3)"
    using p c n d by (simp add: Snapshot_def run_on_error)
  then show ?thesis using keepsE[OF guarded.keeps_Snapshot[OF g] _ s] by (auto simp: guarded.J_def[OF g])
qed

end

theorem Snapshot_consistent_witness:
  "\<exists>snap w'. run_state (Snapshot mem_env) demo_world = (Inr snap, w') \<and>
    (\<forall>v \<in> set (sn_Nodes snap). nv_PodCount v = int (length (filter (\<lambda>p. pv_NodeID p = nv_NodeID v) (sn_Pods snap))))"
proof -
  have "is_set (mem_view (db demo_world)) NodeRegistryKey"
    by (simp add: is_set_def mem_view_def mem_get_def demo_world_def demo_db_def key_simps)
  then obtain snap w' where "run_state (Snapshot mem_env) demo_world = (Inr snap, w')"
    using mem.Snapshot_returns[of mem_env demo_world] by auto
  with Snapshot_consistent[OF this] show ?thesis by blast
qed


section \<open>Accounting\<close>

context cluster
begin

lemma keeps_handleState: "keeps J (handleState E)"
  unfolding handleState_def writeError_def writeJSON_def by (intro keeps_intros)

end

end
