(* ===== verification/Windows.thy ===== *)
theory Windows
  imports Node Telemetry Reconcile
begin

text \<open>
  The agent on Windows: \<open>internal/supervisor/spawn_windows.go\<close>, \<open>process_windows.go\<close>, \<open>reconcile_windows.go\<close> and
  \<open>telemetry_windows.go\<close>. \<open>Spawn\<close> and \<open>Stop\<close> are the code of the other platforms around their own identity check, launch
  and termination, and the choice of a port is the same code.
\<close>


section \<open>Process identity\<close>

text \<open>The output of \<open>tasklist\<close> for a pid, \<open>os.FindProcess\<close>, whether \<open>Process.Wait\<close> comes back within the grace period,
  \<open>Process.Kill\<close>, and \<open>os.TempDir\<close>.\<close>

record ('db, 'os) win_env = "('db, 'os) host_env" +
  tasklist :: "int \<Rightarrow> ('os, string) fallible"
  find_process :: "int \<Rightarrow> ('os, unit) fallible"
  wait_returns :: "int \<Rightarrow> ('os, bool) state"
  kill_process :: "int \<Rightarrow> ('os, unit) fallible"
  temp_dir :: string

definition PIDAlive_win ::
  "('db, 'os, 'e) win_env_scheme \<Rightarrow> int \<Rightarrow> (('db, 'os, 'm) host_world_scheme, bool) state"
where
  "PIDAlive_win E pid =
     (if pid \<le> 0 then State_Monad.return False else
      on_error (sys E (tasklist E pid))
        (\<lambda>e. State_Monad.return False)
        (\<lambda>out. let output = TrimSpace out in
          State_Monad.return (\<not> HasPrefix output ''INFO:'' \<and> output \<noteq> [])))"

definition ProcessStartTime_win ::
  "('db, 'os, 'e) win_env_scheme \<Rightarrow> int \<Rightarrow> (('db, 'os, 'm) host_world_scheme, int) fallible"
where
  "ProcessStartTime_win E pid =
     (if pid \<le> 0 then throw (Errorf ''invalid pid %d'' [ArgD pid]) else do {
        alive \<leftarrow> PIDAlive_win E pid;
        if \<not> alive then throw (Errorf ''process %d is not alive'' [ArgD pid]) else ok 1 })"

text \<open>\<open>identity.go\<close> with the functions of this platform.\<close>

definition IsSameProcess_win ::
  "('db, 'os, 'e) win_env_scheme \<Rightarrow> int \<Rightarrow> int \<Rightarrow> (('db, 'os, 'm) host_world_scheme, bool) state"
where
  "IsSameProcess_win E pid wantStartTime =
     (if pid \<le> 0 \<or> wantStartTime = 0 then State_Monad.return False else do {
        alive \<leftarrow> PIDAlive_win E pid;
        if \<not> alive then State_Monad.return False else
        on_error (ProcessStartTime_win E pid)
          (\<lambda>e. State_Monad.return False)
          (\<lambda>got. State_Monad.return (got = wantStartTime)) })"


section \<open>Starting and stopping\<close>

definition workload_env_win ::
  "('db, 'os, 'e) win_env_scheme \<Rightarrow> Supervisor \<Rightarrow> DeploymentSpec \<Rightarrow> PodSpec \<Rightarrow> int \<Rightarrow> string list"
where
  "workload_env_win E s dep pod hostPort =
     [''PATH='' @ envOrDefault E ''PATH''
        (''C:'' @ [CHR 0x5C] @ ''Windows'' @ [CHR 0x5C] @ ''system32;C:'' @ [CHR 0x5C] @ ''Windows''),
      ''HOME='' @ envOrDefault E ''USERPROFILE'' (temp_dir E),
      PodIDEnv @ ''='' @ p_PodID pod,
      DeploymentEnv @ ''='' @ d_Name dep,
      NodeIDEnv @ ''='' @ sv_nodeID s,
      PortEnv @ ''='' @ Itoa hostPort]"

definition terminate_win ::
  "('db, 'os, 'e) win_env_scheme \<Rightarrow> int \<Rightarrow> (('db, 'os, 'm) host_world_scheme, unit) fallible"
where
  "terminate_win E pid = do {
     gone \<leftarrow> sys E (wait_returns E pid);
     if gone then ok () else do { sys E (kill_process E pid); ok () } }"

definition launch_win ::
  "('db, 'os, 'e) win_env_scheme \<Rightarrow> Supervisor \<Rightarrow> DeploymentSpec \<Rightarrow> PodSpec \<Rightarrow> string \<Rightarrow> int \<Rightarrow>
   (('db, 'os, 'm) host_world_scheme, unit) fallible"
where
  "launch_win E s dep pod podKey hostPort =
     on_error (sys E (k_Stat (kernel E) (d_ExecPath dep)))
       (\<lambda>e. throw (Errorf ''exec path %s is not usable: %w'' [ArgS (d_ExecPath dep), ArgE e]))
       (\<lambda>_. on_error (sys E (k_OpenFile (kernel E) ''NUL''))
       (\<lambda>e. throw (Errorf ''open %s: %w'' [ArgS ''NUL'', ArgE e]))
       (\<lambda>_. on_error (sys E (k_Start (kernel E) (d_ExecPath dep) (workload_env_win E s dep pod hostPort)))
       (\<lambda>e. throw (Errorf ''start %s: %w'' [ArgS (d_ExecPath dep), ArgE e]))
       (\<lambda>pid. on_error (ProcessStartTime_win E pid)
       (\<lambda>e. throw (Errorf ''process %d exited immediately after start: %w'' [ArgD pid, ArgE e]))
       (\<lambda>startTime. do {
          now \<leftarrow> now_unix E;
          on_error (HashSet E podKey
              [(FieldPodPID, VInt pid), (FieldPodPIDStartTime, VInt startTime), (FieldPodHostPort, VInt hostPort),
               (FieldPodStartedAt, VStr (Itoa now)), (FieldPodStatus, VStr StatusRunning)])
            (\<lambda>e. attempt (terminate_win E pid) (\<lambda>_. throw (Errorf ''record identity for pid %d: %w'' [ArgD pid, ArgE e])))
            (\<lambda>_. do {
               Info E (sv_logger s) ''pod_started''
                 (Sprintf ''spawned %s as pid %d on port %d'' [ArgS (d_ExecPath dep), ArgD pid, ArgD hostPort])
                 (pod_ids s (d_Name dep) (p_PodID pod));
               ok () }) }))))"

text \<open>The environment lookup, the choice of a port and the handling of a failed start are the same text as on the other
  platforms.\<close>

definition envOrDefault_win where "envOrDefault_win = envOrDefault"
definition portFree_win where "portFree_win = portFree"
definition claimedPorts_win where "claimedPorts_win = claimedPorts"
definition allocateHostPort_win where "allocateHostPort_win = allocateHostPort"
definition markFailedIfSpawnFails_win where "markFailedIfSpawnFails_win = markFailedIfSpawnFails"

definition Spawn_win ::
  "('db, 'os, 'e) win_env_scheme \<Rightarrow> Supervisor \<Rightarrow> string \<Rightarrow> string \<Rightarrow> (('db, 'os, 'm) host_world_scheme, unit) fallible"
where
  "Spawn_win E s = spawn_with (IsSameProcess_win E) (launch_win E s) E s"

definition Stop_win ::
  "('db, 'os, 'e) win_env_scheme \<Rightarrow> Supervisor \<Rightarrow> string \<Rightarrow> string \<Rightarrow> (('db, 'os, 'm) host_world_scheme, unit) fallible"
where
  "Stop_win E s =
     stop_with (IsSameProcess_win E)
       (\<lambda>pid. on_error (sys E (find_process E pid)) (\<lambda>e. ok ()) (\<lambda>_. terminate_win E pid)) E s"


section \<open>Startup\<close>

definition ReconcileOnStartup_win_body ::
  "('db, 'os, 'e) win_env_scheme \<Rightarrow> Supervisor \<Rightarrow> string \<Rightarrow> string list \<times> string list \<Rightarrow>
   (('db, 'os, 'm) host_world_scheme, (string list \<times> string list, error + ReconcileReport) flow) state"
where
  "ReconcileOnStartup_win_body E s key acc =
     (case acc of (adopted, restarted) \<Rightarrow>
      on_error (HashGet E key)
        (\<lambda>e. State_Monad.return (Next acc))
        (\<lambda>fs.
          if fs = [] then State_Monad.return (Next acc)
          else case MapToPod fs of
            Inl e \<Rightarrow> do {
              Warn E (sv_logger s) ''pod_hash_malformed'' ''skipping unreadable pod during startup reconcile'' [NodeID (sv_nodeID s)];
              State_Monad.return (Next acc) }
          | Inr pod \<Rightarrow>
              if p_Status pod = StatusEvicted then State_Monad.return (Next acc) else do {
                same \<leftarrow> IsSameProcess_win E (p_PID pod) (p_PIDStartTime pod);
                if same then do {
                  Info E (sv_logger s) ''pod_adopted'' ''re-adopted running process'' (pod_ids s (p_Deployment pod) (p_PodID pod));
                  State_Monad.return (Next (adopted @ [p_PodID pod], restarted)) }
                else do {
                  Warn E (sv_logger s) ''pod_process_missing'' ''recorded pid is not alive, restarting''
                    (pod_ids s (p_Deployment pod) (p_PodID pod));
                  on_error (Spawn_win E s (p_Deployment pod) (p_PodID pod))
                    (\<lambda>e. do {
                       Error E (sv_logger s) ''pod_restart_failed'' (Error_text e) (pod_ids s (p_Deployment pod) (p_PodID pod));
                       State_Monad.return (Next acc) })
                    (\<lambda>_. State_Monad.return (Next (adopted, restarted @ [p_PodID pod]))) } }))"

definition ReconcileOnStartup_win ::
  "('db, 'os, 'e) win_env_scheme \<Rightarrow> Supervisor \<Rightarrow> (('db, 'os, 'm) host_world_scheme, ReconcileReport) fallible"
where
  "ReconcileOnStartup_win E s =
     attempt (ScanKeys E PodKeyPattern) (\<lambda>keys.
       loop (ReconcileOnStartup_win_body E s) keys ([], []) (\<lambda>(adopted, restarted).
         ok \<lparr>rr_Adopted = adopted, rr_Restarted = restarted, rr_Orphaned = []\<rparr>))"


section \<open>Telemetry\<close>

text \<open>The errors of the three calls are dropped.\<close>

definition publish_zero ::
  "('db, 'e) env_scheme \<Rightarrow> PodSpec \<Rightarrow> int \<Rightarrow> (('db, 'm) world_scheme, unit) state"
where
  "publish_zero E pod interval = do {
     let cpuKey = TelemetryCPUKey (p_Deployment pod) (p_PodID pod);
     ListPush E cpuKey ''0'';
     ListTrim E cpuKey 0 (telemetrySamples - 1);
     Expire E cpuKey (i64 (interval * (telemetrySamples + 1)));
     State_Monad.return () }"

definition collectTelemetry_body ::
  "('db, 'e) env_scheme \<Rightarrow> Supervisor \<Rightarrow> int \<Rightarrow> string \<Rightarrow> unit \<Rightarrow> (('db, 'm) world_scheme, (unit, unit) flow) state"
where
  "collectTelemetry_body E s interval key u =
     on_error (HashGet E key)
       (\<lambda>e. State_Monad.return (Next ()))
       (\<lambda>fs.
         if fs = [] then State_Monad.return (Next ()) else
         case MapToPod fs of
           Inl e \<Rightarrow> State_Monad.return (Next ())
         | Inr pod \<Rightarrow>
             if p_NodeID pod \<noteq> sv_nodeID s then State_Monad.return (Next ())
             else if p_Status pod \<noteq> StatusRunning \<or> p_PID pod \<le> 0 then State_Monad.return (Next ())
             else do { publish_zero E pod interval; State_Monad.return (Next ()) })"

definition collectTelemetry ::
  "('db, 'e) env_scheme \<Rightarrow> Supervisor \<Rightarrow> int \<Rightarrow> (('db, 'm) world_scheme, unit) state"
where
  "collectTelemetry E s interval =
     on_error (ScanKeys E PodKeyPattern)
       (\<lambda>e. State_Monad.return ())
       (\<lambda>keys. loop (collectTelemetry_body E s interval) keys () (\<lambda>_. State_Monad.return ()))"

text \<open>One tick of \<open>RunTelemetryCollector\<close>.\<close>

definition telemetry_tick_win ::
  "('db, 'e) env_scheme \<Rightarrow> Supervisor \<Rightarrow> int \<Rightarrow> (('db, 'm) world_scheme, unit) state"
where
  "telemetry_tick_win E s interval = collectTelemetry E s (if interval \<le> 0 then 5 * 10 ^ 9 else interval)"


section \<open>Identity is a living pid\<close>

text \<open>\<open>tasklist /NH /FO CSV\<close>: a row of quoted fields for a process that exists, an \<open>INFO:\<close> line for one that does not.\<close>

locale task_list =
  fixes tl :: "int \<Rightarrow> ('os, string) fallible" and alive :: "'os \<Rightarrow> int \<Rightarrow> bool"
  assumes listed: "0 < pid \<Longrightarrow> alive s pid \<Longrightarrow> \<exists>row s'. run_state (tl pid) s = (Inr (CHR 0x22 # row), s') \<and> (\<forall>q. alive s' q = alive s q)"
    and unlisted: "0 < pid \<Longrightarrow> \<not> alive s pid \<Longrightarrow> \<exists>note s'. run_state (tl pid) s = (Inr (''INFO:'' @ note), s') \<and> (\<forall>q. alive s' q = alive s q)"

lemma skip_blanks_stops:
  assumes "\<forall>e \<in> set encs. x \<notin> set e"
  shows "\<exists>b. skip_blanks encs (a @ x # t) = b @ x # t"
proof (induction a rule: length_induct)
  case (1 a)
  show ?case
  proof (cases "leading encs (a @ x # t)")
    case None
    then show ?thesis using skip_blanks_none by blast
  next
    case (Some n)
    then obtain e where "find (\<lambda>e. e \<noteq> [] \<and> HasPrefix (a @ x # t) e) encs = Some e" "n = length e" by (auto simp: leading_def)
    then have e: "e \<in> set encs" "e \<noteq> []" "HasPrefix (a @ x # t) e" "n = length e" by (auto simp: find_Some_iff)
    have "length e \<le> length a"
    proof (rule ccontr)
      assume "\<not> length e \<le> length a"
      then have l: "length a < length e" by simp
      have "take (length e) (a @ x # t) ! length a = x" using l by (simp only: nth_take nth_append_length)
      then have "x = e ! length a" using e(3) by (simp add: HasPrefix_def)
      then show False using assms e(1) nth_mem[OF l] by auto
    qed
    then have d: "drop n (a @ x # t) = drop n a @ x # t" "length (drop n a) < length a"
      using e(2,4) by (auto simp: length_greater_0_conv[symmetric] simp del: length_greater_0_conv)
    show ?thesis using 1[rule_format, OF d(2)] Some d(1) by (subst skip_blanks.simps) simp
  qed
qed

definition blank_bytes :: "char set" where
  "blank_bytes = \<Union> (set ` set (newline # blank_encodings))"

lemma TrimSpace_keeps:
  assumes "hd (p @ [x]) \<notin> blank_bytes" "x \<notin> blank_bytes"
  shows "\<exists>r. TrimSpace (p @ x # s) = p @ x # r"
proof -
  let ?encs = "newline # blank_encodings"
  obtain y ys where y: "p @ x # s = y # ys" "hd (p @ [x]) = y" by (cases p) auto
  have "leading ?encs (y # ys) = None"
    using assms(1) unfolding y(2) blank_bytes_def by (intro leading_None_hd) (metis UN_I hd_in_set)
  then have "skip_blanks ?encs (p @ x # s) = p @ x # s" using y(1) skip_blanks_none by simp
  then have "TrimSpace (p @ x # s) = rev (skip_blanks (map rev ?encs) (rev s @ x # rev p))"
    by (simp add: TrimSpace_def Let_def)
  moreover obtain b where "skip_blanks (map rev ?encs) (rev s @ x # rev p) = b @ x # rev p"
    using skip_blanks_stops[of "map rev ?encs" x "rev s" "rev p"] assms(2) unfolding blank_bytes_def by auto
  ultimately show ?thesis by auto
qed

lemma tasklist_bytes: "CHR 0x22 \<notin> blank_bytes" "CHR ''I'' \<notin> blank_bytes" "CHR '':'' \<notin> blank_bytes"
  by (auto simp: blank_bytes_def newline_def blank_encodings_def char_of_def bit_simps)

lemma TrimSpace_task:
  "\<exists>r. TrimSpace (CHR 0x22 # row) = CHR 0x22 # r" "\<exists>r. TrimSpace (''INFO:'' @ row) = ''INFO:'' @ r"
  using TrimSpace_keeps[of "[]" "CHR 0x22" row] TrimSpace_keeps[of "''INFO''" "CHR '':''" row] tasklist_bytes by auto

context task_list
begin

lemma run_PIDAlive_win:
  assumes "calm E" "tasklist E = tl"
  shows "\<exists>w'. run_state (PIDAlive_win E pid) w = (0 < pid \<and> alive (os w) pid, w') \<and> db w' = db w \<and> (\<forall>q. alive (os w') q = alive (os w) q)"
proof (cases "0 < pid")
  case True
  show ?thesis
  proof (cases "alive (os w) pid")
    case live: True
    obtain row s' where r: "run_state (tl pid) (os w) = (Inr (CHR 0x22 # row), s')" "\<forall>q. alive s' q = alive (os w) q"
      using listed[OF True live] by blast
    moreover obtain x where "TrimSpace (CHR 0x22 # row) = CHR 0x22 # x" using TrimSpace_task(1) by blast
    ultimately show ?thesis
      using True live assms by (simp add: PIDAlive_win_def run_on_error run_sys_calm HasPrefix_def)
  next
    case dead: False
    obtain row s' where r: "run_state (tl pid) (os w) = (Inr (''INFO:'' @ row), s')" "\<forall>q. alive s' q = alive (os w) q"
      using unlisted[OF True dead] by blast
    moreover obtain x where "TrimSpace (''INFO:'' @ row) = ''INFO:'' @ x" using TrimSpace_task(2) by blast
    ultimately show ?thesis
      using True dead assms by (simp add: PIDAlive_win_def run_on_error run_sys_calm HasPrefix_def)
  qed
qed (simp add: PIDAlive_win_def)

lemma run_IsSameProcess_win:
  assumes "calm E" "tasklist E = tl"
  shows "\<exists>w'. run_state (IsSameProcess_win E pid t) w = (0 < pid \<and> alive (os w) pid \<and> t = 1, w') \<and> db w' = db w \<and>
    (\<forall>q. alive (os w') q = alive (os w) q)"
proof (cases "pid \<le> 0 \<or> t = 0")
  case False
  obtain w1 where 1: "run_state (PIDAlive_win E pid) w = (0 < pid \<and> alive (os w) pid, w1)" "db w1 = db w" "\<forall>q. alive (os w1) q = alive (os w) q"
    using run_PIDAlive_win[OF assms] by blast
  obtain w2 where 2: "run_state (PIDAlive_win E pid) w1 = (0 < pid \<and> alive (os w1) pid, w2)" "db w2 = db w1" "\<forall>q. alive (os w2) q = alive (os w1) q"
    using run_PIDAlive_win[OF assms] by blast
  show ?thesis
    using False 1 2 by (cases "alive (os w) pid") (auto simp: IsSameProcess_win_def ProcessStartTime_win_def run_on_error)
qed (auto simp: IsSameProcess_win_def)

end

text \<open>On Windows a recorded process counts as the same one exactly when its pid is alive and the recorded start time
  is the sentinel 1: another process that got the pid in the meantime is taken for the pod's.\<close>

theorem IsSameProcess_win_exact:
  fixes w :: "('db, 'os, 'm) host_world_scheme"
  assumes "task_list (tasklist E) alive" "calm E"
  shows "\<exists>w'. run_state (IsSameProcess_win E pid t) w = (0 < pid \<and> alive (os w) pid \<and> t = 1, w') \<and> db w' = db w"
  using task_list.run_IsSameProcess_win[OF assms(1,2) refl, of pid t w] by blast


lemma index_range_front: "index_range xs 0 2 = take 3 xs"
proof (cases "length xs < 3")
  case True
  then show ?thesis by (cases xs) (simp_all add: index_range_def)
next
  case False
  then have "min (int (length xs) - 1) 2 = 2" by simp
  then show ?thesis by (simp add: index_range_def)
qed

text \<open>A telemetry tick on Windows adds a zero to the pod's list and cuts the list down to its first three entries, with nothing
  else happening; so a list that has three entries stays as it is.\<close>

theorem publish_zero_exact:
  assumes "redis_server (server E) view" "quiet E" "is_list (view (db w)) (TelemetryCPUKey (p_Deployment p) (p_PodID p))"
  shows "\<exists>w'. run_state (publish_zero E p interval) w = ((), w') \<and>
    view (db w') = (view (db w))(TelemetryCPUKey (p_Deployment p) (p_PodID p) \<mapsto>
      RList (take 3 (list_at (view (db w)) (TelemetryCPUKey (p_Deployment p) (p_PodID p)) @ [''0''])))"
proof -
  let ?R = "server E" and ?k = "TelemetryCPUKey (p_Deployment p) (p_PodID p)"
  let ?xs = "list_at (view (db w)) ?k @ [''0'']"
  let ?d1 = "snd (run_state (r_rpush ?R ?k ''0'') (db w))"
  have v1: "view ?d1 = put_list (view (db w)) ?k ?xs" using assms(3) by (simp add: redis_server.view_rpush[OF assms(1)])
  have "index_range ?xs 0 2 = take 3 ?xs" by (rule index_range_front)
  then have "view (snd (run_state (r_ltrim ?R ?k 0 2) ?d1)) = (view (db w))(?k \<mapsto> RList (take 3 ?xs))"
    using redis_server.ltrim[OF assms(1), of ?k 0 2 ?d1, OF prod.collapse[symmetric]] by (auto simp: v1 put_list_def)
  then show ?thesis
    using assms(2) by (simp add: publish_zero_def Let_def ListPush_def ListTrim_def Expire_def run_send_quiet
        redis_server.view_expire[OF assms(1)])
qed


section \<open>Accounting\<close>

lemma keeps_db_win [keeps_intros]:
  "keeps (\<lambda>w. db w = d) (PIDAlive_win E pid)" "keeps (\<lambda>w. db w = d) (terminate_win E pid)"
  unfolding PIDAlive_win_def terminate_win_def Let_def by (intro keeps_intros)+

locale win_cluster = host_cluster R view E
  for R :: "'db redis" and view and E :: "('db, 'os, 'e) win_env_scheme"
begin

lemma keeps_win [keeps_intros]: "keeps J (PIDAlive_win E pid)" "keeps J (terminate_win E pid)"
  by (intro keeps_db_J keeps_intros)+

lemma keeps_win_identity [keeps_intros]: "keeps J (ProcessStartTime_win E pid)" "keeps J (IsSameProcess_win E pid t)"
proof -
  show p: "keeps J (ProcessStartTime_win E pid)" for pid unfolding ProcessStartTime_win_def by (intro keeps_intros)
  show "keeps J (IsSameProcess_win E pid t)" unfolding IsSameProcess_win_def by (intro keeps_intros p)
qed

lemma keeps_launch_win [keeps_intros]: "keeps J (launch_win E s dep p (PodKey d i) port)"
proof -
  have "keeps J (HashSet E (PodKey d i) [(FieldPodPID, VInt a), (FieldPodPIDStartTime, VInt b), (FieldPodHostPort, VInt c),
      (FieldPodStartedAt, VStr t), (FieldPodStatus, VStr StatusRunning)])" for a b c t
    by (rule keeps_pod_fields) simp_all
  then show ?thesis unfolding launch_win_def by (intro keeps_intros) simp_all
qed

lemma keeps_Spawn_win [keeps_intros]: "keeps J (Spawn_win E s d i)"
  unfolding Spawn_win_def spawn_with_def by (intro keeps_intros) simp_all

lemma keeps_Stop_win: "keeps J (Stop_win E s d i)"
proof -
  have "keeps J (HashSet E (PodKey d i) [(FieldPodPID, VInt 0), (FieldPodPIDStartTime, VInt 0)])" by (rule keeps_pod_fields) simp_all
  then show ?thesis unfolding Stop_win_def stop_with_def by (intro keeps_intros) simp_all
qed

lemma keeps_startup_win: "keeps J (ReconcileOnStartup_win E s)"
  unfolding ReconcileOnStartup_win_def ReconcileOnStartup_win_body_def by (intro keeps_intros; simp)

lemma keeps_telemetry_win: "keeps J (telemetry_tick_win E s i)"
  unfolding telemetry_tick_win_def collectTelemetry_def collectTelemetry_body_def publish_zero_def Let_def by (intro keeps_intros; simp)

end

text \<open>Startup on Windows keeps the accounting: however the database and the machine behave on the way, no allocation leaves the
  range between zero and the node's total.\<close>

theorem startup_win_safe:
  assumes "guarded (server E) view E accounting_ok" "accounting_ok (view (db w))" "run_state (ReconcileOnStartup_win E s) w = (r, w')"
  shows "accounting_ok (view (db w'))"
proof -
  have "win_cluster (server E) view E" using assms(1) by (simp add: win_cluster_def host_cluster_def cluster_def)
  from keepsE[OF win_cluster.keeps_startup_win[OF this] _ assms(3)] assms(2) show ?thesis by (simp add: guarded.J_def[OF assms(1)])
qed


section \<open>An instance\<close>

definition ma_tasklist :: "int \<Rightarrow> (machine, string) fallible" where
  "ma_tasklist pid = State (\<lambda>s. (Inr (if ma_view s pid \<noteq> None then [CHR 0x22] @ ''web.exe'' @ [CHR 0x22] else ''INFO: No tasks''), s))"

interpretation ma_tasks: task_list ma_tasklist "\<lambda>s pid. ma_view s pid \<noteq> None"
  by unfold_locales (auto simp: ma_tasklist_def)

definition mem_win :: "(mem, machine) win_env" where
  "mem_win = \<lparr>server = mem_redis, fault_at = fault_at mem_env, interfere = interfere mem_env, ctx_done = ctx_done mem_env,
     unix_at = unix_at mem_env, text_time_at = text_time_at mem_env, rand_at = rand_at mem_env, map_order = map_order mem_env,
     kernel = ma_kernel, moves = (\<lambda>_ s. s), nano_at = (\<lambda>n. int n * 10 ^ 9), frac_at = (\<lambda>_. 0), Getenv = (\<lambda>_. []), Getpid = 1,
     tasklist = ma_tasklist, find_process = (\<lambda>_. ok ()), wait_returns = (\<lambda>_. State_Monad.return False),
     kill_process = (\<lambda>_. ok ()), temp_dir = ''C:''\<rparr>"

lemma mem_win_simps [simp]:
  "server mem_win = mem_redis" "quiet mem_win" "calm mem_win" "tasklist mem_win = ma_tasklist"
  by (simp_all add: mem_win_def mem_env_def quiet_def calm_def)

lemma mem_win_guarded [simp]: "guarded mem_redis mem_view mem_win I"
  by unfold_locales (simp_all add: mem_win_def mem_env_def)

interpretation mem_win_cluster: win_cluster mem_redis mem_view mem_win
  by (simp add: win_cluster_def host_cluster_def cluster_def)

theorem IsSameProcess_win_exact_witness:
  "\<exists>w'. run_state (IsSameProcess_win mem_win 7 1) (on_machine []) = (True, w') \<and> db w' = []"
  using IsSameProcess_win_exact[of mem_win "\<lambda>s pid. ma_view s pid \<noteq> None" 7 1 "on_machine []"] ma_tasks.task_list_axioms demo_process
  by simp


theorem publish_zero_exact_witness:
  "\<exists>w'. run_state (publish_zero mem_env demo_pod 1) \<lparr>db = [(TelemetryCPUKey ''web'' ''7f'', Some (MList [''5'', ''6'', ''7'']))], tick = 0\<rparr> = ((), w') \<and>
    mem_view (db w') (TelemetryCPUKey ''web'' ''7f'') = Some (RList [''5'', ''6'', ''7''])"
proof -
  let ?w = "\<lparr>db = [(TelemetryCPUKey ''web'' ''7f'', Some (MList [''5'', ''6'', ''7'']))], tick = 0\<rparr>"
  have v: "mem_view (db ?w) (TelemetryCPUKey ''web'' ''7f'') = Some (RList [''5'', ''6'', ''7''])"
    by (simp add: mem_view_def mem_get_def)
  then show ?thesis
    using publish_zero_exact[of mem_env mem_view ?w demo_pod 1] mem.redis_server_axioms
    by (auto simp: demo_pod_def is_list_def list_at_def)
qed

theorem startup_win_safe_witness:
  "accounting_ok (mem_view (db (snd (run_state (ReconcileOnStartup_win mem_win (NewSupervisor demo_logger ''n1'')) (on_machine demo_db)))))"
proof -
  have "accounting_ok (mem_view (db (on_machine demo_db)))" using demo_accounting by (simp add: demo_world_def)
  from startup_win_safe[of mem_win mem_view "on_machine demo_db", OF _ this prod.collapse[symmetric]] show ?thesis by simp
qed

end
