(* ===== verification/Loops.thy ===== *)
theory Loops
  imports ConfigLoad Dashboard Windows
begin

text \<open>
  The endless loops of the program, each as written: the tickers and subscriptions of \<open>internal/controller\<close>, the loops of an
  agent in \<open>internal/node\<close> and \<open>internal/supervisor\<close>, the watcher of \<open>internal/ingress\<close> and the event stream of
  \<open>internal/api/dashboard.go\<close>.

  A \<open>select\<close> statement waits until one of its cases is ready and carries that one out; which one is not up to the program. A
  loop is therefore run along the list of the choices that its \<open>select\<close> makes. The result \<open>Inl\<close> says that the
  list has ended and the loop waits for its next choice, \<open>Inr\<close> that the loop has returned.
\<close>


section \<open>Select statements\<close>

text \<open>\<open>case <-ctx.Done()\<close> and \<open>case <-ticker.C\<close> (or \<open>case <-time.After(d)\<close>).\<close>

datatype select = Cancelled | Fired

definition ticker_loop ::
  "('s \<Rightarrow> ('w, ('s, 'r) flow) state) \<Rightarrow> ('s \<Rightarrow> ('w, ('s, 'r) flow) state) \<Rightarrow> select list \<Rightarrow> 's \<Rightarrow> ('w, 's + 'r) state"
where
  "ticker_loop done fired = for_range (\<lambda>c. case c of Cancelled \<Rightarrow> done | Fired \<Rightarrow> fired)"

text \<open>\<open>return\<close> without a value.\<close>

definition leave :: "'s \<Rightarrow> ('w, ('s, unit) flow) state" where
  "leave s = State_Monad.return (Return ())"

definition stay :: "('w, 'a) state \<Rightarrow> unit \<Rightarrow> ('w, (unit, 'r) flow) state" where
  "stay m u = do { m; State_Monad.return (Next ()) }"

definition sleepCtx :: "select \<Rightarrow> bool" where
  "sleepCtx c = (case c of Cancelled \<Rightarrow> False | Fired \<Rightarrow> True)"


section \<open>Sweeps\<close>

text \<open>\<open>ReplicaController.RunSweeper\<close>: one sweep at once, then one per tick.\<close>

definition RunSweeper :: "('db, 'e) env_scheme \<Rightarrow> Logger \<Rightarrow> select list \<Rightarrow> (('db, 'm) world_scheme, unit + unit) state" where
  "RunSweeper E l choices = do {
     sweep_round E l;
     ticker_loop leave (stay (sweep_round E l)) choices () }"

text \<open>\<open>HealthController.RunSweeper\<close>: a sweep before every wait.\<close>

definition RunSweeper_health ::
  "('db, 'e) env_scheme \<Rightarrow> Logger \<Rightarrow> select list \<Rightarrow> (('db, 'm) world_scheme, unit + unit) state"
where
  "RunSweeper_health E l choices =
     for_range (\<lambda>c u. do {
       health_round E l;
       case c of Cancelled \<Rightarrow> leave u | Fired \<Rightarrow> State_Monad.return (Next ()) }) choices ()"

definition Run_autoscaler ::
  "('db, 'e) env_scheme \<Rightarrow> Logger \<Rightarrow> AutoscaleConfig \<Rightarrow> select list \<Rightarrow> (('db, 'm) world_scheme, unit + unit) state"
where
  "Run_autoscaler E l cfg choices = ticker_loop leave (stay (autoscale_round E l cfg)) choices ()"


section \<open>Subscriptions\<close>

text \<open>One turn of a reconnecting loop: what \<open>Subscribe\<close> gets, and what the pause after a failure ends with.\<close>

record connection =
  cn_confirmation :: "error + received list"
  cn_pause :: select

text \<open>Reading from one subscription until it closes or the context is done.\<close>

definition drain ::
  "(string \<Rightarrow> ('w, unit) state) \<Rightarrow> received list \<Rightarrow> ('w, unit + unit) state"
where
  "drain handle sub =
     for_range (\<lambda>r. case r of CtxDone \<Rightarrow> leave | ChannelClosed \<Rightarrow> leave | Message payload \<Rightarrow> stay (handle payload)) sub ()"

definition consume ::
  "('db, 'e) env_scheme \<Rightarrow> Logger \<Rightarrow> (string \<Rightarrow> error) \<Rightarrow> received list \<Rightarrow> (('db, 'm) world_scheme, unit + unit) state"
where
  "consume E l refusal = drain (consume_event E l refusal)"

definition consumeExpiries ::
  "('db, 'e) env_scheme \<Rightarrow> Logger \<Rightarrow> received list \<Rightarrow> (('db, 'm) world_scheme, unit + unit) state"
where
  "consumeExpiries E l = drain (handle_expiry E l)"

text \<open>\<open>for ctx.Err() == nil\<close> around it: a lost subscription is taken out again, a refused one is tried again after a
  pause. A list of turns that ends inside a subscription ends the description.\<close>

definition reconnect ::
  "('db, 'e) env_scheme \<Rightarrow> string \<Rightarrow> (error \<Rightarrow> (('db, 'm) world_scheme, unit) state) \<Rightarrow>
   (received list \<Rightarrow> (('db, 'm) world_scheme, unit + unit) state) \<Rightarrow> connection list \<Rightarrow> (('db, 'm) world_scheme, unit + unit) state"
where
  "reconnect E channel refused read turns =
     for_range (\<lambda>turn u. do {
       c \<leftarrow> ctx_Err E;
       case c of
         Some _ \<Rightarrow> leave u
       | None \<Rightarrow>
           on_error (Subscribe channel (cn_confirmation turn))
             (\<lambda>err. do {
                refused err;
                if \<not> sleepCtx (cn_pause turn) then leave u else State_Monad.return (Next ()) })
             (\<lambda>sub. do {
                r \<leftarrow> read sub;
                State_Monad.return (case r of Inl _ \<Rightarrow> Break () | Inr _ \<Rightarrow> Next ()) }) }) turns ()"

definition RunSubscriber ::
  "('db, 'e) env_scheme \<Rightarrow> Logger \<Rightarrow> (string \<Rightarrow> error) \<Rightarrow> connection list \<Rightarrow> (('db, 'm) world_scheme, unit + unit) state"
where
  "RunSubscriber E l refusal =
     reconnect E DeploymentEventsChannel (\<lambda>err. Error E l ''event_subscribe_failed'' (Error_text err) []) (consume E l refusal)"

abbreviation (input) expiredEventChannel :: string where
  "expiredEventChannel \<equiv> ''__keyevent@0__:expired''"

definition RunExpirySubscriber ::
  "('db, 'e) env_scheme \<Rightarrow> Logger \<Rightarrow> connection list \<Rightarrow> (('db, 'm) world_scheme, unit + unit) state"
where
  "RunExpirySubscriber E l =
     reconnect E expiredEventChannel (\<lambda>err. Error E l ''expiry_subscribe_failed'' (Error_text err) []) (consumeExpiries E l)"


section \<open>The loops of an agent\<close>

text \<open>A refresh that fails while the context is cancelled ends the loop.\<close>

definition RunHeartbeatLoop ::
  "('db, 'e) env_scheme \<Rightarrow> Logger \<Rightarrow> Registrar \<Rightarrow> select list \<Rightarrow> (('db, 'm) world_scheme, unit + unit) state"
where
  "RunHeartbeatLoop E l r choices =
     ticker_loop leave (\<lambda>u. do { on \<leftarrow> heartbeat_tick E l r; if on then State_Monad.return (Next ()) else leave u }) choices ()"

definition RunHealthChecker ::
  "('db, 'os, 'e) host_env_scheme \<Rightarrow> Supervisor \<Rightarrow> HealthConfig \<Rightarrow> select list \<Rightarrow> (('db, 'os, 'm) host_world_scheme, unit + unit) state"
where
  "RunHealthChecker E s cfg choices = ticker_loop leave (stay (health_tick E s cfg)) choices ()"

text \<open>The collector starts without baselines.\<close>

definition RunTelemetryCollector ::
  "('db, 'os, 'e) host_env_scheme \<Rightarrow> Supervisor \<Rightarrow> int \<Rightarrow> select list \<Rightarrow> (('db, 'os, 'm) host_world_scheme, baselines + unit) state"
where
  "RunTelemetryCollector E s interval choices =
     ticker_loop leave (\<lambda>lst. do { lst \<leftarrow> telemetry_tick E s interval lst; State_Monad.return (Next lst) }) choices []"

text \<open>On Windows the loop returns \<open>ctx.Err()\<close>.\<close>

definition RunTelemetryCollector_win ::
  "('db, 'e) env_scheme \<Rightarrow> Supervisor \<Rightarrow> int \<Rightarrow> select list \<Rightarrow> (('db, 'm) world_scheme, unit + error option) state"
where
  "RunTelemetryCollector_win E s interval choices =
     ticker_loop (\<lambda>_. do { c \<leftarrow> ctx_Err E; State_Monad.return (Return c) }) (stay (telemetry_tick_win E s interval)) choices ()"

section \<open>The event stream of the dashboard\<close>

text \<open>\<open>flushes\<close>: the response writer can flush. \<open>start\<close> sends the headers with the status, \<open>write\<close> a frame. An error of the writer
  ends the stream: the client is gone.\<close>

definition event_stream_headers :: "(string \<times> string) list" where
  "event_stream_headers =
     [(''Content-Type'', ''text/event-stream''), (''Cache-Control'', ''no-cache''), (''Connection'', ''keep-alive''),
      (''X-Accel-Buffering'', ''no'')]"

definition handleEvents ::
  "('db, 'e) env_scheme \<Rightarrow> bool \<Rightarrow> ((string \<times> string) list \<Rightarrow> int \<Rightarrow> (('db, 'm) world_scheme, unit) state) \<Rightarrow>
   (string \<Rightarrow> (('db, 'm) world_scheme, unit) fallible) \<Rightarrow> select list \<Rightarrow> (('db, 'm) world_scheme, string + response option) state"
where
  "handleEvents E flushes start write choices =
     (if \<not> flushes then do {
        r \<leftarrow> writeError StatusInternalServerError ''streaming unsupported'';
        State_Monad.return (Inr (Some r)) }
      else do {
        start event_stream_headers StatusOK;
        (lastLogID, err) \<leftarrow> events_open E write;
        case err of
          Some _ \<Rightarrow> State_Monad.return (Inr None)
        | None \<Rightarrow>
            ticker_loop (\<lambda>_. State_Monad.return (Return None))
              (\<lambda>lastLogID. do {
                 (nxt, err) \<leftarrow> events_tick E write lastLogID;
                 State_Monad.return (case err of Some _ \<Rightarrow> Return None | None \<Rightarrow> Next nxt) })
              choices lastLogID })"


section \<open>The watcher of the ingress\<close>

text \<open>\<open>watch\<close> runs beside \<open>Run\<close> and shares the channel \<open>changes\<close> with it, which holds at most one signal. It is a state
  machine over what its \<open>select\<close> statements and \<open>Subscribe\<close> report.\<close>

datatype phase = Dialing | Draining | Ended

datatype watch_event = Confirmed | Denied error select | Received received

definition watch_step ::
  "('db, 'e) env_scheme \<Rightarrow> Logger \<Rightarrow> (string \<Rightarrow> error) \<Rightarrow> watch_event \<Rightarrow> phase \<times> bool \<Rightarrow> (('db, 'm) world_scheme, phase \<times> bool) state"
where
  "watch_step E l refusal ev st =
     (case st of (phase, pending) \<Rightarrow>
      case phase of
        Ended \<Rightarrow> State_Monad.return st
      | Dialing \<Rightarrow> do {
          c \<leftarrow> ctx_Err E;
          case c of
            Some _ \<Rightarrow> State_Monad.return (Ended, pending)
          | None \<Rightarrow>
              (case ev of
                 Received _ \<Rightarrow> State_Monad.return st
               | Confirmed \<Rightarrow> do {
                   Subscribe DeploymentEventsChannel (Inr []);
                   State_Monad.return (Draining, pending) }
               | Denied e pause \<Rightarrow>
                   on_error (Subscribe DeploymentEventsChannel (Inl e))
                     (\<lambda>err. do {
                        Error E l ''ingress_subscribe_failed'' (Error_text err) [];
                        State_Monad.return (case pause of Cancelled \<Rightarrow> (Ended, pending) | Fired \<Rightarrow> (Dialing, pending)) })
                     (\<lambda>_. State_Monad.return st)) }
      | Draining \<Rightarrow>
          State_Monad.return
            (case ev of
               Received CtxDone \<Rightarrow> (Ended, pending)
             | Received ChannelClosed \<Rightarrow> (Dialing, pending)
             | Received (Message payload) \<Rightarrow> (Draining, watch_message refusal payload pending)
             | _ \<Rightarrow> st))"

text \<open>Both together. The loop takes its case \<open>changes\<close> only when there is a signal, and that takes the signal out.\<close>

datatype turn = Watcher watch_event | Loop ingress_event

definition takes_signal :: "ingress_event \<Rightarrow> bool" where
  "takes_signal ev = (case ev of Changed _ \<Rightarrow> True | _ \<Rightarrow> False)"

inductive watched_run ::
  "('db, 'os, 'e) ingress_env_scheme \<Rightarrow> (string \<Rightarrow> error) \<Rightarrow> Controller \<Rightarrow> ('db, 'os, 'm) host_world_scheme \<Rightarrow> turn list \<Rightarrow>
   Controller \<times> int option \<Rightarrow> phase \<times> bool \<Rightarrow> ('db, 'os, 'm) host_world_scheme \<Rightarrow> bool"
  for E refusal c0 w0
where
  begun: "run_state (sync_round E c0) w0 = (c, w) \<Longrightarrow> watched_run E refusal c0 w0 [] (c, None) (Dialing, False) w"
| watching: "watched_run E refusal c0 w0 evs st ph w \<Longrightarrow> run_state (watch_step E (ct_logger c0) refusal ev ph) w = (ph', w') \<Longrightarrow>
    watched_run E refusal c0 w0 (evs @ [Watcher ev]) st ph' w'"
| looping: "watched_run E refusal c0 w0 evs st (phase, pending) w \<Longrightarrow> run_enabled ev (snd st) \<Longrightarrow>
    (takes_signal ev \<longrightarrow> pending) \<Longrightarrow> run_state (run_event E ev st) w = (st', w') \<Longrightarrow>
    watched_run E refusal c0 w0 (evs @ [Loop ev]) st' (phase, pending \<and> \<not> takes_signal ev) w'"


section \<open>The loops keep the accounting\<close>

lemma keeps_ticker_loop [keeps_intros]:
  "(\<And>s. keeps P (done s)) \<Longrightarrow> (\<And>s. keeps P (fired s)) \<Longrightarrow> keeps P (ticker_loop done fired choices s)"
  unfolding ticker_loop_def by (intro keeps_for_range) (simp split: select.split)

lemma keeps_leave [keeps_intros]: "keeps P (leave s)"
  by (simp add: leave_def)

lemma keeps_stay [keeps_intros]: "keeps P m \<Longrightarrow> keeps P (stay m u)"
  unfolding stay_def by (intro keeps_intros)

lemma keeps_drain [keeps_intros]: "(\<And>payload. keeps P (handle payload)) \<Longrightarrow> keeps P (drain handle sub)"
  unfolding drain_def by (intro keeps_for_range) (auto intro: keeps_intros split: received.split)

context guarded
begin

lemma keeps_Subscribe [keeps_intros]: "keeps J (Subscribe channel confirmation)"
  by (auto simp: keeps_def J_def Subscribe_def)

lemma keeps_reconnect:
  "(\<And>err. keeps J (refused err)) \<Longrightarrow> (\<And>sub. keeps J (read sub)) \<Longrightarrow> keeps J (reconnect E channel refused read turns)"
  unfolding reconnect_def by (intro keeps_intros)

lemma keeps_recentLogs [keeps_intros]: "0 < n \<Longrightarrow> keeps J (recentLogs E since n)"
  unfolding recentLogs_def StreamReadReverse_def server_R Let_def
  by (intro keeps_intros keeps_send_read) (metis xrevrange xrevrange_wrong snd_conv)

end

context cluster
begin

lemma keeps_loops:
  "keeps J (RunSweeper E l choices)" "keeps J (RunSweeper_health E l choices)" "keeps J (Run_autoscaler E l cfg choices)"
  "keeps J (RunSubscriber E l refusal turns)" "keeps J (RunExpirySubscriber E l turns)" "keeps J (RunHeartbeatLoop E l r choices)"
  "(\<And>hs st. keeps J (start hs st)) \<Longrightarrow> (\<And>frame. keeps J (write frame)) \<Longrightarrow> keeps J (handleEvents E flushes start write choices)"
proof -
  show "keeps J (RunSweeper E l choices)"
    unfolding RunSweeper_def by (intro keeps_intros keeps_sweep_round)
  show "keeps J (RunSweeper_health E l choices)"
    unfolding RunSweeper_health_def by (intro keeps_intros keeps_health) (auto split: select.split intro: keeps_intros)
  show "keeps J (Run_autoscaler E l cfg choices)"
    unfolding Run_autoscaler_def by (intro keeps_intros keeps_autoscale_round)
  show "keeps J (RunSubscriber E l refusal turns)"
    unfolding RunSubscriber_def consume_def by (intro keeps_reconnect keeps_intros keeps_consume_event) simp_all
  show "keeps J (RunExpirySubscriber E l turns)"
    unfolding RunExpirySubscriber_def consumeExpiries_def by (intro keeps_reconnect keeps_intros keeps_health) simp_all
  show "keeps J (RunHeartbeatLoop E l r choices)"
    unfolding RunHeartbeatLoop_def by (intro keeps_intros)
  show "keeps J (handleEvents E flushes start write choices)"
    if "\<And>hs st. keeps J (start hs st)" "\<And>frame. keeps J (write frame)"
    unfolding handleEvents_def events_open_def events_tick_def sendSnapshot_def writeError_def writeJSON_def
    by (intro keeps_intros that) simp_all
qed

end


context host_cluster
begin

lemma keeps_host_loops:
  "keeps J (RunHealthChecker E s hcfg choices)" "keeps J (RunTelemetryCollector E s interval choices)"
  unfolding RunHealthChecker_def RunTelemetryCollector_def
  by (intro keeps_intros keeps_health_tick keeps_telemetry_tick)+

end

context cluster
begin

lemma keeps_telemetry_loop_win: "keeps J (RunTelemetryCollector_win E s interval choices)"
  unfolding RunTelemetryCollector_win_def telemetry_tick_win_def collectTelemetry_def collectTelemetry_body_def publish_zero_def Let_def
  by (intro keeps_intros; simp)

end

text \<open>The ingress controller writes files and log entries only.\<close>

locale ingress_cluster = cluster R view E
  for R :: "'db redis" and view and E :: "('db, 'os, 'e) ingress_env_scheme"
begin

lemma keeps_call_J [keeps_intros]: "keeps J (call E m :: (('db, 'os, 'm) host_world_scheme, 'a) state)"
  by (auto simp: keeps_def J_def call_def split: prod.split)

lemma keeps_Sync [keeps_intros]: "keeps J (Sync E c :: (('db, 'os, 'm) host_world_scheme, Controller \<times> error option) state)"
  unfolding Sync_def backends_def backends_body_def write_config_def install_def reload_def Let_def by (intro keeps_intros; simp)

lemma keeps_sync_round [keeps_intros]: "keeps J (sync_round E c :: (('db, 'os, 'm) host_world_scheme, Controller) state)"
  unfolding sync_round_def by (intro keeps_intros) simp_all

lemma keeps_run_event: "keeps J (run_event E ev st :: (('db, 'os, 'm) host_world_scheme, Controller \<times> int option) state)"
  unfolding run_event_def by (auto intro: keeps_intros split: prod.split ingress_event.split)

lemma keeps_watch_step: "keeps J (watch_step E l refusal ev st)"
  unfolding watch_step_def
  by (auto intro!: keeps_intros split: prod.split phase.split watch_event.split option.split)

lemma watched_run_keeps: "watched_run E refusal c0 w0 evs st ph w \<Longrightarrow> J w0 \<Longrightarrow> J w"
  by (induction rule: watched_run.induct)
    (auto dest: keepsE[OF keeps_sync_round] keepsE[OF keeps_watch_step] keepsE[OF keeps_run_event])

end


lemma disk_env_guarded [simp]: "guarded mem_redis mem_view (disk_env answer) I"
  by unfold_locales (simp_all add: disk_env_def mem_env_def)

interpretation mem_ingress_cluster: ingress_cluster mem_redis mem_view "disk_env answer" for answer
  by (simp add: ingress_cluster_def cluster_def)


section \<open>No change is lost\<close>

inductive_cases watched_startE: "watched_run E refusal c0 w0 [] st ph w"

inductive_cases watched_watcherE: "watched_run E refusal c0 w0 (evs @ [Watcher ev]) st ph w"
inductive_cases watched_loopE: "watched_run E refusal c0 w0 (evs @ [Loop ev]) st ph w"

text \<open>The events determine the run.\<close>

lemma watched_run_unique:
  "watched_run E refusal c0 w0 evs st ph w \<Longrightarrow> watched_run E refusal c0 w0 evs st' ph' w' \<Longrightarrow> st' = st \<and> ph' = ph \<and> w' = w"
proof (induction evs arbitrary: st ph w st' ph' w' rule: rev_induct)
  case Nil
  then show ?case by (auto elim!: watched_startE)
next
  case (snoc x evs)
  show ?case
  proof (cases x)
    case (Watcher ev)
    have 1: "watched_run E refusal c0 w0 (evs @ [Watcher ev]) st ph w" "watched_run E refusal c0 w0 (evs @ [Watcher ev]) st' ph' w'"
      using snoc.prems Watcher by simp_all
    obtain ph1 w1 where a: "watched_run E refusal c0 w0 evs st ph1 w1" "run_state (watch_step E (ct_logger c0) refusal ev ph1) w1 = (ph, w)"
      using 1(1) by (rule watched_watcherE)
    obtain ph2 w2 where b: "watched_run E refusal c0 w0 evs st' ph2 w2" "run_state (watch_step E (ct_logger c0) refusal ev ph2) w2 = (ph', w')"
      using 1(2) by (rule watched_watcherE)
    have "st' = st \<and> ph2 = ph1 \<and> w2 = w1" using snoc.IH[OF a(1) b(1)] .
    then show ?thesis using a(2) b(2) by simp
  next
    case (Loop ev)
    have 1: "watched_run E refusal c0 w0 (evs @ [Loop ev]) st ph w" "watched_run E refusal c0 w0 (evs @ [Loop ev]) st' ph' w'"
      using snoc.prems Loop by simp_all
    obtain st1 p1 b1 w1 where a: "watched_run E refusal c0 w0 evs st1 (p1, b1) w1" "run_state (run_event E ev st1) w1 = (st, w)"
      "ph = (p1, b1 \<and> \<not> takes_signal ev)" using 1(1) by (rule watched_loopE)
    obtain st2 p2 b2 w2 where b: "watched_run E refusal c0 w0 evs st2 (p2, b2) w2" "run_state (run_event E ev st2) w2 = (st', w')"
      "ph' = (p2, b2 \<and> \<not> takes_signal ev)" using 1(2) by (rule watched_loopE)
    have "st2 = st1 \<and> (p2, b2) = (p1, b1) \<and> w2 = w1" using snoc.IH[OF a(1) b(1)] .
    then show ?thesis using a(2,3) b(2,3) by simp
  qed
qed

lemma watch_step_pending:
  "run_state (watch_step E l refusal ev (phase, True)) w = ((phase', pending'), w') \<Longrightarrow> pending'"
  by (cases phase)
    (auto simp: watch_step_def run_on_error watch_message_def split: watch_event.splits received.splits option.splits sum.splits select.splits prod.splits)

lemma run_event_cfg: "run_state (run_event E ev st) w = (st', w') \<Longrightarrow> ct_cfg (fst st') = ct_cfg (fst st)"
  by (auto simp: run_event_def split: prod.splits ingress_event.splits dest: sync_round_cfg)

lemma watched_run_cfg: "watched_run E refusal c0 w0 evs st ph w \<Longrightarrow> ct_cfg (fst st) = ct_cfg c0"
  by (induction rule: watched_run.induct) (auto dest: sync_round_cfg run_event_cfg)

definition is_debounced :: "turn \<Rightarrow> bool" where
  "is_debounced x = (case x of Loop (Debounced now) \<Rightarrow> True | _ \<Rightarrow> False)"

text \<open>While no rebuild by the timer has come since: either the signal is in the channel, or it has been taken out and the
  timer runs.\<close>

definition change_pending :: "Controller \<Rightarrow> turn list \<Rightarrow> int option \<Rightarrow> bool \<Rightarrow> bool" where
  "change_pending c0 evs debounce pending \<longleftrightarrow>
     pending \<or> (\<exists>t0. Loop (Changed t0) \<in> set evs \<and> debounce = Some (t0 + ic_Debounce (ct_cfg c0)))"

lemma run_event_pending:
  assumes "change_pending c0 b (snd st) pending" "run_state (run_event E ev st) w = (st', w')" "\<not> is_debounced (Loop ev)"
    and "ct_cfg (fst st) = ct_cfg c0"
  shows "change_pending c0 (b @ [Loop ev]) (snd st') (pending \<and> \<not> takes_signal ev)"
  using assms
  by (cases ev) (auto simp: change_pending_def run_event_def is_debounced_def takes_signal_def split: prod.splits)

text \<open>C12. No change is lost: once the watcher has received a message that decodes, then whatever else the watcher and the loop of
  the ingress controller meet with, lost subscriptions and failed rebuilds included, until the next rebuild by the debounce timer
  the controller knows that one is due: the signal is still in the channel, or the timer is armed by a signal
  that was taken out after the message came.\<close>

theorem no_change_lost:
  assumes "watched_run E refusal c0 w0 before st0 (Draining, full) w1" "Decode refusal payload = Inr ev"
    and "watched_run E refusal c0 w0 (before @ Watcher (Received (Message payload)) # since) (c, debounce) (phase, pending) w"
    and "list_all (\<lambda>x. \<not> is_debounced x) since"
  shows "pending \<or> (\<exists>t0. Loop (Changed t0) \<in> set since \<and> debounce = Some (t0 + ic_Debounce (ct_cfg c0)))"
proof -
  let ?m = "Watcher (Received (Message payload))"
  have "change_pending c0 since (snd st) (snd ph)"
    if "watched_run E refusal c0 w0 (before @ ?m # since) st ph w" for st ph w
    using that assms(4)
  proof (induction since arbitrary: st ph w rule: rev_induct)
    case Nil
    then have "watched_run E refusal c0 w0 (before @ [?m]) st ph w" by simp
    then obtain ph1 w2 where *: "watched_run E refusal c0 w0 before st ph1 w2"
      "run_state (watch_step E (ct_logger c0) refusal (Received (Message payload)) ph1) w2 = (ph, w)"
      by (rule watched_watcherE)
    then have "ph1 = (Draining, full)" using watched_run_unique[OF assms(1)] by blast
    then show ?case using *(2) assms(2) by (auto simp: watch_step_def watch_message_def change_pending_def)
  next
    case (snoc x since)
    have run: "watched_run E refusal c0 w0 ((before @ ?m # since) @ [x]) st ph w" using snoc.prems(1) by simp
    show ?case
    proof (cases x)
      case (Watcher ev')
      with run obtain ph1 w2 where *: "watched_run E refusal c0 w0 (before @ ?m # since) st ph1 w2"
        "run_state (watch_step E (ct_logger c0) refusal ev' ph1) w2 = (ph, w)"
        by (blast elim: watched_watcherE)
      then have "change_pending c0 since (snd st) (snd ph1)" using snoc by simp
      then show ?thesis using *(2) watch_step_pending by (cases ph1; cases ph) (auto simp: change_pending_def)
    next
      case (Loop ev')
      with run obtain st1 phase1 pending1 w2 where *: "watched_run E refusal c0 w0 (before @ ?m # since) st1 (phase1, pending1) w2"
        "run_state (run_event E ev' st1) w2 = (st, w)" "ph = (phase1, pending1 \<and> \<not> takes_signal ev')"
        by (blast elim: watched_loopE)
      then have "change_pending c0 since (snd st1) pending1" using snoc by fastforce
      then show ?thesis using run_event_pending[OF _ *(2) _ watched_run_cfg[OF *(1)]] snoc.prems(2) Loop *(3) by simp
    qed
  qed
  from this[OF assms(3)] show ?thesis by (simp add: change_pending_def)
qed

theorem no_change_lost_witness:
  "\<exists>c debounce phase w. watched_run (disk_env ([], None)) demo_refusal demo_controller (disk_world [])
      [Watcher Confirmed, Watcher (Received (Message (marshal_event \<lparr>ev_Event = EventUpdate, ev_Deployment = ''web'', ev_Desired = 3\<rparr>))), Loop (Changed 5)]
      (c, debounce) (phase, False) w \<and> debounce = Some (5 + 2 * 10 ^ 9)"
proof -
  let ?E = "disk_env ([], None)" and ?p = "marshal_event \<lparr>ev_Event = EventUpdate, ev_Deployment = ''web'', ev_Desired = 3\<rparr>"
  let ?run = "watched_run ?E demo_refusal demo_controller (disk_world [])"
  have p: "Decode demo_refusal ?p = Inr \<lparr>ev_Event = EventUpdate, ev_Deployment = ''web'', ev_Desired = 3\<rparr>"
    by (rule event_roundtrip) (simp add: usable_event_def ValidString_ascii in_int64_def)
  have ctx: "run_state (ctx_Err ?E) w = (None, w')" if "w' = w" for w w' :: "(mem, disk) host_world"
    using that by (simp add: ctx_Err_def disk_env_def mem_env_def)
  obtain c w where 1: "run_state (sync_round ?E demo_controller) (disk_world []) = (c, w)" by fastforce
  have "\<exists>w'. run_state (watch_step ?E (ct_logger demo_controller) demo_refusal Confirmed (Dialing, False)) w = ((Draining, False), w')"
    by (simp add: watch_step_def ctx Subscribe_def)
  then obtain w1 where 2: "?run ([] @ [Watcher Confirmed]) (c, None) (Draining, False) w1"
    using watching[OF begun[OF 1]] by blast
  have 3: "?run (([] @ [Watcher Confirmed]) @ [Watcher (Received (Message ?p))]) (c, None) (Draining, True) w1"
    by (rule watching[OF 2]) (simp add: watch_step_def watch_message_def p)
  have "?run ((([] @ [Watcher Confirmed]) @ [Watcher (Received (Message ?p))]) @ [Loop (Changed 5)])
      (c, Some (5 + ic_Debounce (ct_cfg c))) (Draining, True \<and> \<not> takes_signal (Changed 5)) w1"
    by (rule looping[OF 3]) (simp_all add: run_enabled_def run_event_def takes_signal_def)
  then have 4: "?run ([Watcher Confirmed] @ Watcher (Received (Message ?p)) # [Loop (Changed 5)]) (c, Some (5 + ic_Debounce (ct_cfg c))) (Draining, False) w1"
    by (simp add: takes_signal_def)
  have cfg: "ic_Debounce (ct_cfg demo_controller) = 2 * 10 ^ 9" by (simp add: NewController_def)
  from no_change_lost[OF 2[unfolded append_Nil] p 4] have "5 + ic_Debounce (ct_cfg c) = 5 + 2 * 10 ^ 9"
    by (simp add: is_debounced_def cfg)
  then show ?thesis using 4 by auto
qed

end
