(* ===== verification/Routes.thy ===== *)
theory Routes
  imports Loops
begin

text \<open>
  From the bytes of a request to its handler: \<open>Routes\<close> and \<open>decodeJSON\<close> of \<open>internal/api/server.go\<close>, with the parts of
  \<open>net/http\<close> they rest on, which are the cleaning of paths, the matching of patterns by \<open>ServeMux\<close> and its answers where nothing
  matches. Patterns have a method and no host; \<open>{name}\<close> stands for one segment, a pattern that ends in a slash for
  everything below it. Requests for \<open>*\<close> and the writing of the response are not modelled.
\<close>


section \<open>Paths\<close>

text \<open>\<open>url.PathUnescape\<close>; \<open>pathUnescape\<close> of the multiplexer leaves a segment alone that it cannot decode.\<close>

fun PathUnescape :: "string \<Rightarrow> string option" where
  "PathUnescape [] = Some []"
| "PathUnescape (c # cs) =
     (if c \<noteq> CHR ''%'' then map_option ((#) c) (PathUnescape cs)
      else case cs of
        a # b # r \<Rightarrow>
          (case (hex_val a, hex_val b) of
             (Some x, Some y) \<Rightarrow> map_option ((#) (char_of (16 * x + y))) (PathUnescape r)
           | _ \<Rightarrow> None)
      | _ \<Rightarrow> None)"

definition pathUnescape :: "string \<Rightarrow> string" where
  "pathUnescape s = (case PathUnescape s of None \<Rightarrow> s | Some t \<Rightarrow> t)"

text \<open>\<open>path.Clean\<close> of a path that begins with a slash, and \<open>cleanPath\<close>.\<close>

definition clean_segment :: "string \<Rightarrow> string list \<Rightarrow> string list" where
  "clean_segment s done = (if s = [] \<or> s = ''.'' then done else if s = ''..'' then butlast done else done @ [s])"

definition join_path :: "string list \<Rightarrow> string" where
  "join_path segs = concat (map ((#) (CHR ''/'')) segs)"

definition Clean :: "string \<Rightarrow> string" where
  "Clean p = (case fold clean_segment (Split p (CHR ''/'')) [] of [] \<Rightarrow> ''/'' | segs \<Rightarrow> join_path segs)"

definition cleanPath :: "string \<Rightarrow> string" where
  "cleanPath p =
     (if p = [] then ''/'' else
      let p = (if hd p = CHR ''/'' then p else CHR ''/'' # p); np = Clean p
      in if last p = CHR ''/'' \<and> np \<noteq> ''/'' then np @ ''/'' else np)"

text \<open>The first segment, unescaped, and the rest; a lone slash is a segment of its own.\<close>

definition firstSegment :: "string \<Rightarrow> string \<times> string" where
  "firstSegment path =
     (if path = ''/'' then (''/'', []) else
      let p = tl path in (pathUnescape (takeWhile (\<lambda>c. c \<noteq> CHR ''/'') p), dropWhile (\<lambda>c. c \<noteq> CHR ''/'') p))"


section \<open>Patterns\<close>

text \<open>\<open>Rest\<close> is the nameless wildcard of a trailing slash.\<close>

datatype segment = Lit string | Wild string | Rest

record 'h route =
  rt_method :: string
  rt_segments :: "segment list"
  rt_handler :: 'h

text \<open>A node of the routing tree is what remains of the patterns that begin with the path to it. Literal segments come before
  a wildcard and that before the rest of the path, with backtracking.\<close>

type_synonym 'h node = "(segment list \<times> 'h route) list"

definition child :: "segment \<Rightarrow> 'h node \<Rightarrow> 'h node" where
  "child seg node = concat (map (\<lambda>(segs, r). case segs of [] \<Rightarrow> [] | x # xs \<Rightarrow> if x = seg then [(xs, r)] else []) node)"

definition wild_child :: "'h node \<Rightarrow> 'h node" where
  "wild_child node = concat (map (\<lambda>(segs, r). case segs of Wild n # xs \<Rightarrow> [(xs, r)] | _ \<Rightarrow> []) node)"

definition leaf :: "'h node \<Rightarrow> 'h route option" where
  "leaf node = map_option snd (find (\<lambda>(segs, r). segs = []) node)"

lemma firstSegment_shorter: "path \<noteq> [] \<Longrightarrow> length (snd (firstSegment path)) < length path"
proof -
  assume "path \<noteq> []"
  then obtain c cs where "path = c # cs" by (cases path) auto
  moreover have "length (dropWhile (\<lambda>c. c \<noteq> CHR ''/'') cs) \<le> length cs" by (rule length_dropWhile_le)
  ultimately show ?thesis by (simp add: firstSegment_def)
qed

function matchPath :: "'h node \<Rightarrow> string \<Rightarrow> string list \<Rightarrow> ('h route \<times> string list) option" where
  "matchPath node path matches =
     (if path = [] then map_option (\<lambda>r. (r, matches)) (leaf node) else
      let (seg, rest) = firstSegment path in
      case matchPath (child (Lit seg) node) rest matches of
        Some m \<Rightarrow> Some m
      | None \<Rightarrow>
          (case (if seg = ''/'' then None else matchPath (wild_child node) rest (matches @ [seg])) of
             Some m \<Rightarrow> Some m
           | None \<Rightarrow> map_option (\<lambda>r. (r, matches)) (leaf (child Rest node))))"
  by pat_completeness auto
termination
  by (relation "measure (\<lambda>(_, path, _). length path)") (auto, (metis firstSegment_shorter snd_conv)+)

declare matchPath.simps [simp del]

definition method_child :: "'h route list \<Rightarrow> string \<Rightarrow> 'h node" where
  "method_child table meth = map (\<lambda>r. (rt_segments r, r)) (filter (\<lambda>r. rt_method r = meth) table)"

definition matchMethodAndPath :: "'h route list \<Rightarrow> string \<Rightarrow> string \<Rightarrow> ('h route \<times> string list) option" where
  "matchMethodAndPath table meth path =
     (case matchPath (method_child table meth) path [] of
        Some m \<Rightarrow> Some m
      | None \<Rightarrow> if meth = ''HEAD'' then matchPath (method_child table ''GET'') path [] else None)"

definition exactMatch :: "('h route \<times> string list) option \<Rightarrow> string \<Rightarrow> bool" where
  "exactMatch n path =
     (case n of
        None \<Rightarrow> False
      | Some (r, _) \<Rightarrow>
          if last (rt_segments r) \<noteq> Rest then True
          else if path \<noteq> [] \<and> last path \<noteq> CHR ''/'' then False
          else length (rt_segments r) = length (filter (\<lambda>c. c = CHR ''/'') path))"

definition matchingMethods :: "'h route list \<Rightarrow> string \<Rightarrow> string list" where
  "matchingMethods table path =
     (let matches = (\<lambda>p. map rt_method (filter (\<lambda>r. matchPath (method_child table (rt_method r)) p [] \<noteq> None) table));
          ms = matches path @ (if HasSuffix path ''/'' then [] else matches (path @ ''/''));
          ms = ms @ (if ''GET'' \<in> set ms then [''HEAD''] else [])
      in sort (remdups ms))"


text \<open>\<open>strings.Join\<close>.\<close>

fun Join :: "string list \<Rightarrow> string \<Rightarrow> string" where
  "Join [] sep = []"
| "Join [x] sep = x"
| "Join (x # xs) sep = x @ sep @ Join xs sep"


section \<open>The multiplexer\<close>

datatype 'h found = Moved string | NotAllowed "string list" | NotFound | Found "'h route" "string list"

definition findHandler :: "'h route list \<Rightarrow> string \<Rightarrow> string \<Rightarrow> 'h found" where
  "findHandler table meth escapedPath =
     (let path = (if meth = ''CONNECT'' then escapedPath else cleanPath escapedPath);
          n = matchMethodAndPath table meth path
      in if \<not> exactMatch n path \<and> \<not> HasSuffix path ''/'' \<and> path \<noteq> [] \<and> exactMatch (matchMethodAndPath table meth (path @ ''/'')) (path @ ''/'')
         then Moved (cleanPath (pathUnescape escapedPath) @ ''/'')
         else if path \<noteq> escapedPath then Moved path
         else case n of
           Some (r, matches) \<Rightarrow> Found r matches
         | None \<Rightarrow> (case matchingMethods table path of [] \<Rightarrow> NotFound | ms \<Rightarrow> NotAllowed ms))"

definition PathValue :: "'h route \<Rightarrow> string list \<Rightarrow> string \<Rightarrow> string" where
  "PathValue r matches name =
     mget (zip (concat (map (\<lambda>s. case s of Wild n \<Rightarrow> [n] | _ \<Rightarrow> []) (rt_segments r))) matches) name"


section \<open>The routes of the API\<close>

datatype handler = Healthz | CreateDeployment | ListDeployments | GetDeployment | ScaleDeployment | ListNodes
  | TriggerSchedule | ShowState | StreamEvents | ShowDashboard

definition route :: "string \<Rightarrow> segment list \<Rightarrow> handler \<Rightarrow> handler route" where
  "route meth segs h = \<lparr>rt_method = meth, rt_segments = segs, rt_handler = h\<rparr>"

definition Routes :: "handler route list" where
  "Routes =
     [route ''GET'' [Lit ''healthz''] Healthz,
      route ''POST'' [Lit ''deployments''] CreateDeployment,
      route ''GET'' [Lit ''deployments''] ListDeployments,
      route ''GET'' [Lit ''deployments'', Wild ''name''] GetDeployment,
      route ''POST'' [Lit ''deployments'', Wild ''name'', Lit ''scale''] ScaleDeployment,
      route ''GET'' [Lit ''nodes''] ListNodes,
      route ''POST'' [Lit ''deployments'', Wild ''name'', Lit ''schedule''] TriggerSchedule,
      route ''GET'' [Lit ''state''] ShowState,
      route ''GET'' [Lit ''events''] StreamEvents,
      route ''GET'' [Rest] ShowDashboard]"


section \<open>Bodies\<close>

abbreviation (input) maxRequestBody :: nat where "maxRequestBody \<equiv> 64 * 1024"

definition decodeJSON :: "(string \<Rightarrow> error) \<Rightarrow> 's fields \<Rightarrow> 's \<Rightarrow> string \<Rightarrow> error + 's" where
  "decodeJSON refusal into dst body =
     (case DecodeStrict maxRequestBody into dst body of
        None \<Rightarrow> Inl (Errorf ''could not parse request body: %w'' [ArgE (refusal body)])
      | Some x \<Rightarrow> Inr x)"

definition request_fields :: "DeploymentRequest fields" where
  "request_fields =
     [(''name'', string_field (\<lambda>x r. r\<lparr>rq_Name := x\<rparr>)),
      (''min_replicas'', int_pointer_field (\<lambda>n r. r\<lparr>rq_MinReplicas := n\<rparr>)),
      (''max_replicas'', int_pointer_field (\<lambda>n r. r\<lparr>rq_MaxReplicas := n\<rparr>)),
      (''target_cpu_percentage'', int_pointer_field (\<lambda>n r. r\<lparr>rq_TargetCPUPercent := n\<rparr>)),
      (''cpu_request'', int_pointer_field (\<lambda>n r. r\<lparr>rq_CPURequest := n\<rparr>)),
      (''mem_request'', int_pointer_field (\<lambda>n r. r\<lparr>rq_MemRequest := n\<rparr>)),
      (''exec_path'', string_field (\<lambda>x r. r\<lparr>rq_ExecPath := x\<rparr>)),
      (''port'', int_pointer_field (\<lambda>n r. r\<lparr>rq_Port := n\<rparr>))]"

definition zero_request :: DeploymentRequest where
  "zero_request = \<lparr>rq_Name = [], rq_MinReplicas = None, rq_MaxReplicas = None, rq_TargetCPUPercent = None,
     rq_CPURequest = None, rq_MemRequest = None, rq_ExecPath = [], rq_Port = None\<rparr>"

text \<open>\<open>scaleRequest\<close> is its only field.\<close>

definition scale_fields :: "int option fields" where
  "scale_fields = [(''desired_replicas'', int_pointer_field (\<lambda>n _. n))]"


section \<open>Serving a request\<close>

text \<open>\<open>hr_Path\<close> is \<open>r.URL.EscapedPath()\<close>, and \<open>hr_Flushes\<close> whether the response writer is a \<open>Flusher\<close>.\<close>

record http_request =
  hr_Method :: string
  hr_Path :: string
  hr_Body :: string
  hr_Flushes :: bool

text \<open>What the client gets: a JSON value, the page, a plain text of the multiplexer with its status, a redirection, or the
  event stream as far as its choices go, with the id it would go on from if it is still open.\<close>

datatype reply = Json response | Page string | Plain int string "(string \<times> string) list" | Redirected int string | Stream "string option"

definition serve_stream :: "string + response option \<Rightarrow> reply" where
  "serve_stream r = (case r of Inl ident \<Rightarrow> Stream (Some ident) | Inr None \<Rightarrow> Stream None | Inr (Some resp) \<Rightarrow> Json resp)"

definition handle ::
  "('db, 'e) env_scheme \<Rightarrow> Logger \<Rightarrow> (string \<Rightarrow> error) \<Rightarrow> error + string \<Rightarrow>
   ((string \<times> string) list \<Rightarrow> int \<Rightarrow> (('db, 'm) world_scheme, unit) state) \<Rightarrow> (string \<Rightarrow> (('db, 'm) world_scheme, unit) fallible) \<Rightarrow>
   select list \<Rightarrow> http_request \<Rightarrow> handler \<Rightarrow> string \<Rightarrow> (('db, 'm) world_scheme, reply) state"
where
  "handle E l refusal asset start write choices rq h name =
     (let json = (\<lambda>m. do { r \<leftarrow> m; State_Monad.return (Json r) }) in
      case h of
        Healthz \<Rightarrow> json (handleHealthz E)
      | CreateDeployment \<Rightarrow> json (handleCreateDeployment E l (decodeJSON refusal request_fields zero_request (hr_Body rq)))
      | ListDeployments \<Rightarrow> json (handleListDeployments E)
      | GetDeployment \<Rightarrow> json (handleGetDeployment E name)
      | ScaleDeployment \<Rightarrow> json (handleScaleDeployment E l name (decodeJSON refusal scale_fields None (hr_Body rq)))
      | ListNodes \<Rightarrow> json (handleListNodes E)
      | TriggerSchedule \<Rightarrow> json (handleTriggerSchedule E l name)
      | ShowState \<Rightarrow> json (handleState E)
      | StreamEvents \<Rightarrow> do { r \<leftarrow> handleEvents E (hr_Flushes rq) start write choices; State_Monad.return (serve_stream r) }
      | ShowDashboard \<Rightarrow> do {
          r \<leftarrow> handleDashboard asset (pathUnescape (hr_Path rq));
          State_Monad.return (case r of Inl resp \<Rightarrow> Json resp | Inr page \<Rightarrow> Page page) })"

abbreviation (input) StatusMovedPermanently :: int where "StatusMovedPermanently \<equiv> 301"
abbreviation (input) StatusMethodNotAllowed :: int where "StatusMethodNotAllowed \<equiv> 405"

definition serve ::
  "('db, 'e) env_scheme \<Rightarrow> Logger \<Rightarrow> (string \<Rightarrow> error) \<Rightarrow> error + string \<Rightarrow>
   ((string \<times> string) list \<Rightarrow> int \<Rightarrow> (('db, 'm) world_scheme, unit) state) \<Rightarrow> (string \<Rightarrow> (('db, 'm) world_scheme, unit) fallible) \<Rightarrow>
   select list \<Rightarrow> http_request \<Rightarrow> (('db, 'm) world_scheme, reply) state"
where
  "serve E l refusal asset start write choices rq =
     (case findHandler Routes (hr_Method rq) (hr_Path rq) of
        Moved path \<Rightarrow> State_Monad.return (Redirected StatusMovedPermanently path)
      | NotAllowed methods \<Rightarrow> State_Monad.return (Plain StatusMethodNotAllowed ''Method Not Allowed'' [(''Allow'', Join methods '', '')])
      | NotFound \<Rightarrow> State_Monad.return (Plain StatusNotFound ''404 page not found'' [])
      | Found r matches \<Rightarrow> handle E l refusal asset start write choices rq (rt_handler r) (PathValue r matches ''name''))"


section \<open>Matching by segments\<close>

definition no_slash :: "string \<Rightarrow> bool" where
  "no_slash s \<longleftrightarrow> CHR ''/'' \<notin> set s"

fun match_segs :: "'h node \<Rightarrow> string list \<Rightarrow> string list \<Rightarrow> ('h route \<times> string list) option" where
  "match_segs node [] matches = map_option (\<lambda>r. (r, matches)) (leaf node)"
| "match_segs node (s # ss) matches =
     (let seg = (if s = [] \<and> ss = [] then ''/'' else pathUnescape s) in
      case match_segs (child (Lit seg) node) ss matches of
        Some m \<Rightarrow> Some m
      | None \<Rightarrow>
          (case (if seg = ''/'' then None else match_segs (wild_child node) ss (matches @ [seg])) of
             Some m \<Rightarrow> Some m
           | None \<Rightarrow> map_option (\<lambda>r. (r, matches)) (leaf (child Rest node))))"

lemma join_path_simps [simp]:
  "join_path [] = []" "join_path (s # ss) = CHR ''/'' # s @ join_path ss" "join_path (ss @ ts) = join_path ss @ join_path ts"
  by (simp_all add: join_path_def)

lemma join_path_start: "join_path ss = [] \<or> hd (join_path ss) = CHR ''/''"
  by (cases ss) simp_all

lemma firstSegment_join:
  assumes "no_slash s"
  shows "firstSegment (join_path (s # ss)) = (if s = [] \<and> ss = [] then ''/'' else pathUnescape s, join_path ss)"
proof -
  have all: "\<forall>c \<in> set s. c \<noteq> CHR ''/''" using assms by (auto simp: no_slash_def)
  have "takeWhile (\<lambda>c. c \<noteq> CHR ''/'') (s @ join_path ss) = s" "dropWhile (\<lambda>c. c \<noteq> CHR ''/'') (s @ join_path ss) = join_path ss"
    using all by (cases ss; simp add: takeWhile_append2 dropWhile_append2)+
  moreover have "s @ join_path ss = [] \<longleftrightarrow> s = [] \<and> ss = []" by (cases ss) auto
  ultimately show ?thesis by (auto simp: firstSegment_def Let_def)
qed

lemma matchPath_join: "list_all no_slash segs \<Longrightarrow> matchPath node (join_path segs) matches = match_segs node segs matches"
proof (induction segs arbitrary: node matches)
  case Nil
  then show ?case by (subst matchPath.simps) simp
next
  case (Cons s ss)
  then show ?case by (subst matchPath.simps) (simp add: firstSegment_join[unfolded join_path_simps] Let_def cong: option.case_cong)
qed

lemma Split_joined: "no_slash s \<Longrightarrow> Split (s @ join_path ss) (CHR ''/'') = s # (case ss of [] \<Rightarrow> [] | t # ts \<Rightarrow> Split (t @ join_path ts) (CHR ''/''))"
  by (induction s) (auto simp: no_slash_def split: list.split)

lemma Split_no_slash: "list_all no_slash (Split p (CHR ''/''))"
  by (induction p) (auto simp: no_slash_def split: list.split)

lemma Split_nonempty: "Split p c \<noteq> []"
  by (induction p) (auto split: list.split)

lemma join_Split: "join_path (Split p (CHR ''/'')) = CHR ''/'' # p"
proof (induction p)
  case (Cons x xs)
  then show ?case by (cases "Split xs (CHR ''/'')") (auto simp: Split_nonempty)
qed simp


section \<open>The decision\<close>

text \<open>What a request with these unescaped segments is answered by.\<close>

definition expected_get :: "string list \<Rightarrow> handler \<times> string" where
  "expected_get segs =
     (case segs of
        [a] \<Rightarrow>
          (if a = ''healthz'' then Healthz else if a = ''deployments'' then ListDeployments else if a = ''nodes'' then ListNodes
           else if a = ''state'' then ShowState else if a = ''events'' then StreamEvents else ShowDashboard, [])
      | [a, n] \<Rightarrow> if a = ''deployments'' \<and> n \<noteq> [] \<and> n \<noteq> ''/'' then (GetDeployment, n) else (ShowDashboard, [])
      | _ \<Rightarrow> (ShowDashboard, []))"

definition expected_post :: "string list \<Rightarrow> (handler \<times> string) option" where
  "expected_post segs =
     (case segs of
        [a] \<Rightarrow> if a = ''deployments'' then Some (CreateDeployment, []) else None
      | [a, n, b] \<Rightarrow>
          if a = ''deployments'' \<and> n \<noteq> ''/'' \<and> b = ''scale'' then Some (ScaleDeployment, n)
          else if a = ''deployments'' \<and> n \<noteq> ''/'' \<and> b = ''schedule'' then Some (TriggerSchedule, n) else None
      | _ \<Rightarrow> None)"

lemma unescape_Nil [simp]: "pathUnescape [] = []"
  by (simp add: pathUnescape_def)

lemma PathUnescape_nonempty: "PathUnescape s = Some [] \<Longrightarrow> s = []"
  by (cases s) (auto split: if_splits list.splits option.splits)

lemma unescape_empty_iff [simp]: "pathUnescape s = [] \<longleftrightarrow> s = []"
  by (auto simp: pathUnescape_def split: option.splits dest: PathUnescape_nonempty)

definition hits :: "('h route \<times> string list) option \<Rightarrow> ('h \<times> string) option" where
  "hits m = map_option (\<lambda>(r, matches). (rt_handler r, PathValue r matches ''name'')) m"

text \<open>The nodes of the tree.\<close>

lemma get_nodes:
  "child (Lit a) (method_child Routes ''GET'') =
     (if a = ''healthz'' then [([], route ''GET'' [Lit ''healthz''] Healthz)]
      else if a = ''deployments'' then [([], route ''GET'' [Lit ''deployments''] ListDeployments),
        ([Wild ''name''], route ''GET'' [Lit ''deployments'', Wild ''name''] GetDeployment)]
      else if a = ''nodes'' then [([], route ''GET'' [Lit ''nodes''] ListNodes)]
      else if a = ''state'' then [([], route ''GET'' [Lit ''state''] ShowState)]
      else if a = ''events'' then [([], route ''GET'' [Lit ''events''] StreamEvents)] else [])"
  "wild_child (method_child Routes ''GET'') = []"
  "child Rest (method_child Routes ''GET'') = [([], route ''GET'' [Rest] ShowDashboard)]"
  by (simp_all add: child_def wild_child_def method_child_def Routes_def route_def)

lemma post_nodes:
  "child (Lit a) (method_child Routes ''POST'') =
     (if a = ''deployments'' then [([], route ''POST'' [Lit ''deployments''] CreateDeployment),
        ([Wild ''name'', Lit ''scale''], route ''POST'' [Lit ''deployments'', Wild ''name'', Lit ''scale''] ScaleDeployment),
        ([Wild ''name'', Lit ''schedule''], route ''POST'' [Lit ''deployments'', Wild ''name'', Lit ''schedule''] TriggerSchedule)] else [])"
  "wild_child (method_child Routes ''POST'') = []" "child Rest (method_child Routes ''POST'') = []"
  by (simp_all add: child_def wild_child_def method_child_def Routes_def route_def)

lemma other_nodes: "m \<noteq> ''GET'' \<Longrightarrow> m \<noteq> ''POST'' \<Longrightarrow> method_child Routes m = []"
  by (auto simp: method_child_def Routes_def route_def)

lemma node_simps [simp]:
  "child x [] = []" "child x (([], r) # node) = child x node"
  "child x ((y # ys, r) # node) = (if y = x then (ys, r) # child x node else child x node)"
  "wild_child [] = []" "wild_child (([], r) # node) = wild_child node" "wild_child ((Wild n # ys, r) # node) = (ys, r) # wild_child node"
  "wild_child ((Lit n # ys, r) # node) = wild_child node" "wild_child ((Rest # ys, r) # node) = wild_child node"
  "leaf [] = None" "leaf (([], r) # node) = Some r" "leaf ((y # ys, r) # node) = leaf node"
  by (simp_all add: child_def wild_child_def leaf_def)

lemma match_segs_Nil [simp]: "match_segs [] segs matches = None"
  by (induction segs arbitrary: matches) (simp_all add: Let_def)

lemma hits_simps [simp]: "hits None = None" "hits (Some (r, ms)) = Some (rt_handler r, PathValue r ms ''name'')"
  by (simp_all add: hits_def)

lemma route_simps [simp]: "rt_handler (route m segs h) = h" "rt_method (route m segs h) = m" "rt_segments (route m segs h) = segs"
  by (simp_all add: route_def)

lemma match_get:
  assumes "segs \<noteq> []"
  shows "hits (match_segs (method_child Routes ''GET'') segs []) = Some (expected_get (map pathUnescape segs))"
proof -
  obtain a ss where s: "segs = a # ss" using assms by (cases segs) auto
  define u where "u = pathUnescape a"
  consider "ss = []" | n where "ss = [n]" | n b r where "ss = n # b # r" by (metis neq_Nil_conv)
  then show ?thesis
  proof cases
    case 1
    then show ?thesis by (auto simp: s get_nodes expected_get_def Let_def PathValue_def)
  next
    case 2
    then show ?thesis by (cases "u = ''deployments''") (auto simp: s u_def[symmetric] get_nodes expected_get_def Let_def PathValue_def)
  next
    case 3
    then show ?thesis by (cases "u = ''deployments''") (auto simp: s u_def[symmetric] get_nodes expected_get_def Let_def PathValue_def)
  qed
qed

lemma match_post:
  assumes "segs \<noteq> []"
  shows "hits (match_segs (method_child Routes ''POST'') segs []) = expected_post (map pathUnescape segs)"
proof -
  obtain a ss where s: "segs = a # ss" using assms by (cases segs) auto
  define u where "u = pathUnescape a"
  consider "ss = []" | n where "ss = [n]" | n b where "ss = [n, b]" | n b c r where "ss = n # b # c # r" by (metis neq_Nil_conv)
  then show ?thesis
  proof cases
    case 1
    then show ?thesis by (auto simp: s post_nodes expected_post_def Let_def PathValue_def)
  next
    case 2
    then show ?thesis by (cases "u = ''deployments''") (auto simp: s u_def[symmetric] post_nodes expected_post_def Let_def)
  next
    case 3
    then show ?thesis by (cases "u = ''deployments''") (auto simp: s u_def[symmetric] post_nodes expected_post_def Let_def PathValue_def)
  next
    case 4
    then show ?thesis by (cases "u = ''deployments''") (auto simp: s u_def[symmetric] post_nodes expected_post_def Let_def)
  qed
qed


section \<open>Clean paths\<close>

definition plain_segment :: "string \<Rightarrow> bool" where
  "plain_segment s \<longleftrightarrow> s \<noteq> [] \<and> s \<noteq> ''.'' \<and> s \<noteq> ''..'' \<and> no_slash s"

lemma clean_segment_plain:
  assumes "no_slash s" "list_all plain_segment done"
  shows "list_all plain_segment (clean_segment s done)"
proof -
  have "list_all plain_segment (butlast done)" using assms(2) in_set_butlastD by (fastforce simp only: list_all_iff)
  moreover have "plain_segment s" if "s \<noteq> []" "s \<noteq> ''.''" "s \<noteq> ''..''" using that assms(1) by (simp only: plain_segment_def simp_thms)
  ultimately show ?thesis using assms(2) unfolding clean_segment_def by (simp del: not_Cons_self)
qed

lemma clean_plain: "list_all no_slash segs \<Longrightarrow> list_all plain_segment done \<Longrightarrow> list_all plain_segment (fold clean_segment segs done)"
  by (induction segs arbitrary: "done") (simp_all add: clean_segment_plain)

lemma clean_same: "list_all plain_segment segs \<Longrightarrow> fold clean_segment segs done = done @ segs"
  by (induction segs arbitrary: "done") (auto simp: clean_segment_def plain_segment_def)

lemma Split_join_path: "segs \<noteq> [] \<Longrightarrow> list_all no_slash segs \<Longrightarrow> Split (join_path segs) (CHR ''/'') = [] # segs"
proof -
  have *: "Split (s @ join_path ss) (CHR ''/'') = s # ss" if "list_all no_slash (s # ss)" for s ss
    using that
  proof (induction ss arbitrary: s)
    case Nil
    then show ?case using Split_joined[of s "[]"] by simp
  next
    case (Cons t ts)
    then show ?case using Split_joined[of s "t # ts"] Cons.IH[of t] by simp
  qed
  assume "segs \<noteq> []" "list_all no_slash segs"
  then show ?thesis using * by (cases segs) auto
qed

lemma plain_no_slash: "list_all plain_segment segs \<Longrightarrow> list_all no_slash segs"
  by (auto simp: list_all_iff plain_segment_def)

lemma last_join: "segs \<noteq> [] \<Longrightarrow> list_all plain_segment segs \<Longrightarrow> last (join_path segs) \<noteq> CHR ''/''"
proof -
  assume a: "segs \<noteq> []" "list_all plain_segment segs"
  then have "plain_segment (last segs)" by (simp add: list_all_iff)
  moreover have "join_path segs = join_path (butlast segs) @ CHR ''/'' # last segs"
    using append_butlast_last_id[OF a(1)] join_path_simps(1,2,3) by (metis append_Nil2)
  ultimately show ?thesis by (auto simp: plain_segment_def no_slash_def dest: last_in_set)
qed

text \<open>A clean path is the root, or segments that are neither empty nor dots, with an optional slash behind them.\<close>

lemma cleanPath_shape:
  obtains "cleanPath p = ''/''"
  | segs slash where "segs \<noteq> []" "list_all plain_segment segs" "cleanPath p = join_path segs @ (if slash then ''/'' else [])"
proof -
  define q where "q = (if p = [] then ''/'' else if hd p = CHR ''/'' then p else CHR ''/'' # p)"
  define segs where "segs = fold clean_segment (Split q (CHR ''/'')) []"
  have s: "list_all plain_segment segs" unfolding segs_def by (rule clean_plain[OF Split_no_slash]) simp
  have root: "join_path segs \<noteq> ''/''" if "segs \<noteq> []" using that s by (cases segs) (auto simp: plain_segment_def)
  have "cleanPath p = (if segs = [] then ''/'' else join_path segs @ (if last q = CHR ''/'' then ''/'' else []))"
  proof (cases "p = []")
    case True
    then have "segs = []" by (simp add: segs_def q_def clean_segment_def)
    then show ?thesis using True by (simp add: cleanPath_def)
  next
    case False
    then have "Clean q = (if segs = [] then ''/'' else join_path segs)"
      by (simp add: Clean_def segs_def split: list.split)
    then show ?thesis using False root by (simp add: cleanPath_def Let_def q_def)
  qed
  then show thesis using that s by metis
qed

lemma cleanPath_root: "cleanPath ''/'' = ''/''"
  by (simp add: cleanPath_def Clean_def clean_segment_def)

lemma cleanPath_clean: "cleanPath (cleanPath p) = cleanPath p"
proof (rule cleanPath_shape[of p])
  fix segs slash
  assume s: "segs \<noteq> []" "list_all plain_segment segs" "cleanPath p = join_path segs @ (if slash then ''/'' else [])"
  let ?q = "join_path segs @ (if slash then ''/'' else [])"
  have "?q = join_path (segs @ (if slash then [[]] else []))" by simp
  then have split: "Split ?q (CHR ''/'') = [] # segs @ (if slash then [[]] else [])"
    using Split_join_path[of "segs @ (if slash then [[]] else [])"] s plain_no_slash by (auto simp: no_slash_def)
  have "fold clean_segment (Split ?q (CHR ''/'')) [] = segs"
    using clean_same[OF s(2), of "[]"] unfolding split by (cases slash) (simp_all add: clean_segment_def)
  then have "Clean ?q = join_path segs" using s(1) by (simp add: Clean_def split: list.split)
  moreover have "hd ?q = CHR ''/''" "?q \<noteq> []" "join_path segs \<noteq> ''/''"
    using s(1,2) by (cases segs; auto simp: plain_segment_def)+
  moreover have "last ?q = CHR ''/'' \<longleftrightarrow> slash" using last_join[OF s(1,2)] s(1) by (cases slash) auto
  ultimately show ?thesis unfolding s(3) cleanPath_def[of ?q] by (cases slash) (simp_all add: Let_def)
qed (simp add: cleanPath_root)

lemma clean_start:
  assumes "cleanPath p = p"
  shows "p = CHR ''/'' # tl p"
proof (rule cleanPath_shape[of p])
  fix segs slash
  assume "segs \<noteq> []" "cleanPath p = join_path segs @ (if slash then ''/'' else [])"
  then show ?thesis using assms by (cases segs) auto
qed (use assms in simp)


section \<open>Every request has one answer\<close>

definition path_segments :: "string \<Rightarrow> string list" where
  "path_segments path = map pathUnescape (Split (tl path) (CHR ''/''))"

definition expected :: "string \<Rightarrow> string \<Rightarrow> (handler \<times> string) option" where
  "expected meth path =
     (if meth = ''GET'' \<or> meth = ''HEAD'' then Some (expected_get (path_segments path))
      else if meth = ''POST'' then expected_post (path_segments path) else None)"

lemma matchPath_Nil [simp]: "matchPath [] path matches = None"
proof (induction path arbitrary: matches rule: length_induct)
  case (1 path)
  then show ?case using firstSegment_shorter[of path] by (subst matchPath.simps) (auto simp: Let_def split: prod.split)
qed

lemma match_path:
  assumes "path = CHR ''/'' # q"
  shows "hits (matchPath (method_child Routes ''GET'') path []) = Some (expected_get (path_segments path))"
    and "hits (matchPath (method_child Routes ''POST'') path []) = expected_post (path_segments path)"
proof -
  have m: "matchPath node path [] = match_segs node (Split q (CHR ''/'')) []" for node :: "handler node"
    using matchPath_join[OF Split_no_slash, of node q "[]"] by (simp only: join_Split assms)
  have segs: "path_segments path = map pathUnescape (Split q (CHR ''/''))" by (simp only: path_segments_def assms list.sel)
  show "hits (matchPath (method_child Routes ''GET'') path []) = Some (expected_get (path_segments path))"
    unfolding m segs by (rule match_get[OF Split_nonempty])
  show "hits (matchPath (method_child Routes ''POST'') path []) = expected_post (path_segments path)"
    unfolding m segs by (rule match_post[OF Split_nonempty])
qed

lemma hits_None [simp]: "hits m = None \<longleftrightarrow> m = None"
  by (auto simp: hits_def)

lemma match_method:
  assumes "path = CHR ''/'' # q"
  shows "hits (matchMethodAndPath Routes meth path) = expected meth path"
proof -
  have "matchPath (method_child Routes ''GET'') path [] \<noteq> None" using match_path(1)[OF assms] by (metis hits_simps(1) option.distinct(1))
  then show ?thesis
    using match_path[OF assms] by (auto simp: matchMethodAndPath_def expected_def other_nodes split: option.split)
qed

text \<open>Which route it was: the handlers of the table are different, and only the last one ends in a slash.\<close>

lemma matchPath_member: "matchPath (node :: 'h node) path ms = Some (r, ms') \<Longrightarrow> r \<in> snd ` set node"
proof (induction node path ms arbitrary: ms' rule: matchPath.induct)
  case (1 node path ms)
  have c: "snd ` set (child x node) \<subseteq> snd ` set node" "snd ` set (wild_child node) \<subseteq> snd ` set node" for x
    by (force simp: child_def wild_child_def split: list.splits segment.splits if_splits)+
  have l: "leaf n = Some r \<Longrightarrow> r \<in> snd ` set n" for n :: "'h node" by (induction n) (auto simp: leaf_def split: if_splits)
  have l2: "leaf (child Rest node) = Some r \<Longrightarrow> r \<in> snd ` set node" using l c(1)[of Rest] by blast
  obtain seg rest where f: "firstSegment path = (seg, rest)" by fastforce
  show ?case
  proof (cases "path = []")
    case True
    then show ?thesis using 1(3) l by (subst (asm) matchPath.simps) auto
  next
    case False
    show ?thesis
      using 1(3) 1(1)[OF False f[symmetric] refl] 1(2)[OF False f[symmetric] refl] c l l2 False f
      by (subst (asm) matchPath.simps) (auto simp: Let_def split: option.splits if_splits dest!: subsetD[OF c(1)] subsetD[OF c(2)])
  qed
qed

lemma match_member: "matchMethodAndPath table meth path = Some (r, ms) \<Longrightarrow> r \<in> set table"
  by (auto simp: matchMethodAndPath_def method_child_def split: option.splits if_splits dest!: matchPath_member)

lemma slash_route: "r \<in> set Routes \<Longrightarrow> rt_handler r = ShowDashboard \<longleftrightarrow> last (rt_segments r) = Rest"
  by (auto simp: Routes_def)

lemma Split_snoc: "Split (xs @ ''/'') (CHR ''/'') = Split xs (CHR ''/'') @ [[]]"
  by (induction xs) (auto simp: Split_nonempty split: list.split)

lemma expected_slash:
  assumes "path = CHR ''/'' # q"
  shows "expected_post (path_segments (path @ ''/'')) = None" "fst (expected_get (path_segments (path @ ''/''))) = ShowDashboard"
proof -
  have "path_segments (path @ ''/'') = map pathUnescape (Split q (CHR ''/'')) @ [[]]"
    using assms by (simp add: path_segments_def Split_snoc)
  moreover obtain a as where "Split q (CHR ''/'') = a # as" using Split_nonempty by (metis neq_Nil_conv)
  ultimately show "expected_post (path_segments (path @ ''/'')) = None" "fst (expected_get (path_segments (path @ ''/''))) = ShowDashboard"
    by (cases as; simp add: expected_post_def expected_get_def split: list.split)+
qed

lemma no_slash_redirect:
  assumes "path = CHR ''/'' # q"
  shows "\<not> exactMatch (matchMethodAndPath Routes meth (path @ ''/'')) (path @ ''/'')"
proof (cases "matchMethodAndPath Routes meth (path @ ''/'')")
  case (Some m)
  obtain r ms where m: "m = (r, ms)" by fastforce
  have "Some (rt_handler r, PathValue r ms ''name'') = expected meth (path @ ''/'')"
    using match_method[of "path @ ''/''" "q @ ''/''" meth] assms(1) Some m by simp
  then have "rt_handler r = ShowDashboard"
    using expected_slash[OF assms] by (auto simp: expected_def split: if_splits) (metis fst_conv)+
  then have "last (rt_segments r) = Rest" "rt_segments r = [Rest]"
    using match_member[OF Some[unfolded m]] by (auto simp: Routes_def)
  then show ?thesis using Some m assms(1) by (simp add: exactMatch_def)
qed (simp add: exactMatch_def)

lemma matching_methods:
  assumes "path = CHR ''/'' # q"
  shows "matchingMethods Routes path = [''GET'', ''HEAD''] @ (if expected_post (path_segments path) = None then [] else [''POST''])"
proof -
  let ?post = "expected_post (path_segments path) \<noteq> None"
  define M where "M = (\<lambda>p. map rt_method (filter (\<lambda>r. matchPath (method_child Routes (rt_method r)) p [] \<noteq> None) Routes))"
  have M: "set (M p) = {''GET''} \<union> (if expected_post (path_segments p) = None then {} else {''POST''})" if "p = CHR ''/'' # x" for p x
  proof -
    define P where "P = (\<lambda>m. matchPath (method_child Routes m) p [] \<noteq> None)"
    have P: "P ''GET''" "P ''POST'' \<longleftrightarrow> expected_post (path_segments p) \<noteq> None"
      unfolding P_def using match_path[OF that] by (metis hits_simps(1) option.distinct(1), metis hits_None)
    have "set (M p) = {m \<in> rt_method ` set Routes. P m}" unfolding P_def by (auto simp: M_def)
    also have "rt_method ` set Routes = {''GET'', ''POST''}" by (auto simp: Routes_def)
    also have "{m \<in> {''GET'', ''POST''}. P m} = {''GET''} \<union> (if P ''POST'' then {''POST''} else {})" using P(1) by auto
    finally show ?thesis using P(2) by simp
  qed
  let ?ms = "M path @ (if HasSuffix path ''/'' then [] else M (path @ ''/''))"
  have ms: "set ?ms = {''GET''} \<union> (if ?post then {''POST''} else {})"
    using M[OF assms] M[of "path @ ''/''" "q @ ''/''"] expected_slash(1)[OF assms] assms by auto
  then have "''GET'' \<in> set ?ms" by simp
  moreover have "matchingMethods Routes path = sort (remdups (?ms @ (if ''GET'' \<in> set ?ms then [''HEAD''] else [])))"
    by (simp only: matchingMethods_def Let_def M_def)
  ultimately have "matchingMethods Routes path = sort (remdups (?ms @ [''HEAD'']))" by (simp only: if_True)
  also have "\<dots> = sorted_list_of_set (set (?ms @ [''HEAD'']))" by (rule sorted_list_of_set_sort_remdups[symmetric])
  also have "set (?ms @ [''HEAD'']) = {''GET'', ''HEAD''} \<union> (if ?post then {''POST''} else {})" using ms by auto
  finally show ?thesis by (cases ?post) simp_all
qed

lemma findHandler_clean:
  assumes "meth \<noteq> ''CONNECT''"
  shows "if cleanPath path \<noteq> path then findHandler Routes meth path = Moved (cleanPath path) \<and> cleanPath (cleanPath path) = cleanPath path
    else case expected meth path of
        Some (h, name) \<Rightarrow> \<exists>r matches. findHandler Routes meth path = Found r matches \<and> rt_handler r = h \<and> PathValue r matches ''name'' = name
      | None \<Rightarrow> findHandler Routes meth path =
          NotAllowed ([''GET'', ''HEAD''] @ (if expected ''POST'' path = None then [] else [''POST'']))"
proof -
  let ?p = "cleanPath path"
  obtain q where q: "?p = CHR ''/'' # q" using clean_start[OF cleanPath_clean] by blast
  have "\<not> exactMatch (matchMethodAndPath Routes meth (?p @ ''/'')) (?p @ ''/'')"
    by (rule no_slash_redirect[OF q])
  then have f: "findHandler Routes meth path =
      (if ?p \<noteq> path then Moved ?p
       else case matchMethodAndPath Routes meth ?p of
           Some (r, matches) \<Rightarrow> Found r matches
         | None \<Rightarrow> (case matchingMethods Routes ?p of [] \<Rightarrow> NotFound | ms \<Rightarrow> NotAllowed ms))"
    using assms by (auto simp: findHandler_def Let_def)
  show ?thesis
  proof (cases "?p = path")
    case True
    note m = match_method[OF q, of meth, unfolded True]
    show ?thesis
    proof (cases "matchMethodAndPath Routes meth path")
      case None
      with m show ?thesis
        using matching_methods[OF q] by (simp add: f True) (simp add: expected_def)
    next
      case (Some x)
      obtain r ms where x: "x = (r, ms)" by fastforce
      have e: "expected meth path = Some (rt_handler r, PathValue r ms ''name'')" using m Some x by simp
      have "findHandler Routes meth path = Found r ms" using f True Some x by simp
      then show ?thesis using True by (simp add: e)
    qed
  qed (simp add: f cleanPath_clean)
qed

text \<open>C11. Routing: a path that is not clean is redirected to its clean form, which is not redirected again; a clean one is
  answered by the handler and with the name that its segments determine, independently of the order of the patterns, and where
  the method has no handler by 405 with the methods that have one. Nothing is left over for a 404 of the multiplexer,
  since the pattern of the dashboard covers every path.\<close>

theorem routing_exact:
  assumes "meth \<noteq> ''CONNECT''"
  shows "if cleanPath path \<noteq> path then findHandler Routes meth path = Moved (cleanPath path) \<and> cleanPath (cleanPath path) = cleanPath path
    else case expected meth path of
        Some (h, name) \<Rightarrow> \<exists>r matches. findHandler Routes meth path = Found r matches \<and> rt_handler r = h \<and> PathValue r matches ''name'' = name
      | None \<Rightarrow> findHandler Routes meth path =
          NotAllowed ([''GET'', ''HEAD''] @ (if expected ''POST'' path = None then [] else [''POST'']))"
  by (rule findHandler_clean[OF assms])

theorem routing_exact_witness:
  "(\<exists>r matches. findHandler Routes ''POST'' ''/deployments/web/scale'' = Found r matches \<and> rt_handler r = ScaleDeployment \<and>
      PathValue r matches ''name'' = ''web'') \<and>
   findHandler Routes ''PUT'' ''/deployments'' = NotAllowed [''GET'', ''HEAD'', ''POST''] \<and>
   findHandler Routes ''GET'' ''/nodes/..//state'' = Moved ''/state''"
proof -
  have 1: "cleanPath ''/deployments/web/scale'' = ''/deployments/web/scale''" "cleanPath ''/deployments'' = ''/deployments''"
    "cleanPath ''/nodes/..//state'' = ''/state''" by code_simp+
  have 2: "expected ''POST'' ''/deployments/web/scale'' = Some (ScaleDeployment, ''web'')" "expected ''PUT'' ''/deployments'' = None"
    "expected ''POST'' ''/deployments'' = Some (CreateDeployment, [])" by code_simp+
  show ?thesis
    using routing_exact[of "''POST''" "''/deployments/web/scale''"] routing_exact[of "''PUT''" "''/deployments''"]
      routing_exact[of "''GET''" "''/nodes/..//state''"] 1 2 by simp
qed


section \<open>Serving keeps the accounting\<close>

context cluster
begin

lemma keeps_reads_only [keeps_intros]:
  "keeps J (handleHealthz E)" "keeps J (handleListDeployments E)" "keeps J (handleGetDeployment E name)" "keeps J (handleListNodes E)"
proof -
  have l: "keeps J (List E)" unfolding List_def List_body_def Get_def by (intro keeps_intros)
  show "keeps J (handleHealthz E)" unfolding handleHealthz_def writeJSON_def by (intro keeps_intros)
  show "keeps J (handleListDeployments E)" unfolding handleListDeployments_def writeJSON_def writeError_def by (intro keeps_intros l)
  show "keeps J (handleGetDeployment E name)" unfolding handleGetDeployment_def writeJSON_def writeError_def by (intro keeps_intros)
  show "keeps J (handleListNodes E)"
    unfolding handleListNodes_def handleListNodes_body_def writeJSON_def writeError_def Let_def by (intro keeps_intros)
qed

lemma keeps_serve:
  assumes "\<And>hs st. keeps J (start hs st)" "\<And>frame. keeps J (write frame)"
  shows "keeps J (serve E l refusal asset start write choices rq)"
proof -
  have "keeps J (handleDashboard asset path :: (('db, 'm) world_scheme, response + string) state)" for path
    unfolding handleDashboard_def writeError_def writeJSON_def by (intro keeps_intros)
  then have "keeps J (handle E l refusal asset start write choices rq h name)" for h name
    unfolding handle_def Let_def
    by (cases h; simp) (intro keeps_intros keeps_handlers keeps_handleState keeps_loops(7)[OF assms]; assumption)+
  then show ?thesis unfolding serve_def by (simp split: found.split)
qed

end


section \<open>A deployment from the bytes of a request\<close>

definition opt_json :: "int option \<Rightarrow> json" where
  "opt_json n = (case n of None \<Rightarrow> JNull | Some n \<Rightarrow> JInt n)"

text \<open>A request as a client with \<open>encoding/json\<close> would write it.\<close>

definition request_json :: "DeploymentRequest \<Rightarrow> json" where
  "request_json r = JObj
     [(''name'', JStr (rq_Name r)), (''min_replicas'', opt_json (rq_MinReplicas r)), (''max_replicas'', opt_json (rq_MaxReplicas r)),
      (''target_cpu_percentage'', opt_json (rq_TargetCPUPercent r)), (''cpu_request'', opt_json (rq_CPURequest r)),
      (''mem_request'', opt_json (rq_MemRequest r)), (''exec_path'', JStr (rq_ExecPath r)), (''port'', opt_json (rq_Port r))]"

definition fits :: "int option \<Rightarrow> bool" where
  "fits n \<longleftrightarrow> (case n of None \<Rightarrow> True | Some n \<Rightarrow> in_int64 n)"

definition sendable :: "DeploymentRequest \<Rightarrow> bool" where
  "sendable r \<longleftrightarrow> ValidString (rq_Name r) \<and> ValidString (rq_ExecPath r) \<and>
     list_all fits [rq_MinReplicas r, rq_MaxReplicas r, rq_TargetCPUPercent r, rq_CPURequest r, rq_MemRequest r, rq_Port r] \<and>
     length (Marshal (request_json r)) \<le> maxRequestBody"

lemma pointer_read: "fits n \<Longrightarrow> int_pointer_field f (value_of (opt_json n)) s = Some (f n s)"
  by (auto simp: int_pointer_field_def opt_json_def fits_def split: option.splits)

lemma request_field_simps:
  "find_field request_fields ''name'' = Some (string_field (\<lambda>x r. r\<lparr>rq_Name := x\<rparr>))"
  "find_field request_fields ''min_replicas'' = Some (int_pointer_field (\<lambda>n r. r\<lparr>rq_MinReplicas := n\<rparr>))"
  "find_field request_fields ''max_replicas'' = Some (int_pointer_field (\<lambda>n r. r\<lparr>rq_MaxReplicas := n\<rparr>))"
  "find_field request_fields ''target_cpu_percentage'' = Some (int_pointer_field (\<lambda>n r. r\<lparr>rq_TargetCPUPercent := n\<rparr>))"
  "find_field request_fields ''cpu_request'' = Some (int_pointer_field (\<lambda>n r. r\<lparr>rq_CPURequest := n\<rparr>))"
  "find_field request_fields ''mem_request'' = Some (int_pointer_field (\<lambda>n r. r\<lparr>rq_MemRequest := n\<rparr>))"
  "find_field request_fields ''exec_path'' = Some (string_field (\<lambda>x r. r\<lparr>rq_ExecPath := x\<rparr>))"
  "find_field request_fields ''port'' = Some (int_pointer_field (\<lambda>n r. r\<lparr>rq_Port := n\<rparr>))"
  by (simp_all add: find_field_def request_fields_def)

lemma request_names_valid:
  "to_valid ''name'' = ''name''" "to_valid ''min_replicas'' = ''min_replicas''" "to_valid ''max_replicas'' = ''max_replicas''"
  "to_valid ''target_cpu_percentage'' = ''target_cpu_percentage''" "to_valid ''cpu_request'' = ''cpu_request''"
  "to_valid ''mem_request'' = ''mem_request''" "to_valid ''exec_path'' = ''exec_path''" "to_valid ''port'' = ''port''"
  by (rule to_valid_same, rule ValidString_ascii, simp)+

lemma string_read: "ValidString x \<Longrightarrow> string_field f (VString (to_valid x)) s = Some (f x s)"
  by (simp add: string_field_def to_valid_same)

lemma body_read:
  assumes "sendable r"
  shows "decodeJSON refusal request_fields zero_request (Marshal (request_json r) @ rest) = Inr r"
proof -
  have "nested_within maxNestingDepth (request_json r)" by (simp add: request_json_def opt_json_def split: option.split)
  then have "first_value maxRequestBody (Marshal (request_json r) @ rest) = Some (value_of (request_json r))"
    using first_value_Marshal assms unfolding request_json_def sendable_def by blast
  moreover have "ValidString (rq_Name r)" "ValidString (rq_ExecPath r)" "fits (rq_MinReplicas r)" "fits (rq_MaxReplicas r)"
    "fits (rq_TargetCPUPercent r)" "fits (rq_CPURequest r)" "fits (rq_MemRequest r)" "fits (rq_Port r)"
    using assms by (simp_all add: sendable_def)
  then have "store_struct True request_fields zero_request (value_of (request_json r)) = Some r"
    by (simp add: store_struct_def request_json_def request_field_simps request_names_valid pointer_read string_read zero_request_def)
  ultimately show ?thesis by (simp add: decodeJSON_def DecodeStrict_def)
qed

lemma create_route:
  obtains r matches where "findHandler Routes ''POST'' ''/deployments'' = Found r matches" "rt_handler r = CreateDeployment"
proof -
  have "cleanPath ''/deployments'' = ''/deployments''" "expected ''POST'' ''/deployments'' = Some (CreateDeployment, [])" by code_simp+
  then show thesis using that findHandler_clean[of "''POST''" "''/deployments''"] by auto
qed

text \<open>C10. A deployment from the bytes of a request to the database: a POST to \<open>/deployments\<close> whose body is the JSON of a request that
  validation accepts, within the size limit and with anything behind it, is decoded to exactly that request, stored, and answered with
  201 or 200 and the stored deployment, which reads back; no other key but the log changes.\<close>

theorem create_over_http:
  assumes "redis_server (server E) view" "quiet E" "sendable req" "Validate req = None"
    and "stored (view (db w)) (TrimSpace (rq_Name req)) existing"
  shows "\<exists>dep w'. run_state (serve E l refusal asset start frame choices
        \<lparr>hr_Method = ''POST'', hr_Path = ''/deployments'', hr_Body = Marshal (request_json req) @ rest, hr_Flushes = flushes\<rparr>) w =
      (Json \<lparr>rs_status = if existing = None then 201 else 200, rs_body = deployment_json dep\<rparr>, w') \<and>
    applied req existing dep \<and> deployment_at (view (db w')) (TrimSpace (rq_Name req)) dep \<and>
    (\<forall>k. k \<noteq> LogStreamKey \<and> k \<noteq> DeploymentKey (TrimSpace (rq_Name req)) \<longrightarrow> view (db w') k = view (db w) k)"
proof -
  obtain r matches where r: "findHandler Routes ''POST'' ''/deployments'' = Found r matches" "rt_handler r = CreateDeployment"
    by (rule create_route)
  obtain dep w' where "run_state (handleCreateDeployment E l (Inr req)) w =
      (\<lparr>rs_status = if existing = None then 201 else 200, rs_body = deployment_json dep\<rparr>, w')"
    "applied req existing dep" "deployment_at (view (db w')) (TrimSpace (rq_Name req)) dep"
    "\<forall>k. k \<noteq> LogStreamKey \<and> k \<noteq> DeploymentKey (TrimSpace (rq_Name req)) \<longrightarrow> view (db w') k = view (db w) k"
    using handleCreateDeployment_exact[OF assms(1,2), of l w] assms(4,5) by blast
  then show ?thesis by (auto simp: serve_def handle_def r body_read[OF assms(3)])
qed

text \<open>A bound on the length of what is written.\<close>

lemma json_body_length: "length (json_body s) \<le> 6 * length s"
proof (induction s rule: json_body.induct)
  case (1 s)
  show ?case
  proof (cases s)
    case (Cons c cs)
    have c: "length (json_char c) \<le> 6" by (simp add: json_char_def Let_def)
    show ?thesis
    proof (cases "rune_len (map of_char s :: nat list)")
      case None
      then show ?thesis using 1 Cons by (subst json_body.simps) simp
    next
      case (Some n)
      then have n: "0 < n" "n \<le> length s" using rune_len_take[OF Some] rune_len_pos[OF Some] by simp_all
      have "length (json_body (drop n s)) \<le> 6 * (length s - n)" using 1(2)[OF Cons Some] by simp
      moreover have "length (json_body s) \<le> max 6 n + length (json_body (drop n s))"
        using Some Cons c n by (subst json_body.simps) (auto simp: max_def)
      ultimately show ?thesis using n by auto
    qed
  qed (subst json_body.simps, simp)
qed

lemma json_string_length: "length (json_string s) \<le> 6 * length s + 2"
  using json_body_length[of s] by (simp add: json_string_def)

lemma dec_nat_length: "length (dec_nat n) \<le> Suc n"
proof (induction n rule: dec_nat.induct)
  case (1 n)
  then show ?case by (subst dec_nat.simps) (auto simp: less_eq_div_iff_mult_less_eq)
qed

lemma Itoa_length: "0 \<le> n \<Longrightarrow> length (Itoa n) \<le> Suc (nat n)"
  using dec_nat_length[of "nat n"] by (simp add: Itoa_def)

theorem create_over_http_witness:
  "\<exists>dep w'. run_state (serve mem_env demo_logger demo_refusal (Inr []) (\<lambda>_ _. State_Monad.return ()) (\<lambda>_. ok ()) []
      \<lparr>hr_Method = ''POST'', hr_Path = ''/deployments'', hr_Body = Marshal (request_json demo_request) @ ''}'', hr_Flushes = True\<rparr>) pair_world =
    (Json \<lparr>rs_status = 200, rs_body = deployment_json dep\<rparr>, w')"
proof -
  have stored: "stored (mem_view (db pair_world)) (TrimSpace (rq_Name demo_request)) (Some (demo_deployment\<lparr>d_DesiredReplicas := 1\<rparr>))"
    using pair_ready(1) by (simp add: stored_def demo_request_name)
  have "length (Marshal (request_json demo_request)) \<le> maxRequestBody"
    using json_string_length[of "''name''"] json_string_length[of "'' web ''"] json_string_length[of "''min_replicas''"]
      json_string_length[of "''max_replicas''"] json_string_length[of "''target_cpu_percentage''"] json_string_length[of "''cpu_request''"]
      json_string_length[of "''mem_request''"] json_string_length[of "''exec_path''"] json_string_length[of "''/bin/web''"]
      json_string_length[of "''port''"] Itoa_length[of 3] Itoa_length[of 8] Itoa_length[of 70] Itoa_length[of 250] Itoa_length[of 128] Itoa_length[of 8080]
    by (simp add: request_json_def demo_request_def opt_json_def)
  then have sendable: "sendable demo_request"
    by (simp add: sendable_def fits_def) (simp add: demo_request_def ValidString_ascii in_int64_def)
  have "redis_server (server mem_env) mem_view" "quiet mem_env" using mem.redis_server_axioms by simp_all
  note create_over_http[OF this sendable demo_request_valid stored, where l = demo_logger and refusal = demo_refusal and asset = "Inr []"
    and start = "\<lambda>_ _. State_Monad.return ()" and frame = "\<lambda>_. ok ()" and choices = "[]" and flushes = True and rest = "''}''"]
  then obtain dep w' where "run_state (serve mem_env demo_logger demo_refusal (Inr []) (\<lambda>_ _. State_Monad.return ()) (\<lambda>_. ok ()) []
      \<lparr>hr_Method = ''POST'', hr_Path = ''/deployments'', hr_Body = Marshal (request_json demo_request) @ ''}'', hr_Flushes = True\<rparr>) pair_world =
    (Json \<lparr>rs_status = if Some (demo_deployment\<lparr>d_DesiredReplicas := 1\<rparr>) = None then 201 else 200, rs_body = deployment_json dep\<rparr>, w')"
    by blast
  then show ?thesis by (simp only: option.distinct if_False) blast
qed

end
