(* ===== verification/Processes.thy ===== *)
theory Processes
  imports Agent Ingress Routes
begin

text \<open>
  The programs as a whole: \<open>run\<close> and \<open>main\<close> of \<open>cmd/api-server\<close>, \<open>cmd/node-agent\<close> and \<open>cmd/dashboard\<close>, and \<open>Run\<close> of the two
  controllers that have a sweep and a subscription. What a program does in goroutines beside its main path is an
  \<open>activity\<close>: a loop with the choices it meets, which runs on the shared database as a step of its own.
\<close>


section \<open>Controllers\<close>

text \<open>\<open>Run\<close> starts a subscriber beside the sweep; either of them is a part of its work.\<close>

datatype duty = Sweeping "select list" | Listening "connection list"

definition Run_replica ::
  "('db, 'e) env_scheme \<Rightarrow> Logger \<Rightarrow> (string \<Rightarrow> error) \<Rightarrow> duty \<Rightarrow> (('db, 'm) world_scheme, unit + unit) state"
where
  "Run_replica E l refusal d =
     (case d of Listening turns \<Rightarrow> RunSubscriber E l refusal turns | Sweeping choices \<Rightarrow> RunSweeper E l choices)"

definition Run_health :: "('db, 'e) env_scheme \<Rightarrow> Logger \<Rightarrow> duty \<Rightarrow> (('db, 'm) world_scheme, unit + unit) state" where
  "Run_health E l d =
     (case d of Listening turns \<Rightarrow> RunExpirySubscriber E l turns | Sweeping choices \<Rightarrow> RunSweeper_health E l choices)"

text \<open>The controllers of the control plane beside the ingress, which has a state of its own.\<close>

datatype control = Replicas duty | Leases duty | Scaling "select list"

definition control_activity ::
  "('db, 'e) env_scheme \<Rightarrow> Logger \<Rightarrow> (string \<Rightarrow> error) \<Rightarrow> Config \<Rightarrow> control \<Rightarrow> (('db, 'm) world_scheme, unit + unit) state"
where
  "control_activity E l refusal cfg a =
     (case a of
        Replicas d \<Rightarrow> Run_replica E l refusal d
      | Leases d \<Rightarrow> Run_health E l d
      | Scaling choices \<Rightarrow> Run_autoscaler E l (NewAutoscaler (autoscale_config cfg)) choices)"


section \<open>The loops of an agent\<close>

datatype chore = Refreshing "select list" | Consuming nat | Checking "select list" | Measuring "select list"

definition agent_activity ::
  "('db, 'os, 'e) host_env_scheme \<Rightarrow> Logger \<Rightarrow> (string \<Rightarrow> error) \<Rightarrow> AgentConfig \<Rightarrow> Registrar \<Rightarrow> Supervisor \<Rightarrow> chore \<Rightarrow>
   (('db, 'os, 'm) host_world_scheme, unit) state"
where
  "agent_activity E l refusal cfg registrar s a =
     (case a of
        Refreshing choices \<Rightarrow> do { RunHeartbeatLoop E l registrar choices; State_Monad.return () }
      | Consuming n \<Rightarrow> do { RunCommandConsumer E refusal s n; State_Monad.return () }
      | Checking choices \<Rightarrow> do { RunHealthChecker E s (health_config cfg) choices; State_Monad.return () }
      | Measuring choices \<Rightarrow> do { RunTelemetryCollector E s (cfg_HealthCheckInterval cfg) choices; State_Monad.return () })"


section \<open>Programs\<close>

text \<open>\<open>logging.New\<close> with a client.\<close>

definition NewLogger :: "string \<Rightarrow> Logger" where
  "NewLogger component = \<lparr>l_component = component, l_client = True\<rparr>"

text \<open>\<open>run\<close> of the control plane: the configuration, the connection, and the rest. \<open>h\<close> is what \<open>os.Hostname\<close> returns.\<close>

definition run_api_server ::
  "('db, 'e) env_scheme \<Rightarrow> (string \<Rightarrow> string) \<Rightarrow> error + string \<Rightarrow> ending \<Rightarrow> (('db, 'm) world_scheme, unit) fallible"
where
  "run_api_server E getenv h finish =
     (let cfg = Load getenv h in
      on_error (New E (cfg_RedisAddr cfg))
        (\<lambda>e. throw (Errorf ''connect to redis: %w'' [ArgE e]))
        (\<lambda>_. api_run E (NewLogger ''api-server'') getenv cfg finish))"

definition run_node_agent ::
  "('db, 'os, 'e) host_env_scheme \<Rightarrow> (string \<Rightarrow> string) \<Rightarrow> error + string \<Rightarrow> (('db, 'os, 'm) host_world_scheme, unit) fallible"
where
  "run_node_agent E getenv h =
     (let cfg = AgentConfig.truncate (Load getenv h); l = NewLogger ''node-agent'' in
      on_error (New E (cfg_RedisAddr cfg))
        (\<lambda>e. throw (Errorf ''connect to redis: %w'' [ArgE e]))
        (\<lambda>_. attempt (agent_start E l cfg) (\<lambda>(registrar, s). do {
           agent_stop E l cfg registrar;
           ok () })))"

text \<open>The status a process ends with and what it writes to standard error.\<close>

definition exit_with :: "string \<Rightarrow> error + unit \<Rightarrow> int \<times> string" where
  "exit_with program r = (case r of Inl e \<Rightarrow> (1, program @ '': '' @ Error_text e @ newline) | Inr _ \<Rightarrow> (0, []))"

definition main_dashboard ::
  "('db, 'e) env_scheme \<Rightarrow> (string \<Rightarrow> string) \<Rightarrow> error + string \<Rightarrow> (('db, 'm) world_scheme, int \<times> string) state"
where
  "main_dashboard E getenv h =
     (let cfg = Load getenv h in
      on_error (New E (cfg_RedisAddr cfg))
        (\<lambda>e. State_Monad.return (exit_with ''dashboard'' (Inl (Errorf ''failed to connect to Redis: %v'' [ArgE e]))))
        (\<lambda>_. let l = NewLogger ''dashboard'' in do {
           Info E l ''component_started'' (Sprintf ''dashboard started, port=%s'' [ArgS (cfg_Port cfg)]) [];
           Info E l ''component_stopped'' ''dashboard shutting down'' [];
           State_Monad.return (exit_with ''dashboard'' (Inr ())) }))"


section \<open>Accounting\<close>

context cluster
begin

lemma keeps_control: "keeps J (control_activity E l refusal cfg a)"
  unfolding control_activity_def Run_replica_def Run_health_def
  by (simp add: keeps_loops split: control.split duty.split)

lemma keeps_programs: "keeps J (run_api_server E getenv h finish)" "keeps J (main_dashboard E getenv h)"
  unfolding run_api_server_def main_dashboard_def Let_def by (intro keeps_intros keeps_api_run; simp)+

end

context host_cluster
begin

lemma keeps_agent_activity: "keeps J (agent_activity E l refusal cfg registrar s a)"
  unfolding agent_activity_def
  by (cases a; simp) (intro keeps_intros keeps_loops keeps_host_loops keeps_RunCommandConsumer)+

end


section \<open>Starting without a database\<close>

text \<open>The programs fail fast: when the first probe of Redis gets no answer, each of them ends at once with status 1 and a message that
  names the address, and changes nothing: the database is as the others left it, and the node's processes are
  untouched.\<close>

theorem fail_fast:
  fixes E :: "('db, 'os, 'e) host_env_scheme" and w :: "('db, 'os, 'm) host_world_scheme" and getenv :: "string \<Rightarrow> string" and h :: "error + string"
  assumes "fault_at E (tick w) = Lost e"
  defines "cfg \<equiv> Load getenv h"
  defines "down \<equiv> Errorf ''redis unreachable at %s: %w'' [ArgS (cfg_RedisAddr cfg), ArgE e]"
  defines "w' \<equiv> w\<lparr>tick := Suc (tick w), db := interfere E (tick w) (db w)\<rparr>"
  shows "run_state (run_api_server E getenv h finish) w = (Inl (Errorf ''connect to redis: %w'' [ArgE down]), w') \<and>
    run_state (run_node_agent E getenv h) w = (Inl (Errorf ''connect to redis: %w'' [ArgE down]), w') \<and>
    run_state (main_dashboard E getenv h) w =
      ((1, ''dashboard: '' @ Error_text (Errorf ''failed to connect to Redis: %v'' [ArgE down]) @ newline), w')"
proof -
  have "run_state (New E addr) w = (Inl (Errorf ''redis unreachable at %s: %w'' [ArgS addr, ArgE e]), w')" for addr
    using assms(1) by (simp add: New_def Ping_def run_on_error send_def w'_def)
  moreover have "cfg_RedisAddr (AgentConfig.truncate (Load getenv h)) = cfg_RedisAddr cfg" by (simp add: cfg_def AgentConfig.truncate_def)
  ultimately show ?thesis
    by (simp add: run_api_server_def run_node_agent_def main_dashboard_def Let_def run_on_error down_def cfg_def exit_with_def)
qed

theorem fail_fast_witness:
  "fst (run_state (run_node_agent (mem_host\<lparr>fault_at := \<lambda>_. Lost RedisNil\<rparr>) (\<lambda>_. []) (Inr ''n1'')) (on_machine demo_db)) =
    Inl (Errorf ''connect to redis: %w'' [ArgE (Errorf ''redis unreachable at %s: %w'' [ArgS ''localhost:6379'', ArgE RedisNil])])"
  using fail_fast[of "mem_host\<lparr>fault_at := \<lambda>_. Lost RedisNil\<rparr>" "on_machine demo_db" RedisNil "\<lambda>_. []" "Inr ''n1''"]
  by (simp add: Load_def env_text_def)

end
