(* ===== verification/Loadgen.thy ===== *)
theory Loadgen
  imports GoText Float64 "HOL-Library.Word" "HOL-Library.Signed_Division"
begin

text \<open>
  \<open>cmd/loadgen/main.go\<close>: the load generator. A dispatcher puts jobs into a channel at a rate that rises in steps, workers take
  them out and request the target. The dispatcher's \<open>select\<close> and the workers run beside each other, so a run is the list of what
  happens: a case of the \<open>select\<close>, a worker that takes a job, an answer. Counters are 64 bits wide, times are
  nanoseconds, and a panic is a stage of its own. What an HTTP request returns is a parameter of the event.
\<close>


section \<open>Flags\<close>

record flags =
  fg_target :: string
  fg_start :: int
  fg_peak :: int
  fg_step :: int
  fg_stepEvery :: int
  fg_hold :: int
  fg_workers :: int

definition default_flags :: flags where
  "default_flags = \<lparr>fg_target = [], fg_start = 10, fg_peak = 200, fg_step = 10, fg_stepEvery = 5 * 10 ^ 9, fg_hold = 30 * 10 ^ 9,
     fg_workers = 64\<rparr>"

text \<open>The complaint with which the process ends at once, with status 2.\<close>

definition refused_flags :: "flags \<Rightarrow> string option" where
  "refused_flags f =
     (if fg_target f = [] then Some ''loadgen: -target is required''
      else if fg_start f \<le> 0 \<or> fg_peak f < fg_start f \<or> fg_step f \<le> 0 \<or> fg_workers f \<le> 0
      then Some ''loadgen: rates must be positive and peak must be at least start''
      else None)"


section \<open>State\<close>

record stats =
  st_sent :: "64 word"
  st_ok :: "64 word"
  st_failed :: "64 word"

text \<open>\<open>Closing\<close>: the channel is closed and the dispatcher waits for the workers.\<close>

datatype stage = Running | Closing | Finished | Panicked

text \<open>\<open>gn_queued\<close> jobs are in the channel and \<open>gn_busy\<close> workers have one. A line on standard output is a text, or the success rate
  that is printed with one digit.\<close>

record gen =
  gn_stage :: stage
  gn_rate :: int
  gn_period :: int
  gn_atPeakSince :: "int option"
  gn_queued :: nat
  gn_busy :: nat
  gn_stats :: stats
  gn_out :: "(string + rat) list"

definition print :: "string \<Rightarrow> earg list \<Rightarrow> gen \<Rightarrow> gen" where
  "print form args g = g\<lparr>gn_out := gn_out g @ [Inl (Sprintf form args)]\<rparr>"

text \<open>\<open>time.Second / time.Duration(rate)\<close>, and the panics of the division, of \<open>NewTicker\<close> and of \<open>Reset\<close>.\<close>

definition pace :: "int \<Rightarrow> gen \<Rightarrow> gen" where
  "pace rate g =
     (if rate = 0 \<or> 10 ^ 9 sdiv rate \<le> 0 then g\<lparr>gn_stage := Panicked\<rparr>
      else g\<lparr>gn_period := 10 ^ 9 sdiv rate\<rparr>)"

text \<open>\<open>run\<close> up to its loop.\<close>

definition start_gen :: "flags \<Rightarrow> gen" where
  "start_gen f =
     (let g = \<lparr>gn_stage = Running, gn_rate = fg_start f, gn_period = 0, gn_atPeakSince = None, gn_queued = 0, gn_busy = 0,
               gn_stats = \<lparr>st_sent = 0, st_ok = 0, st_failed = 0\<rparr>, gn_out = []\<rparr>
      in if fg_stepEvery f \<le> 0 then g\<lparr>gn_stage := Panicked\<rparr>
         else pace (fg_start f)
           (print ''loadgen: %s, %d -> %d rps in steps of %d every %s''
              [ArgS (fg_target f), ArgD (fg_start f), ArgD (fg_peak f), ArgD (fg_step f), ArgS (Duration_String (fg_stepEvery f))] g))"


section \<open>Events\<close>

text \<open>Of a request: it could not be built, it was not answered, or the status of the answer.\<close>

datatype outcome = NotBuilt | NotAnswered | Status int

definition count_outcome :: "outcome \<Rightarrow> stats \<Rightarrow> stats" where
  "count_outcome r s =
     (case r of
        Status n \<Rightarrow> if n < 400 then s\<lparr>st_ok := st_ok s + 1\<rparr> else s\<lparr>st_failed := st_failed s + 1\<rparr>
      | _ \<Rightarrow> s\<lparr>st_failed := st_failed s + 1\<rparr>)"

definition printSummary :: "gen \<Rightarrow> gen" where
  "printSummary g =
     (let s = gn_stats g;
          g = print ''loadgen done: sent=%d ok=%d failed=%d'' [ArgD (uint (st_sent s)), ArgD (uint (st_ok s)), ArgD (uint (st_failed s))] g
      in if st_sent s > 0
         then g\<lparr>gn_out := gn_out g @ [Inr (fl (fl (fl (of_int (uint (st_ok s))) / fl (of_int (uint (st_sent s)))) * 100))]\<rparr>
         else g)"

definition ramp_up :: "flags \<Rightarrow> int \<Rightarrow> gen \<Rightarrow> gen" where
  "ramp_up f now g =
     (if gn_rate g < fg_peak f then
        let rate = i64 (gn_rate g + fg_step f);
            rate = (if rate > fg_peak f then fg_peak f else rate);
            g = pace rate (g\<lparr>gn_rate := rate\<rparr>)
        in if gn_stage g \<noteq> Panicked \<and> rate = fg_peak f then g\<lparr>gn_atPeakSince := Some now\<rparr> else g
      else g)"

definition report :: "flags \<Rightarrow> int \<Rightarrow> gen \<Rightarrow> gen" where
  "report f now g =
     (let s = gn_stats g;
          g = print ''  rate=%d/s sent=%d ok=%d failed=%d''
                [ArgD (gn_rate g), ArgD (uint (st_sent s)), ArgD (uint (st_ok s)), ArgD (uint (st_failed s))] g
      in case gn_atPeakSince g of
           None \<Rightarrow> g
         | Some since \<Rightarrow> if now - since \<ge> fg_hold f then g\<lparr>gn_stage := Closing\<rparr> else g)"

text \<open>The cases of the \<open>select\<close> with the time they are taken at, a worker that receives from the channel, a worker that is done
  with its request, and the end of \<open>wg.Wait\<close>.\<close>

datatype gen_event = Tick | RampUp int | Report int | Stopped | Taken | Answered outcome | Drained

definition gen_step :: "flags \<Rightarrow> gen_event \<Rightarrow> gen \<Rightarrow> gen option" where
  "gen_step f ev g =
     (case ev of
        Tick \<Rightarrow>
          if gn_stage g \<noteq> Running then None
          else if gn_queued g < nat (fg_workers f)
          then Some (g\<lparr>gn_queued := Suc (gn_queued g), gn_stats := (gn_stats g)\<lparr>st_sent := st_sent (gn_stats g) + 1\<rparr>\<rparr>)
          else Some g
      | RampUp now \<Rightarrow> if gn_stage g \<noteq> Running then None else Some (ramp_up f now g)
      | Report now \<Rightarrow> if gn_stage g \<noteq> Running then None else Some (report f now g)
      | Stopped \<Rightarrow> if gn_stage g \<noteq> Running then None else Some (g\<lparr>gn_stage := Closing\<rparr>)
      | Taken \<Rightarrow>
          if gn_stage g \<in> {Running, Closing} \<and> 0 < gn_queued g \<and> gn_busy g < nat (fg_workers f)
          then Some (g\<lparr>gn_queued := gn_queued g - 1, gn_busy := Suc (gn_busy g)\<rparr>) else None
      | Answered r \<Rightarrow>
          if gn_stage g \<in> {Running, Closing} \<and> 0 < gn_busy g
          then Some (g\<lparr>gn_busy := gn_busy g - 1, gn_stats := count_outcome r (gn_stats g)\<rparr>) else None
      | Drained \<Rightarrow>
          if gn_stage g = Closing \<and> gn_queued g = 0 \<and> gn_busy g = 0 then Some (printSummary (g\<lparr>gn_stage := Finished\<rparr>)) else None)"

primrec gen_run :: "flags \<Rightarrow> gen_event list \<Rightarrow> gen \<Rightarrow> gen option" where
  "gen_run f [] g = Some g"
| "gen_run f (ev # evs) g = Option.bind (gen_step f ev g) (gen_run f evs)"


section \<open>What holds in every run\<close>

lemma gen_run_invariant:
  assumes "gen_run f evs g = Some g'" "I g"
    and "\<And>ev g g'. ev \<in> set evs \<Longrightarrow> gen_step f ev g = Some g' \<Longrightarrow> I g \<Longrightarrow> I g'"
  shows "I g'"
  using assms
proof (induction evs arbitrary: g)
  case (Cons ev evs)
  then show ?case by (fastforce simp: bind_eq_Some_conv)
qed simp

text \<open>What the counters and the output do not depend on.\<close>

lemma print_simps [simp]:
  "gn_stage (print a b g) = gn_stage g" "gn_rate (print a b g) = gn_rate g" "gn_period (print a b g) = gn_period g"
  "gn_atPeakSince (print a b g) = gn_atPeakSince g" "gn_queued (print a b g) = gn_queued g" "gn_busy (print a b g) = gn_busy g"
  "gn_stats (print a b g) = gn_stats g"
  by (simp_all add: print_def)

lemma pace_simps [simp]:
  "gn_rate (pace r g) = gn_rate g" "gn_atPeakSince (pace r g) = gn_atPeakSince g" "gn_queued (pace r g) = gn_queued g"
  "gn_busy (pace r g) = gn_busy g" "gn_stats (pace r g) = gn_stats g"
  by (simp_all add: pace_def)

lemma parts_simps [simp]:
  "gn_queued (ramp_up f now g) = gn_queued g" "gn_busy (ramp_up f now g) = gn_busy g" "gn_stats (ramp_up f now g) = gn_stats g"
  "gn_queued (report f now g) = gn_queued g" "gn_busy (report f now g) = gn_busy g" "gn_stats (report f now g) = gn_stats g"
  "gn_rate (report f now g) = gn_rate g" "gn_period (report f now g) = gn_period g" "gn_atPeakSince (report f now g) = gn_atPeakSince g"
  "gn_queued (printSummary g) = gn_queued g" "gn_busy (printSummary g) = gn_busy g" "gn_stats (printSummary g) = gn_stats g"
  "gn_rate (printSummary g) = gn_rate g" "gn_period (printSummary g) = gn_period g" "gn_stage (printSummary g) = gn_stage g"
  "gn_atPeakSince (printSummary g) = gn_atPeakSince g"
  by (simp_all add: ramp_up_def report_def printSummary_def Let_def split: option.split)

lemma start_simps [simp]:
  "gn_queued (start_gen f) = 0" "gn_busy (start_gen f) = 0" "gn_stats (start_gen f) = \<lparr>st_sent = 0, st_ok = 0, st_failed = 0\<rparr>"
  "gn_rate (start_gen f) = fg_start f" "gn_atPeakSince (start_gen f) = None"
  by (simp_all add: start_gen_def Let_def)

text \<open>C38. Every job is accounted for: at any moment of any run the jobs sent are those that succeeded, those that failed, those in
  the channel and those a worker is busy with, at most as many as there are workers each, so at most twice as many are outstanding; and when the
  generator has finished, its totals add up.\<close>

theorem jobs_accounted:
  assumes "gen_run f evs (start_gen f) = Some g"
  shows "st_sent (gn_stats g) = st_ok (gn_stats g) + st_failed (gn_stats g) + of_nat (gn_queued g + gn_busy g) \<and>
    gn_queued g \<le> nat (fg_workers f) \<and> gn_busy g \<le> nat (fg_workers f) \<and>
    (gn_stage g = Finished \<longrightarrow> st_sent (gn_stats g) = st_ok (gn_stats g) + st_failed (gn_stats g))"
proof -
  let ?I = "\<lambda>g. st_sent (gn_stats g) = st_ok (gn_stats g) + st_failed (gn_stats g) + of_nat (gn_queued g + gn_busy g) \<and>
    gn_queued g \<le> nat (fg_workers f) \<and> gn_busy g \<le> nat (fg_workers f) \<and>
    (gn_stage g = Finished \<longrightarrow> gn_queued g = 0 \<and> gn_busy g = 0)"
  have "?I g"
  proof (rule gen_run_invariant[OF assms])
    show "?I (start_gen f)" by (simp add: start_gen_def pace_def Let_def)
  next
    fix ev g g'
    assume step: "gen_step f ev g = Some g'" and I: "?I g"
    show "?I g'"
    proof (cases ev)
      case Taken
      then have "gn_queued g' + gn_busy g' = gn_queued g + gn_busy g" using step by (auto simp: gen_step_def split: if_splits)
      then show ?thesis using step I Taken by (auto simp: gen_step_def split: if_splits)
    next
      case (Answered r)
      then have "of_nat (gn_queued g + gn_busy g) = (of_nat (gn_queued g' + gn_busy g') + 1 :: 64 word)"
        using step by (auto simp: gen_step_def of_nat_diff split: if_splits)
      then show ?thesis using step I Answered
        by (auto simp: gen_step_def count_outcome_def algebra_simps split: if_splits outcome.split)
    next
      case (RampUp now)
      then show ?thesis using step I
        by (auto simp: gen_step_def ramp_up_def pace_def Let_def split: if_splits)
    next
      case (Report now)
      then show ?thesis using step I
        by (auto simp: gen_step_def report_def Let_def split: if_splits option.splits)
    qed (use step I in \<open>auto simp: gen_step_def split: if_splits\<close>)
  qed
  then show ?thesis by simp
qed


section \<open>The rate\<close>

definition ramps :: "gen_event list \<Rightarrow> nat" where
  "ramps evs = length (filter (\<lambda>ev. case ev of RampUp _ \<Rightarrow> True | _ \<Rightarrow> False) evs)"

lemma gen_run_snoc: "gen_run f (evs @ [ev]) g = Option.bind (gen_run f evs g) (gen_step f ev)"
  by (induction evs arbitrary: g) (auto simp: bind_eq_Some_conv split: bind_splits)

lemma pace_sound:
  assumes "0 < r" "r \<le> 10 ^ 9"
  shows "pace r g = g\<lparr>gn_period := 10 ^ 9 div r\<rparr>" "0 < (10 ^ 9 :: int) div r"
proof -
  show "0 < (10 ^ 9 :: int) div r" using assms by (simp only: pos_imp_zdiv_pos_iff)
  moreover have "10 ^ 9 sdiv r = 10 ^ 9 div r" using assms(1) by (simp add: signed_divide_int_def)
  ultimately show "pace r g = g\<lparr>gn_period := 10 ^ 9 div r\<rparr>" using assms(1) by (simp only: pace_def) simp
qed

text \<open>Flags that pass the check and keep the arithmetic within its bounds.\<close>

definition sound_flags :: "flags \<Rightarrow> bool" where
  "sound_flags f \<longleftrightarrow> refused_flags f = None \<and> 0 < fg_stepEvery f \<and> fg_peak f \<le> 10 ^ 9 \<and> fg_step f < 2 ^ 62"

text \<open>C39. The offered rate: with flags that pass the check, a positive step interval and a peak of at most one request per
  nanosecond, nothing panics, and after k steps the rate is exactly the start plus k steps, cut off at the peak, with the
  ticker at the interval that belongs to it.\<close>

theorem rate_exact:
  assumes "sound_flags f" "gen_run f evs (start_gen f) = Some g"
  shows "gn_stage g \<noteq> Panicked \<and> gn_rate g = min (fg_peak f) (fg_start f + int (ramps evs) * fg_step f) \<and>
    gn_period g = 10 ^ 9 div gn_rate g \<and> 0 < gn_period g"
  using assms(2)
proof (induction evs arbitrary: g rule: rev_induct)
  case Nil
  then show ?case
    using assms(1) pace_sound[of "fg_start f"]
    by (auto simp: sound_flags_def refused_flags_def start_gen_def Let_def ramps_def split: if_splits)
next
  case (snoc ev evs)
  then obtain g1 where g1: "gen_run f evs (start_gen f) = Some g1" "gen_step f ev g1 = Some g"
    by (auto simp: gen_run_snoc bind_eq_Some_conv)
  note IH = snoc.IH[OF g1(1)]
  have f: "0 < fg_start f" "fg_start f \<le> fg_peak f" "0 < fg_step f" "fg_step f < 2 ^ 62" "fg_peak f \<le> 10 ^ 9"
    using assms(1) by (auto simp: sound_flags_def refused_flags_def split: if_splits)
  show ?case
  proof (cases ev)
    case (RampUp now)
    then have r: "ramps (evs @ [ev]) = Suc (ramps evs)" "g = ramp_up f now g1"
      using g1(2) by (auto simp: ramps_def gen_step_def split: if_splits)
    define k where "k = fg_start f + int (ramps evs) * fg_step f"
    have rate: "gn_rate g1 = min (fg_peak f) k" "0 < gn_rate g1" using IH f by (simp_all add: k_def add_pos_nonneg)
    have next_k: "fg_start f + int (ramps (evs @ [ev])) * fg_step f = k + fg_step f" by (simp add: r(1) k_def algebra_simps)
    show ?thesis
    proof (cases "gn_rate g1 < fg_peak f")
      case True
      define m where "m = min (fg_peak f) (k + fg_step f)"
      have k: "gn_rate g1 = k" using True rate by simp
      have "i64 (k + fg_step f) = k + fg_step f"
        using rate f True by (intro i64_id) (simp add: in_int64_def k)
      moreover have "(if fg_peak f < k + fg_step f then fg_peak f else k + fg_step f) = m" by (simp add: m_def)
      moreover have m: "0 < m" "m \<le> 10 ^ 9" using f rate k by (simp_all add: m_def)
      ultimately have "g = (let g = g1\<lparr>gn_rate := m, gn_period := 10 ^ 9 div m\<rparr> in
          if gn_stage g1 \<noteq> Panicked \<and> m = fg_peak f then g\<lparr>gn_atPeakSince := Some now\<rparr> else g)"
        using True unfolding r(2) ramp_up_def k by (simp only: if_True Let_def pace_sound) simp
      then show ?thesis using IH pace_sound(2)[OF m] unfolding next_k m_def[symmetric] by (cases "m = fg_peak f") (simp_all add: Let_def)
    next
      case False
      then show ?thesis using IH rate f unfolding next_k r(2) by (auto simp: ramp_up_def min_def split: if_splits)
    qed
  next
    case (Report now)
    then show ?thesis using g1(2) IH by (auto simp: ramps_def gen_step_def report_def Let_def split: if_splits option.splits)
  qed (use g1(2) IH in \<open>auto simp: ramps_def gen_step_def split: if_splits\<close>)
qed

text \<open>C40. A run that starts at its peak never ends by itself: the moment the peak is reached is only recorded when a step reaches
  it, so with equal rates the hold time is ignored, and until the process is told to stop it goes on for
  ever.\<close>

theorem start_at_peak_never_ends:
  assumes "fg_start f = fg_peak f" "gn_stage (start_gen f) = Running" "Stopped \<notin> set evs" "gen_run f evs (start_gen f) = Some g"
  shows "gn_stage g = Running \<and> gn_rate g = fg_peak f"
proof -
  have "gn_stage g = Running \<and> gn_rate g = fg_peak f \<and> gn_atPeakSince g = None"
  proof (rule gen_run_invariant[OF assms(4)])
    show "gn_stage (start_gen f) = Running \<and> gn_rate (start_gen f) = fg_peak f \<and> gn_atPeakSince (start_gen f) = None"
      using assms(1,2) by simp
  next
    fix ev g g'
    assume ev: "ev \<in> set evs" "gen_step f ev g = Some g'" and I: "gn_stage g = Running \<and> gn_rate g = fg_peak f \<and> gn_atPeakSince g = None"
    then have "ev \<noteq> Stopped" using assms(3) by blast
    then show "gn_stage g' = Running \<and> gn_rate g' = fg_peak f \<and> gn_atPeakSince g' = None"
      using ev(2) I by (cases ev) (auto simp: gen_step_def ramp_up_def report_def Let_def split: if_splits)
  qed
  then show ?thesis by simp
qed

definition demo_flags :: flags where
  "demo_flags = default_flags\<lparr>fg_target := ''http://localhost/'', fg_peak := 25\<rparr>"

theorem jobs_accounted_witness:
  "\<exists>g. gen_run demo_flags [Tick, Tick, Taken, Answered (Status 200), Report 1, Stopped, Taken, Answered NotAnswered, Drained]
      (start_gen demo_flags) = Some g \<and> gn_stage g = Finished \<and> st_sent (gn_stats g) = st_ok (gn_stats g) + st_failed (gn_stats g)"
proof -
  let ?evs = "[Tick, Tick, Taken, Answered (Status 200), Report 1, Stopped, Taken, Answered NotAnswered, Drained]"
  have "\<exists>g. gen_run demo_flags ?evs (start_gen demo_flags) = Some g \<and> gn_stage g = Finished"
    by (simp add: demo_flags_def default_flags_def start_gen_def Let_def pace_sound gen_step_def report_def)
  then obtain g where "gen_run demo_flags ?evs (start_gen demo_flags) = Some g" "gn_stage g = Finished" by blast
  with jobs_accounted show ?thesis by blast
qed

theorem rate_exact_witness:
  "\<exists>g. gen_run demo_flags [RampUp 1, Tick, RampUp 2] (start_gen demo_flags) = Some g \<and> gn_rate g = 25 \<and> gn_period g = 40000000"
proof -
  have s: "sound_flags demo_flags" by (simp add: sound_flags_def refused_flags_def demo_flags_def default_flags_def)
  obtain g where g: "gen_run demo_flags [RampUp 1, Tick, RampUp 2] (start_gen demo_flags) = Some g"
    by (simp add: demo_flags_def default_flags_def start_gen_def Let_def pace_sound gen_step_def ramp_up_def in_int64_def)
  from rate_exact[OF s g] g show ?thesis by (simp add: ramps_def demo_flags_def default_flags_def)
qed

theorem start_at_peak_never_ends_witness:
  "\<exists>g. gen_run (demo_flags\<lparr>fg_peak := 10, fg_hold := 0\<rparr>) [RampUp 1, Report (10 ^ 30)] (start_gen (demo_flags\<lparr>fg_peak := 10, fg_hold := 0\<rparr>)) = Some g \<and>
    gn_stage g = Running"
proof -
  let ?f = "demo_flags\<lparr>fg_peak := 10, fg_hold := 0\<rparr>"
  have s: "gn_stage (start_gen ?f) = Running" "fg_start ?f = fg_peak ?f"
    by (simp_all add: demo_flags_def default_flags_def start_gen_def Let_def pace_sound)
  obtain g where g: "gen_run ?f [RampUp 1, Report (10 ^ 30)] (start_gen ?f) = Some g"
    by (simp add: demo_flags_def default_flags_def start_gen_def Let_def pace_sound gen_step_def ramp_up_def)
  from start_at_peak_never_ends[OF s(2,1) _ g] g show ?thesis by simp
qed

end
