(* ===== verification/Spec2Isabelle.thy ===== *)
theory Spec2Isabelle
  imports Processes Loadgen
begin

text \<open>
  A verification development for mini-k8s, a small orchestrator without containers. A control plane keeps the desired
  state of deployments in a Redis database and places their pods on nodes; an agent on each node runs the pods as
  processes. The components share nothing but the database: keys, hashes, sets, lists, a log stream and a channel.

  \<^bold>\<open>How programs are modelled.\<close> A Go function is a function of the environment that returns a program of the state
  monad over the world. Its result is a value, or \<open>error + 'a\<close> where Go returns an error. The environment \<open>env\<close>
  (theory \<open>Redis\<close>) holds what is not in the repository: the server, the clock, random bytes, the order of map
  iteration, which calls fail and how (a lost request, a lost reply, a reply after the command was executed more than once), when the
  context is cancelled, and what other components do to the database before each call. \<open>host_env\<close> (theory \<open>Host\<close>) adds the operating system of a node,
  \<open>ingress_env\<close> the file system and the reload command, \<open>win_env\<close> the process calls of Windows. Loops are \<open>for_range\<close> over lists with
  continue, break and return as values (theory \<open>Prelude\<close>); the SCAN loop and the wait for a process may not end and are partial
  functions, whose missing result shows as the error \<open>NeverReturns\<close>. An endless loop around a \<open>select\<close> runs along a list of the choices that
  the \<open>select\<close> makes (theory \<open>Loops\<close>); the ingress controller and the load generator, whose loops share a channel with other goroutines, are state machines.
  Integers are \<open>int\<close> with the wrap-around of 64 bits written out where it can occur, \<open>float64\<close> and the numbers of Lua
  are reals with the rounding \<open>fl\<close> after every operation (theory \<open>Float64\<close>), strings are lists of bytes.

  \<^bold>\<open>Contracts.\<close> What is assumed of Redis is the locale \<open>redis_server\<close>, over the keyspace that a database state
  stands for; \<open>RedisMem\<close> interprets it on an executable server. \<open>unix_kernel\<close> and \<open>tcp_ports\<close> (processes, \<open>/proc\<close>, signals, ports) are interpreted on a
  small machine in \<open>Host\<close> and \<open>Supervisor\<close>, \<open>file_system\<close> on a disk in \<open>Ingress\<close>, \<open>task_list\<close> in \<open>Windows\<close>. \<open>guarded\<close> is a server with an
  environment whose own steps keep an invariant; \<open>cluster\<close>, \<open>host_cluster\<close> and \<open>win_cluster\<close> are its instances for the accounting of
  capacity, \<open>ingress_cluster\<close> the one for the ingress controller, \<open>queue_frame\<close> the one for the queue of a node; \<open>agent\<close> and \<open>ingress\<close> join the contracts those programs rely on.

  \<^bold>\<open>Theories and sources.\<close>
  \<^item> \<open>Prelude\<close>, \<open>GoText\<close>, \<open>Float64\<close>: control flow and the Hoare rules \<open>keeps\<close> and \<open>ensures\<close>; the parts of \<open>strconv\<close>, \<open>strings\<close>, \<open>fmt\<close> and
    the encoder of \<open>encoding/json\<close> that are used; rounding.
  \<^item> \<open>Json\<close>: the decoder of \<open>encoding/json\<close>, from bytes to the fields of a struct; what the encoder writes is read back.
  \<^item> \<open>Redis\<close>, \<open>RedisMem\<close>, \<open>Logging\<close>: \<open>internal/redisclient\<close>, \<open>internal/logging\<close>, \<open>internal/events\<close> and the command envelope of
    \<open>internal/supervisor/commands.go\<close>.
  \<^item> \<open>Schema\<close>: \<open>internal/schema\<close>. Keys are kept apart, records survive the round trip through a hash, and what is read is well typed.
  \<^item> \<open>Capacity\<close>: \<open>internal/capacity\<close>, the Lua scripts of \<open>Reserve\<close> and \<open>Release\<close>. Their exact effect, and the invariant \<open>accounting_ok\<close>: every
    capacity hash is readable and allocations lie between zero and the totals.
  \<^item> \<open>Scheduler\<close>, \<open>Replica\<close>, \<open>Health\<close>, \<open>Autoscale\<close>: the controllers of \<open>internal/scheduler\<close> and \<open>internal/controller\<close>. Each
    operation has its exact effect in an undisturbed run, on every branch that the source has, and keeps the accounting in any run. The
    autoscaler's script in floating point refines an integer rule.
  \<^item> \<open>Api\<close>, \<open>ApiServer\<close>, \<open>Dashboard\<close>, \<open>Routes\<close>: \<open>internal/api\<close>. Validation accepts exactly the stated requests; storing, scaling and the handlers; the
    snapshot and the log window of the dashboard; the multiplexer and the decoding of bodies, from the bytes of a request to its handler.
  \<^item> \<open>Node\<close>, \<open>Host\<close>, \<open>Supervisor\<close>, \<open>PodHealth\<close>, \<open>Telemetry\<close>, \<open>Reconcile\<close>, \<open>Agent\<close>: \<open>internal/node\<close>, \<open>internal/supervisor\<close> and
    \<open>cmd/node-agent\<close>. Registration; the identity of processes; starting, stopping and probing pods, where a check refines an abstract
    probe; CPU samples; what an agent does when it starts; and that every queued command is carried out in its turn.
  \<^item> \<open>Loops\<close>: the loops of the controllers, of the agents and of the event stream, and the watcher of the ingress, which loses no change.
  \<^item> \<open>Processes\<close>: \<open>cmd/api-server\<close>, \<open>cmd/node-agent\<close> and \<open>cmd/dashboard\<close> with the goroutines they start.
  \<^item> \<open>Loadgen\<close>: \<open>cmd/loadgen\<close>. Every job is accounted for, and the rate is exactly what the flags say.
  \<^item> \<open>Duration\<close>, \<open>ConfigLoad\<close>: \<open>internal/config\<close> with the parser for durations of the standard library, and the settings and messages of \<open>cmd/api-server\<close>. A
    configuration that is written into the environment is read back exactly.
  \<^item> \<open>Windows\<close>: the Windows variants of the supervisor.
  \<^item> \<open>Ingress\<close>: \<open>internal/ingress\<close>. The file always holds the whole text of some rebuild, the text is the one for the serving pods, and
    a burst of changes causes one rebuild.
  \<^item> This theory: the composition. \<open>cluster_step\<close> is a run of any loop of the control plane or of an agent, a request or a program on the
    shared database, with everything the others do meanwhile as interference; no sequence of steps oversubscribes a node.

  \<^bold>\<open>Bounds and hypotheses.\<close> Theorems named \<open>_exact\<close> speak of undisturbed runs (\<open>quiet\<close>, \<open>calm\<close>: no fault, no interference, no
  cancellation); those named \<open>_safe\<close> of any run. Capacities are at most \<open>2\<^sup>5\<^sup>2\<close>, which Lua's numbers hold exactly. There is no fuel: \<open>ScanKeys\<close>
  returns because the server's cursor comes back to zero, which is part of the contract, and the wait for a process
  returns on every clock that advances (\<open>terminate_returns\<close>). Where results are counted per key, SCAN is assumed to report a key once.

  \<^bold>\<open>Not modelled.\<close> The writing to standard output, whose lines are functions of what is logged; the connection pool of go-redis and its closing; the
  intervals between the ticks of a loop, any of which may pass; the writing of HTTP responses and the requests that \<open>net/http\<close> itself refuses; the
  order that \<open>sort.Slice\<close> gives to equal elements; floats that are not finite and conversions of floats beyond 64 bits; the text of JSON
  errors, which is a parameter; on Windows the command consumer and the health checker, which are the code of the other platforms around the
  Windows \<open>Spawn\<close> and \<open>Stop\<close>; the example workload, which hashes bytes and counts requests. \<open>Register\<close> is not a step of the cluster: a node
  that comes back with smaller totals than its pods occupy records more than it has, by design.
\<close>


section \<open>The cluster\<close>

text \<open>
  One step of the shared database: a loop of the control plane, of an agent or of an agent on Windows over any number of
  rounds, a request to the API with whatever method, path and body it has, or one of the programs. A loop along a longer list of choices
  goes through the states of the shorter ones, so every state between two rounds is reached. The steps of different
  processes overlap: what the others do while one is under way is the \<open>interfere\<close> of its environment. Only the database is shared;
  the clock, the processes and the files belong to a step.
\<close>

inductive cluster_step ::
  "('db, 'os, 'e) host_env_scheme \<Rightarrow> ('db, 'fs, 'f) ingress_env_scheme \<Rightarrow> ('db, 'win, 'v) win_env_scheme \<Rightarrow> Logger \<Rightarrow> 'db \<Rightarrow> 'db \<Rightarrow> bool"
  for E F W l
where
  control: "run_state (control_activity E l refusal conf a) (w :: ('db, 'os) host_world) = (r, w') \<Longrightarrow> cluster_step E F W l (db w) (db w')"
| ingress_controller: "watched_run F refusal c (w :: ('db, 'fs) host_world) evs st ph w' \<Longrightarrow> cluster_step E F W l (db w) (db w')"
| request: "run_state (serve E l refusal asset (\<lambda>_ _. State_Monad.return ()) (\<lambda>_. State_Monad.return outcome) choices rq)
      (w :: ('db, 'os) host_world) = (p, w') \<Longrightarrow> cluster_step E F W l (db w) (db w')"
| control_plane: "run_state (run_api_server E getenv h finish) (w :: ('db, 'os) host_world) = (v, w') \<Longrightarrow> cluster_step E F W l (db w) (db w')"
| dashboard: "run_state (main_dashboard E getenv h) (w :: ('db, 'os) host_world) = (v, w') \<Longrightarrow> cluster_step E F W l (db w) (db w')"
| agent_startup: "run_state (ReconcileOnStartup E s) (w :: ('db, 'os) host_world) = (rep, w') \<Longrightarrow> cluster_step E F W l (db w) (db w')"
| agent_loop: "run_state (agent_activity E l refusal acfg reg s a) (w :: ('db, 'os) host_world) = (v, w') \<Longrightarrow> cluster_step E F W l (db w) (db w')"
| agent_shutdown: "run_state (agent_stop E l acfg reg) (w :: ('db, 'os) host_world) = (v, w') \<Longrightarrow> cluster_step E F W l (db w) (db w')"
| windows_startup: "run_state (ReconcileOnStartup_win W s) (w :: ('db, 'win) host_world) = (rep', w') \<Longrightarrow> cluster_step E F W l (db w) (db w')"
| windows_telemetry: "run_state (RunTelemetryCollector_win W s interval choices) (w :: ('db, 'win) host_world) = (x, w') \<Longrightarrow>
    cluster_step E F W l (db w) (db w')"
| windows_lease: "run_state (RunHeartbeatLoop W l reg choices) (w :: ('db, 'win) host_world) = (y, w') \<Longrightarrow> cluster_step E F W l (db w) (db w')"

lemma step_kept:
  assumes "guarded R view E I" "keeps (guarded.J view I) m" "run_state m w = (r, w')" "I (view (db w))"
  shows "I (view (db w'))"
  using keepsE[OF assms(2) _ assms(3)] assms(4) by (simp add: guarded.J_def[OF assms(1)])

lemma cluster_step_keeps:
  assumes E: "guarded (server E) view E accounting_ok" and F: "guarded (server F) view F accounting_ok"
    and W: "guarded (server W) view W accounting_ok"
    and "cluster_step E F W l d d'" "accounting_ok (view d)"
  shows "accounting_ok (view d')"
proof -
  have e: "host_cluster (server E) view E" and f: "ingress_cluster (server F) view F" and w: "win_cluster (server W) view W"
    using assms(1-3) by (simp_all add: host_cluster_def cluster_def ingress_cluster_def win_cluster_def)
  note ec = host_cluster.axioms[OF e] and wc = host_cluster.axioms[OF win_cluster.axioms[OF w]]
  show ?thesis
    using assms(4)
  proof (cases rule: cluster_step.cases)
    case (control refusal conf a w r w')
    show ?thesis using step_kept[OF E cluster.keeps_control[OF ec] control(3)] assms(5) control(1,2) by simp
  next
    case (ingress_controller refusal c w evs st ph w')
    then show ?thesis
      using ingress_cluster.watched_run_keeps[OF f ingress_controller(3)] assms(5) by (simp add: guarded.J_def[OF F])
  next
    case (request refusal asset outcome choices rq w p w')
    have "keeps (guarded.J view accounting_ok) (serve E l refusal asset (\<lambda>_ _. State_Monad.return ()) (\<lambda>_. State_Monad.return outcome) choices rq ::
        (('a, 'b) host_world, reply) state)"
      by (rule cluster.keeps_serve[OF ec]) simp_all
    from step_kept[OF E this request(3)] show ?thesis using assms(5) request(1,2) by simp
  next
    case (control_plane getenv h finish w v w')
    show ?thesis using step_kept[OF E cluster.keeps_programs(1)[OF ec] control_plane(3)] assms(5) control_plane(1,2) by simp
  next
    case (dashboard getenv h w v w')
    show ?thesis using step_kept[OF E cluster.keeps_programs(2)[OF ec] dashboard(3)] assms(5) dashboard(1,2) by simp
  next
    case (agent_startup s w rep w')
    show ?thesis using step_kept[OF E host_cluster.keeps_ReconcileOnStartup[OF e] agent_startup(3)] assms(5) agent_startup(1,2) by simp
  next
    case (agent_loop refusal acfg reg s a w v w')
    show ?thesis using step_kept[OF E host_cluster.keeps_agent_activity[OF e] agent_loop(3)] assms(5) agent_loop(1,2) by simp
  next
    case (agent_shutdown acfg reg w v w')
    show ?thesis using step_kept[OF E cluster.keeps_agent_stop[OF ec] agent_shutdown(3)] assms(5) agent_shutdown(1,2) by simp
  next
    case (windows_startup s w rep' w')
    show ?thesis using step_kept[OF W win_cluster.keeps_startup_win[OF w] windows_startup(3)] assms(5) windows_startup(1,2) by simp
  next
    case (windows_telemetry s interval choices w x w')
    show ?thesis using step_kept[OF W cluster.keeps_telemetry_loop_win[OF wc] windows_telemetry(3)] assms(5) windows_telemetry(1,2) by simp
  next
    case (windows_lease reg choices w y w')
    show ?thesis using step_kept[OF W cluster.keeps_loops(6)[OF wc] windows_lease(3)] assms(5) windows_lease(1,2) by simp
  qed
qed




section \<open>Names across components\<close>

lemma upstreamName_inject:
  assumes "CHR ''_'' \<notin> set a" "CHR ''_'' \<notin> set b"
  shows "upstreamName a = upstreamName b \<longleftrightarrow> a = b"
proof -
  have "inj_on (\<lambda>c. if c = CHR ''-'' then CHR ''_'' else c) (set a \<union> set b)" using assms by (auto simp: inj_on_def)
  then show ?thesis by (simp add: upstreamName_def inj_on_map_eq_map)
qed

text \<open>Deployments that validation lets through get different upstreams: replacing hyphens by underscores in the name
  merges no two of them.\<close>

theorem accepted_upstreams_differ:
  assumes "Validate r = None" "Validate r' = None"
  shows "upstreamName (TrimSpace (rq_Name r)) = upstreamName (TrimSpace (rq_Name r')) \<longleftrightarrow> TrimSpace (rq_Name r) = TrimSpace (rq_Name r')"
proof (rule upstreamName_inject)
  have "CHR ''_'' \<notin> set (TrimSpace (rq_Name q))" if "Validate q = None" for q
    using that pattern_chars[of "TrimSpace (rq_Name q)" "CHR ''_''"] by (auto simp: Validate_iff valid_request_def label_char_def)
  then show "CHR ''_'' \<notin> set (TrimSpace (rq_Name r))" "CHR ''_'' \<notin> set (TrimSpace (rq_Name r'))" using assms by blast+
qed

theorem accepted_upstreams_differ_witness:
  "upstreamName ''web'' \<noteq> upstreamName ''web-2''"
  using accepted_upstreams_differ[OF demo_request_valid web2_valid(1)] demo_request_name web2_valid(2) by simp

end
